(* ===== verification/Prelude.thy ===== *)
theory Prelude
  imports Main "HOL-Library.Word" "HOL-Library.Signed_Division"
begin

text \<open>
  The shared vocabulary of the development.

  A C++ routine that may abort is a function into \<open>fault + 'a\<close>: \<open>Inl\<close> is the way the
  process dies, \<open>Inr\<close> the value it returns. \<open>bindE\<close> sequences two such routines, \<open>assertE\<close>
  is the \<^verbatim>\<open>ASSERT\<close> macro of lib/debug.h, and \<open>aget\<close>/\<open>aset\<close> read and write a C array that is
  held as a list, with an access outside the array as a fault of its own. The collection
  \<open>result_simps\<close> evaluates these combinators, \<open>result_iffs\<close> takes a successful run apart.
\<close>

named_theorems result_simps
named_theorems result_iffs

section \<open>Ways a routine can fail\<close>

datatype fault =
    AssertFailed   \<comment> \<open>\<open>ASSERT\<close>, \<open>ASSERTNOTREACHED\<close>: \<open>Abort()\<close>\<close>
  | BadAccess      \<comment> \<open>a null pointer or an index outside an array\<close>
  | BadAlloc       \<comment> \<open>\<open>new T[n]\<close> with a negative \<open>n\<close>\<close>
  | ArithTrap      \<comment> \<open>the host's division trap, INT_MIN / -1\<close>

type_synonym 'a result = "fault + 'a"
type_synonym cint = "32 word"      \<comment> \<open>\<open>int\<close> and \<open>unsigned int\<close> of the 32-bit build\<close>
type_synonym byte = "8 word"       \<comment> \<open>\<open>char\<close>\<close>

definition bindE :: "'a result \<Rightarrow> ('a \<Rightarrow> 'b result) \<Rightarrow> 'b result" where
  "bindE m f = (case m of Inl e \<Rightarrow> Inl e | Inr x \<Rightarrow> f x)"

definition assertE :: "bool \<Rightarrow> 'a result \<Rightarrow> 'a result" where
  "assertE c k = (if c then k else Inl AssertFailed)"

definition aget :: "'a list \<Rightarrow> int \<Rightarrow> 'a result" where
  "aget xs i = (if 0 \<le> i \<and> i < int (length xs) then Inr (xs ! nat i) else Inl BadAccess)"

definition aset :: "'a list \<Rightarrow> int \<Rightarrow> 'a \<Rightarrow> ('a list) result" where
  "aset xs i v = (if 0 \<le> i \<and> i < int (length xs) then Inr (xs[nat i := v]) else Inl BadAccess)"

lemma bindE_Inr [simp, result_simps]: "bindE (Inr x) f = f x"
  by (simp add: bindE_def)

lemma bindE_Inl [simp, result_simps]: "bindE (Inl e) f = Inl e"
  by (simp add: bindE_def)

lemma bindE_assoc: "bindE (bindE m f) g = bindE m (\<lambda>x. bindE (f x) g)"
  by (cases m) simp_all

lemma bindE_eq_Inr [result_iffs]: "bindE m f = Inr y \<longleftrightarrow> (\<exists>x. m = Inr x \<and> f x = Inr y)"
  by (cases m) simp_all

lemma bindE_eq_Inl: "bindE m f = Inl e \<longleftrightarrow> m = Inl e \<or> (\<exists>x. m = Inr x \<and> f x = Inl e)"
  by (cases m) simp_all

lemma assertE_True [simp, result_simps]: "c \<Longrightarrow> assertE c k = k"
  by (simp add: assertE_def)

lemma assertE_False [simp, result_simps]: "\<not> c \<Longrightarrow> assertE c k = Inl AssertFailed"
  by (simp add: assertE_def)

lemma assertE_eq_Inr [result_iffs]: "assertE c k = Inr y \<longleftrightarrow> c \<and> k = Inr y"
  by (simp add: assertE_def)

lemma aget_in [simp]: "0 \<le> i \<Longrightarrow> i < int (length xs) \<Longrightarrow> aget xs i = Inr (xs ! nat i)"
  by (simp add: aget_def)

lemma aget_nat [simp]: "n < length xs \<Longrightarrow> aget xs (int n) = Inr (xs ! n)"
  by simp

lemma aget_eq_Inr [result_iffs]:
  "aget xs i = Inr v \<longleftrightarrow> 0 \<le> i \<and> i < int (length xs) \<and> v = xs ! nat i"
  by (auto simp: aget_def)

lemma aset_in [simp]: "0 \<le> i \<Longrightarrow> i < int (length xs) \<Longrightarrow> aset xs i v = Inr (xs[nat i := v])"
  by (simp add: aset_def)

lemma aset_eq_Inr [result_iffs]:
  "aset xs i v = Inr ys \<longleftrightarrow> 0 \<le> i \<and> i < int (length xs) \<and> ys = xs[nat i := v]"
  by (auto simp: aset_def)

section \<open>C arithmetic\<close>

text \<open>
  \<^verbatim>\<open>divRoundDown\<close> and \<^verbatim>\<open>divRoundUp\<close> of lib/utility.h are macros over C's \<open>/\<close> and \<open>%\<close>, which
  truncate towards zero: \<open>sdiv\<close> and \<open>smod\<close> on \<open>int\<close>.
\<close>

definition divRoundDown :: "int \<Rightarrow> int \<Rightarrow> int" where
  "divRoundDown n s = n sdiv s"

definition divRoundUp :: "int \<Rightarrow> int \<Rightarrow> int" where
  "divRoundUp n s = n sdiv s + (if n smod s > 0 then 1 else 0)"

lemma sdiv_nonneg: "0 \<le> n \<Longrightarrow> 0 < s \<Longrightarrow> n sdiv s = n div s" for n s :: int
  by (simp add: signed_divide_int_def sgn_if)

lemma smod_nonneg: "0 \<le> n \<Longrightarrow> 0 < s \<Longrightarrow> n smod s = n mod s" for n s :: int
  by (cases "n = 0") (simp_all add: signed_modulo_int_def sgn_if)

lemma divRoundUp_bounds:
  assumes "0 \<le> n" and "0 < s"
  shows "n \<le> divRoundUp n s * s" and "divRoundUp n s * s < n + s"
proof -
  have n: "n div s * s + n mod s = n" by simp
  have m: "0 \<le> n mod s" "n mod s < s" using assms by simp_all
  have eq: "divRoundUp n s * s = n div s * s + (if 0 < n mod s then s else 0)"
    using assms by (simp add: divRoundUp_def sdiv_nonneg smod_nonneg distrib_right)
  show "n \<le> divRoundUp n s * s" unfolding eq using n m by (cases "0 < n mod s"; simp only: if_True if_False; linarith)
  show "divRoundUp n s * s < n + s" unfolding eq using n m assms(2) by (cases "0 < n mod s"; simp only: if_True if_False; linarith)
qed

lemma divRoundUp_nonneg: "0 \<le> n \<Longrightarrow> 0 < s \<Longrightarrow> 0 \<le> divRoundUp n s"
  by (simp add: divRoundUp_def sdiv_nonneg smod_nonneg pos_imp_zdiv_nonneg_iff)

lemma interval_snoc: "0 \<le> i \<Longrightarrow> {0..<i + 1} = insert i {0..<i}" for i :: int
  by auto

lemma word_nonzero_iff: "w \<noteq> 0 \<longleftrightarrow> (\<exists>n. bit w n)" for w :: "'a::len word"
  by (metis bit_0_eq bit_eqI bot_apply bot_bool_def)

section \<open>Counting loops\<close>

text \<open>
  \<open>for_loop lo hi body s\<close> is \<^verbatim>\<open>for (i = lo; i < hi; i++) body\<close> on the state \<open>s\<close>;
  \<open>searchE p lo hi\<close> is \<^verbatim>\<open>for (i = lo; i < hi; i++) if (p(i)) return i; return -1;\<close>.
\<close>

function for_loop :: "int \<Rightarrow> int \<Rightarrow> (int \<Rightarrow> 's \<Rightarrow> 's result) \<Rightarrow> 's \<Rightarrow> 's result" where
  "for_loop lo hi body s =
     (if lo < hi then bindE (body lo s) (for_loop (lo + 1) hi body) else Inr s)"
  by pat_completeness auto
termination
  by (relation "measure (\<lambda>(lo, hi, _, _). nat (hi - lo))") auto

function searchE :: "(int \<Rightarrow> bool result) \<Rightarrow> int \<Rightarrow> int \<Rightarrow> int result" where
  "searchE p lo hi =
     (if lo < hi then bindE (p lo) (\<lambda>c. if c then Inr lo else searchE p (lo + 1) hi)
      else Inr (-1))"
  by pat_completeness auto
termination
  by (relation "measure (\<lambda>(_, lo, hi). nat (hi - lo))") auto

declare for_loop.simps [simp del] searchE.simps [simp del]

lemma for_loop_done [simp]: "hi \<le> lo \<Longrightarrow> for_loop lo hi body s = Inr s"
  by (subst for_loop.simps) simp

lemma for_loop_step: "lo < hi \<Longrightarrow>
    for_loop lo hi body s = bindE (body lo s) (for_loop (lo + 1) hi body)"
  by (subst for_loop.simps) simp

text \<open>The loop rule for total correctness: the body never fails and keeps the invariant.\<close>

lemma for_loop_rule:
  assumes "lo \<le> hi" and "I lo s"
    and "\<And>i t. lo \<le> i \<Longrightarrow> i < hi \<Longrightarrow> I i t \<Longrightarrow> \<exists>t'. body i t = Inr t' \<and> I (i + 1) t'"
  shows "\<exists>t. for_loop lo hi body s = Inr t \<and> I hi t"
  using assms
proof (induction lo hi body s rule: for_loop.induct)
  case (1 lo hi body s)
  show ?case
  proof (cases "lo < hi")
    case True
    with "1.prems" obtain t where t: "body lo s = Inr t" "I (lo + 1) t" by blast
    have "\<exists>t'. for_loop (lo + 1) hi body t = Inr t' \<and> I hi t'"
      by (rule "1.IH" [OF True]) (use True t "1.prems" in auto)
    with True t show ?thesis by (simp add: for_loop_step)
  qed (use "1.prems" in auto)
qed

text \<open>A search either finds the first index that satisfies the predicate or returns -1.\<close>

lemma searchE_pure:
  assumes "\<And>i. lo \<le> i \<Longrightarrow> i < hi \<Longrightarrow> p i = Inr (q i)"
  shows "(\<exists>i. searchE p lo hi = Inr i \<and> lo \<le> i \<and> i < hi \<and> q i \<and> (\<forall>j. lo \<le> j \<and> j < i \<longrightarrow> \<not> q j))
    \<or> searchE p lo hi = Inr (-1) \<and> (\<forall>j. lo \<le> j \<and> j < hi \<longrightarrow> \<not> q j)"
  using assms
proof (induction p lo hi rule: searchE.induct)
  case (1 p lo hi)
  show ?case
  proof (cases "lo < hi \<and> \<not> q lo")
    case True
    then have p: "p lo = Inr False" using "1.prems" [of lo] by simp
    have step: "searchE p lo hi = searchE p (lo + 1) hi"
      using True p by (subst searchE.simps) simp
    have cov: "lo < j \<Longrightarrow> lo + 1 \<le> j" for j :: int by simp
    have first: "(\<forall>j. lo \<le> j \<and> j < i \<longrightarrow> \<not> q j) \<longleftrightarrow> (\<forall>j. lo + 1 \<le> j \<and> j < i \<longrightarrow> \<not> q j)" for i
      using True cov by (metis add1_zle_eq dual_order.strict_iff_order zless_imp_add1_zle)
    show ?thesis
      unfolding step first using "1.IH" [of False] "1.prems" True
      by (smt (verit))
  next
    case False
    then show ?thesis
      using "1.prems" [of lo] by (subst (1 2) searchE.simps) auto
  qed
qed

lemma searchE_found:
  assumes "\<And>i. lo \<le> i \<Longrightarrow> i < hi \<Longrightarrow> p i = Inr (q i)" and "lo \<le> k" "k < hi" "q k" and "0 \<le> lo"
  shows "\<exists>i. searchE p lo hi = Inr i \<and> lo \<le> i \<and> i \<le> k \<and> q i \<and> (\<forall>j. lo \<le> j \<and> j < i \<longrightarrow> \<not> q j)"
  using searchE_pure [of lo hi p q, OF assms(1)] assms(2-)
  by (smt (verit))

lemma searchE_none:
  assumes "\<And>i. lo \<le> i \<Longrightarrow> i < hi \<Longrightarrow> p i = Inr False"
  shows "searchE p lo hi = Inr (-1)"
  using searchE_pure [of lo hi p "\<lambda>_. False", OF assms] by simp

lemma searchE_cong:
  assumes "\<And>i. lo \<le> i \<Longrightarrow> i < hi \<Longrightarrow> p i = q i"
  shows "searchE p lo hi = searchE q lo hi"
  using assms
proof (induction p lo hi rule: searchE.induct)
  case (1 p lo hi)
  show ?case
  proof (cases "lo < hi")
    case True
    have "searchE p (lo + 1) hi = searchE q (lo + 1) hi"
      by (rule "1.IH" [of False]) (use True "1.prems" in auto)
    then show ?thesis
      using True "1.prems" [of lo] by (subst (1 2) searchE.simps) (simp cong: if_cong)
  qed (simp add: searchE.simps [of p] searchE.simps [of q])
qed

end
