(* ===== verification/Bitmap.thy ===== *)
theory Bitmap
  imports Prelude
begin

unbundle bit_operations_syntax

text \<open>
  lib/bitmap.h and lib/bitmap.cc: an array of bits kept in an array of 32-bit words. The
  bitmap allocates physical pages (userprog/addrspace.cc) and disk sectors (filesys/).

  \<open>marked b\<close> is the set of the bits that are on. The lemmas show that every operation on the
  words is the operation on that set, that no assertion of the class can fail for an index in
  range, and that \<open>FindAndSet\<close> hands out the lowest clear bit. The locale \<open>slot_allocator\<close>
  is what the clients rely on; its lemmas about repeated allocation are proved once and reach
  the bitmap through the interpretation \<open>bitmap_alloc\<close>.
\<close>

section \<open>The class Bitmap\<close>

record Bitmap =
  numBits :: int
  numWords :: int
  words :: "cint list"     \<comment> \<open>the field \<open>map\<close>\<close>

definition BitsInByte :: int where
  "BitsInByte = 8"

definition BitsInWord :: int where
  "BitsInWord = 4 * BitsInByte"

definition bit_mask :: "int \<Rightarrow> cint" where
  "bit_mask which = push_bit (nat (which mod BitsInWord)) 1"

definition Bitmap_Test :: "Bitmap \<Rightarrow> int \<Rightarrow> bool result" where
  "Bitmap_Test b which =
     assertE (which \<ge> 0 \<and> which < numBits b)
       (bindE (aget (words b) (which div BitsInWord)) (\<lambda>w.
        Inr (w AND bit_mask which \<noteq> 0)))"

definition Bitmap_Mark :: "Bitmap \<Rightarrow> int \<Rightarrow> Bitmap result" where
  "Bitmap_Mark b which =
     assertE (which \<ge> 0 \<and> which < numBits b)
       (bindE (aget (words b) (which div BitsInWord)) (\<lambda>w.
        bindE (aset (words b) (which div BitsInWord) (w OR bit_mask which)) (\<lambda>ws.
        let b' = b\<lparr>words := ws\<rparr> in
        bindE (Bitmap_Test b' which) (\<lambda>t. assertE t (Inr b')))))"

definition Bitmap_Clear :: "Bitmap \<Rightarrow> int \<Rightarrow> Bitmap result" where
  "Bitmap_Clear b which =
     assertE (which \<ge> 0 \<and> which < numBits b)
       (bindE (aget (words b) (which div BitsInWord)) (\<lambda>w.
        bindE (aset (words b) (which div BitsInWord) (w AND NOT (bit_mask which))) (\<lambda>ws.
        let b' = b\<lparr>words := ws\<rparr> in
        bindE (Bitmap_Test b' which) (\<lambda>t. assertE (\<not> t) (Inr b')))))"

definition Bitmap_init :: "int \<Rightarrow> Bitmap result" where
  "Bitmap_init numItems =
     assertE (numItems > 0)
       (let n = divRoundUp numItems BitsInWord;
            b = \<lparr>numBits = numItems, numWords = n, words = replicate (nat n) 0\<rparr>
        in for_loop 0 (numBits b) (\<lambda>i b. Bitmap_Clear b i) b)"

definition Bitmap_FindAndSet :: "Bitmap \<Rightarrow> (int \<times> Bitmap) result" where
  "Bitmap_FindAndSet b =
     bindE (searchE (\<lambda>i. bindE (Bitmap_Test b i) (\<lambda>t. Inr (\<not> t))) 0 (numBits b)) (\<lambda>i.
       if i = -1 then Inr (-1, b)
       else bindE (Bitmap_Mark b i) (\<lambda>b'. Inr (i, b')))"

definition Bitmap_NumClear :: "Bitmap \<Rightarrow> int result" where
  "Bitmap_NumClear b =
     for_loop 0 (numBits b)
       (\<lambda>i count. bindE (Bitmap_Test b i) (\<lambda>t. Inr (if \<not> t then count + 1 else count))) 0"

definition Bitmap_Print :: "Bitmap \<Rightarrow> (int list) result" where
  "Bitmap_Print b =
     for_loop 0 (numBits b)
       (\<lambda>i out. bindE (Bitmap_Test b i) (\<lambda>t. Inr (if t then out @ [i] else out))) []"

definition Bitmap_SelfTest :: "Bitmap \<Rightarrow> Bitmap result" where
  "Bitmap_SelfTest b0 =
     assertE (numBits b0 \<ge> BitsInWord)
      (bindE (Bitmap_NumClear b0) (\<lambda>n. assertE (n = numBits b0)
      (bindE (Bitmap_FindAndSet b0) (\<lambda>(i, b1). assertE (i = 0)
      (bindE (Bitmap_Mark b1 31) (\<lambda>b2.
       bindE (Bitmap_Test b2 0) (\<lambda>t0. bindE (Bitmap_Test b2 31) (\<lambda>t31. assertE (t0 \<and> t31)
      (bindE (Bitmap_FindAndSet b2) (\<lambda>(j, b3). assertE (j = 1)
      (bindE (Bitmap_Clear b3 0) (\<lambda>b4. bindE (Bitmap_Clear b4 1) (\<lambda>b5.
       bindE (Bitmap_Clear b5 31) (\<lambda>b6.
       bindE (for_loop 0 (numBits b6) (\<lambda>i b. Bitmap_Mark b i) b6) (\<lambda>b7.
       bindE (Bitmap_FindAndSet b7) (\<lambda>(k, b8). assertE (k = -1)
         (for_loop 0 (numBits b8) (\<lambda>i b. Bitmap_Clear b i) b8)))))))))))))))))"

section \<open>Well-formed bitmaps and the set of marked bits\<close>

definition wf_Bitmap :: "Bitmap \<Rightarrow> bool" where
  "wf_Bitmap b \<longleftrightarrow> 0 < numBits b \<and> numWords b = divRoundUp (numBits b) BitsInWord \<and>
     int (length (words b)) = numWords b"

definition is_marked :: "Bitmap \<Rightarrow> int \<Rightarrow> bool" where
  "is_marked b i \<longleftrightarrow> bit (words b ! nat (i div BitsInWord)) (nat (i mod BitsInWord))"

definition marked :: "Bitmap \<Rightarrow> int set" where
  "marked b = {i. 0 \<le> i \<and> i < numBits b \<and> is_marked b i}"

lemma BitsInWord_32 [simp]: "BitsInWord = 32"
  by (simp add: BitsInWord_def BitsInByte_def)

lemma word_index:
  assumes "wf_Bitmap b" and "0 \<le> i" and "i < numBits b"
  shows "0 \<le> i div 32" and "i div 32 < int (length (words b))"
    and "nat (i div 32) < length (words b)"
proof -
  have "i div 32 * 32 \<le> i" by simp
  moreover have "numBits b \<le> int (length (words b)) * 32"
    using assms(1) divRoundUp_bounds(1) [of "numBits b" 32] by (simp add: wf_Bitmap_def)
  ultimately have "i div 32 * 32 < int (length (words b)) * 32" using assms(3) by linarith
  then show "i div 32 < int (length (words b))" by simp
  then show "0 \<le> i div 32" and "nat (i div 32) < length (words b)"
    using assms(2) by (simp_all add: nat_less_iff)
qed

lemma bit_mask_iff: "bit (bit_mask i) n \<longleftrightarrow> n = nat (i mod 32)"
proof -
  have "nat (i mod 32) < 32" by (simp add: nat_less_iff)
  then show ?thesis by (auto simp: bit_mask_def bit_simps)
qed

lemma and_bit_mask_nonzero: "w AND bit_mask i \<noteq> 0 \<longleftrightarrow> bit w (nat (i mod 32))"
proof -
  have "w AND bit_mask i \<noteq> 0 \<longleftrightarrow> (\<exists>n. bit (w AND bit_mask i) n)"
    by (rule word_nonzero_iff)
  then show ?thesis by (simp add: bit_and_iff bit_mask_iff)
qed

lemma same_word_same_bit:
  "0 \<le> i \<Longrightarrow> 0 \<le> j \<Longrightarrow> nat (i div 32) = nat (j div 32) \<Longrightarrow>
   nat (i mod 32) = nat (j mod 32) \<longleftrightarrow> i = j" for i j :: int
  by (metis div_mult_mod_eq eq_nat_nat_iff pos_imp_zdiv_nonneg_iff pos_mod_sign zero_less_numeral)


lemma is_marked_update:
  assumes "wf_Bitmap b" and "0 \<le> i" "i < numBits b"
  shows "is_marked (b\<lparr>words := (words b)[nat (i div 32) := w]\<rparr>) j \<longleftrightarrow>
    (if nat (j div 32) = nat (i div 32) then bit w (nat (j mod 32)) else is_marked b j)"
  using word_index(3) [OF assms] by (auto simp: is_marked_def)

lemma wf_words_update: "wf_Bitmap b \<Longrightarrow> wf_Bitmap (b\<lparr>words := (words b)[k := w]\<rparr>)"
  by (simp add: wf_Bitmap_def)

section \<open>The operations on the set of marked bits\<close>

lemma Test_in_range:
  assumes "wf_Bitmap b" and "0 \<le> i" "i < numBits b"
  shows "Bitmap_Test b i = Inr (i \<in> marked b)"
  using assms word_index [OF assms]
  by (simp add: Bitmap_Test_def and_bit_mask_nonzero is_marked_def marked_def)

lemma Mark_in_range:
  assumes "wf_Bitmap b" and "0 \<le> i" "i < numBits b"
  shows "\<exists>b'. Bitmap_Mark b i = Inr b' \<and> wf_Bitmap b' \<and> numBits b' = numBits b \<and>
    marked b' = insert i (marked b)"
proof -
  let ?k = "nat (i div 32)"
  let ?b = "b\<lparr>words := (words b)[?k := words b ! ?k OR bit_mask i]\<rparr>"
  have m: "is_marked ?b j \<longleftrightarrow> j = i \<or> is_marked b j" if "0 \<le> j" for j
    unfolding is_marked_update [OF assms]
    using same_word_same_bit [OF that assms(2)]
    by (auto simp: bit_or_iff bit_mask_iff is_marked_def)
  have wf: "wf_Bitmap ?b" by (rule wf_words_update [OF assms(1)])
  have marked: "marked ?b = insert i (marked b)"
    using m assms by (auto simp: marked_def)
  have "Bitmap_Test ?b i = Inr True"
    using Test_in_range [OF wf assms(2)] assms(3) marked by simp
  then have "Bitmap_Mark b i = Inr ?b"
    using assms word_index [OF assms] by (simp add: Bitmap_Mark_def Let_def)
  then show ?thesis using wf marked by simp
qed

lemma Clear_in_range:
  assumes "wf_Bitmap b" and "0 \<le> i" "i < numBits b"
  shows "\<exists>b'. Bitmap_Clear b i = Inr b' \<and> wf_Bitmap b' \<and> numBits b' = numBits b \<and>
    marked b' = marked b - {i}"
proof -
  let ?k = "nat (i div 32)"
  let ?b = "b\<lparr>words := (words b)[?k := words b ! ?k AND NOT (bit_mask i)]\<rparr>"
  have lt: "nat (j mod 32) < 32" for j :: int by (simp add: nat_less_iff)
  have m: "is_marked ?b j \<longleftrightarrow> j \<noteq> i \<and> is_marked b j" if "0 \<le> j" for j
    unfolding is_marked_update [OF assms]
    using same_word_same_bit [OF that assms(2)] lt [of j]
    by (auto simp: bit_and_iff bit_not_iff bit_mask_iff is_marked_def)
  have wf: "wf_Bitmap ?b" by (rule wf_words_update [OF assms(1)])
  have marked: "marked ?b = marked b - {i}"
    using m assms by (auto simp: marked_def)
  have "Bitmap_Test ?b i = Inr False"
    using Test_in_range [OF wf assms(2)] assms(3) marked by simp
  then have "Bitmap_Clear b i = Inr ?b"
    using assms word_index [OF assms] by (simp add: Bitmap_Clear_def Let_def)
  then show ?thesis using wf marked by simp
qed

lemma out_of_range_aborts:
  assumes "\<not> (0 \<le> i \<and> i < numBits b)"
  shows "Bitmap_Test b i = Inl AssertFailed" and "Bitmap_Mark b i = Inl AssertFailed"
    and "Bitmap_Clear b i = Inl AssertFailed"
  using assms by (auto simp: Bitmap_Test_def Bitmap_Mark_def Bitmap_Clear_def assertE_def)

lemma marked_subset: "marked b \<subseteq> {0..<numBits b}"
  by (auto simp: marked_def)

lemma finite_marked [simp]: "finite (marked b)"
  using marked_subset by (rule finite_subset) simp

lemma Mark_range_loop:
  assumes "wf_Bitmap b"
  shows "\<exists>b'. for_loop 0 (numBits b) (\<lambda>i b. Bitmap_Mark b i) b = Inr b' \<and>
    wf_Bitmap b' \<and> numBits b' = numBits b \<and> marked b' = {0..<numBits b}"
proof -
  let ?I = "\<lambda>i t. wf_Bitmap t \<and> numBits t = numBits b \<and> marked t = marked b \<union> {0..<i}"
  have "\<exists>t. for_loop 0 (numBits b) (\<lambda>i b. Bitmap_Mark b i) b = Inr t \<and> ?I (numBits b) t"
  proof (rule for_loop_rule [where I = ?I])
    fix i t assume "0 \<le> i" "i < numBits b" "?I i t"
    with Mark_in_range [of t i] obtain t' where
      "Bitmap_Mark t i = Inr t'" "wf_Bitmap t'" "numBits t' = numBits t"
      "marked t' = insert i (marked t)" by auto
    with \<open>?I i t\<close> interval_snoc [OF \<open>0 \<le> i\<close>]
    show "\<exists>t'. Bitmap_Mark t i = Inr t' \<and> ?I (i + 1) t'" by simp
  qed (use assms in \<open>auto simp: wf_Bitmap_def\<close>)
  with marked_subset [of b] show ?thesis by auto
qed

lemma Clear_range_loop:
  assumes "wf_Bitmap b"
  shows "\<exists>b'. for_loop 0 (numBits b) (\<lambda>i b. Bitmap_Clear b i) b = Inr b' \<and>
    wf_Bitmap b' \<and> numBits b' = numBits b \<and> marked b' = {}"
proof -
  let ?I = "\<lambda>i t. wf_Bitmap t \<and> numBits t = numBits b \<and> marked t = marked b - {0..<i}"
  have "\<exists>t. for_loop 0 (numBits b) (\<lambda>i b. Bitmap_Clear b i) b = Inr t \<and> ?I (numBits b) t"
  proof (rule for_loop_rule [where I = ?I])
    fix i t assume "0 \<le> i" "i < numBits b" "?I i t"
    with Clear_in_range [of t i] obtain t' where
      "Bitmap_Clear t i = Inr t'" "wf_Bitmap t'" "numBits t' = numBits t"
      "marked t' = marked t - {i}" by auto
    with \<open>?I i t\<close> interval_snoc [OF \<open>0 \<le> i\<close>]
    show "\<exists>t'. Bitmap_Clear t i = Inr t' \<and> ?I (i + 1) t'"
      by (simp add: Diff_insert [of "marked b" i "{0..<i}"])
  qed (use assms in \<open>auto simp: wf_Bitmap_def\<close>)
  with marked_subset [of b] show ?thesis by auto
qed

lemma init_empty:
  assumes "0 < n"
  shows "\<exists>b. Bitmap_init n = Inr b \<and> wf_Bitmap b \<and> numBits b = n \<and> marked b = {}"
proof -
  let ?b = "\<lparr>numBits = n, numWords = divRoundUp n 32,
    words = replicate (nat (divRoundUp n 32)) (0 :: cint)\<rparr>"
  have "wf_Bitmap ?b"
    using assms divRoundUp_nonneg [of n 32] by (simp add: wf_Bitmap_def)
  from Clear_range_loop [OF this] assms show ?thesis
    by (simp add: Bitmap_init_def Let_def)
qed

lemma NumClear_card:
  assumes "wf_Bitmap b"
  shows "Bitmap_NumClear b = Inr (numBits b - int (card (marked b)))"
proof -
  let ?I = "\<lambda>i (c :: int). c = i - int (card (marked b \<inter> {0..<i}))"
  have "\<exists>c. Bitmap_NumClear b = Inr c \<and> ?I (numBits b) c"
    unfolding Bitmap_NumClear_def
  proof (rule for_loop_rule [where I = ?I])
    fix i c assume i: "0 \<le> i" "i < numBits b" and c: "?I i c"
    have "card (marked b \<inter> {0..<i + 1}) =
        card (marked b \<inter> {0..<i}) + (if i \<in> marked b then 1 else 0)"
      by (simp add: interval_snoc [OF i(1)] Int_insert_right)
    with c Test_in_range [OF assms i]
    show "\<exists>c'. bindE (Bitmap_Test b i) (\<lambda>t. Inr (if \<not> t then c + 1 else c)) = Inr c' \<and> ?I (i + 1) c'"
      by simp
  qed (use assms in \<open>auto simp: wf_Bitmap_def\<close>)
  moreover have "marked b \<inter> {0..<numBits b} = marked b" using marked_subset by blast
  ultimately show ?thesis by simp
qed

lemma FindAndSet_free:
  assumes "wf_Bitmap b" and "marked b \<noteq> {0..<numBits b}"
  shows "\<exists>i b'. Bitmap_FindAndSet b = Inr (i, b') \<and> 0 \<le> i \<and> i < numBits b \<and> i \<notin> marked b \<and>
    {0..<i} \<subseteq> marked b \<and> wf_Bitmap b' \<and> numBits b' = numBits b \<and> marked b' = insert i (marked b)"
proof -
  obtain k where k: "0 \<le> k" "k < numBits b" "k \<notin> marked b"
    using assms(2) marked_subset by fastforce
  let ?p = "\<lambda>i. bindE (Bitmap_Test b i) (\<lambda>t. Inr (\<not> t))"
  obtain i where i: "searchE ?p 0 (numBits b) = Inr i" "0 \<le> i" "i \<le> k" "i \<notin> marked b"
      "\<forall>j. 0 \<le> j \<and> j < i \<longrightarrow> j \<in> marked b"
    using searchE_found [of 0 "numBits b" ?p "\<lambda>i. i \<notin> marked b" k] Test_in_range [OF assms(1)] k
    by auto
  obtain b' where "Bitmap_Mark b i = Inr b'" "wf_Bitmap b'" "numBits b' = numBits b"
      "marked b' = insert i (marked b)"
    using Mark_in_range [OF assms(1) i(2)] i k by auto
  with i k show ?thesis by (auto simp: Bitmap_FindAndSet_def)
qed

lemma FindAndSet_full:
  assumes "wf_Bitmap b" and "marked b = {0..<numBits b}"
  shows "Bitmap_FindAndSet b = Inr (-1, b)"
proof -
  have "searchE (\<lambda>i. bindE (Bitmap_Test b i) (\<lambda>t. Inr (\<not> t))) 0 (numBits b) = Inr (-1)"
    by (rule searchE_none) (simp add: Test_in_range assms)
  then show ?thesis by (simp add: Bitmap_FindAndSet_def)
qed


section \<open>The interface of an allocator of numbered slots\<close>

text \<open>
  A client of the bitmap sees a set of used slots out of a fixed range. \<open>alloc_loop\<close> is the
  loop both clients run: ask for \<open>n\<close> slots, one after the other.
\<close>

fun alloc_loop :: "('b \<Rightarrow> (int \<times> 'b) result) \<Rightarrow> nat \<Rightarrow> 'b \<Rightarrow> (int list \<times> 'b) result" where
  "alloc_loop fetch 0 b = Inr ([], b)"
| "alloc_loop fetch (Suc n) b =
     bindE (fetch b) (\<lambda>(i, b'). bindE (alloc_loop fetch n b') (\<lambda>(ks, b''). Inr (i # ks, b'')))"

locale slot_allocator =
  fixes invar :: "'b \<Rightarrow> bool"
    and used :: "'b \<Rightarrow> int set"
    and slots :: "'b \<Rightarrow> int"
    and fetch :: "'b \<Rightarrow> (int \<times> 'b) result"
    and free :: "'b \<Rightarrow> int \<Rightarrow> 'b result"
    and num_free :: "'b \<Rightarrow> int result"
  assumes used_range: "invar b \<Longrightarrow> used b \<subseteq> {0..<slots b}"
    and fetch_some: "invar b \<Longrightarrow> used b \<noteq> {0..<slots b} \<Longrightarrow>
      \<exists>i b'. fetch b = Inr (i, b') \<and> i \<in> {0..<slots b} - used b \<and> invar b' \<and> slots b' = slots b \<and>
        used b' = insert i (used b)"
    and fetch_none: "invar b \<Longrightarrow> used b = {0..<slots b} \<Longrightarrow> fetch b = Inr (-1, b)"
    and free_used: "invar b \<Longrightarrow> i \<in> {0..<slots b} \<Longrightarrow>
      \<exists>b'. free b i = Inr b' \<and> invar b' \<and> slots b' = slots b \<and> used b' = used b - {i}"
    and num_free_eq: "invar b \<Longrightarrow> num_free b = Inr (slots b - int (card (used b)))"
begin

lemma finite_used: "invar b \<Longrightarrow> finite (used b)"
  using used_range by (rule finite_subset) simp_all

lemma card_used_le: "invar b \<Longrightarrow> int (card (used b)) \<le> max 0 (slots b)"
  using card_mono [OF _ used_range [of b]] by simp

lemma room_not_full:
  assumes "invar b" and "int (card (used b)) < slots b"
  shows "used b \<noteq> {0..<slots b}"
  using assms by (auto split: if_splits)

lemma alloc_loop_ok:
  assumes "invar b" and "num_free b = Inr k" and "int n \<le> k"
  shows "\<exists>ks b'. alloc_loop fetch n b = Inr (ks, b') \<and> length ks = n \<and> distinct ks \<and>
    set ks \<subseteq> {0..<slots b} - used b \<and> invar b' \<and> slots b' = slots b \<and> used b' = used b \<union> set ks"
  using assms
proof (induction n arbitrary: b k)
  case (Suc n)
  have k: "k = slots b - int (card (used b))" using num_free_eq Suc.prems by simp
  then have "used b \<noteq> {0..<slots b}" using room_not_full Suc.prems by simp
  then obtain i b1 where 1: "fetch b = Inr (i, b1)" "i \<in> {0..<slots b} - used b" "invar b1"
      "slots b1 = slots b" "used b1 = insert i (used b)"
    using fetch_some Suc.prems(1) by blast
  have "num_free b1 = Inr (k - 1)"
    using num_free_eq [of b1] 1 k finite_used [OF Suc.prems(1)] by simp
  then obtain ks b2 where "alloc_loop fetch n b1 = Inr (ks, b2)" "length ks = n" "distinct ks"
      "set ks \<subseteq> {0..<slots b1} - used b1" "invar b2" "slots b2 = slots b1" "used b2 = used b1 \<union> set ks"
    using Suc.IH [of b1 "k - 1"] Suc.prems 1 by force
  with 1 show ?case by auto
qed simp

text \<open>Giving back what was allocated restores the set of used slots.\<close>

lemma free_after_fetch:
  assumes "invar b" and "fetch b = Inr (i, b')" and "used b \<noteq> {0..<slots b}"
  shows "\<exists>b''. free b' i = Inr b'' \<and> invar b'' \<and> used b'' = used b"
proof -
  have f: "i \<in> {0..<slots b} - used b" "invar b'" "slots b' = slots b" "used b' = insert i (used b)"
    using fetch_some [OF assms(1,3)] assms(2) by auto
  then obtain b'' where "free b' i = Inr b''" "invar b''" "used b'' = used b' - {i}"
    using free_used [of b' i] by auto
  with f show ?thesis by auto
qed

end

interpretation bitmap_alloc: slot_allocator wf_Bitmap marked numBits Bitmap_FindAndSet
  Bitmap_Clear Bitmap_NumClear
proof unfold_locales
  fix b i
  show "wf_Bitmap b \<Longrightarrow> marked b \<subseteq> {0..<numBits b}" by (rule marked_subset)
  show "wf_Bitmap b \<Longrightarrow> marked b \<noteq> {0..<numBits b} \<Longrightarrow>
      \<exists>i b'. Bitmap_FindAndSet b = Inr (i, b') \<and> i \<in> {0..<numBits b} - marked b \<and>
        wf_Bitmap b' \<and> numBits b' = numBits b \<and> marked b' = insert i (marked b)"
    using FindAndSet_free by fastforce
  show "wf_Bitmap b \<Longrightarrow> marked b = {0..<numBits b} \<Longrightarrow> Bitmap_FindAndSet b = Inr (-1, b)"
    by (rule FindAndSet_full)
  show "wf_Bitmap b \<Longrightarrow> i \<in> {0..<numBits b} \<Longrightarrow>
      \<exists>b'. Bitmap_Clear b i = Inr b' \<and> wf_Bitmap b' \<and> numBits b' = numBits b \<and>
        marked b' = marked b - {i}"
    by (rule Clear_in_range) simp_all
  show "wf_Bitmap b \<Longrightarrow> Bitmap_NumClear b = Inr (numBits b - int (card (marked b)))"
    by (rule NumClear_card)
qed

section \<open>Properties\<close>


definition bitmap40 :: Bitmap where
  "bitmap40 = \<lparr>numBits = 40, numWords = 2, words = [5, 0]\<rparr>"

lemma wf_bitmap40: "wf_Bitmap bitmap40"
  by (simp add: wf_Bitmap_def bitmap40_def divRoundUp_def)

lemma marked_bitmap40: "2 \<in> marked bitmap40" "35 \<notin> marked bitmap40"
  by (simp_all add: marked_def bitmap40_def is_marked_def)


text \<open>
  \<open>FindAndSet\<close> always returns. If some bit is clear it returns the lowest clear one and
  marks it, changing nothing else; if all bits are on it returns -1 and leaves the bitmap alone.
\<close>

theorem FindAndSet_lowest_clear:
  assumes "wf_Bitmap b"
  shows "if marked b = {0..<numBits b} then Bitmap_FindAndSet b = Inr (-1, b)
    else \<exists>i b'. Bitmap_FindAndSet b = Inr (i, b') \<and> i \<in> {0..<numBits b} \<and> i \<notin> marked b \<and>
      {0..<i} \<subseteq> marked b \<and> wf_Bitmap b' \<and> numBits b' = numBits b \<and> marked b' = insert i (marked b)"
  using FindAndSet_full [OF assms] FindAndSet_free [OF assms] by auto

theorem FindAndSet_lowest_clear_witness:
  "\<exists>i b'. Bitmap_FindAndSet bitmap40 = Inr (i, b') \<and> i \<notin> marked bitmap40 \<and>
     marked b' = insert i (marked bitmap40)"
proof -
  have "(35 :: int) \<in> {0..<numBits bitmap40}" by (simp add: bitmap40_def)
  then have "marked bitmap40 \<noteq> {0..<numBits bitmap40}" using marked_bitmap40(2) by blast
  then show ?thesis
    using FindAndSet_lowest_clear [OF wf_bitmap40] by auto
qed

text \<open>
  Allocation of several slots: if \<open>NumClear\<close> reports at least \<open>n\<close> clear bits, \<open>n\<close> calls of
  \<open>FindAndSet\<close> return \<open>n\<close> distinct bits that were clear before, none of them -1, and exactly
  these become marked. This is what \<open>FileHeader::Allocate\<close> and the constructor of \<open>AddrSpace\<close>
  assert or assume of the bitmap.
\<close>

theorem allocation_never_fails:
  assumes "wf_Bitmap b" and "Bitmap_NumClear b = Inr k" and "int n \<le> k"
  shows "\<exists>ks b'. alloc_loop Bitmap_FindAndSet n b = Inr (ks, b') \<and> length ks = n \<and> distinct ks \<and>
    set ks \<subseteq> {0..<numBits b} - marked b \<and> wf_Bitmap b' \<and> numBits b' = numBits b \<and>
    marked b' = marked b \<union> set ks"
  using assms by (rule bitmap_alloc.alloc_loop_ok)

theorem allocation_never_fails_witness:
  "\<exists>b ks b'. Bitmap_init 40 = Inr b \<and> alloc_loop Bitmap_FindAndSet 3 b = Inr (ks, b') \<and>
     length ks = 3 \<and> distinct ks"
proof -
  obtain b where b: "Bitmap_init 40 = Inr b" "wf_Bitmap b" "numBits b = 40" "marked b = {}"
    using init_empty [of 40] by auto
  then have "Bitmap_NumClear b = Inr 40" using NumClear_card by simp
  from allocation_never_fails [OF b(2) this, of 3] b show ?thesis by auto
qed

lemma SelfTest_from_empty:
  assumes wf: "wf_Bitmap b" and n: "32 \<le> numBits b" and e: "marked b = {}"
  shows "\<exists>b'. Bitmap_SelfTest b = Inr b' \<and> wf_Bitmap b' \<and> numBits b' = numBits b \<and> marked b' = {}"
proof -
  let ?N = "numBits b"
  have full: "{0..<?N} \<noteq> {}" "(2 :: int) \<in> {0..<?N}" using n by auto
  obtain b1 where b1: "Bitmap_FindAndSet b = Inr (0, b1)" "wf_Bitmap b1" "numBits b1 = ?N" "marked b1 = {0}"
    using FindAndSet_free [OF wf] e full by fastforce
  obtain b2 where b2: "Bitmap_Mark b1 31 = Inr b2" "wf_Bitmap b2" "numBits b2 = ?N" "marked b2 = {0, 31}"
    using Mark_in_range [OF b1(2), of 31] b1 n by auto
  obtain b3 where b3: "Bitmap_FindAndSet b2 = Inr (1, b3)" "wf_Bitmap b3" "numBits b3 = ?N"
      "marked b3 = {0, 1, 31}"
  proof -
    have "2 \<notin> marked b2" using b2 by simp
    then have "marked b2 \<noteq> {0..<numBits b2}" using b2(3) full(2) by metis
    then obtain i b' where i: "Bitmap_FindAndSet b2 = Inr (i, b')" "0 \<le> i" "i \<notin> {0, 31}"
        "{0..<i} \<subseteq> {0, 31}" "wf_Bitmap b'" "numBits b' = ?N" "marked b' = insert i {0, 31}"
      using FindAndSet_free [OF b2(2)] b2 by auto
    have "i = 1"
    proof (rule ccontr)
      assume "i \<noteq> 1"
      then have "1 \<in> {0..<i}" using i by auto
      with i(4) have "(1 :: int) \<in> {0, 31}" by (rule subsetD)
      then show False by simp
    qed
    with i that show thesis by (simp add: insert_commute)
  qed
  obtain b4 where b4: "Bitmap_Clear b3 0 = Inr b4" "wf_Bitmap b4" "numBits b4 = ?N" "marked b4 = {1, 31}"
    using Clear_in_range [OF b3(2), of 0] b3 n by auto
  obtain b5 where b5: "Bitmap_Clear b4 1 = Inr b5" "wf_Bitmap b5" "numBits b5 = ?N" "marked b5 = {31}"
    using Clear_in_range [OF b4(2), of 1] b4 n by auto
  obtain b6 where b6: "Bitmap_Clear b5 31 = Inr b6" "wf_Bitmap b6" "numBits b6 = ?N" "marked b6 = {}"
    using Clear_in_range [OF b5(2), of 31] b5 n by auto
  obtain b7 where b7: "for_loop 0 (numBits b6) (\<lambda>i b. Bitmap_Mark b i) b6 = Inr b7" "wf_Bitmap b7"
      "numBits b7 = ?N" "marked b7 = {0..<?N}"
    using Mark_range_loop [OF b6(2)] b6 by auto
  have b8: "Bitmap_FindAndSet b7 = Inr (-1, b7)" using FindAndSet_full [OF b7(2)] b7 by simp
  have t: "Bitmap_Test b2 0 = Inr True" "Bitmap_Test b2 31 = Inr True"
    using Test_in_range [OF b2(2)] b2 n by auto
  show ?thesis
    using Clear_range_loop [OF b7(2)] NumClear_card [OF wf] n e b1 b2 b3 b4 b5 b6 b7 b8 t
    by (simp add: Bitmap_SelfTest_def)
qed

text \<open>
  The class's own \<open>SelfTest\<close>, run on a fresh bitmap of at least 32 bits as
  \<open>LibSelfTest\<close> does, passes every assertion and leaves the bitmap empty.
\<close>

theorem SelfTest_passes:
  assumes "32 \<le> n"
  shows "\<exists>b b'. Bitmap_init n = Inr b \<and> Bitmap_SelfTest b = Inr b' \<and> marked b' = {}"
  using init_empty [of n] SelfTest_from_empty assms by force

theorem SelfTest_passes_witness:
  "\<exists>b b'. Bitmap_init 200 = Inr b \<and> Bitmap_SelfTest b = Inr b' \<and> marked b' = {}"
  by (rule SelfTest_passes) simp

end
