(* ===== verification/Machine.thy ===== *)
theory Machine
  imports Prelude
begin

unbundle bit_operations_syntax

text \<open>
  The simulated MIPS workstation: machine/machine.h, machine/machine.cc, machine/translate.h
  and machine/translate.cc. This theory has the state of the machine (registers, main memory,
  page table or TLB), address translation, the memory accesses and the register part of an
  exception; the instruction set is in \<open>Mips_Decode\<close> and \<open>Mips_Exec\<close>.

  \<open>RaiseException\<close> ends in a call of the kernel's \<open>ExceptionHandler\<close>. Every caller in the
  machine returns right after it, so the machine-level routines return \<open>Trap which m\<close>, and the
  kernel (theory \<open>Exception\<close>) continues from there. The simulated CPU's integers are 32-bit words; \<open>sint\<close>
  reads them as C's \<open>int\<close>, \<open>unat\<close> as \<open>unsigned int\<close>. The host is little endian (the build's
  x86), so \<open>WordToHost\<close> is the identity there; its big-endian branch is modelled too.
\<close>

section \<open>State\<close>

abbreviation PageSize :: nat where "PageSize \<equiv> 128"
abbreviation NumPhysPages :: nat where "NumPhysPages \<equiv> 128"
abbreviation MemorySize :: nat where "MemorySize \<equiv> NumPhysPages * PageSize"
abbreviation TLBSize :: nat where "TLBSize \<equiv> 4"

datatype ExceptionType = NoException | SyscallException | PageFaultException | ReadOnlyException
  | BusErrorException | AddressErrorException | OverflowException | IllegalInstrException
  | NumExceptionTypes

abbreviation StackReg :: nat where "StackReg \<equiv> 29"
abbreviation RetAddrReg :: nat where "RetAddrReg \<equiv> 31"
abbreviation NumGPRegs :: nat where "NumGPRegs \<equiv> 32"
abbreviation HiReg :: nat where "HiReg \<equiv> 32"
abbreviation LoReg :: nat where "LoReg \<equiv> 33"
abbreviation PCReg :: nat where "PCReg \<equiv> 34"
abbreviation NextPCReg :: nat where "NextPCReg \<equiv> 35"
abbreviation PrevPCReg :: nat where "PrevPCReg \<equiv> 36"
abbreviation LoadReg :: nat where "LoadReg \<equiv> 37"
abbreviation LoadValueReg :: nat where "LoadValueReg \<equiv> 38"
abbreviation BadVAddrReg :: nat where "BadVAddrReg \<equiv> 39"
abbreviation NumTotalRegs :: nat where "NumTotalRegs \<equiv> 40"

record TranslationEntry =
  virtualPage :: cint
  physicalPage :: cint
  valid :: bool
  readOnly :: bool
  use :: bool
  dirty :: bool

record Machine =
  registers :: "nat \<Rightarrow> cint"
  mainMemory :: "nat \<Rightarrow> byte"
  tlb :: "TranslationEntry list option"
  pageTable :: "TranslationEntry list option"
  pageTableSize :: nat
  singleStep :: bool
  runUntilTime :: int

definition Machine_init :: "bool \<Rightarrow> nat \<Rightarrow> int \<Rightarrow> Machine" where
  \<comment> \<open>the constructor leaves \<open>pageTableSize\<close> and \<open>runUntilTime\<close> as they were in memory\<close>
  "Machine_init debug oldSize oldTime =
     \<lparr>registers = (\<lambda>_. 0), mainMemory = (\<lambda>_. 0), tlb = None, pageTable = None,
      pageTableSize = oldSize, singleStep = debug, runUntilTime = oldTime\<rparr>"

definition set_reg :: "nat \<Rightarrow> cint \<Rightarrow> Machine \<Rightarrow> Machine" where
  "set_reg r v m = m\<lparr>registers := (registers m)(r := v)\<rparr>"

definition ReadRegister :: "Machine \<Rightarrow> int \<Rightarrow> cint result" where
  "ReadRegister m num = assertE (num \<ge> 0 \<and> num < int NumTotalRegs) (Inr (registers m (nat num)))"

definition WriteRegister :: "Machine \<Rightarrow> int \<Rightarrow> cint \<Rightarrow> Machine result" where
  "WriteRegister m num v =
     assertE (num \<ge> 0 \<and> num < int NumTotalRegs) (Inr (set_reg (nat num) v m))"

section \<open>Delayed loads and exceptions\<close>

definition DelayedLoad :: "Machine \<Rightarrow> cint \<Rightarrow> cint \<Rightarrow> Machine result" where
  "DelayedLoad m nextReg nextValue =
     (let target = unat (registers m LoadReg) in
      if target < NumTotalRegs
      then let m1 = set_reg target (registers m LoadValueReg) m;
               m2 = set_reg LoadReg nextReg m1;
               m3 = set_reg LoadValueReg nextValue m2
           in Inr (set_reg 0 0 m3)
      else Inl BadAccess)"

datatype 'a access = Done 'a Machine | Trap ExceptionType Machine

definition RaiseException :: "Machine \<Rightarrow> ExceptionType \<Rightarrow> cint \<Rightarrow> ('a access) result" where
  "RaiseException m which badVAddr =
     bindE (DelayedLoad (set_reg BadVAddrReg badVAddr m) 0 0) (\<lambda>m'. Inr (Trap which m'))"

section \<open>Byte order\<close>

definition WordToHost :: "bool \<Rightarrow> cint \<Rightarrow> cint" where
  "WordToHost host_is_big_endian w =
     (if host_is_big_endian
      then (((drop_bit 24 w AND 0x000000ff) OR (drop_bit 8 w AND 0x0000ff00))
            OR (push_bit 8 w AND 0x00ff0000)) OR (push_bit 24 w AND 0xff000000)
      else w)"

definition ShortToHost :: "bool \<Rightarrow> 16 word \<Rightarrow> 16 word" where
  "ShortToHost host_is_big_endian w =
     (if host_is_big_endian
      then (push_bit 8 w AND 0xff00) OR (drop_bit 8 w AND 0x00ff)
      else w)"

definition WordToMachine :: "bool \<Rightarrow> cint \<Rightarrow> cint" where
  "WordToMachine big w = WordToHost big w"

definition ShortToMachine :: "bool \<Rightarrow> 16 word \<Rightarrow> 16 word" where
  "ShortToMachine big w = ShortToHost big w"

section \<open>Address translation\<close>

definition use_entry :: "bool \<Rightarrow> TranslationEntry \<Rightarrow> TranslationEntry" where
  "use_entry writing e = (let e' = e\<lparr>use := True\<rparr> in if writing then e'\<lparr>dirty := True\<rparr> else e')"

text \<open>The common tail of \<open>Translate\<close>, once the entry is found; \<open>store\<close> writes it back.\<close>

definition translate_entry ::
  "TranslationEntry \<Rightarrow> (TranslationEntry \<Rightarrow> Machine) \<Rightarrow> nat \<Rightarrow> nat \<Rightarrow> bool
    \<Rightarrow> (ExceptionType + nat \<times> Machine) result" where
  "translate_entry e store offset sz writing =
     (if readOnly e \<and> writing then Inr (Inl ReadOnlyException)
      else let pageFrame = unat (physicalPage e) in
        if pageFrame \<ge> NumPhysPages then Inr (Inl BusErrorException)
        else let physAddr = pageFrame * PageSize + offset in
          assertE (physAddr + sz \<le> MemorySize)
            (Inr (Inr (physAddr, store (use_entry writing e)))))"

definition Translate :: "Machine \<Rightarrow> cint \<Rightarrow> nat \<Rightarrow> bool \<Rightarrow> (ExceptionType + nat \<times> Machine) result" where
  "Translate m virtAddr sz writing =
     (if (sz = 4 \<and> virtAddr AND 0x3 \<noteq> 0) \<or> (sz = 2 \<and> virtAddr AND 0x1 \<noteq> 0)
      then Inr (Inl AddressErrorException)
      else assertE (tlb m = None \<or> pageTable m = None)
       (assertE (tlb m \<noteq> None \<or> pageTable m \<noteq> None)
         (let vpn = unat virtAddr div PageSize; offset = unat virtAddr mod PageSize in
          case tlb m of
            None \<Rightarrow>
              if vpn \<ge> pageTableSize m then Inr (Inl AddressErrorException)
              else bindE (aget (the (pageTable m)) (int vpn)) (\<lambda>e.
                if \<not> valid e then Inr (Inl PageFaultException)
                else translate_entry e
                  (\<lambda>e'. m\<lparr>pageTable := Some ((the (pageTable m))[vpn := e'])\<rparr>) offset sz writing)
          | Some entries \<Rightarrow>
              bindE (searchE (\<lambda>i. bindE (aget entries i) (\<lambda>e.
                  Inr (valid e \<and> virtualPage e = of_nat vpn))) 0 (int TLBSize)) (\<lambda>i.
                if i = -1 then Inr (Inl PageFaultException)
                else bindE (aget entries i) (\<lambda>e.
                  translate_entry e (\<lambda>e'. m\<lparr>tlb := Some (entries[nat i := e'])\<rparr>)
                    offset sz writing)))))"

section \<open>Memory accesses\<close>

definition load_half :: "(nat \<Rightarrow> byte) \<Rightarrow> nat \<Rightarrow> 16 word" where
  "load_half mem a = word_cat (mem (a + 1)) (mem a)"

definition load_word :: "(nat \<Rightarrow> byte) \<Rightarrow> nat \<Rightarrow> cint" where
  "load_word mem a = word_cat (load_half mem (a + 2)) (load_half mem a)"

definition store_half :: "(nat \<Rightarrow> byte) \<Rightarrow> nat \<Rightarrow> 16 word \<Rightarrow> nat \<Rightarrow> byte" where
  "store_half mem a v = mem(a := ucast v, a + 1 := ucast (drop_bit 8 v))"

definition store_word :: "(nat \<Rightarrow> byte) \<Rightarrow> nat \<Rightarrow> cint \<Rightarrow> nat \<Rightarrow> byte" where
  "store_word mem a v = store_half (store_half mem a (ucast v)) (a + 2) (ucast (drop_bit 16 v))"

definition ReadMem :: "Machine \<Rightarrow> cint \<Rightarrow> nat \<Rightarrow> (cint access) result" where
  "ReadMem m addr sz =
     bindE (Translate m addr sz False) (\<lambda>t.
       case t of
         Inl exc \<Rightarrow> RaiseException m exc addr
       | Inr (physicalAddress, m') \<Rightarrow>
           if sz = 1 then Inr (Done (scast (mainMemory m' physicalAddress)) m')
           else if sz = 2
             then Inr (Done (ucast (ShortToHost False (load_half (mainMemory m') physicalAddress))) m')
           else if sz = 4
             then Inr (Done (WordToHost False (load_word (mainMemory m') physicalAddress)) m')
           else Inl AssertFailed)"

definition WriteMem :: "Machine \<Rightarrow> cint \<Rightarrow> nat \<Rightarrow> cint \<Rightarrow> (unit access) result" where
  "WriteMem m addr sz v =
     bindE (Translate m addr sz True) (\<lambda>t.
       case t of
         Inl exc \<Rightarrow> RaiseException m exc addr
       | Inr (physicalAddress, m') \<Rightarrow>
           if sz = 1
             then Inr (Done () (m'\<lparr>mainMemory := (mainMemory m')(physicalAddress := ucast (v AND 0xff))\<rparr>))
           else if sz = 2
             then Inr (Done () (m'\<lparr>mainMemory := store_half (mainMemory m') physicalAddress
                (ShortToMachine False (ucast (v AND 0xffff)))\<rparr>))
           else if sz = 4
             then Inr (Done () (m'\<lparr>mainMemory := store_word (mainMemory m') physicalAddress
                (WordToMachine False v)\<rparr>))
           else Inl AssertFailed)"

section \<open>Invariants\<close>

text \<open>
  \<open>cpu_ok\<close> holds between any two instructions: register 0 reads as zero and the pending load
  targets a general register. \<open>mmu_ok\<close> says what the kernel installs: one translation table,
  a page table whose size field is its length.
\<close>

definition cpu_ok :: "Machine \<Rightarrow> bool" where
  "cpu_ok m \<longleftrightarrow> registers m 0 = 0 \<and> unat (registers m LoadReg) < NumGPRegs"

definition mmu_ok :: "Machine \<Rightarrow> bool" where
  "mmu_ok m \<longleftrightarrow>
     tlb m = None \<and> (\<exists>pt. pageTable m = Some pt \<and> length pt = pageTableSize m) \<or>
     pageTable m = None \<and> (\<exists>es. tlb m = Some es \<and> length es = TLBSize)"

lemma set_reg_simps [simp]:
  "registers (set_reg r v m) = (registers m)(r := v)"
  "mainMemory (set_reg r v m) = mainMemory m" "tlb (set_reg r v m) = tlb m"
  "pageTable (set_reg r v m) = pageTable m" "pageTableSize (set_reg r v m) = pageTableSize m"
  "singleStep (set_reg r v m) = singleStep m" "runUntilTime (set_reg r v m) = runUntilTime m"
  by (simp_all add: set_reg_def)

lemma mmu_ok_set_reg [simp]: "mmu_ok (set_reg r v m) = mmu_ok m"
  by (simp add: mmu_ok_def)

lemma mmu_ok_mainMemory [simp]: "mmu_ok (m\<lparr>mainMemory := mem\<rparr>) = mmu_ok m"
  by (simp add: mmu_ok_def)

lemma DelayedLoad_ok:
  assumes "unat (registers m LoadReg) < NumGPRegs"
  shows "\<exists>m'. DelayedLoad m nr nv = Inr m' \<and> mainMemory m' = mainMemory m \<and> tlb m' = tlb m \<and>
    pageTable m' = pageTable m \<and> pageTableSize m' = pageTableSize m \<and>
    registers m' = (registers m)(unat (registers m LoadReg) := registers m LoadValueReg,
      LoadReg := nr, LoadValueReg := nv, 0 := 0)"
  using assms by (simp add: DelayedLoad_def Let_def)


section \<open>Facts about translation\<close>

lemma unat_and_1: "unat (w AND 1 :: cint) = unat w mod 2"
proof -
  have "w AND 1 = take_bit 1 w" by (simp add: take_bit_eq_mask)
  then show ?thesis by (simp add: take_bit_eq_mod unat_mod)
qed

lemma unat_and_3: "unat (w AND 3 :: cint) = unat w mod 4"
proof -
  have "w AND 3 = take_bit 2 w" by (simp add: take_bit_eq_mask mask_eq_exp_minus_1)
  then show ?thesis by (simp add: take_bit_eq_mod unat_mod)
qed

definition aligned :: "cint \<Rightarrow> nat \<Rightarrow> bool" where
  "aligned va sz \<longleftrightarrow> \<not> ((sz = 4 \<and> va AND 0x3 \<noteq> 0) \<or> (sz = 2 \<and> va AND 0x1 \<noteq> 0))"

lemma aligned_dvd: "aligned va sz \<Longrightarrow> sz \<in> {1, 2, 4} \<Longrightarrow> sz dvd unat va"
  using unat_and_1 [of va] unat_and_3 [of va]
  by (auto simp: aligned_def dvd_eq_mod_eq_0)

text \<open>An aligned access stays inside its page, so the last assertion of \<open>Translate\<close> holds.\<close>

lemma offset_in_page:
  assumes "aligned va sz" and "sz \<in> {1, 2, 4}"
  shows "unat va mod PageSize + sz \<le> PageSize"
proof -
  obtain k where k: "unat va = sz * k" using aligned_dvd [OF assms] by blast
  have "PageSize = sz * (PageSize div sz)" and "0 < PageSize div sz" using assms(2) by auto
  then obtain p where p: "PageSize = sz * p" and "0 < p" by blast
  have "unat va mod PageSize = sz * (k mod p)" unfolding k p by (rule mult_mod_right [symmetric])
  moreover have "Suc (k mod p) \<le> p" using \<open>0 < p\<close> by (simp add: Suc_leI)
  then have "sz * Suc (k mod p) \<le> PageSize" unfolding p by (rule mult_le_mono2)
  ultimately show ?thesis by simp
qed

lemma translate_entry_eq:
  assumes "offset + sz \<le> PageSize"
  shows "translate_entry e store offset sz w = Inr
    (if readOnly e \<and> w then Inl ReadOnlyException
     else if unat (physicalPage e) \<ge> NumPhysPages then Inl BusErrorException
     else Inr (unat (physicalPage e) * PageSize + offset, store (use_entry w e)))"
  using assms by (simp add: translate_entry_def Let_def)

lemma Translate_pt:
  assumes "tlb m = None" and "pageTable m = Some pt" and "length pt = pageTableSize m"
    and "sz \<in> {1, 2, 4}"
  shows "Translate m va sz w = Inr
    (let vpn = unat va div PageSize; e = pt ! vpn in
     if \<not> aligned va sz \<or> vpn \<ge> length pt then Inl AddressErrorException
     else if \<not> valid e then Inl PageFaultException
     else if readOnly e \<and> w then Inl ReadOnlyException
     else if unat (physicalPage e) \<ge> NumPhysPages then Inl BusErrorException
     else Inr (unat (physicalPage e) * PageSize + unat va mod PageSize,
       m\<lparr>pageTable := Some (pt[vpn := use_entry w e])\<rparr>))"
proof (cases "aligned va sz \<and> unat va div PageSize < length pt")
  case True
  then show ?thesis
    using assms translate_entry_eq [OF offset_in_page, of va sz]
    by (auto simp: Translate_def Let_def aligned_def)
next
  case False
  then show ?thesis using assms by (auto simp: Translate_def Let_def aligned_def)
qed

lemma Translate_misaligned: "\<not> aligned va sz \<Longrightarrow> Translate m va sz w = Inr (Inl AddressErrorException)"
  by (auto simp: Translate_def aligned_def)

lemma use_entry_simps [simp]:
  "virtualPage (use_entry w e) = virtualPage e" "physicalPage (use_entry w e) = physicalPage e"
  "valid (use_entry w e) = valid e" "readOnly (use_entry w e) = readOnly e"
  by (simp_all add: use_entry_def Let_def)

lemma tlb_search:
  assumes "length es = TLBSize"
  shows "\<exists>i. searchE (\<lambda>i. bindE (aget es i) (\<lambda>e. Inr (valid e \<and> virtualPage e = v))) 0 (int TLBSize) = Inr i
    \<and> (i = -1 \<or> 0 \<le> i \<and> i < int TLBSize \<and> valid (es ! nat i) \<and> virtualPage (es ! nat i) = v)"
  using searchE_pure [of 0 "int TLBSize"
      "\<lambda>i. bindE (aget es i) (\<lambda>e. Inr (valid e \<and> virtualPage e = v))"
      "\<lambda>i. valid (es ! nat i) \<and> virtualPage (es ! nat i) = v"] assms
  by auto

text \<open>The same for both kinds of table: translation never aborts and changes only the table.\<close>

lemma Translate_total:
  assumes "mmu_ok m" and sz: "sz \<in> {1, 2, 4}"
  shows "\<exists>r. Translate m va sz w = Inr r \<and>
    (\<forall>pa m'. r = Inr (pa, m') \<longrightarrow> mmu_ok m' \<and> registers m' = registers m \<and>
      mainMemory m' = mainMemory m \<and> pa + sz \<le> MemorySize \<and> pa mod PageSize + sz \<le> PageSize)"
proof (cases "tlb m")
  case None
  with assms(1) obtain pt where pt: "pageTable m = Some pt" "length pt = pageTableSize m"
    by (auto simp: mmu_ok_def)
  have "aligned va sz \<Longrightarrow> unat va mod PageSize + sz \<le> PageSize" by (rule offset_in_page [OF _ sz])
  then show ?thesis
    unfolding Translate_pt [OF None pt sz] using None pt
    by (auto simp: Let_def mmu_ok_def)
next
  case (Some es)
  with assms(1) have es: "pageTable m = None" "length es = TLBSize" by (auto simp: mmu_ok_def)
  obtain i where i: "searchE (\<lambda>i. bindE (aget es i) (\<lambda>e.
        Inr (valid e \<and> virtualPage e = of_nat (unat va div PageSize)))) 0 (int TLBSize) = Inr i"
      "i = -1 \<or> 0 \<le> i \<and> i < int TLBSize"
    using tlb_search [OF es(2), of "of_nat (unat va div PageSize)"] by blast
  show ?thesis
  proof (cases "aligned va sz \<and> i \<noteq> -1")
    case True
    then have "unat va mod PageSize + sz \<le> PageSize" using offset_in_page sz by blast
    with True i es Some translate_entry_eq [OF this] show ?thesis
      by (auto simp: Translate_def Let_def aligned_def mmu_ok_def)
  next
    case False
    with i es Some show ?thesis
      by (auto simp: Translate_def Let_def aligned_def)
  qed
qed

section \<open>Facts about memory accesses\<close>

lemma load_store_half: "load_half (store_half mem a v) a = v"
  unfolding load_half_def store_half_def
  by (rule bit_word_eqI) (auto simp: bit_simps bit_word_cat_iff)

lemma load_store_word: "load_word (store_word mem a v) a = v"
proof -
  have "load_half (store_word mem a v) a = ucast v"
    using load_store_half [of mem a "ucast v"]
    by (simp add: load_half_def store_word_def store_half_def)
  moreover have "load_half (store_word mem a v) (a + 2) = ucast (drop_bit 16 v)"
    unfolding store_word_def by (rule load_store_half)
  ultimately show ?thesis
    unfolding load_word_def
    by (intro bit_word_eqI) (auto simp: bit_simps bit_word_cat_iff)
qed

lemma store_half_other: "q < a \<or> a + 2 \<le> q \<Longrightarrow> store_half mem a v q = mem q"
  by (auto simp: store_half_def)

lemma store_word_other: "q < a \<or> a + 4 \<le> q \<Longrightarrow> store_word mem a v q = mem q"
  by (auto simp: store_word_def store_half_other)

text \<open>Translating the same address again, after a successful translation.\<close>

lemma Translate_again:
  assumes "mmu_ok m" and sz: "sz \<in> {1, 2, 4}" and ok: "Translate m va sz w = Inr (Inr (pa, m'))"
  shows "\<exists>m''. Translate (m'\<lparr>mainMemory := mem\<rparr>) va sz False = Inr (Inr (pa, m'')) \<and>
    mainMemory m'' = mem \<and> registers m'' = registers m"
proof (cases "tlb m")
  case None
  with assms(1) obtain pt where pt: "pageTable m = Some pt" "length pt = pageTableSize m"
    by (auto simp: mmu_ok_def)
  let ?n = "unat va div PageSize"
  from ok have m': "m' = m\<lparr>pageTable := Some (pt[?n := use_entry w (pt ! ?n)])\<rparr>"
      "aligned va sz" "?n < length pt" "valid (pt ! ?n)" "unat (physicalPage (pt ! ?n)) < NumPhysPages"
      "pa = unat (physicalPage (pt ! ?n)) * PageSize + unat va mod PageSize"
    unfolding Translate_pt [OF None pt sz] by (auto simp: Let_def split: if_splits)
  let ?m = "m'\<lparr>mainMemory := mem\<rparr>" and ?pt = "pt[?n := use_entry w (pt ! ?n)]"
  have "tlb ?m = None" "pageTable ?m = Some ?pt" "length ?pt = pageTableSize ?m"
    using None pt m' by simp_all
  from Translate_pt [OF this sz, of va False] m' show ?thesis by (simp add: Let_def)
next
  case (Some es)
  with assms(1) have es: "pageTable m = None" "length es = TLBSize" by (auto simp: mmu_ok_def)
  let ?p = "\<lambda>es i. bindE (aget es i) (\<lambda>e.
        Inr (valid e \<and> virtualPage e = of_nat (unat va div PageSize)))"
  obtain i where i: "searchE (?p es) 0 (int TLBSize) = Inr i" "i = -1 \<or> 0 \<le> i \<and> i < int TLBSize"
    using tlb_search [OF es(2), of "of_nat (unat va div PageSize)"] by blast
  have al: "aligned va sz" using ok Translate_misaligned by fastforce
  note off = offset_in_page [OF al sz]
  let ?e = "es ! nat i" and ?es = "es[nat i := use_entry w (es ! nat i)]"
  from ok al i Some es have m': "i \<noteq> -1" "m' = m\<lparr>tlb := Some ?es\<rparr>"
      "unat (physicalPage ?e) < NumPhysPages" "\<not> (readOnly ?e \<and> w)"
      "pa = unat (physicalPage ?e) * PageSize + unat va mod PageSize"
    by (auto simp: Translate_def aligned_def Let_def translate_entry_eq [OF off] split: if_splits)
  have "searchE (?p ?es) 0 (int TLBSize) = searchE (?p es) 0 (int TLBSize)"
    by (rule searchE_cong) (use es m' i in \<open>auto simp: nth_list_update split: if_splits\<close>)
  moreover have "nat i < length es" using i(2) m'(1) es(2) by auto
  ultimately show ?thesis using i m' es al
    by (simp add: Translate_def aligned_def Let_def translate_entry_eq [OF off])
qed

definition mem_value :: "nat \<Rightarrow> cint \<Rightarrow> cint" where
  "mem_value sz v = (if sz = 1 then scast (ucast v :: byte) else if sz = 2 then ucast (ucast v :: 16 word) else v)"

lemma ucast_and_ff: "(ucast (v AND 0xff :: cint) :: byte) = ucast v"
proof -
  have e: "(0xff :: cint) = mask 8" by (simp add: mask_eq_exp_minus_1)
  show ?thesis unfolding e by (rule bit_word_eqI) (auto simp: bit_simps)
qed

lemma ucast_and_ffff: "(ucast (v AND 0xffff :: cint) :: 16 word) = ucast v"
proof -
  have e: "(0xffff :: cint) = mask 16" by (simp add: mask_eq_exp_minus_1)
  show ?thesis unfolding e by (rule bit_word_eqI) (auto simp: bit_simps)
qed

text \<open>A successful write, taken apart: where it went and what memory it leaves.\<close>

lemma WriteMem_Done:
  assumes "mmu_ok m" and sz: "sz \<in> {1, 2, 4}" and "WriteMem m a sz v = Inr (Done () m1)"
  obtains pa m' mem where "Translate m a sz True = Inr (Inr (pa, m'))"
    and "m1 = m'\<lparr>mainMemory := mem\<rparr>" and "mainMemory m' = mainMemory m"
    and "registers m' = registers m" and "pa + sz \<le> MemorySize"
    and "\<And>q. q \<notin> {pa..<pa + sz} \<Longrightarrow> mem q = mainMemory m q"
    and "sz = 1 \<Longrightarrow> mem pa = ucast v" and "sz = 2 \<Longrightarrow> load_half mem pa = ucast v"
    and "sz = 4 \<Longrightarrow> load_word mem pa = v" and "mmu_ok m1"
proof -
  obtain r where r: "Translate m a sz True = Inr r" using Translate_total [OF assms(1) sz] by blast
  obtain pa m' where t: "Translate m a sz True = Inr (Inr (pa, m'))"
  proof (cases r)
    case (Inl exc)
    with assms(3) r show thesis
      by (auto simp: WriteMem_def RaiseException_def result_iffs)
  qed (use r that in force)
  have facts: "mmu_ok m'" "registers m' = registers m" "mainMemory m' = mainMemory m"
      "pa + sz \<le> MemorySize"
    using Translate_total [OF assms(1) sz, of a True] t by auto
  show thesis
    using assms(3) t facts sz
    by (intro that [OF t, of "mainMemory m1"])
      (auto simp: WriteMem_def ShortToMachine_def ShortToHost_def WordToMachine_def WordToHost_def
        store_half_other store_word_other load_store_half load_store_word ucast_and_ff ucast_and_ffff)
qed

lemma write_read_back:
  assumes "mmu_ok m" and sz: "sz \<in> {1, 2, 4}" and w: "WriteMem m a sz v = Inr (Done () m1)"
  shows "\<exists>m2. ReadMem m1 a sz = Inr (Done (mem_value sz v) m2) \<and> mainMemory m2 = mainMemory m1"
proof -
  from WriteMem_Done [OF assms] obtain pa m' mem where t: "Translate m a sz True = Inr (Inr (pa, m'))"
    and m1: "m1 = m'\<lparr>mainMemory := mem\<rparr>"
    and "sz = 1 \<Longrightarrow> mem pa = ucast v" and "sz = 2 \<Longrightarrow> load_half mem pa = ucast v"
    and "sz = 4 \<Longrightarrow> load_word mem pa = v" by metis
  moreover obtain m2 where "Translate m1 a sz False = Inr (Inr (pa, m2))" "mainMemory m2 = mem"
    using Translate_again [OF assms(1) sz t, of mem] m1 by auto
  ultimately show ?thesis
    using sz by (auto simp: ReadMem_def mem_value_def ShortToHost_def WordToHost_def)
qed

lemma bswap_masks:
  "(0x000000ff :: cint) = mask 8" "(0x0000ff00 :: cint) = push_bit 8 (mask 8)"
  "(0x00ff0000 :: cint) = push_bit 16 (mask 8)" "(0xff000000 :: cint) = push_bit 24 (mask 8)"
  by (simp_all add: mask_eq_exp_minus_1)

lemma bit_bswap:
  "bit (WordToHost True w) n \<longleftrightarrow> n < 32 \<and>
     bit w (if n < 8 then n + 24 else if n < 16 then n + 8 else if n < 24 then n - 8 else n - 24)"
  by (auto simp: WordToHost_def bswap_masks bit_simps not_less add.commute)

lemma WordToHost_twice: "WordToHost big (WordToHost big w) = w"
proof (cases big)
  case True
  have "bit (WordToHost True (WordToHost True w)) n = bit w n" if "n < 32" for n
    using that by (auto simp: bit_bswap)
  then show ?thesis using True by (auto intro: bit_word_eqI)
qed (simp add: WordToHost_def)

section \<open>Properties\<close>

definition pt_outcome :: "TranslationEntry list \<Rightarrow> cint \<Rightarrow> nat \<Rightarrow> bool \<Rightarrow> ExceptionType + nat" where
  "pt_outcome pt va sz writing =
     (let vpn = unat va div PageSize; e = pt ! vpn in
      if \<not> sz dvd unat va \<or> vpn \<ge> length pt then Inl AddressErrorException
      else if \<not> valid e then Inl PageFaultException
      else if readOnly e \<and> writing then Inl ReadOnlyException
      else if unat (physicalPage e) \<ge> NumPhysPages then Inl BusErrorException
      else Inr (unat (physicalPage e) * PageSize + unat va mod PageSize))"

lemma aligned_iff: "sz \<in> {1, 2, 4} \<Longrightarrow> aligned va sz \<longleftrightarrow> sz dvd unat va"
  using unat_and_1 [of va] unat_and_3 [of va]
  by (auto simp: aligned_def dvd_eq_mod_eq_0 unat_eq_0)

lemma pt_outcome_frame:
  assumes "pt_outcome pt va sz w = Inr pa" and sz: "sz \<in> {1, 2, 4}"
  shows "pa div PageSize = unat (physicalPage (pt ! (unat va div PageSize))) \<and>
    (pa + sz - 1) div PageSize = pa div PageSize \<and> pa + sz \<le> MemorySize"
proof -
  let ?f = "unat (physicalPage (pt ! (unat va div PageSize)))"
  have "sz dvd unat va" and f: "?f < NumPhysPages" "pa = ?f * PageSize + unat va mod PageSize"
    using assms(1) by (auto simp: pt_outcome_def Let_def split: if_splits)
  from this(1) have off: "unat va mod PageSize + sz \<le> PageSize"
    using offset_in_page aligned_iff sz by blast
  moreover have "1 \<le> sz" using sz by auto
  ultimately have "pa + sz - 1 = ?f * PageSize + (unat va mod PageSize + sz - 1)"
    and "unat va mod PageSize + sz - 1 < PageSize" using f(2) by linarith+
  then have "(pa + sz - 1) div PageSize = ?f" by simp
  moreover have "pa div PageSize = ?f" using f by simp
  ultimately show ?thesis using f off by simp
qed

text \<open>
  Address translation with the linear page table the kernel installs: for the access sizes
  the simulator uses, \<open>Translate\<close> always returns (no assertion of it can fail). A misaligned
  address or one beyond the table gives an address error, an invalid entry a page fault, a write
  to a read-only page a read-only fault, an entry naming a frame that does not exist a bus error;
  otherwise the physical address is in the entry's frame, at the same offset, the access ends
  inside that frame and inside main memory, and the only change of state is that the entry's use
  bit (and on a write its dirty bit) is set.
\<close>

theorem translate_page_table:
  assumes "tlb m = None" and "pageTable m = Some pt" and "length pt = pageTableSize m"
    and "sz \<in> {1, 2, 4}"
  shows "Translate m va sz w = Inr
     (case pt_outcome pt va sz w of
        Inl exc \<Rightarrow> Inl exc
      | Inr pa \<Rightarrow> Inr (pa, m\<lparr>pageTable := Some (pt[unat va div PageSize :=
          use_entry w (pt ! (unat va div PageSize))])\<rparr>)) \<and>
    (\<forall>pa. pt_outcome pt va sz w = Inr pa \<longrightarrow>
      pa div PageSize = unat (physicalPage (pt ! (unat va div PageSize))) \<and>
      (pa + sz - 1) div PageSize = pa div PageSize \<and> pa + sz \<le> MemorySize)"
proof
  show "Translate m va sz w = Inr
     (case pt_outcome pt va sz w of
        Inl exc \<Rightarrow> Inl exc
      | Inr pa \<Rightarrow> Inr (pa, m\<lparr>pageTable := Some (pt[unat va div PageSize :=
          use_entry w (pt ! (unat va div PageSize))])\<rparr>))"
    unfolding Translate_pt [OF assms] aligned_iff [OF assms(4)] pt_outcome_def Let_def by simp
qed (use pt_outcome_frame [OF _ assms(4)] in blast)

definition machine1 :: Machine where
  "machine1 = (Machine_init False 2 0)\<lparr>pageTable := Some
     [\<lparr>virtualPage = 0, physicalPage = 3, valid = True, readOnly = False, use = False, dirty = False\<rparr>,
      \<lparr>virtualPage = 1, physicalPage = 200, valid = True, readOnly = False, use = False, dirty = False\<rparr>]\<rparr>"

lemma machine1_fields [simp]: "tlb machine1 = None" "pageTableSize machine1 = 2"
  by (simp_all add: machine1_def Machine_init_def)

lemma mmu_ok_machine1: "mmu_ok machine1"
  by (simp add: mmu_ok_def) (simp add: machine1_def)

theorem translate_page_table_witness:
  "(\<exists>m'. Translate machine1 4 4 True = Inr (Inr (388, m'))) \<and>
   Translate machine1 2 4 True = Inr (Inl AddressErrorException) \<and>
   Translate machine1 128 1 False = Inr (Inl BusErrorException)"
proof -
  let ?pt = "the (pageTable machine1)"
  have pt: "pageTable machine1 = Some ?pt" "length ?pt = pageTableSize machine1"
    by (simp_all add: machine1_def Machine_init_def)
  have "pt_outcome ?pt 4 4 True = Inr 388" "pt_outcome ?pt 2 4 True = Inl AddressErrorException"
    "pt_outcome ?pt 128 1 False = Inl BusErrorException"
    by (simp_all add: pt_outcome_def machine1_def)
  then show ?thesis
    using translate_page_table [OF machine1_fields(1) pt, of 4 4 True]
      translate_page_table [OF machine1_fields(1) pt, of 4 2 True]
      translate_page_table [OF machine1_fields(1) pt, of 1 128 False]
    by auto
qed

text \<open>
  What is written is read back. After a successful \<open>WriteMem\<close> of 1, 2 or 4 bytes, through a
  page table or a TLB, \<open>ReadMem\<close> of the same size at the same virtual address succeeds and returns
  the value cut to that size (sign-extended for one byte, zero-extended for two), and no byte of
  main memory outside the written ones has changed, nor any register.
\<close>

theorem write_then_read:
  assumes "mmu_ok m" and "sz \<in> {1, 2, 4}" and "WriteMem m a sz v = Inr (Done () m1)"
  shows "(\<exists>m2. ReadMem m1 a sz = Inr (Done (mem_value sz v) m2) \<and> mainMemory m2 = mainMemory m1) \<and>
    (\<exists>pa. pa + sz \<le> MemorySize \<and> (\<forall>q. q \<notin> {pa..<pa + sz} \<longrightarrow> mainMemory m1 q = mainMemory m q)) \<and>
    registers m1 = registers m"
proof -
  from WriteMem_Done [OF assms] obtain pa m' mem where "m1 = m'\<lparr>mainMemory := mem\<rparr>"
    "registers m' = registers m" "pa + sz \<le> MemorySize"
    "\<And>q. q \<notin> {pa..<pa + sz} \<Longrightarrow> mem q = mainMemory m q" by metis
  with write_read_back [OF assms] show ?thesis by auto
qed

theorem write_then_read_witness:
  "\<exists>m1 m2. WriteMem machine1 4 1 0x1f0 = Inr (Done () m1) \<and>
     ReadMem m1 4 1 = Inr (Done (- 16) m2)"
proof -
  obtain m1 where w: "WriteMem machine1 4 1 0x1f0 = Inr (Done () m1)"
    using translate_entry_eq [of 4 1]
    by (auto simp: WriteMem_def Translate_pt [where pt = "the (pageTable machine1)"] machine1_def
      Machine_init_def Let_def aligned_def)
  from write_then_read [OF mmu_ok_machine1 _ w] w show ?thesis
    by (auto simp: mem_value_def)
qed

text \<open>
  The byte-order conversions undo each other on hosts of either byte order: converting a word
  to the machine's format and back gives the word.
\<close>

theorem byte_order_round_trip:
  "WordToHost big (WordToMachine big w) = w \<and> ShortToHost big (ShortToMachine big h) = h"
proof -
  have m: "(0xff00 :: 16 word) = push_bit 8 (mask 8)" "(0x00ff :: 16 word) = mask 8"
    by (simp_all add: mask_eq_exp_minus_1)
  have "ShortToHost True (ShortToHost True h) = h"
    by (rule bit_word_eqI) (auto simp: ShortToHost_def m bit_simps not_less)
  then show ?thesis
    by (cases big) (simp_all add: WordToMachine_def ShortToMachine_def WordToHost_twice ShortToHost_def)
qed

end
