(* ===== verification/Mips_Decode.thy ===== *)
theory Mips_Decode
  imports Machine
begin

unbundle bit_operations_syntax

text \<open>
  Instruction decoding: machine/mipssim.h (operation codes and the two decoding tables) and
  \<open>Instruction::Decode\<close> of machine/mipssim.cc. The C code numbers the operations; the model has
  one constructor per number, and \<open>opcode_number\<close> gives the number back.
\<close>

section \<open>Operation codes and tables\<close>

datatype OpCode =
    OP_ADD | OP_ADDI | OP_ADDIU | OP_ADDU | OP_AND | OP_ANDI
  | OP_BEQ | OP_BGEZ | OP_BGEZAL | OP_BGTZ | OP_BLEZ | OP_BLTZ
  | OP_BLTZAL | OP_BNE | OP_DIV | OP_DIVU | OP_J | OP_JAL
  | OP_JALR | OP_JR | OP_LB | OP_LBU | OP_LH | OP_LHU
  | OP_LUI | OP_LW | OP_LWL | OP_LWR | OP_MFHI | OP_MFLO
  | OP_MTHI | OP_MTLO | OP_MULT | OP_MULTU | OP_NOR | OP_OR
  | OP_ORI | OP_RFE | OP_SB | OP_SH | OP_SLL | OP_SLLV
  | OP_SLT | OP_SLTI | OP_SLTIU | OP_SLTU | OP_SRA | OP_SRAV
  | OP_SRL | OP_SRLV | OP_SUB | OP_SUBU | OP_SW | OP_SWL
  | OP_SWR | OP_XOR | OP_XORI | OP_SYSCALL | OP_UNIMP | OP_RES
  | SPECIAL | BCOND   \<comment> \<open>marks for further decoding\<close>

primrec opcode_number :: "OpCode \<Rightarrow> nat" where
  "opcode_number OP_ADD = 1"
| "opcode_number OP_ADDI = 2"
| "opcode_number OP_ADDIU = 3"
| "opcode_number OP_ADDU = 4"
| "opcode_number OP_AND = 5"
| "opcode_number OP_ANDI = 6"
| "opcode_number OP_BEQ = 7"
| "opcode_number OP_BGEZ = 8"
| "opcode_number OP_BGEZAL = 9"
| "opcode_number OP_BGTZ = 10"
| "opcode_number OP_BLEZ = 11"
| "opcode_number OP_BLTZ = 12"
| "opcode_number OP_BLTZAL = 13"
| "opcode_number OP_BNE = 14"
| "opcode_number OP_DIV = 16"
| "opcode_number OP_DIVU = 17"
| "opcode_number OP_J = 18"
| "opcode_number OP_JAL = 19"
| "opcode_number OP_JALR = 20"
| "opcode_number OP_JR = 21"
| "opcode_number OP_LB = 22"
| "opcode_number OP_LBU = 23"
| "opcode_number OP_LH = 24"
| "opcode_number OP_LHU = 25"
| "opcode_number OP_LUI = 26"
| "opcode_number OP_LW = 27"
| "opcode_number OP_LWL = 28"
| "opcode_number OP_LWR = 29"
| "opcode_number OP_MFHI = 31"
| "opcode_number OP_MFLO = 32"
| "opcode_number OP_MTHI = 34"
| "opcode_number OP_MTLO = 35"
| "opcode_number OP_MULT = 36"
| "opcode_number OP_MULTU = 37"
| "opcode_number OP_NOR = 38"
| "opcode_number OP_OR = 39"
| "opcode_number OP_ORI = 40"
| "opcode_number OP_RFE = 41"
| "opcode_number OP_SB = 42"
| "opcode_number OP_SH = 43"
| "opcode_number OP_SLL = 44"
| "opcode_number OP_SLLV = 45"
| "opcode_number OP_SLT = 46"
| "opcode_number OP_SLTI = 47"
| "opcode_number OP_SLTIU = 48"
| "opcode_number OP_SLTU = 49"
| "opcode_number OP_SRA = 50"
| "opcode_number OP_SRAV = 51"
| "opcode_number OP_SRL = 52"
| "opcode_number OP_SRLV = 53"
| "opcode_number OP_SUB = 54"
| "opcode_number OP_SUBU = 55"
| "opcode_number OP_SW = 56"
| "opcode_number OP_SWL = 57"
| "opcode_number OP_SWR = 58"
| "opcode_number OP_XOR = 59"
| "opcode_number OP_XORI = 60"
| "opcode_number OP_SYSCALL = 61"
| "opcode_number OP_UNIMP = 62"
| "opcode_number OP_RES = 63"
| "opcode_number SPECIAL = 100"
| "opcode_number BCOND = 101"

datatype Format = IFMT | JFMT | RFMT

definition opTable :: "(OpCode \<times> Format) list" where
  "opTable =
   [(SPECIAL, RFMT), (BCOND, IFMT), (OP_J, JFMT), (OP_JAL, JFMT),
    (OP_BEQ, IFMT), (OP_BNE, IFMT), (OP_BLEZ, IFMT), (OP_BGTZ, IFMT),
    (OP_ADDI, IFMT), (OP_ADDIU, IFMT), (OP_SLTI, IFMT), (OP_SLTIU, IFMT),
    (OP_ANDI, IFMT), (OP_ORI, IFMT), (OP_XORI, IFMT), (OP_LUI, IFMT),
    (OP_UNIMP, IFMT), (OP_UNIMP, IFMT), (OP_UNIMP, IFMT), (OP_UNIMP, IFMT),
    (OP_RES, IFMT), (OP_RES, IFMT), (OP_RES, IFMT), (OP_RES, IFMT),
    (OP_RES, IFMT), (OP_RES, IFMT), (OP_RES, IFMT), (OP_RES, IFMT),
    (OP_RES, IFMT), (OP_RES, IFMT), (OP_RES, IFMT), (OP_RES, IFMT),
    (OP_LB, IFMT), (OP_LH, IFMT), (OP_LWL, IFMT), (OP_LW, IFMT),
    (OP_LBU, IFMT), (OP_LHU, IFMT), (OP_LWR, IFMT), (OP_RES, IFMT),
    (OP_SB, IFMT), (OP_SH, IFMT), (OP_SWL, IFMT), (OP_SW, IFMT),
    (OP_RES, IFMT), (OP_RES, IFMT), (OP_SWR, IFMT), (OP_RES, IFMT),
    (OP_UNIMP, IFMT), (OP_UNIMP, IFMT), (OP_UNIMP, IFMT), (OP_UNIMP, IFMT),
    (OP_RES, IFMT), (OP_RES, IFMT), (OP_RES, IFMT), (OP_RES, IFMT),
    (OP_UNIMP, IFMT), (OP_UNIMP, IFMT), (OP_UNIMP, IFMT), (OP_UNIMP, IFMT),
    (OP_RES, IFMT), (OP_RES, IFMT), (OP_RES, IFMT), (OP_RES, IFMT)]"

definition specialTable :: "OpCode list" where
  "specialTable =
   [OP_SLL, OP_RES, OP_SRL, OP_SRA, OP_SLLV, OP_RES, OP_SRLV, OP_SRAV,
    OP_JR, OP_JALR, OP_RES, OP_RES, OP_SYSCALL, OP_UNIMP, OP_RES, OP_RES,
    OP_MFHI, OP_MTHI, OP_MFLO, OP_MTLO, OP_RES, OP_RES, OP_RES, OP_RES,
    OP_MULT, OP_MULTU, OP_DIV, OP_DIVU, OP_RES, OP_RES, OP_RES, OP_RES,
    OP_ADD, OP_ADDU, OP_SUB, OP_SUBU, OP_AND, OP_OR, OP_XOR, OP_NOR,
    OP_RES, OP_RES, OP_SLT, OP_SLTU, OP_RES, OP_RES, OP_RES, OP_RES,
    OP_RES, OP_RES, OP_RES, OP_RES, OP_RES, OP_RES, OP_RES, OP_RES,
    OP_RES, OP_RES, OP_RES, OP_RES, OP_RES, OP_RES, OP_RES, OP_RES]"

section \<open>Decoding\<close>

record Instruction =
  ivalue :: cint
  opCode :: OpCode
  rs :: nat
  rt :: nat
  rd :: nat
  extra :: cint

definition decode_bcond :: "cint \<Rightarrow> OpCode" where
  "decode_bcond v =
     (let i = v AND 0x1f0000 in
      if i = 0 then OP_BLTZ
      else if i = 0x10000 then OP_BGEZ
      else if i = 0x100000 then OP_BLTZAL
      else if i = 0x110000 then OP_BGEZAL
      else OP_UNIMP)"

definition Decode :: "cint \<Rightarrow> Instruction" where
  "Decode v =
     (let (op, fmt) = opTable ! unat (drop_bit 26 v AND 0x3f);
          ex = (if fmt = IFMT
                then let e = v AND 0xffff in if e AND 0x8000 \<noteq> 0 then e OR 0xffff0000 else e
                else if fmt = RFMT then drop_bit 6 v AND 0x1f
                else v AND 0x3ffffff);
          op' = (if op = SPECIAL then specialTable ! unat (v AND 0x3f)
                 else if op = BCOND then decode_bcond v
                 else op)
      in \<lparr>ivalue = v, opCode = op',
          rs = unat (drop_bit 21 v AND 0x1f), rt = unat (drop_bit 16 v AND 0x1f),
          rd = unat (drop_bit 11 v AND 0x1f), extra = ex\<rparr>)"

section \<open>Facts about decoding\<close>

lemma table_lengths: "length opTable = 64" "length specialTable = 64"
  by (simp_all add: opTable_def specialTable_def)

lemma unat_and_mask_less: "unat (v AND mask n :: cint) < 2 ^ n"
proof -
  have "v AND mask n = take_bit n v" by (simp add: take_bit_eq_mask)
  then show ?thesis by (simp add: unsigned_take_bit_eq)
qed

lemma field_bounds:
  "unat (v AND 0x1f :: cint) < 32" "unat (v AND 0x3f :: cint) < 64"
  using unat_and_mask_less [of v 5] unat_and_mask_less [of v 6]
  by (simp_all add: mask_eq_exp_minus_1)

lemma special_no_marker: "op \<in> set specialTable \<Longrightarrow> op \<notin> {SPECIAL, BCOND, OP_RFE}"
  by (auto simp: specialTable_def)

lemma table_no_rfe: "p \<in> set opTable \<Longrightarrow> fst p \<noteq> OP_RFE"
  by (auto simp: opTable_def)

lemma Decode_registers:
  "rs (Decode v) < 32" "rt (Decode v) < 32" "rd (Decode v) < 32"
  by (simp_all add: Decode_def Let_def field_bounds split: prod.split)

lemma Decode_opCode: "opCode (Decode v) \<notin> {SPECIAL, BCOND, OP_RFE}"
proof -
  let ?i = "unat (drop_bit 26 v AND 0x3f)"
  obtain op fmt where p: "opTable ! ?i = (op, fmt)" by fastforce
  have "opTable ! ?i \<in> set opTable" by (rule nth_mem) (simp add: table_lengths field_bounds)
  moreover have "specialTable ! unat (v AND 0x3f) \<in> set specialTable"
    by (rule nth_mem) (simp add: table_lengths field_bounds)
  ultimately show ?thesis
    using table_no_rfe [of "(op, fmt)"] special_no_marker p
    by (auto simp: Decode_def Let_def decode_bcond_def)
qed

text \<open>The immediate of an I-format instruction is its low half-word, sign-extended.\<close>

lemma sign_extend_16:
  "(let e = v AND 0xffff in if e AND 0x8000 \<noteq> 0 then e OR 0xffff0000 else e) =
     (scast (ucast v :: 16 word) :: cint)"
proof -
  have m: "(0xffff :: cint) = mask 16" "(0x8000 :: cint) = push_bit 15 1"
    "(0xffff0000 :: cint) = push_bit 16 (mask 16)"
    by (simp_all add: mask_eq_exp_minus_1)
  have b: "bit (push_bit 15 (1 :: cint)) n \<longleftrightarrow> n = 15" for n
    by (simp only: bit_push_bit_iff bit_1_iff) auto
  have s: "(v AND mask 16) AND push_bit 15 1 \<noteq> 0 \<longleftrightarrow> bit v 15"
    unfolding word_nonzero_iff bit_and_iff b bit_mask_iff by auto
  have e: "n = 15" if "15 \<le> n" "\<not> 16 \<le> n" for n :: nat using that by simp
  show ?thesis
    unfolding m Let_def s
    by (rule bit_word_eqI) (auto simp: bit_simps min_def not_less le_less_Suc_eq, (metis e)+)
qed

end
