(* ===== verification/Mips_Exec.thy ===== *)
theory Mips_Exec
  imports Mips_Decode
begin

unbundle bit_operations_syntax

text \<open>
  Instruction execution: \<open>Machine::OneInstruction\<close> and \<open>Mult\<close> of machine/mipssim.cc, in the
  configuration of build.linux/Makefile (\<^verbatim>\<open>SIM_FIX\<close> defined, little-endian host, no debug trace).

  Each case of the big switch is a function of the decoded instruction, the tentative next PC
  (\<^verbatim>\<open>pcAfter\<close>) and the machine. It ends in \<open>Done (pcAfter, nextLoadReg, nextLoadValue) m\<close>
  where the C code breaks out of the switch, and in \<open>Trap which m\<close> where it returns early after
  \<^verbatim>\<open>RaiseException\<close>. Cases that fall through in C call the case they fall into.
\<close>

abbreviation SIGN_BIT :: cint where "SIGN_BIT \<equiv> 0x80000000"
abbreviation R31 :: nat where "R31 \<equiv> 31"

definition IndexToAddr :: "cint \<Rightarrow> cint" where
  "IndexToAddr x = push_bit 2 x"

definition bindA :: "('a access) result \<Rightarrow> ('a \<Rightarrow> Machine \<Rightarrow> ('b access) result) \<Rightarrow> ('b access) result" where
  "bindA r f = bindE r (\<lambda>x. case x of Done v m \<Rightarrow> f v m | Trap exc m \<Rightarrow> Inr (Trap exc m))"

type_synonym switch_exit = "cint \<times> cint \<times> cint"
type_synonym op_case = "Instruction \<Rightarrow> cint \<Rightarrow> Machine \<Rightarrow> (switch_exit access) result"

section \<open>Multiplication\<close>

fun mult_loop :: "nat \<Rightarrow> cint \<Rightarrow> cint \<Rightarrow> cint \<Rightarrow> cint \<Rightarrow> cint \<Rightarrow> cint \<times> cint" where
  "mult_loop 0 a bHi bLo hi lo = (hi, lo)"
| "mult_loop (Suc n) a bHi bLo hi lo =
     (let odd_a = a AND 1 \<noteq> 0;
          lo1 = (if odd_a then lo + bLo else lo);
          hi1 = (if odd_a then (if lo1 < bLo then hi + 1 else hi) + bHi else hi)
      in if odd_a \<and> a AND 0xfffffffe = 0 then (hi1, lo1)
         else let bHi1 = push_bit 1 bHi;
                  bHi2 = (if bLo AND 0x80000000 \<noteq> 0 then bHi1 OR 1 else bHi1)
              in mult_loop n (signed_drop_bit 1 a) bHi2 (push_bit 1 bLo) hi1 lo1)"

definition Mult :: "cint \<Rightarrow> cint \<Rightarrow> bool \<Rightarrow> cint \<times> cint" where
  \<comment> \<open>the pair \<open>(*hiPtr, *loPtr)\<close>\<close>
  "Mult a b signedArith =
     (if a = 0 \<or> b = 0 then (0, 0)
      else let nega = signedArith \<and> sint a < 0; negb = signedArith \<and> sint b < 0;
               negative = (nega \<noteq> negb);
               (hi, lo) = mult_loop 32 (if nega then - a else a) 0 (if negb then - b else b) 0 0
           in if negative
              then let lo1 = NOT lo + 1; hi1 = (if lo1 = 0 then NOT hi + 1 else NOT hi) in (hi1, lo1)
              else (hi, lo))"

section \<open>Merging of unaligned words\<close>

text \<open>The inner switches of LWL, LWR, SWL and SWR; \<open>byt\<close> is \<^verbatim>\<open>tmp & 0x3\<close>.\<close>

definition lwl_merge :: "nat \<Rightarrow> cint \<Rightarrow> cint \<Rightarrow> cint" where
  "lwl_merge byt old v =
     (if 3 - byt = 0 then v
      else if 3 - byt = 1 then (old AND 0xff) OR push_bit 8 v
      else if 3 - byt = 2 then (old AND 0xffff) OR push_bit 16 v
      else (old AND 0xffffff) OR push_bit 24 v)"

definition lwr_merge :: "nat \<Rightarrow> cint \<Rightarrow> cint \<Rightarrow> cint" where
  "lwr_merge byt old v =
     (if 3 - byt = 0 then (old AND 0xffffff00) OR (signed_drop_bit 24 v AND 0xff)
      else if 3 - byt = 1 then (old AND 0xffff0000) OR (signed_drop_bit 16 v AND 0xffff)
      else if 3 - byt = 2 then (old AND 0xff000000) OR (signed_drop_bit 8 v AND 0xffffff)
      else v)"

definition swl_merge :: "nat \<Rightarrow> cint \<Rightarrow> cint \<Rightarrow> cint" where
  "swl_merge byt reg v =
     (if 3 - byt = 0 then reg
      else if 3 - byt = 1 then (v AND 0xff000000) OR (signed_drop_bit 8 reg AND 0xffffff)
      else if 3 - byt = 2 then (v AND 0xffff0000) OR (signed_drop_bit 16 reg AND 0xffff)
      else (v AND 0xffffff00) OR (signed_drop_bit 24 reg AND 0xff))"

definition swr_merge :: "nat \<Rightarrow> cint \<Rightarrow> cint \<Rightarrow> cint" where
  "swr_merge byt reg v =
     (if 3 - byt = 0 then (v AND 0xffffff) OR push_bit 24 reg
      else if 3 - byt = 1 then (v AND 0xffff) OR push_bit 16 reg
      else if 3 - byt = 2 then (v AND 0xff) OR push_bit 8 reg
      else reg)"

section \<open>The cases of the switch\<close>

definition write_back :: "nat \<Rightarrow> cint \<Rightarrow> cint \<Rightarrow> Machine \<Rightarrow> (switch_exit access) result" where
  \<comment> \<open>\<open>registers[r] = v; break;\<close>\<close>
  "write_back r v pc m = Inr (Done (pc, 0, 0) (set_reg r v m))"

definition branch_if :: "bool \<Rightarrow> op_case" where
  "branch_if c i pc m =
     Inr (Done (if c then registers m NextPCReg + IndexToAddr (extra i) else pc, 0, 0) m)"

definition link_reg :: "nat \<Rightarrow> Machine \<Rightarrow> Machine" where
  "link_reg r m = set_reg r (registers m NextPCReg + 4) m"

definition exec_ADD :: op_case where
  "exec_ADD i pc m =
     (let a = registers m (rs i); b = registers m (rt i); sum = a + b in
      if (a XOR b) AND SIGN_BIT = 0 \<and> (a XOR sum) AND SIGN_BIT \<noteq> 0
      then RaiseException m OverflowException 0
      else write_back (rd i) sum pc m)"

definition exec_ADDI :: op_case where
  "exec_ADDI i pc m =
     (let a = registers m (rs i); sum = a + extra i in
      if (a XOR extra i) AND SIGN_BIT = 0 \<and> (extra i XOR sum) AND SIGN_BIT \<noteq> 0
      then RaiseException m OverflowException 0
      else write_back (rt i) sum pc m)"

definition exec_SUB :: op_case where
  "exec_SUB i pc m =
     (let a = registers m (rs i); b = registers m (rt i); diff = a - b in
      if (a XOR b) AND SIGN_BIT \<noteq> 0 \<and> (a XOR diff) AND SIGN_BIT \<noteq> 0
      then RaiseException m OverflowException 0
      else write_back (rd i) diff pc m)"

definition exec_BGEZ :: op_case where
  "exec_BGEZ i pc m = branch_if (registers m (rs i) AND SIGN_BIT = 0) i pc m"

definition exec_BLTZ :: op_case where
  "exec_BLTZ i pc m = branch_if (registers m (rs i) AND SIGN_BIT \<noteq> 0) i pc m"

definition exec_DIV :: op_case where
  "exec_DIV i pc m =
     (let a = registers m (rs i); b = registers m (rt i) in
      if b = 0 then Inr (Done (pc, 0, 0) (set_reg HiReg 0 (set_reg LoReg 0 m)))
      else if a = SIGN_BIT \<and> b = -1 then Inl ArithTrap
      else Inr (Done (pc, 0, 0)
        (set_reg HiReg (word_of_int (sint a smod sint b))
          (set_reg LoReg (word_of_int (sint a sdiv sint b)) m))))"

definition exec_DIVU :: op_case where
  "exec_DIVU i pc m =
     (let a = registers m (rs i); b = registers m (rt i) in
      if b = 0 then Inr (Done (pc, 0, 0) (set_reg HiReg 0 (set_reg LoReg 0 m)))
      else Inr (Done (pc, 0, 0) (set_reg HiReg (a mod b) (set_reg LoReg (a div b) m))))"

definition exec_J :: op_case where
  "exec_J i pc m = Inr (Done ((pc AND 0xf0000000) OR IndexToAddr (extra i), 0, 0) m)"

definition exec_JR :: op_case where
  "exec_JR i pc m = Inr (Done (registers m (rs i), 0, 0) m)"

definition exec_LB :: "bool \<Rightarrow> op_case" where
  \<comment> \<open>\<open>signedOp\<close> is \<open>instr->opCode == OP_LB\<close>\<close>
  "exec_LB signedOp i pc m =
     bindA (ReadMem m (registers m (rs i) + extra i) 1) (\<lambda>v m'.
       Inr (Done (pc, of_nat (rt i),
         if v AND 0x80 \<noteq> 0 \<and> signedOp then v OR 0xffffff00 else v AND 0xff) m'))"

definition exec_LH :: "bool \<Rightarrow> op_case" where
  "exec_LH signedOp i pc m =
     (let tmp = registers m (rs i) + extra i in
      if tmp AND 0x1 \<noteq> 0 then RaiseException m AddressErrorException tmp
      else bindA (ReadMem m tmp 2) (\<lambda>v m'.
        Inr (Done (pc, of_nat (rt i),
          if v AND 0x8000 \<noteq> 0 \<and> signedOp then v OR 0xffff0000 else v AND 0xffff) m')))"

definition exec_LW :: op_case where
  "exec_LW i pc m =
     (let tmp = registers m (rs i) + extra i in
      if tmp AND 0x3 \<noteq> 0 then RaiseException m AddressErrorException tmp
      else bindA (ReadMem m tmp 4) (\<lambda>v m'. Inr (Done (pc, of_nat (rt i), v) m')))"

definition pending_or_reg :: "Machine \<Rightarrow> nat \<Rightarrow> cint" where
  "pending_or_reg m r =
     (if registers m LoadReg = of_nat r then registers m LoadValueReg else registers m r)"

definition exec_LWL :: op_case where
  "exec_LWL i pc m =
     (let tmp = registers m (rs i) + extra i; byt = tmp AND 0x3 in
      bindA (ReadMem m (tmp - byt) 4) (\<lambda>v m'.
        Inr (Done (pc, of_nat (rt i), lwl_merge (unat byt) (pending_or_reg m' (rt i)) v) m')))"

definition exec_LWR :: op_case where
  "exec_LWR i pc m =
     (let tmp = registers m (rs i) + extra i; byt = tmp AND 0x3 in
      bindA (ReadMem m (tmp - byt) 4) (\<lambda>v m'.
        Inr (Done (pc, of_nat (rt i), lwr_merge (unat byt) (pending_or_reg m' (rt i)) v) m')))"

definition exec_store :: "nat \<Rightarrow> op_case" where
  \<comment> \<open>SB, SH and SW\<close>
  "exec_store sz i pc m =
     bindA (WriteMem m (registers m (rs i) + extra i) sz (registers m (rt i))) (\<lambda>_ m'.
       Inr (Done (pc, 0, 0) m'))"

definition exec_SWL :: op_case where
  "exec_SWL i pc m =
     (let tmp = registers m (rs i) + extra i; byt = tmp AND 0x3 in
      bindA (ReadMem m (tmp - byt) 4) (\<lambda>v m1.
        bindA (WriteMem m1 (tmp - byt) 4 (swl_merge (unat byt) (registers m1 (rt i)) v)) (\<lambda>_ m2.
          Inr (Done (pc, 0, 0) m2))))"

definition exec_SWR :: op_case where
  "exec_SWR i pc m =
     (let tmp = registers m (rs i) + extra i; byt = tmp AND 0x3 in
      bindA (ReadMem m (tmp - byt) 4) (\<lambda>v m1.
        bindA (WriteMem m1 (tmp - byt) 4 (swr_merge (unat byt) (registers m1 (rt i)) v)) (\<lambda>_ m2.
          Inr (Done (pc, 0, 0) m2))))"

definition exec_mult :: "bool \<Rightarrow> op_case" where
  "exec_mult signedOp i pc m =
     (let (hi, lo) = Mult (registers m (rs i)) (registers m (rt i)) signedOp in
      Inr (Done (pc, 0, 0) (set_reg LoReg lo (set_reg HiReg hi m))))"

definition truth :: "bool \<Rightarrow> cint" where
  "truth b = (if b then 1 else 0)"

primrec exec_op :: "OpCode \<Rightarrow> op_case" where
  "exec_op OP_ADD i pc m = exec_ADD i pc m"
| "exec_op OP_ADDI i pc m = exec_ADDI i pc m"
| "exec_op OP_ADDIU i pc m = write_back (rt i) (registers m (rs i) + extra i) pc m"
| "exec_op OP_ADDU i pc m = write_back (rd i) (registers m (rs i) + registers m (rt i)) pc m"
| "exec_op OP_AND i pc m = write_back (rd i) (registers m (rs i) AND registers m (rt i)) pc m"
| "exec_op OP_ANDI i pc m = write_back (rt i) (registers m (rs i) AND (extra i AND 0xffff)) pc m"
| "exec_op OP_BEQ i pc m = branch_if (registers m (rs i) = registers m (rt i)) i pc m"
| "exec_op OP_BGEZ i pc m = exec_BGEZ i pc m"
| "exec_op OP_BGEZAL i pc m = exec_BGEZ i pc (link_reg R31 m)"
| "exec_op OP_BGTZ i pc m = branch_if (sint (registers m (rs i)) > 0) i pc m"
| "exec_op OP_BLEZ i pc m = branch_if (sint (registers m (rs i)) \<le> 0) i pc m"
| "exec_op OP_BLTZ i pc m = exec_BLTZ i pc m"
| "exec_op OP_BLTZAL i pc m = exec_BLTZ i pc (link_reg R31 m)"
| "exec_op OP_BNE i pc m = branch_if (registers m (rs i) \<noteq> registers m (rt i)) i pc m"
| "exec_op OP_DIV i pc m = exec_DIV i pc m"
| "exec_op OP_DIVU i pc m = exec_DIVU i pc m"
| "exec_op OP_J i pc m = exec_J i pc m"
| "exec_op OP_JAL i pc m = exec_J i pc (link_reg R31 m)"
| "exec_op OP_JALR i pc m = exec_JR i pc (link_reg (rd i) m)"
| "exec_op OP_JR i pc m = exec_JR i pc m"
| "exec_op OP_LB i pc m = exec_LB True i pc m"
| "exec_op OP_LBU i pc m = exec_LB False i pc m"
| "exec_op OP_LH i pc m = exec_LH True i pc m"
| "exec_op OP_LHU i pc m = exec_LH False i pc m"
| "exec_op OP_LUI i pc m = write_back (rt i) (push_bit 16 (extra i)) pc m"
| "exec_op OP_LW i pc m = exec_LW i pc m"
| "exec_op OP_LWL i pc m = exec_LWL i pc m"
| "exec_op OP_LWR i pc m = exec_LWR i pc m"
| "exec_op OP_MFHI i pc m = write_back (rd i) (registers m HiReg) pc m"
| "exec_op OP_MFLO i pc m = write_back (rd i) (registers m LoReg) pc m"
| "exec_op OP_MTHI i pc m = write_back HiReg (registers m (rs i)) pc m"
| "exec_op OP_MTLO i pc m = write_back LoReg (registers m (rs i)) pc m"
| "exec_op OP_MULT i pc m = exec_mult True i pc m"
| "exec_op OP_MULTU i pc m = exec_mult False i pc m"
| "exec_op OP_NOR i pc m = write_back (rd i) (NOT (registers m (rs i) OR registers m (rt i))) pc m"
| "exec_op OP_OR i pc m = write_back (rd i) (registers m (rs i) OR registers m (rt i)) pc m"
| "exec_op OP_ORI i pc m = write_back (rt i) (registers m (rs i) OR (extra i AND 0xffff)) pc m"
| "exec_op OP_RFE i pc m = Inl AssertFailed"
| "exec_op OP_SB i pc m = exec_store 1 i pc m"
| "exec_op OP_SH i pc m = exec_store 2 i pc m"
| "exec_op OP_SLL i pc m = write_back (rd i) (push_bit (unat (extra i)) (registers m (rt i))) pc m"
| "exec_op OP_SLLV i pc m =
     write_back (rd i) (push_bit (unat (registers m (rs i) AND 0x1f)) (registers m (rt i))) pc m"
| "exec_op OP_SLT i pc m =
     write_back (rd i) (truth (sint (registers m (rs i)) < sint (registers m (rt i)))) pc m"
| "exec_op OP_SLTI i pc m =
     write_back (rt i) (truth (sint (registers m (rs i)) < sint (extra i))) pc m"
| "exec_op OP_SLTIU i pc m = write_back (rt i) (truth (registers m (rs i) < extra i)) pc m"
| "exec_op OP_SLTU i pc m =
     write_back (rd i) (truth (registers m (rs i) < registers m (rt i))) pc m"
| "exec_op OP_SRA i pc m =
     write_back (rd i) (signed_drop_bit (unat (extra i)) (registers m (rt i))) pc m"
| "exec_op OP_SRAV i pc m =
     write_back (rd i) (signed_drop_bit (unat (registers m (rs i) AND 0x1f)) (registers m (rt i))) pc m"
| "exec_op OP_SRL i pc m =   \<comment> \<open>through \<open>int tmp\<close>, so the shift is arithmetic\<close>
     write_back (rd i) (signed_drop_bit (unat (extra i)) (registers m (rt i))) pc m"
| "exec_op OP_SRLV i pc m =
     write_back (rd i) (signed_drop_bit (unat (registers m (rs i) AND 0x1f)) (registers m (rt i))) pc m"
| "exec_op OP_SUB i pc m = exec_SUB i pc m"
| "exec_op OP_SUBU i pc m = write_back (rd i) (registers m (rs i) - registers m (rt i)) pc m"
| "exec_op OP_SW i pc m = exec_store 4 i pc m"
| "exec_op OP_SWL i pc m = exec_SWL i pc m"
| "exec_op OP_SWR i pc m = exec_SWR i pc m"
| "exec_op OP_XOR i pc m = write_back (rd i) (registers m (rs i) XOR registers m (rt i)) pc m"
| "exec_op OP_XORI i pc m = write_back (rt i) (registers m (rs i) XOR (extra i AND 0xffff)) pc m"
| "exec_op OP_SYSCALL i pc m = RaiseException m SyscallException 0"
| "exec_op OP_UNIMP i pc m = RaiseException m IllegalInstrException 0"
| "exec_op OP_RES i pc m = RaiseException m IllegalInstrException 0"
| "exec_op SPECIAL i pc m = Inl AssertFailed"
| "exec_op BCOND i pc m = Inl AssertFailed"

definition advance_pc :: "cint \<Rightarrow> Machine \<Rightarrow> Machine" where
  "advance_pc pcAfter m =
     (let m1 = set_reg PrevPCReg (registers m PCReg) m;
          m2 = set_reg PCReg (registers m1 NextPCReg) m1
      in set_reg NextPCReg pcAfter m2)"

definition OneInstruction :: "Machine \<Rightarrow> (unit access) result" where
  "OneInstruction m =
     bindA (ReadMem m (registers m PCReg) 4) (\<lambda>raw m1.
       let instr = Decode raw; pcAfter = registers m1 NextPCReg + 4 in
       bindA (exec_op (opCode instr) instr pcAfter m1) (\<lambda>(pc, nextLoadReg, nextLoadValue) m2.
         bindE (DelayedLoad m2 nextLoadReg nextLoadValue) (\<lambda>m3.
           Inr (Done () (advance_pc pc m3)))))"


lemma bindA_eq_Done [result_iffs]:
  "bindA r f = Inr (Done v m) \<longleftrightarrow> (\<exists>x m'. r = Inr (Done x m') \<and> f x m' = Inr (Done v m))"
  by (auto simp: bindA_def bindE_def split: sum.splits access.splits)

section \<open>Signed and unsigned readings of a register\<close>

lemma sign_bit_iff: "w AND 0x80000000 \<noteq> 0 \<longleftrightarrow> sint w < 0" for w :: cint
proof -
  have "(0x80000000 :: cint) = 2 ^ 31" by simp
  then show ?thesis
    using bit_last_iff [of w] by (simp only: and_exp_eq_0_iff_not_bit) simp
qed

lemma uint_eq_sint: "uint w = (if sint w < 0 then sint w + 2 ^ 32 else sint w)" for w :: cint
proof -
  have b: "- (2 ^ 31) \<le> sint w" "sint w < 2 ^ 31"
    using sint_greater_eq [of w] sint_lt [of w] by simp_all
  have u: "uint w = sint w mod 2 ^ 32" using uint_sint [of w] by (simp add: take_bit_eq_mod)
  show ?thesis
  proof (cases "sint w < 0")
    case True
    have "sint w mod 2 ^ 32 = (sint w + 2 ^ 32) mod 2 ^ 32" by simp
    also have "\<dots> = sint w + 2 ^ 32" by (rule mod_pos_pos_trivial) (use True b in simp_all)
    finally show ?thesis using True u by simp
  qed (use b u in simp)
qed

lemma uint_top_iff: "sint w < 0 \<longleftrightarrow> 2 ^ 31 \<le> uint w" for w :: cint
  using uint_eq_sint [of w] sint_greater_eq [of w] sint_lt [of w] by auto

section \<open>Multiplication computes the double-length product\<close>

definition wide :: "cint \<Rightarrow> cint \<Rightarrow> 64 word" where
  "wide hi lo = word_of_int (uint hi * 2 ^ 32 + uint lo)"

lemma and_1_iff_odd: "(a :: cint) AND 1 \<noteq> 0 \<longleftrightarrow> odd a"
  by (simp add: and_one_eq odd_iff_mod_2_eq_one)

lemma uint_plus_carry: "uint (x + y :: cint) = uint x + uint y - (if x + y < y then 2 ^ 32 else 0)"
proof -
  have b: "uint x < 2 ^ 32" "uint y < 2 ^ 32" "0 \<le> uint x" "0 \<le> uint y"
    using uint_lt2p [of x] uint_lt2p [of y] by simp_all
  have "uint (x + y) = (if uint x + uint y < 2 ^ 32 then uint x + uint y else uint x + uint y - 2 ^ 32)"
    using b by (simp add: uint_plus_if')
  then show ?thesis using b by (simp add: word_less_def)
qed

lemma shift32_uint: "(word_of_int (uint (x :: cint) * 2 ^ 32) :: 64 word) = word_of_int (k * 2 ^ 32)"
  if "x = word_of_int k"
proof -
  have "uint x * 2 ^ 32 = (k * 2 ^ 32) mod 2 ^ 64"
    using that by (simp add: uint_word_of_int mod_mult_mult2 [of k "2 ^ 32" "2 ^ 32", simplified, symmetric])
  then show ?thesis by (simp del: of_int_mult of_int_numeral of_int_power add: word_of_int_eq_iff take_bit_eq_mod)
qed

lemma wide_add:
  "wide ((if lo + bLo < bLo then hi + 1 else hi) + bHi) (lo + bLo) = wide hi lo + wide bHi bLo"
proof -
  let ?c = "if lo + bLo < bLo then 1 else 0 :: int"
  have "(if lo + bLo < bLo then hi + 1 else hi) + bHi = word_of_int (uint hi + uint bHi + ?c)"
    by simp
  from shift32_uint [OF this] show ?thesis
    unfolding wide_def uint_plus_carry [of lo bLo] of_int_add by (simp add: algebra_simps)
qed

lemma wide_double:
  "wide (if bLo AND 0x80000000 \<noteq> 0 then push_bit 1 bHi OR 1 else push_bit 1 bHi) (push_bit 1 bLo)
     = 2 * wide bHi bLo"
proof -
  have top: "bLo AND 0x80000000 \<noteq> 0 \<longleftrightarrow> bLo + bLo < bLo"
    unfolding sign_bit_iff uint_top_iff
    using uint_plus_carry [of bLo bLo] uint_lt2p [of bLo] uint_nonnegative [of "bLo + bLo"] uint_lt2p [of "bLo + bLo"]
    by (auto split: if_splits)
  have "push_bit 1 bHi OR 1 = bHi + bHi + 1"
  proof -
    have "push_bit 1 bHi OR 1 = push_bit 1 bHi + 1"
      by (rule disjunctive_add [symmetric]) (simp only: bit_push_bit_iff bit_1_iff, simp)
    then show ?thesis by (simp add: algebra_simps)
  qed
  moreover have "push_bit 1 x = x + x" for x :: cint by simp
  ultimately show ?thesis
    using wide_add [of bLo bLo bHi bHi] unfolding top by (simp add: algebra_simps split: if_splits)
qed

lemma take_bit_signed_half:
  fixes a :: cint
  assumes "n < 32"
  shows "uint (take_bit (Suc n) a) = of_bool (odd a) + 2 * uint (take_bit n (signed_drop_bit 1 a))"
proof -
  have "take_bit n (signed_drop_bit 1 a) = take_bit n (drop_bit 1 a)"
    using assms by (intro bit_word_eqI) (auto simp: bit_simps)
  then have "uint (take_bit n (signed_drop_bit 1 a)) = take_bit n (uint a div 2)"
    by (simp add: unsigned_take_bit_eq uint_div drop_bit_Suc)
  moreover have "uint (take_bit (Suc n) a) = take_bit (Suc n) (uint a)"
    by (simp add: unsigned_take_bit_eq)
  moreover have "odd a \<longleftrightarrow> odd (uint a)" by (simp add: bit_0 [symmetric] bit_uint_iff)
  ultimately show ?thesis by (simp add: take_bit_Suc odd_iff_mod_2_eq_one)
qed

lemma mult_loop_wide:
  "n \<le> 32 \<Longrightarrow> mult_loop n a bHi bLo hi lo = (h, l) \<Longrightarrow>
     wide h l = wide hi lo + word_of_int (uint (take_bit n a)) * wide bHi bLo"
proof (induction n a bHi bLo hi lo rule: mult_loop.induct)
  case (2 n a bHi bLo hi lo)
  let ?lo = "if a AND 1 \<noteq> 0 then lo + bLo else lo"
  let ?hi = "if a AND 1 \<noteq> 0 then (if ?lo < bLo then hi + 1 else hi) + bHi else hi"
  have acc: "wide ?hi ?lo = wide hi lo + of_bool (odd a) * wide bHi bLo"
    by (simp add: and_1_iff_odd wide_add)
  show ?case
  proof (cases "a AND 1 \<noteq> 0 \<and> a AND 0xfffffffe = 0")
    case True
    have "a = (a AND 1) OR (a AND 0xfffffffe)"
    proof -
      have "(0xfffffffe :: cint) = NOT 1" by simp
      then show ?thesis by (simp only: bit.conj_disj_distrib [symmetric] bit.disj_cancel_right) simp
    qed
    moreover have "a AND 1 = 1" using True by (simp add: and_one_eq)
    ultimately have "a = 1" using True by simp
    with "2.prems" acc show ?thesis by (auto simp: Let_def)
  next
    case False
    have rec: "mult_loop n (signed_drop_bit 1 a)
        (if bLo AND 0x80000000 \<noteq> 0 then push_bit 1 bHi OR 1 else push_bit 1 bHi) (push_bit 1 bLo) ?hi ?lo = (h, l)"
      using "2.prems"(2) unfolding mult_loop.simps Let_def if_not_P [OF False] .
    have "wide h l = wide ?hi ?lo + word_of_int (uint (take_bit n (signed_drop_bit 1 a))) *
        (2 * wide bHi bLo)"
      unfolding wide_double [symmetric]
      by (rule "2.IH" [OF refl refl refl _ refl refl]) (use False rec "2.prems"(1) in simp_all)
    then show ?thesis
      using 2(2) unfolding acc by (simp add: take_bit_signed_half algebra_simps)
  qed
qed simp


lemma wide_negate: "wide (if NOT lo + 1 = 0 then NOT hi + 1 else NOT hi) (NOT lo + 1) = - wide hi lo"
proof -
  have n: "uint (NOT x) = 2 ^ 32 - 1 - uint x" for x :: cint
  proof -
    have "NOT x = - 1 - x" by (simp add: not_eq_complement)
    then show ?thesis
      using uint_lt2p [of x] uint_sub_if' [of "-1" x]
      by (simp add: unsigned_minus_1_eq_mask mask_eq_exp_minus_1)
  qed
  have "wide (NOT hi) (NOT lo) = word_of_int (2 ^ 64 - 1 - (uint hi * 2 ^ 32 + uint lo))"
    unfolding wide_def n by (simp add: algebra_simps)
  also have "\<dots> = - 1 - wide hi lo" unfolding wide_def by simp
  finally have "wide (NOT hi) (NOT lo) = - 1 - wide hi lo" .
  moreover have "NOT lo + 1 < 1 \<longleftrightarrow> NOT lo + 1 = 0" by (simp add: word_less_1)
  ultimately show ?thesis
    using wide_add [of "NOT lo" 1 "NOT hi" 0] by (simp add: wide_def [of 0 1])
qed

lemma uint_neg: "sint a < 0 \<Longrightarrow> uint (- a) = - sint a" for a :: cint
  using uint_sub_if' [of 0 a] uint_eq_sint [of a] sint_greater_eq [of a] by (auto split: if_splits)

lemma Mult_wide:
  assumes "Mult a b s = (h, l)"
  shows "wide h l = word_of_int (if s then sint a * sint b else uint a * uint b)"
proof (cases "a = 0 \<or> b = 0")
  case True
  then show ?thesis using assms by (auto simp: Mult_def wide_def)
next
  case False
  let ?na = "s \<and> sint a < 0" and ?nb = "s \<and> sint b < 0"
  obtain h0 l0 where l0: "mult_loop 32 (if ?na then - a else a) 0 (if ?nb then - b else b) 0 0 = (h0, l0)"
    by fastforce
  have mag: "uint (if s \<and> sint x < 0 then - x else x) = (if s then \<bar>sint x\<bar> else uint x)" for x :: cint
    using uint_eq_sint [of x] by (simp add: uint_neg)
  have w: "wide h0 l0 = word_of_int ((if s then \<bar>sint a\<bar> else uint a) * (if s then \<bar>sint b\<bar> else uint b))"
    using mult_loop_wide [OF _ l0] unfolding mag [symmetric]
    by (simp add: wide_def [of 0] take_bit_word_eq_self)
  have M: "Mult a b s = (if ?na \<noteq> ?nb
      then (if NOT l0 + 1 = 0 then NOT h0 + 1 else NOT h0, NOT l0 + 1) else (h0, l0))"
    unfolding Mult_def Let_def l0 using False by (simp only: simp_thms if_False prod.case)
  show ?thesis
  proof (cases "?na = ?nb")
    case True
    then have "wide h l = wide h0 l0" using assms M by simp
    moreover have "(if s then \<bar>sint a\<bar> else uint a) * (if s then \<bar>sint b\<bar> else uint b) =
        (if s then sint a * sint b else uint a * uint b)"
      using True by (auto simp: abs_if)
    ultimately show ?thesis using w by (simp only:)
  next
    case neq: False
    then have "wide h l = - wide h0 l0"
      using assms M wide_negate [of l0 h0] by (auto split: if_splits)
    moreover have "(if s then \<bar>sint a\<bar> else uint a) * (if s then \<bar>sint b\<bar> else uint b) =
        - (if s then sint a * sint b else uint a * uint b)"
      using neq by (auto simp: abs_if)
    ultimately show ?thesis using w by (simp only: of_int_minus minus_minus)
  qed
qed

lemma word64_inj:
  assumes "word_of_int x = (word_of_int y :: 64 word)" and "\<bar>x - y\<bar> < 2 ^ 64"
  shows "x = y"
proof (rule ccontr)
  assume "x \<noteq> y"
  moreover have "2 ^ 64 dvd x - y"
    using assms(1) by (simp add: word_of_int_eq_iff take_bit_eq_mod mod_eq_dvd_iff)
  ultimately show False using zdvd_imp_le [of "2 ^ 64" "\<bar>x - y\<bar>"] assms(2) by simp
qed

lemma signed_product_bound: "\<bar>sint a * sint b\<bar> \<le> 2 ^ 62" for a b :: cint
proof -
  have "\<bar>sint x\<bar> \<le> 2 ^ 31" for x :: cint
    using sint_greater_eq [of x] sint_lt [of x] by (simp add: abs_le_iff)
  then have "\<bar>sint a\<bar> * \<bar>sint b\<bar> \<le> 2 ^ 31 * 2 ^ 31" by (intro mult_mono) simp_all
  then show ?thesis by (simp add: abs_mult)
qed

lemma unsigned_product_bound: "0 \<le> uint a * uint b" "uint a * uint b < 2 ^ 64" for a b :: cint
proof -
  show "0 \<le> uint a * uint b" by simp
  have "uint a * uint b < 2 ^ 32 * 2 ^ 32"
    using uint_lt2p [of a] uint_lt2p [of b] by (intro mult_strict_mono) simp_all
  then show "uint a * uint b < 2 ^ 64" by simp
qed

lemma wide_sint: "wide hi lo = word_of_int (sint hi * 2 ^ 32 + uint lo)"
proof -
  have "uint hi * 2 ^ 32 + uint lo = sint hi * 2 ^ 32 + uint lo + (if sint hi < 0 then 2 ^ 64 else 0)"
    using uint_eq_sint [of hi] by (simp add: algebra_simps)
  then show ?thesis unfolding wide_def
    by (simp only:) (simp add: word_of_int_eq_iff take_bit_eq_mod del: of_int_add of_int_mult)
qed

text \<open>
  C31. \<open>Mult\<close> (OP_MULT and OP_MULTU) leaves in HI:LO the full 64-bit product of its operands, read
  as signed numbers when \<open>signedArith\<close> is set and as unsigned ones otherwise, for every pair of
  32-bit operands, INT_MIN included: the shift-and-add loop with its early exit, the carry from
  LO to HI and the two's complement of the result are all exact.
\<close>

theorem Mult_correct:
  "(case Mult a b True of (hi, lo) \<Rightarrow> sint hi * 2 ^ 32 + uint lo = sint a * sint b) \<and>
   (case Mult a b False of (hi, lo) \<Rightarrow> uint hi * 2 ^ 32 + uint lo = uint a * uint b)"
proof -
  have ranges: "0 \<le> uint w" "uint w < 2 ^ 32" "- (2 ^ 31) \<le> sint w" "sint w < 2 ^ 31" for w :: cint
    using uint_lt2p [of w] sint_greater_eq [of w] sint_lt [of w] by simp_all
  have "sint hi * 2 ^ 32 + uint lo = sint a * sint b" if "Mult a b True = (hi, lo)" for hi lo
  proof (rule word64_inj)
    show "word_of_int (sint hi * 2 ^ 32 + uint lo) = (word_of_int (sint a * sint b) :: 64 word)"
      using Mult_wide [OF that] unfolding wide_sint by simp
    show "\<bar>sint hi * 2 ^ 32 + uint lo - sint a * sint b\<bar> < 2 ^ 64"
      using signed_product_bound [of a b] ranges [of hi] ranges [of lo]
      by (simp add: abs_le_iff abs_less_iff) (use uint_nonnegative [of lo] in linarith)
  qed
  moreover have "uint hi * 2 ^ 32 + uint lo = uint a * uint b" if "Mult a b False = (hi, lo)" for hi lo
  proof (rule word64_inj)
    show "word_of_int (uint hi * 2 ^ 32 + uint lo) = (word_of_int (uint a * uint b) :: 64 word)"
      using Mult_wide [OF that] unfolding wide_def by simp
    show "\<bar>uint hi * 2 ^ 32 + uint lo - uint a * uint b\<bar> < 2 ^ 64"
      using unsigned_product_bound [of a b] ranges [of hi] ranges [of lo]
      by (simp add: abs_less_iff)
        (use uint_nonnegative [of lo] uint_nonnegative [of hi] unsigned_product_bound(1) [of a b] in linarith)
  qed
  ultimately show ?thesis by (simp split: prod.split)
qed

end
