(* ===== verification/User_Mode.thy ===== *)
theory User_Mode
  imports Mips_Exec
begin

unbundle bit_operations_syntax

text \<open>
  Safety of the simulated CPU in user mode. \<open>confined m m'\<close> says what a program may do to the
  machine between two entries into the kernel: the page table maps what it mapped, and memory
  differs only in frames that the table maps writable. Each piece of an instruction is shown to
  keep it (the \<open>_contract\<close> lemmas), \<open>OneInstruction\<close> inherits it, and the locale \<open>user_mode\<close>
  carries it over to any number of instructions of the loop of \<open>Machine::Run\<close>.
\<close>

section \<open>The contract of a step in user mode\<close>

definition prot :: "TranslationEntry \<Rightarrow> cint \<times> cint \<times> bool \<times> bool" where
  "prot e = (virtualPage e, physicalPage e, valid e, readOnly e)"

definition mappings :: "Machine \<Rightarrow> (cint \<times> cint \<times> bool \<times> bool) list option" where
  "mappings m = map_option (map prot) (pageTable m)"

definition writable :: "Machine \<Rightarrow> nat set" where
  \<comment> \<open>the physical bytes the page table lets a program write\<close>
  "writable m = {q. \<exists>e \<in> set (the (pageTable m)). valid e \<and> \<not> readOnly e \<and>
     q div PageSize = unat (physicalPage e)}"

definition paged :: "Machine \<Rightarrow> bool" where
  "paged m \<longleftrightarrow> tlb m = None \<and> (\<exists>pt. pageTable m = Some pt \<and> length pt = pageTableSize m)"

definition user_ready :: "Machine \<Rightarrow> bool" where
  "user_ready m \<longleftrightarrow> cpu_ok m \<and> paged m"

definition confined :: "Machine \<Rightarrow> Machine \<Rightarrow> bool" where
  "confined m m' \<longleftrightarrow> paged m' \<and> mappings m' = mappings m \<and> pageTableSize m' = pageTableSize m \<and>
     (\<forall>q. q \<notin> writable m \<longrightarrow> mainMemory m' q = mainMemory m q)"

lemma paged_mmu_ok: "paged m \<Longrightarrow> mmu_ok m"
  by (auto simp: paged_def mmu_ok_def)

lemma writable_mappings:
  "paged m \<Longrightarrow> writable m = {q. \<exists>v p. (v, p, True, False) \<in> set (the (mappings m)) \<and> q div PageSize = unat p}"
  unfolding writable_def mappings_def paged_def prot_def by (auto simp: image_iff) (metis)+

lemma writable_cong: "paged m \<Longrightarrow> paged m' \<Longrightarrow> mappings m' = mappings m \<Longrightarrow> writable m' = writable m"
  by (simp add: writable_mappings)

lemma confined_refl [simp]: "paged m \<Longrightarrow> confined m m"
  by (simp add: confined_def)

lemma confined_trans: "paged m1 \<Longrightarrow> confined m1 m2 \<Longrightarrow> confined m2 m3 \<Longrightarrow> confined m1 m3"
  using writable_cong [of m1 m2] by (auto simp: confined_def)

lemma paged_set_reg [simp]: "paged (set_reg r v m) = paged m"
  by (simp add: paged_def)

lemma confined_set_reg [simp]: "confined m (set_reg r v m') = confined m m'"
  by (simp add: confined_def mappings_def)

lemma confined_set_reg_left [simp]: "confined (set_reg r v m) m' = confined m m'"
  by (simp add: confined_def mappings_def writable_def)

lemma confined_paged: "confined m m' \<Longrightarrow> paged m'"
  by (simp add: confined_def)

text \<open>What the pieces of an instruction promise.\<close>

definition pending_ok :: "Machine \<Rightarrow> bool" where
  "pending_ok m \<longleftrightarrow> unat (registers m LoadReg) < NumGPRegs"

lemma cpu_ok_pending: "cpu_ok m \<Longrightarrow> pending_ok m"
  by (simp add: cpu_ok_def pending_ok_def)

lemma DelayedLoad_contract:
  assumes "pending_ok m" and "unat nr < NumGPRegs"
  shows "\<exists>m'. DelayedLoad m nr nv = Inr m' \<and> cpu_ok m' \<and> (\<forall>m0. confined m0 m' = confined m0 m)"
  using assms by (simp add: DelayedLoad_def Let_def pending_ok_def cpu_ok_def)

fun trap_ok :: "Machine \<Rightarrow> ('a \<Rightarrow> Machine \<Rightarrow> bool) \<Rightarrow> ('a access) result \<Rightarrow> bool" where
  "trap_ok m P (Inl _) = False"
| "trap_ok m P (Inr (Trap exc m')) = (cpu_ok m' \<and> confined m m')"
| "trap_ok m P (Inr (Done v m')) = (confined m m' \<and> P v m')"

lemma trap_okE:
  assumes "trap_ok m P r"
  obtains exc m' where "r = Inr (Trap exc m')" "cpu_ok m'" "confined m m'"
    | v m' where "r = Inr (Done v m')" "confined m m'" "P v m'"
  using assms by (cases "(m, P, r)" rule: trap_ok.cases) auto

lemma trap_ok_bindA:
  assumes "paged m" and "trap_ok m P r" and "\<And>v m'. confined m m' \<Longrightarrow> P v m' \<Longrightarrow> trap_ok m' Q (f v m')"
  shows "trap_ok m Q (bindA r f)"
  using assms(2)
proof (cases rule: trap_okE)
  case (2 v m')
  with assms(3) have "trap_ok m' Q (f v m')" by blast
  then show ?thesis
    using 2 confined_trans [OF assms(1) 2(2)] by (auto simp: bindA_def elim: trap_okE)
qed (simp add: bindA_def)

lemma RaiseException_contract: "pending_ok m \<Longrightarrow> paged m \<Longrightarrow> trap_ok m P (RaiseException m exc a)"
  using DelayedLoad_contract [of "set_reg BadVAddrReg a m" 0 0]
  by (auto simp: RaiseException_def pending_ok_def)

lemma same_page: "pa \<le> q \<Longrightarrow> q \<le> r \<Longrightarrow> r div n = pa div n \<Longrightarrow> q div n = pa div n" for q :: nat
  by (metis div_le_mono le_antisym)

lemma Translate_contract:
  assumes "paged m" and sz: "sz \<in> {1, 2, 4}" and t: "Translate m va sz w = Inr (Inr (pa, m'))"
  shows "confined m m'" "registers m' = registers m" "w \<Longrightarrow> {pa..<pa + sz} \<subseteq> writable m"
proof -
  from assms(1) obtain pt where pt: "tlb m = None" "pageTable m = Some pt" "length pt = pageTableSize m"
    by (auto simp: paged_def)
  let ?v = "unat va div PageSize"
  from t [unfolded Translate_pt [OF pt sz]] have
    e: "?v < length pt" "valid (pt ! ?v)" "\<not> (readOnly (pt ! ?v) \<and> w)" "aligned va sz"
      "pa = unat (physicalPage (pt ! ?v)) * PageSize + unat va mod PageSize"
      "m' = m\<lparr>pageTable := Some (pt[?v := use_entry w (pt ! ?v)])\<rparr>"
    by (auto simp: Let_def split: if_splits)
  have "map prot (pt[?v := use_entry w (pt ! ?v)]) = map prot pt"
    using e(1) by (intro nth_equalityI) (auto simp: nth_list_update prot_def)
  with e pt show "confined m m'" "registers m' = registers m"
    by (auto simp: confined_def mappings_def paged_def)
  show "{pa..<pa + sz} \<subseteq> writable m" if w
  proof
    fix q assume "q \<in> {pa..<pa + sz}"
    then have "q div PageSize = unat (physicalPage (pt ! ?v))"
      using offset_in_page [OF e(4) sz] e(5) by (intro div_nat_eqI) auto
    moreover have "pt ! ?v \<in> set pt" using e(1) by simp
    ultimately show "q \<in> writable m" using e(2,3) \<open>w\<close> pt(2) unfolding writable_def by auto
  qed
qed

lemma ReadMem_contract:
  assumes "pending_ok m" "paged m" and sz: "sz \<in> {1, 2, 4}"
  shows "trap_ok m (\<lambda>v m'. registers m' = registers m) (ReadMem m a sz)"
proof -
  from Translate_total [OF paged_mmu_ok [OF assms(2)] sz] obtain t where t: "Translate m a sz False = Inr t" by blast
  then show ?thesis
    using RaiseException_contract [OF assms(1,2)] Translate_contract [OF assms(2) sz] sz
    by (cases t) (auto simp: ReadMem_def)
qed

lemma confined_memory:
  assumes "confined m m'" and "\<And>q. q \<notin> writable m \<Longrightarrow> mem q = mainMemory m q"
  shows "confined m (m'\<lparr>mainMemory := mem\<rparr>)"
  using assms by (auto simp: confined_def paged_def mappings_def)

lemma WriteMem_contract:
  assumes "pending_ok m" "paged m" and sz: "sz \<in> {1, 2, 4}"
  shows "trap_ok m (\<lambda>_ m'. registers m' = registers m) (WriteMem m a sz v)"
proof -
  from Translate_total [OF paged_mmu_ok [OF assms(2)] sz] obtain t where t: "Translate m a sz True = Inr t" by blast
  show ?thesis
  proof (cases t)
    case (Inl exc)
    with t show ?thesis using RaiseException_contract [OF assms(1,2)] by (simp add: WriteMem_def)
  next
    case (Inr x)
    with t sz obtain m1 where w: "WriteMem m a sz v = Inr (Done () m1)"
      by (cases x) (auto simp: WriteMem_def)
    from WriteMem_Done [OF paged_mmu_ok [OF assms(2)] sz this] obtain pa m' mem
      where t': "Translate m a sz True = Inr (Inr (pa, m'))" "m1 = m'\<lparr>mainMemory := mem\<rparr>"
        "registers m' = registers m" "\<And>q. q \<notin> {pa..<pa + sz} \<Longrightarrow> mem q = mainMemory m q" by metis
    have "confined m m1"
      unfolding t'(2) using Translate_contract [OF assms(2) sz t'(1)] t'(4)
      by (intro confined_memory) blast+
    with w t' show ?thesis by simp
  qed
qed

definition exit_ok :: "Machine \<Rightarrow> switch_exit \<Rightarrow> Machine \<Rightarrow> bool" where
  "exit_ok m x m' \<longleftrightarrow> unat (fst (snd x)) < NumGPRegs \<and>
     (\<forall>r \<ge> PCReg. registers m' r = registers m r)"

lemma of_nat_reg: "r < 32 \<Longrightarrow> unat (of_nat r :: cint) = r"
  by (simp add: unat_of_nat)

lemma pending_ok_cong: "pending_ok m \<Longrightarrow> registers m' = registers m \<Longrightarrow> pending_ok m'"
  by (simp add: pending_ok_def)

lemma load_contract:
  assumes "pending_ok m" "paged m" "rt i < 32" "sz \<in> {1, 2, 4}"
  shows "trap_ok m (exit_ok m) (bindA (ReadMem m a sz) (\<lambda>v m'. Inr (Done (pc, of_nat (rt i), f v m') m')))"
  by (rule trap_ok_bindA [OF assms(2) ReadMem_contract [OF assms(1,2,4)]])
    (simp add: exit_ok_def of_nat_reg assms(3) confined_paged)

lemma store_contract:
  assumes "pending_ok m" "paged m" "sz \<in> {1, 2, 4}"
  shows "trap_ok m (exit_ok m) (bindA (WriteMem m a sz v) (\<lambda>_ m'. Inr (Done (pc, 0, 0) m')))"
  by (rule trap_ok_bindA [OF assms(2) WriteMem_contract [OF assms]])
    (simp add: exit_ok_def confined_paged)

lemma read_modify_write_contract:
  assumes "pending_ok m" "paged m"
  shows "trap_ok m (exit_ok m) (bindA (ReadMem m a 4) (\<lambda>v m1.
    bindA (WriteMem m1 a 4 (f v m1)) (\<lambda>_ m2. Inr (Done (pc, 0, 0) m2))))"
proof (rule trap_ok_bindA [OF assms(2) ReadMem_contract [OF assms]])
  fix v m' assume c: "confined m m'" and r: "registers m' = registers m"
  have "exit_ok m = exit_ok m'" unfolding exit_ok_def r by simp
  then show "trap_ok m' (exit_ok m) (bindA (WriteMem m' a 4 (f v m')) (\<lambda>_ m2. Inr (Done (pc, 0, 0) m2)))"
    using store_contract [OF pending_ok_cong [OF assms(1) r] confined_paged [OF c]] by simp
qed simp

lemmas exec_contracts =
  load_contract store_contract read_modify_write_contract RaiseException_contract

lemmas exec_defs = exec_ADD_def exec_ADDI_def exec_SUB_def exec_BGEZ_def exec_BLTZ_def exec_DIV_def
  exec_DIVU_def exec_J_def exec_JR_def exec_LB_def exec_LH_def exec_LW_def exec_LWL_def exec_LWR_def
  exec_store_def exec_SWL_def exec_SWR_def exec_mult_def write_back_def branch_if_def link_reg_def

lemma exec_op_contract:
  assumes m: "pending_ok m" "paged m" and i: "rs i < 32" "rt i < 32" "rd i < 32"
    and op: "op \<notin> {SPECIAL, BCOND, OP_RFE}"
    and div: "\<not> (op = OP_DIV \<and> registers m (rs i) = SIGN_BIT \<and> registers m (rt i) = -1)"
  shows "trap_ok m (exit_ok m) (exec_op op i pc m)"
  using op div m i
  by (cases op) (auto simp: exec_defs Let_def exit_ok_def intro: exec_contracts split: prod.split)

section \<open>One instruction\<close>

definition divides_min_by_minus_1 :: "Machine \<Rightarrow> bool" where
  "divides_min_by_minus_1 m \<longleftrightarrow>
     (case ReadMem m (registers m PCReg) 4 of
        Inr (Done raw m1) \<Rightarrow> let i = Decode raw in
          opCode i = OP_DIV \<and> registers m (rs i) = SIGN_BIT \<and> registers m (rt i) = -1
      | _ \<Rightarrow> False)"

lemma advance_pc_simps [simp]:
  "cpu_ok (advance_pc pc m) = cpu_ok m" "confined m0 (advance_pc pc m) = confined m0 m"
  by (simp_all add: advance_pc_def Let_def cpu_ok_def)

lemma finish_contract:
  assumes "pending_ok m" "paged m" "exit_ok m x m'" "confined m m'"
  shows "trap_ok m' (\<lambda>_. cpu_ok) ((case x of (pc, nr, nv) \<Rightarrow> \<lambda>m2.
    bindE (DelayedLoad m2 nr nv) (\<lambda>m3. Inr (Done () (advance_pc pc m3)))) m')"
proof -
  obtain pc nr nv where x: "x = (pc, nr, nv)" by (cases x)
  with assms have "pending_ok m'" "unat nr < NumGPRegs" by (auto simp: exit_ok_def pending_ok_def)
  from DelayedLoad_contract [OF this] obtain m3 where
    "DelayedLoad m' nr nv = Inr m3" "cpu_ok m3" "\<And>m0. confined m0 m3 = confined m0 m'" by blast
  then show ?thesis using x confined_paged [OF assms(4)] by simp
qed

lemma OneInstruction_contract:
  assumes "user_ready m" and "\<not> divides_min_by_minus_1 m"
  shows "trap_ok m (\<lambda>_. cpu_ok) (OneInstruction m)"
proof -
  have m: "pending_ok m" "paged m" using assms(1) by (auto simp: user_ready_def cpu_ok_pending)
  show ?thesis
    unfolding OneInstruction_def
  proof (rule trap_ok_bindA [where P = "\<lambda>raw m'. registers m' = registers m \<and>
      ReadMem m (registers m PCReg) 4 = Inr (Done raw m')"])
    show "trap_ok m (\<lambda>raw m'. registers m' = registers m \<and>
      ReadMem m (registers m PCReg) 4 = Inr (Done raw m')) (ReadMem m (registers m PCReg) 4)"
      using ReadMem_contract [OF m, of 4 "registers m PCReg"]
      by (auto elim!: trap_okE)
    fix raw m1
    assume c: "confined m m1" and r: "registers m1 = registers m \<and>
      ReadMem m (registers m PCReg) 4 = Inr (Done raw m1)"
    then have m1: "pending_ok m1" "paged m1" using m by (auto simp: pending_ok_def confined_paged)
    have d: "\<not> (opCode (Decode raw) = OP_DIV \<and> registers m1 (rs (Decode raw)) = SIGN_BIT \<and>
        registers m1 (rt (Decode raw)) = - 1)"
      using assms(2) r by (auto simp: divides_min_by_minus_1_def Let_def)
    show "trap_ok m1 (\<lambda>_. cpu_ok) (let instr = Decode raw; pcAfter = registers m1 NextPCReg + 4
       in bindA (exec_op (opCode instr) instr pcAfter m1) (\<lambda>(pc, nextLoadReg, nextLoadValue) m2.
         bindE (DelayedLoad m2 nextLoadReg nextLoadValue) (\<lambda>m3. Inr (Done () (advance_pc pc m3)))))"
      unfolding Let_def
      by (rule trap_ok_bindA [OF m1(2) exec_op_contract [OF m1 Decode_registers Decode_opCode d]
          finish_contract [OF m1]])
  qed (rule m)
qed

lemma OneInstruction_div_trap:
  assumes "user_ready m" and "divides_min_by_minus_1 m"
  shows "OneInstruction m = Inl ArithTrap"
proof -
  have m: "pending_ok m" "paged m" using assms(1) by (auto simp: user_ready_def cpu_ok_pending)
  obtain raw m1 where r: "ReadMem m (registers m PCReg) 4 = Inr (Done raw m1)"
    and d: "opCode (Decode raw) = OP_DIV" "registers m (rs (Decode raw)) = SIGN_BIT"
      "registers m (rt (Decode raw)) = -1"
    using assms(2) by (auto simp: divides_min_by_minus_1_def Let_def split: sum.splits access.splits)
  have "registers m1 = registers m" using ReadMem_contract [OF m, of 4 "registers m PCReg"] r by simp
  then show ?thesis using r d by (simp add: OneInstruction_def bindA_def exec_DIV_def Let_def)
qed

section \<open>Runs of user code\<close>

primrec burst :: "(Machine \<Rightarrow> (unit access) result) \<Rightarrow> nat \<Rightarrow> Machine \<Rightarrow> (unit access) result" where
  "burst step 0 m = Inr (Done () m)"
| "burst step (Suc n) m = bindA (step m) (\<lambda>_. burst step n)"

locale user_mode =
  fixes step :: "Machine \<Rightarrow> (unit access) result" and aborts :: "Machine \<Rightarrow> bool"
  assumes step_ok: "user_ready m \<Longrightarrow> \<not> aborts m \<Longrightarrow> trap_ok m (\<lambda>_. cpu_ok) (step m)"
    and step_aborts: "user_ready m \<Longrightarrow> aborts m \<Longrightarrow> step m = Inl ArithTrap"
begin

lemma burst_ok: "user_ready m \<Longrightarrow> burst step n m = Inl ArithTrap \<or> trap_ok m (\<lambda>_. cpu_ok) (burst step n m)"
proof (induction n arbitrary: m)
  case 0
  then show ?case by (simp add: user_ready_def)
next
  case (Suc n)
  show ?case
  proof (cases "aborts m")
    case True
    with Suc.prems step_aborts show ?thesis by (simp add: bindA_def)
  next
    case False
    with Suc.prems step_ok have s: "trap_ok m (\<lambda>_. cpu_ok) (step m)" by blast
    then show ?thesis
    proof (cases rule: trap_okE)
      case (2 u m')
      then have "user_ready m'" by (simp add: user_ready_def confined_paged)
      from Suc.IH [OF this] 2 s show ?thesis
        using confined_trans [OF _ 2(2)] Suc.prems by (auto simp: bindA_def user_ready_def elim!: trap_okE)
    qed (simp add: bindA_def)
  qed
qed

end

interpretation mips: user_mode OneInstruction divides_min_by_minus_1
  by unfold_locales (fact OneInstruction_contract OneInstruction_div_trap)+

section \<open>Properties\<close>

text \<open>
  C4. A user instruction can do only three things. From a machine in user mode (register 0 zero,
  pending load in a general register, page table installed) \<open>OneInstruction\<close> completes, or enters
  the kernel with an exception, and in both cases the invariant holds again, the page table maps
  the same frames with the same rights, and only bytes of frames mapped writable have changed; no
  assertion of the simulator fails and no array is overrun. The exception is a DIV of INT_MIN by
  -1, which takes the simulator itself down with the host's division trap.
\<close>

theorem OneInstruction_safe:
  assumes "user_ready m"
  shows "case OneInstruction m of
      Inl f \<Rightarrow> f = ArithTrap \<and> divides_min_by_minus_1 m
    | Inr (Done _ m') \<Rightarrow> user_ready m' \<and> confined m m' \<and> \<not> divides_min_by_minus_1 m
    | Inr (Trap _ m') \<Rightarrow> user_ready m' \<and> confined m m' \<and> \<not> divides_min_by_minus_1 m"
proof (cases "divides_min_by_minus_1 m")
  case True
  then show ?thesis using assms by (simp add: OneInstruction_div_trap)
next
  case False
  from OneInstruction_contract [OF assms this] show ?thesis
    by (rule trap_okE) (use False in \<open>auto simp: user_ready_def confined_paged\<close>)
qed

definition machine_div :: Machine where
  \<comment> \<open>at address 0 of frame 3: \<open>div $1, $2\<close> with INT_MIN and -1\<close>
  "machine_div = machine1\<lparr>mainMemory := (\<lambda>a. 0)(384 := 0x1a, 386 := 0x22),
     registers := (\<lambda>_. 0)(1 := SIGN_BIT, 2 := -1)\<rparr>"

lemma user_ready_machine_div: "user_ready machine_div"
  by (simp add: user_ready_def cpu_ok_def paged_def machine_div_def) (simp add: machine1_def)

theorem OneInstruction_safe_witness:
  "user_ready machine_div \<and> OneInstruction machine_div = Inl ArithTrap"
proof -
  have f: "ReadMem machine_div 0 4 = Inr (Done 0x22001a (machine_div\<lparr>pageTable := Some
      [\<lparr>virtualPage = 0, physicalPage = 3, valid = True, readOnly = False, use = True, dirty = False\<rparr>,
       \<lparr>virtualPage = 1, physicalPage = 200, valid = True, readOnly = False, use = False, dirty = False\<rparr>]\<rparr>))"
    by (simp add: ReadMem_def Translate_pt [where pt = "the (pageTable machine1)"] machine_div_def machine1_def
      Machine_init_def Let_def aligned_def use_entry_def load_word_def load_half_def WordToHost_def) code_simp
  have "divides_min_by_minus_1 machine_div"
    unfolding divides_min_by_minus_1_def
    by (simp add: f machine_div_def) code_simp
  then show ?thesis
    using OneInstruction_safe [OF user_ready_machine_div] user_ready_machine_div
    by (auto split: sum.splits access.splits)
qed

text \<open>
  C3. Memory isolation of user programs. However many instructions a program executes before it
  next enters the kernel, every byte of main memory outside the frames that its page table maps
  valid and writable is unchanged, and so are the mappings themselves; another address space
  whose frames are disjoint from these is untouched.
\<close>

theorem user_isolation:
  assumes "user_ready m" and "burst OneInstruction n m = Inr r"
    and "r = Done () m' \<or> r = Trap exc m'"
  shows "user_ready m' \<and> mappings m' = mappings m \<and>
    (\<forall>q. q \<notin> writable m \<longrightarrow> mainMemory m' q = mainMemory m q)"
  using mips.burst_ok [OF assms(1), of n] assms(2,3)
  by (auto simp: user_ready_def confined_def)

definition machine_sw :: Machine where
  \<comment> \<open>at address 0 of frame 3: \<open>sw $1, 8($0)\<close>, with a load of 9 into \<open>$5\<close> pending\<close>
  "machine_sw = machine1\<lparr>mainMemory := (\<lambda>a. 0)(384 := 0x08, 386 := 0x01, 387 := 0xac),
     registers := (\<lambda>_. 0)(1 := 7, NextPCReg := 4, LoadReg := 5, LoadValueReg := 9)\<rparr>"

definition pt_sw :: "TranslationEntry list" where
  "pt_sw = [\<lparr>virtualPage = 0, physicalPage = 3, valid = True, readOnly = False, use = True, dirty = False\<rparr>,
     \<lparr>virtualPage = 1, physicalPage = 200, valid = True, readOnly = False, use = False, dirty = False\<rparr>]"

lemma machine_sw_fields [simp]:
  "tlb machine_sw = None" "pageTableSize machine_sw = 2"
  "registers machine_sw = (\<lambda>_. 0)(1 := 7, NextPCReg := 4, LoadReg := 5, LoadValueReg := 9)"
  by (simp_all add: machine_sw_def)

lemma user_ready_machine_sw: "user_ready machine_sw"
  by (simp add: user_ready_def cpu_ok_def paged_def) (simp add: machine_sw_def machine1_def)

lemma fetch_sw: "ReadMem machine_sw 0 4 = Inr (Done 0xac010008 (machine_sw\<lparr>pageTable := Some pt_sw\<rparr>))"
  by (simp add: ReadMem_def Translate_pt [where pt = "the (pageTable machine1)"] machine_sw_def machine1_def
    Machine_init_def Let_def aligned_def use_entry_def load_word_def load_half_def WordToHost_def pt_sw_def) code_simp

lemma write_sw: "\<exists>pt. WriteMem (machine_sw\<lparr>pageTable := Some pt_sw\<rparr>) 8 4 7 =
    Inr (Done () (machine_sw\<lparr>pageTable := Some pt, mainMemory := store_word (mainMemory machine_sw) 392 7\<rparr>))"
  by (simp add: WriteMem_def Translate_pt [where pt = pt_sw] Let_def aligned_def pt_sw_def
    use_entry_def WordToMachine_def WordToHost_def) metis

lemma OneInstruction_machine_sw:
  "\<exists>m'. OneInstruction machine_sw = Inr (Done () m') \<and> mainMemory m' 392 = 7"
proof -
  have d: "Decode 0xac010008 = \<lparr>ivalue = 0xac010008, opCode = OP_SW, rs = 0, rt = 1, rd = 0, extra = 8\<rparr>"
    by code_simp
  have "store_word mem 392 7 392 = 7" for mem by (simp add: store_word_def store_half_def)
  with write_sw show ?thesis
    by (auto simp: bindA_def OneInstruction_def fetch_sw d exec_store_def DelayedLoad_def Let_def advance_pc_def)
qed

theorem user_isolation_witness:
  "\<exists>m'. burst OneInstruction 1 machine_sw = Inr (Done () m') \<and> user_ready m' \<and>
     mainMemory m' 392 = 7 \<and> mainMemory m' 200 = mainMemory machine_sw 200"
proof -
  obtain m' where b: "burst OneInstruction 1 machine_sw = Inr (Done () m')" "mainMemory m' 392 = 7"
    using OneInstruction_machine_sw by (auto simp: bindA_def)
  have "200 \<notin> writable machine_sw" by (simp add: writable_def machine_sw_def machine1_def)
  with user_isolation [OF user_ready_machine_sw b(1)] b show ?thesis by auto
qed

end
