(* ===== verification/Mips_Semantics.thy ===== *)
theory Mips_Semantics
  imports User_Mode
begin

unbundle bit_operations_syntax

text \<open>
  What the instructions compute: signed overflow of ADD, ADDI and SUB, unaligned words through
  LWR and LWL, the branch and load delay slots, and the right shifts of
  \<open>Machine::OneInstruction\<close>. The definitions are those of \<open>Mips_Exec\<close>; this theory relates them
  to arithmetic on \<open>int\<close> and to the memory the program addresses.
\<close>

section \<open>Signed overflow\<close>

definition checked :: "int \<Rightarrow> nat \<Rightarrow> cint \<Rightarrow> Machine \<Rightarrow> (switch_exit access) result" where
  \<comment> \<open>the architecture's rule: the exact result if it is a 32-bit number, an exception otherwise\<close>
  "checked v r pc m =
     (if - (2 ^ 31) \<le> v \<and> v < 2 ^ 31 then Inr (Done (pc, 0, 0) (set_reg r (word_of_int v) m))
      else RaiseException m OverflowException 0)"

lemma sign_xor: "(a XOR b) AND SIGN_BIT \<noteq> 0 \<longleftrightarrow> (sint a < 0) \<noteq> (sint b < 0)" for a b :: cint
  unfolding sign_bit_iff bit_last_iff [symmetric] by (simp add: bit_xor_iff)

lemma sint_range: "- (2 ^ 31) \<le> sint w" "sint w < 2 ^ 31" for w :: cint
  using sint_greater_eq [of w] sint_lt [of w] by simp_all

lemma sint_word_of_int: "- (2 ^ 31) \<le> v \<Longrightarrow> v < 2 ^ 31 \<Longrightarrow> sint (word_of_int v :: cint) = v"
  by (simp add: int_word_sint)

lemma sint_wrap:
  assumes "- (2 ^ 32) \<le> v" "v < 2 ^ 32"
  shows "sint (word_of_int v :: cint) =
    (if v < - (2 ^ 31) then v + 2 ^ 32 else if v < 2 ^ 31 then v else v - 2 ^ 32)"
proof -
  have "(word_of_int v :: cint) = word_of_int (v + 2 ^ 32)" "(word_of_int v :: cint) = word_of_int (v - 2 ^ 32)"
    by (simp_all add: word_of_int_eq_iff take_bit_eq_mod del: of_int_add of_int_diff)
  then show ?thesis
    using assms sint_word_of_int [of v] sint_word_of_int [of "v + 2 ^ 32"] sint_word_of_int [of "v - 2 ^ 32"]
    by (simp del: of_int_add of_int_diff)
qed

lemma add_overflow_iff:
  "(a XOR b) AND SIGN_BIT = 0 \<and> (a XOR (a + b)) AND SIGN_BIT \<noteq> 0 \<longleftrightarrow>
     \<not> (- (2 ^ 31) \<le> sint a + sint b \<and> sint a + sint b < 2 ^ 31)" for a b :: cint
proof -
  have "a + b = word_of_int (sint a + sint b)" by simp
  then have "sint (a + b) = (if sint a + sint b < - (2 ^ 31) then sint a + sint b + 2 ^ 32
      else if sint a + sint b < 2 ^ 31 then sint a + sint b else sint a + sint b - 2 ^ 32)"
    using sint_range [of a] sint_range [of b] sint_wrap [of "sint a + sint b"] by simp
  then show ?thesis
    using sign_xor [of a b] sign_xor [of a "a + b"] sint_range [of a] sint_range [of b] by auto
qed

lemma sub_overflow_iff:
  "(a XOR b) AND SIGN_BIT \<noteq> 0 \<and> (a XOR (a - b)) AND SIGN_BIT \<noteq> 0 \<longleftrightarrow>
     \<not> (- (2 ^ 31) \<le> sint a - sint b \<and> sint a - sint b < 2 ^ 31)" for a b :: cint
proof -
  have "a - b = word_of_int (sint a - sint b)" by simp
  then have "sint (a - b) = (if sint a - sint b < - (2 ^ 31) then sint a - sint b + 2 ^ 32
      else if sint a - sint b < 2 ^ 31 then sint a - sint b else sint a - sint b - 2 ^ 32)"
    using sint_range [of a] sint_range [of b] sint_wrap [of "sint a - sint b"] by simp
  then show ?thesis
    using sign_xor [of a b] sign_xor [of a "a - b"] sint_range [of a] sint_range [of b] by auto
qed

text \<open>
  C32. ADD, ADDI and SUB trap exactly on signed overflow: when the mathematical sum or difference
  of the signed operands is a 32-bit number it is written to the destination, and otherwise
  \<open>OverflowException\<close> is raised and nothing is written. The sign-bit tests of the code decide
  this for all operands.
\<close>

theorem overflow_exact:
  "exec_op OP_ADD i pc m = checked (sint (registers m (rs i)) + sint (registers m (rt i))) (rd i) pc m \<and>
   exec_op OP_ADDI i pc m = checked (sint (registers m (rs i)) + sint (extra i)) (rt i) pc m \<and>
   exec_op OP_SUB i pc m = checked (sint (registers m (rs i)) - sint (registers m (rt i))) (rd i) pc m"
proof -
  let ?a = "registers m (rs i)" and ?b = "registers m (rt i)" and ?x = "extra i"
  have "exec_op OP_ADD i pc m = checked (sint ?a + sint ?b) (rd i) pc m"
    using add_overflow_iff [of ?a ?b] by (simp add: exec_ADD_def checked_def write_back_def Let_def)
  moreover have "exec_op OP_ADDI i pc m = checked (sint ?a + sint ?x) (rt i) pc m"
    using add_overflow_iff [of ?x ?a]
    by (simp add: exec_ADDI_def checked_def write_back_def Let_def xor.commute [of _ ?x] add.commute)
  moreover have "exec_op OP_SUB i pc m = checked (sint ?a - sint ?b) (rd i) pc m"
    using sub_overflow_iff [of ?a ?b] by (simp add: exec_SUB_def checked_def write_back_def Let_def)
  ultimately show ?thesis by blast
qed

section \<open>Unaligned loads and stores\<close>

lemma byte_masks:
  "(0xff :: cint) = mask 8" "(0xffff :: cint) = mask 16" "(0xffffff :: cint) = mask 24"
  "(0xffffff00 :: cint) = push_bit 8 (mask 24)" "(0xffff0000 :: cint) = push_bit 16 (mask 16)"
  "(0xff000000 :: cint) = push_bit 24 (mask 8)"
  by (simp_all add: mask_eq_exp_minus_1)

lemma byte_shift:
  "(8 + k) div 8 = 1 + k div 8" "(16 + k) div 8 = 2 + k div 8" "(24 + k) div 8 = 3 + k div 8"
  "(8 + k) mod 8 = k mod 8" "(16 + k) mod 8 = k mod 8" "(24 + k) mod 8 = k mod 8" for k :: nat
proof -
  have "(c * 8 + k) div 8 = c + k div 8" "(c * 8 + k) mod 8 = k mod 8" for c :: nat by simp_all
  from this(1) [of 1] this(1) [of 2] this(1) [of 3] this(2) [of 1] this(2) [of 2] this(2) [of 3]
  show "(8 + k) div 8 = 1 + k div 8" "(16 + k) div 8 = 2 + k div 8" "(24 + k) div 8 = 3 + k div 8"
    "(8 + k) mod 8 = k mod 8" "(16 + k) mod 8 = k mod 8" "(24 + k) mod 8 = k mod 8"
    by simp_all
qed

lemma split_at: "n < c \<or> (\<exists>k. n = c + k)" for n c :: nat
  using le_Suc_ex not_less by blast

lemma bit_load_half: "bit (load_half mem a) n \<longleftrightarrow> n < 16 \<and> bit (mem (a + n div 8)) (n mod 8)"
  using split_at [of n 8]
  by (auto simp: load_half_def bit_word_cat_iff byte_shift)

lemma bit_load_word: "bit (load_word mem a) n \<longleftrightarrow> n < 32 \<and> bit (mem (a + n div 8)) (n mod 8)"
  using split_at [of n 16] by (auto simp: load_word_def bit_word_cat_iff bit_load_half byte_shift)

lemmas merge_bits = byte_masks bit_simps bit_load_word byte_shift

lemma lwr_lwl:
  assumes "byt < 4"
  shows "lwl_merge ((byt + 3) mod 4) (lwr_merge byt old (load_word mem a))
     (load_word mem (a + 4 * ((byt + 3) div 4))) = load_word mem (a + byt)"
proof (rule bit_word_eqI)
  fix n :: nat assume "n < LENGTH(32)"
  then have n: "n < 32" by simp
  have four: "x + 4 + y = Suc (Suc (Suc (Suc (x + y))))" for x y :: nat by simp
  consider "byt = 0" | "byt = 1" | "byt = 2" | "byt = 3" using assms by linarith
  then show "bit (lwl_merge ((byt + 3) mod 4) (lwr_merge byt old (load_word mem a))
    (load_word mem (a + 4 * ((byt + 3) div 4)))) n = bit (load_word mem (a + byt)) n"
  proof cases
    case 2
    then show ?thesis
      using n split_at [of n 24] by (auto simp: lwl_merge_def lwr_merge_def merge_bits add.commute [of 4])
  next
    case 3
    then show ?thesis
      using n split_at [of n 16] by (auto simp: lwl_merge_def lwr_merge_def merge_bits four)
  next
    case 4
    then show ?thesis
      using n split_at [of n 8] by (auto simp: lwl_merge_def lwr_merge_def merge_bits add.assoc add.commute [of 4])
  qed (simp add: lwl_merge_def lwr_merge_def)
qed

definition vmem :: "Machine \<Rightarrow> nat \<Rightarrow> byte" where
  \<comment> \<open>memory as the program addresses it\<close>
  "vmem m va = mainMemory m
     (unat (physicalPage (the (pageTable m) ! (va div PageSize))) * PageSize + va mod PageSize)"

lemma load_word_cong: "(\<And>k. k < 4 \<Longrightarrow> f (a + k) = g (b + k)) \<Longrightarrow> load_word f a = load_word g b"
proof -
  assume "\<And>k. k < 4 \<Longrightarrow> f (a + k) = g (b + k)"
  from this [of 0] this [of 1] this [of 2] this [of 3] show ?thesis
    by (simp add: load_word_def load_half_def numeral_eq_Suc)
qed

lemma ReadMem_vmem:
  assumes "paged m" and r: "ReadMem m p 4 = Inr (Done w m')"
  shows "w = load_word (vmem m) (unat p)" "vmem m' = vmem m" "registers m' = registers m" "paged m'"
    "4 dvd unat p"
proof -
  from assms(1) obtain pt where pt: "tlb m = None" "pageTable m = Some pt" "length pt = pageTableSize m"
    by (auto simp: paged_def)
  have sz: "(4::nat) \<in> {1, 2, 4}" by simp
  obtain t where t: "Translate m p 4 False = Inr t"
    using Translate_total [OF paged_mmu_ok [OF assms(1)] sz] by blast
  with r obtain pa where t': "Translate m p 4 False = Inr (Inr (pa, m'))" and w: "w = load_word (mainMemory m') pa"
    by (auto simp: ReadMem_def RaiseException_def WordToHost_def result_iffs split: sum.splits)
  let ?v = "unat p div PageSize"
  from t' [unfolded Translate_pt [OF pt sz]] have e: "?v < length pt" "aligned p 4"
      "pa = unat (physicalPage (pt ! ?v)) * PageSize + unat p mod PageSize"
      "m' = m\<lparr>pageTable := Some (pt[?v := use_entry False (pt ! ?v)])\<rparr>"
    by (auto simp: Let_def split: if_splits)
  have off: "unat p mod PageSize + 4 \<le> PageSize" by (rule offset_in_page [OF e(2) sz])
  have "(unat p + k) div PageSize = ?v" "(unat p + k) mod PageSize = unat p mod PageSize + k" if "k < 4" for k
  proof -
    have "unat p + k = ?v * PageSize + (unat p mod PageSize + k)" by simp
    moreover have "unat p mod PageSize + k < PageSize" using off that by linarith
    ultimately show "(unat p + k) div PageSize = ?v" "(unat p + k) mod PageSize = unat p mod PageSize + k"
      by (metis div_mult_self3 add_cancel_right_right div_less zero_neq_numeral,
          metis mod_mult_self3 mod_less)
  qed
  then show "w = load_word (vmem m) (unat p)"
    unfolding w by (intro load_word_cong) (simp add: vmem_def pt e add.assoc)
  show "vmem m' = vmem m"
    unfolding e(4) vmem_def using pt e(1) by (auto simp: fun_eq_iff nth_list_update)
  show "registers m' = registers m" "paged m'" using e pt by (simp_all add: paged_def)
  show "4 dvd unat p" by (rule aligned_dvd [OF e(2) sz])
qed

lemma low_bits:
  fixes A :: cint
  shows "unat (A AND 3) = unat A mod 4" "unat (A - (A AND 3)) = unat A - unat A mod 4"
proof -
  show "unat (A AND 3) = unat A mod 4" by (rule unat_and_3)
  then show "unat (A - (A AND 3)) = unat A - unat A mod 4"
    by (subst unat_sub) (simp_all add: word_le_nat_alt)
qed

lemma exec_LWR_Done:
  assumes "paged m" and "exec_LWR i pc m = Inr (Done (pc', r, v) m')"
  shows "r = of_nat (rt i) \<and> vmem m' = vmem m \<and> registers m' = registers m \<and> paged m' \<and> pc' = pc \<and>
    (let A = unat (registers m (rs i) + extra i) in
     v = lwr_merge (A mod 4) (pending_or_reg m (rt i)) (load_word (vmem m) (A - A mod 4)))"
proof -
  let ?A = "registers m (rs i) + extra i"
  obtain w where "ReadMem m (?A - (?A AND 3)) 4 = Inr (Done w m')"
    "r = of_nat (rt i)" "v = lwr_merge (unat (?A AND 3)) (pending_or_reg m' (rt i)) w" "pc' = pc"
    using assms(2) by (auto simp: exec_LWR_def Let_def result_iffs)
  with ReadMem_vmem [OF assms(1) this(1)] low_bits [of ?A] show ?thesis
    by (simp add: Let_def pending_or_reg_def)
qed

lemma exec_LWL_Done:
  assumes "paged m" and "exec_LWL i pc m = Inr (Done (pc', r, v) m')"
  shows "r = of_nat (rt i) \<and> vmem m' = vmem m \<and> registers m' = registers m \<and> paged m' \<and> pc' = pc \<and>
    (let A = unat (registers m (rs i) + extra i) in
     v = lwl_merge (A mod 4) (pending_or_reg m (rt i)) (load_word (vmem m) (A - A mod 4)))"
proof -
  let ?A = "registers m (rs i) + extra i"
  obtain w where "ReadMem m (?A - (?A AND 3)) 4 = Inr (Done w m')"
    "r = of_nat (rt i)" "v = lwl_merge (unat (?A AND 3)) (pending_or_reg m' (rt i)) w" "pc' = pc"
    using assms(2) by (auto simp: exec_LWL_def Let_def result_iffs)
  with ReadMem_vmem [OF assms(1) this(1)] low_bits [of ?A] show ?thesis
    by (simp add: Let_def pending_or_reg_def)
qed

lemma next_word_base:
  "a + 3 - (a + 3) mod 4 = a - a mod 4 + 4 * ((a mod 4 + 3) div 4)" for a :: nat
  by (simp add: minus_mod_eq_mult_div div_add1_eq [of a 3])

text \<open>
  The pair LWR at A, LWL at A+3 into the same register loads the unaligned little-endian word
  at virtual address A, for every alignment of A and also across a page boundary, with the LWL in
  the load delay slot of the LWR: it merges with the pending value, not with the register.
\<close>

theorem unaligned_load:
  assumes "paged m" and "paged m'" and "vmem m' = vmem m" and "rt j = rt i"
    and lwr: "exec_op OP_LWR i pc m = Inr (Done (pc1, r, v) m1)"
    and pend: "registers m' LoadReg = r" "registers m' LoadValueReg = v"
    and addr: "unat (registers m' (rs j) + extra j) = unat (registers m (rs i) + extra i) + 3"
    and lwl: "exec_op OP_LWL j pc' m' = Inr (Done (pc2, r', v') m2)"
  shows "r' = of_nat (rt i) \<and> v' = load_word (vmem m) (unat (registers m (rs i) + extra i))"
proof -
  let ?A = "unat (registers m (rs i) + extra i)"
  from exec_LWR_Done [OF assms(1) lwr [unfolded exec_op.simps]] have 1: "r = of_nat (rt i)"
    "v = lwr_merge (?A mod 4) (pending_or_reg m (rt i)) (load_word (vmem m) (?A - ?A mod 4))"
    by (simp_all add: Let_def)
  from exec_LWL_Done [OF assms(2) lwl [unfolded exec_op.simps]] have 2: "r' = of_nat (rt j)"
    "v' = lwl_merge ((?A + 3) mod 4) v (load_word (vmem m) (?A + 3 - (?A + 3) mod 4))"
    using pend 1(1) assms(3,4) addr by (simp_all add: Let_def pending_or_reg_def)
  have eq: "(?A + 3) mod 4 = (?A mod 4 + 3) mod 4" "?A - ?A mod 4 + ?A mod 4 = ?A"
    by (simp_all add: mod_simps)
  have "v' = load_word (vmem m) (?A - ?A mod 4 + ?A mod 4)"
    unfolding 2(2) 1(2) next_word_base unfolding eq(1) by (rule lwr_lwl) simp
  with 2(1) assms(4) eq(2) show ?thesis by (simp only:)
qed

definition lwr_i :: Instruction where
  "lwr_i = \<lparr>ivalue = 0, opCode = OP_LWR, rs = 0, rt = 5, rd = 0, extra = 1\<rparr>"

definition lwl_i :: Instruction where
  "lwl_i = \<lparr>ivalue = 0, opCode = OP_LWL, rs = 0, rt = 5, rd = 0, extra = 4\<rparr>"

definition machine_lwl :: Machine where
  "machine_lwl = machine_sw\<lparr>registers := (registers machine_sw)(LoadReg := 5, LoadValueReg := 0x00ac0100)\<rparr>"

theorem unaligned_load_witness:
  "\<exists>v m1 m2. exec_op OP_LWR lwr_i 4 machine_sw = Inr (Done (4, 5, 0x00ac0100) m1) \<and>
     exec_op OP_LWL lwl_i 8 machine_lwl = Inr (Done (8, 5, v) m2) \<and> v = load_word (vmem machine_sw) 1"
proof -
  have p: "paged machine_sw" "paged machine_lwl" "vmem machine_lwl = vmem machine_sw"
    using user_ready_machine_sw by (simp_all add: user_ready_def machine_lwl_def paged_def vmem_def fun_eq_iff)
  have "lwr_merge 1 9 0xac010008 = 0x00ac0100" by code_simp
  then obtain m1 where 1: "exec_op OP_LWR lwr_i 4 machine_sw = Inr (Done (4, 5, 0x00ac0100) m1)"
    by (simp add: lwr_i_def exec_LWR_def Let_def bindA_def fetch_sw pending_or_reg_def)
  obtain v m2 where 2: "exec_op OP_LWL lwl_i 8 machine_lwl = Inr (Done (8, 5, v) m2)"
    by (simp add: lwl_i_def exec_LWL_def Let_def bindA_def machine_lwl_def ReadMem_def aligned_def
      Translate_pt [where pt = "the (pageTable machine1)"] machine_sw_def machine1_def Machine_init_def Let_def)
  from unaligned_load [OF p _ 1 _ _ _ 2] 1 2 show ?thesis
    by (simp add: lwr_i_def lwl_i_def machine_lwl_def)
qed

section \<open>Delay slots\<close>

lemma OneInstruction_Done:
  assumes "user_ready m" and "OneInstruction m = Inr (Done () m')"
  obtains raw pc nr nv m1 m2 m3 where "ReadMem m (registers m PCReg) 4 = Inr (Done raw m1)"
    "registers m1 = registers m" "exec_op (opCode (Decode raw)) (Decode raw) (registers m NextPCReg + 4) m1 = Inr (Done (pc, nr, nv) m2)"
    "\<And>r. PCReg \<le> r \<Longrightarrow> registers m2 r = registers m r" "DelayedLoad m2 nr nv = Inr m3" "m' = advance_pc pc m3"
proof -
  have m: "pending_ok m" "paged m" using assms(1) by (auto simp: user_ready_def cpu_ok_pending)
  obtain raw pc nr nv m1 m2 m3 where r: "ReadMem m (registers m PCReg) 4 = Inr (Done raw m1)"
    and e: "exec_op (opCode (Decode raw)) (Decode raw) (registers m1 NextPCReg + 4) m1 = Inr (Done (pc, nr, nv) m2)"
    and d: "DelayedLoad m2 nr nv = Inr m3" "m' = advance_pc pc m3"
    using assms(2) by (auto simp: OneInstruction_def Let_def result_iffs)
  have m1: "registers m1 = registers m" "paged m1"
    using ReadMem_contract [OF m, of 4 "registers m PCReg"] r by (auto simp: confined_paged)
  then have "\<not> (opCode (Decode raw) = OP_DIV \<and> registers m1 (rs (Decode raw)) = SIGN_BIT \<and>
        registers m1 (rt (Decode raw)) = - 1)"
    using e by (auto simp: exec_DIV_def Let_def)
  from exec_op_contract [OF pending_ok_cong [OF m(1) m1(1)] m1(2) Decode_registers Decode_opCode this,
      of "registers m1 NextPCReg + 4"] e
  have "\<And>r. PCReg \<le> r \<Longrightarrow> registers m2 r = registers m r" by (simp add: exit_ok_def m1(1))
  with r e d m1 that show thesis by metis
qed

text \<open>
  Delay slots. A completed instruction always moves the PC to the old \<open>NextPC\<close>, whatever it
  computed as the one after (so the instruction after a branch runs before the target), and
  commits the load that was pending when it started, overriding its own write to that register.
\<close>

theorem delay_slots:
  assumes "user_ready m" and "OneInstruction m = Inr (Done () m')"
  shows "registers m' PCReg = registers m NextPCReg \<and> registers m' PrevPCReg = registers m PCReg \<and>
    (let t = unat (registers m LoadReg) in t \<noteq> 0 \<longrightarrow> registers m' t = registers m LoadValueReg)"
proof -
  from OneInstruction_Done [OF assms] obtain pc nr nv m2 m3 where
    "\<And>r. PCReg \<le> r \<Longrightarrow> registers m2 r = registers m r" "DelayedLoad m2 nr nv = Inr m3" "m' = advance_pc pc m3"
    by metis
  moreover have "unat (registers m LoadReg) < 32" using assms(1) by (simp add: user_ready_def cpu_ok_def)
  ultimately show ?thesis by (auto simp: DelayedLoad_def Let_def advance_pc_def)
qed

theorem delay_slots_witness:
  "\<exists>m'. OneInstruction machine_sw = Inr (Done () m') \<and> registers m' PCReg = 4 \<and> registers m' 5 = 9"
proof -
  obtain m' where m': "OneInstruction machine_sw = Inr (Done () m')" using OneInstruction_machine_sw by blast
  from delay_slots [OF user_ready_machine_sw m'] m' show ?thesis by (simp add: Let_def)
qed

section \<open>Shifts\<close>

text \<open>The logical right shifts go through the signed \<open>int tmp\<close> and behave like the arithmetic ones.\<close>

lemma srl_is_sra:
  "exec_op OP_SRL i pc m = exec_op OP_SRA i pc m" "exec_op OP_SRLV i pc m = exec_op OP_SRAV i pc m"
  by simp_all

end
