(* ===== verification/AddrSpace.thy ===== *)
theory AddrSpace
  imports Bitmap Mips_Semantics
begin

unbundle bit_operations_syntax

text \<open>
  Address spaces: userprog/addrspace.cc and the NOFF header of userprog/noff.h.

  The part of the kernel's global state these routines use is the record \<open>KernelMem\<close>: the
  machine, the bitmap \<^verbatim>\<open>kernel->gPhysPageBitMap\<close> and the value of the semaphore
  \<^verbatim>\<open>kernel->addrLock\<close>. An open executable is known through its \<open>ReadAt\<close>, a function from the
  number of bytes and the position to the bytes that were read; a failed \<^verbatim>\<open>Open\<close> is \<open>None\<close>.
  \<^verbatim>\<open>addrLock->P()\<close> on a semaphore whose value is 0 puts the caller to sleep: \<open>MustWait\<close>.
\<close>

section \<open>Data\<close>

record Segment =
  virtualAddr :: cint
  inFileAddr :: cint
  seg_size :: cint

record NoffHeader =
  noffMagic :: cint
  code :: Segment
  initData :: Segment
  readonlyData :: Segment
  uninitData :: Segment

abbreviation NOFFMAGIC :: cint where "NOFFMAGIC \<equiv> 0xbadfad"
abbreviation UserStackSize :: cint where "UserStackSize \<equiv> 1024"

record KernelMem =
  machine :: Machine
  gPhysPageBitMap :: Bitmap
  addrLock :: int

record AddrSpace =
  as_pageTable :: "TranslationEntry list option"   \<comment> \<open>\<open>None\<close>: the pointer was never set\<close>
  as_numPages :: nat

type_synonym read_at = "int \<Rightarrow> int \<Rightarrow> (byte list) result"

datatype 'a entered = Entered 'a | MustWait

section \<open>Operations\<close>

definition Segment_swap :: "bool \<Rightarrow> Segment \<Rightarrow> Segment" where
  "Segment_swap big s = \<lparr>virtualAddr = WordToHost big (virtualAddr s),
     inFileAddr = WordToHost big (inFileAddr s), seg_size = WordToHost big (seg_size s)\<rparr>"

definition SwapHeader :: "bool \<Rightarrow> NoffHeader \<Rightarrow> NoffHeader" where
  "SwapHeader big h = \<lparr>noffMagic = WordToHost big (noffMagic h), code = Segment_swap big (code h),
     initData = Segment_swap big (initData h), readonlyData = Segment_swap big (readonlyData h),
     uninitData = Segment_swap big (uninitData h)\<rparr>"

definition Segment_of :: "(nat \<Rightarrow> byte) \<Rightarrow> nat \<Rightarrow> Segment" where
  "Segment_of f a = \<lparr>virtualAddr = load_word f a, inFileAddr = load_word f (a + 4),
     seg_size = load_word f (a + 8)\<rparr>"

definition NoffHeader_of :: "(nat \<Rightarrow> byte) \<Rightarrow> NoffHeader" where
  "NoffHeader_of f = \<lparr>noffMagic = load_word f 0, code = Segment_of f 4, initData = Segment_of f 16,
     readonlyData = Segment_of f 28, uninitData = Segment_of f 40\<rparr>"

definition get_header :: "bool \<Rightarrow> read_at \<Rightarrow> (nat \<Rightarrow> byte) \<Rightarrow> NoffHeader result" where
  \<comment> \<open>\<open>stack\<close> is what the local variable \<open>noffH\<close> held before the read\<close>
  "get_header big readAt stack =
     bindE (readAt 52 0) (\<lambda>bs.
       let h = NoffHeader_of (\<lambda>i. if i < length bs then bs ! i else stack i);
           h' = (if noffMagic h \<noteq> NOFFMAGIC \<and> WordToHost big (noffMagic h) = NOFFMAGIC
                 then SwapHeader big h else h)
       in assertE (noffMagic h' = NOFFMAGIC) (Inr h'))"

definition write_mem :: "(nat \<Rightarrow> byte) \<Rightarrow> int \<Rightarrow> byte list \<Rightarrow> (nat \<Rightarrow> byte) result" where
  "write_mem mem a bs =
     (if bs = [] then Inr mem
      else if 0 \<le> a \<and> a + int (length bs) \<le> int MemorySize
      then Inr (\<lambda>q. if nat a \<le> q \<and> q < nat a + length bs then bs ! (q - nat a) else mem q)
      else Inl BadAccess)"

definition set_memory :: "KernelMem \<Rightarrow> (nat \<Rightarrow> byte) \<Rightarrow> KernelMem" where
  "set_memory k mem = k\<lparr>machine := (machine k)\<lparr>mainMemory := mem\<rparr>\<rparr>"

definition alloc_page ::
  "int \<Rightarrow> TranslationEntry list \<times> KernelMem \<Rightarrow> (TranslationEntry list \<times> KernelMem) result" where
  "alloc_page i s = (case s of (pt, k) \<Rightarrow>
     bindE (Bitmap_FindAndSet (gPhysPageBitMap k)) (\<lambda>(f, bm).
       let e = \<lparr>virtualPage = of_int i, physicalPage = of_int f, valid = True, readOnly = False,
                use = False, dirty = False\<rparr>
       in bindE (write_mem (mainMemory (machine k)) (sint (physicalPage e * of_nat PageSize))
                   (replicate PageSize 0)) (\<lambda>mem.
            Inr (pt @ [e], set_memory (k\<lparr>gPhysPageBitMap := bm\<rparr>) mem))))"

definition space_pages :: "cint \<Rightarrow> nat" where
  \<comment> \<open>\<open>divRoundUp(size, PageSize)\<close> on an unsigned \<open>size\<close>\<close>
  "space_pages sz = unat (sz div of_nat PageSize + (if sz mod of_nat PageSize > 0 then 1 else 0))"

definition reserve_pages :: "cint \<Rightarrow> KernelMem \<Rightarrow> ((TranslationEntry list option) \<times> KernelMem) result" where
  \<comment> \<open>from \<open>numPages = ...\<close> to the end of the page loop; \<open>None\<close> when there is not enough room\<close>
  "reserve_pages sz k =
     (let numPages = space_pages sz in
      assertE (numPages \<le> NumPhysPages)
        (bindE (Bitmap_NumClear (gPhysPageBitMap k)) (\<lambda>clear.
          if int numPages > clear then Inr (None, k)
          else bindE (for_loop 0 (int numPages) alloc_page ([], k)) (\<lambda>(pt, k').
            Inr (Some pt, k')))))"

definition load_segment :: "read_at \<Rightarrow> Segment \<Rightarrow> TranslationEntry list \<Rightarrow> KernelMem \<Rightarrow> KernelMem result" where
  "load_segment readAt seg pt k =
     (if sint (seg_size seg) > 0
      then for_loop 0 (int (length pt)) (\<lambda>i k.
        bindE (aget pt i) (\<lambda>e.
        bindE (readAt (int PageSize) (sint (inFileAddr seg + of_int i * of_nat PageSize))) (\<lambda>bs.
        bindE (write_mem (mainMemory (machine k))
                (sint (virtualAddr seg + physicalPage e * of_nat PageSize)) bs) (\<lambda>mem.
          Inr (set_memory k mem))))) k
      else Inr k)"

definition locked :: "KernelMem \<Rightarrow> (KernelMem \<Rightarrow> ('a \<times> KernelMem) result) \<Rightarrow> (('a \<times> KernelMem) entered) result" where
  \<comment> \<open>\<open>addrLock->P(); body; addrLock->V();\<close>\<close>
  "locked k body =
     (if addrLock k = 0 then Inr MustWait
      else bindE (body (k\<lparr>addrLock := addrLock k - 1\<rparr>)) (\<lambda>(x, k').
        Inr (Entered (x, k'\<lparr>addrLock := addrLock k' + 1\<rparr>))))"

definition AddrSpace_new ::
  "bool \<Rightarrow> read_at option \<Rightarrow> (nat \<Rightarrow> byte) \<Rightarrow> KernelMem \<Rightarrow> ((AddrSpace \<times> KernelMem) entered) result" where
  \<comment> \<open>the constructor \<open>AddrSpace(char *fileName)\<close>\<close>
  "AddrSpace_new big executable stack k =
     (case executable of
        None \<Rightarrow> Inl BadAccess
      | Some readAt \<Rightarrow> bindE (get_header big readAt stack) (\<lambda>h.
          locked k (\<lambda>k1.
            let sz = seg_size (code h) + seg_size (initData h) + seg_size (uninitData h) + UserStackSize in
            bindE (reserve_pages sz k1) (\<lambda>(r, k2).
              case r of
                None \<Rightarrow> Inr (\<lparr>as_pageTable = None, as_numPages = 0\<rparr>, k2)
              | Some pt \<Rightarrow>
                  bindE (load_segment readAt (code h) pt k2) (\<lambda>k3.
                  bindE (load_segment readAt (initData h) pt k3) (\<lambda>k4.
                    Inr (\<lparr>as_pageTable = Some pt, as_numPages = length pt\<rparr>, k4)))))))"

definition AddrSpace_Load ::
  "bool \<Rightarrow> read_at option \<Rightarrow> (nat \<Rightarrow> byte) \<Rightarrow> AddrSpace \<Rightarrow> KernelMem
    \<Rightarrow> (((bool \<times> AddrSpace) \<times> KernelMem) entered) result" where
  "AddrSpace_Load big executable stack sp k =
     (case executable of
        None \<Rightarrow> Inr (Entered ((False, sp), k))
      | Some readAt \<Rightarrow> bindE (get_header big readAt stack) (\<lambda>h.
          locked k (\<lambda>k1.
            let sz = seg_size (code h) + seg_size (readonlyData h) + seg_size (initData h) +
                     seg_size (uninitData h) + UserStackSize in
            bindE (reserve_pages sz k1) (\<lambda>(r, k2).
              case r of
                None \<Rightarrow> Inr ((False, sp\<lparr>as_numPages := 0\<rparr>), k2)
              | Some pt \<Rightarrow>
                  bindE (load_segment readAt (code h) pt k2) (\<lambda>k3.
                  bindE (load_segment readAt (initData h) pt k3) (\<lambda>k4.
                  bindE (if sint (seg_size (readonlyData h)) > 0
                         then bindE (readAt (sint (seg_size (readonlyData h)))
                                            (sint (inFileAddr (readonlyData h)))) (\<lambda>bs.
                              bindE (write_mem (mainMemory (machine k4))
                                      (sint (virtualAddr (readonlyData h))) bs) (\<lambda>mem.
                                Inr (set_memory k4 mem)))
                         else Inr k4) (\<lambda>k5.
                    Inr ((True, \<lparr>as_pageTable = Some pt, as_numPages = length pt\<rparr>), k5))))))))"

definition AddrSpace_delete :: "AddrSpace \<Rightarrow> KernelMem \<Rightarrow> KernelMem result" where
  \<comment> \<open>the destructor; \<open>delete []\<close> of a pointer that was never set is an invalid access\<close>
  "AddrSpace_delete sp k =
     bindE (for_loop 0 (int (as_numPages sp)) (\<lambda>i k.
       (case as_pageTable sp of
          None \<Rightarrow> Inl BadAccess
        | Some pt \<Rightarrow> bindE (aget pt i) (\<lambda>e.
            bindE (Bitmap_Clear (gPhysPageBitMap k) (sint (physicalPage e))) (\<lambda>bm.
              Inr (k\<lparr>gPhysPageBitMap := bm\<rparr>))))) k) (\<lambda>k'.
     case as_pageTable sp of None \<Rightarrow> Inl BadAccess | Some _ \<Rightarrow> Inr k')"

definition InitRegisters :: "AddrSpace \<Rightarrow> Machine \<Rightarrow> Machine result" where
  "InitRegisters sp m =
     bindE (for_loop 0 (int NumTotalRegs) (\<lambda>i m. WriteRegister m i 0) m) (\<lambda>m1.
     bindE (WriteRegister m1 (int PCReg) 0) (\<lambda>m2.
     bindE (WriteRegister m2 (int NextPCReg) 4) (\<lambda>m3.
       WriteRegister m3 (int StackReg) (of_nat (as_numPages sp) * of_nat PageSize - 16))))"

definition SaveState :: "AddrSpace \<Rightarrow> Machine \<Rightarrow> Machine" where
  "SaveState sp m = m"

definition RestoreState :: "AddrSpace \<Rightarrow> Machine \<Rightarrow> Machine" where
  "RestoreState sp m = m\<lparr>pageTable := as_pageTable sp, pageTableSize := as_numPages sp\<rparr>"

definition Execute_setup :: "AddrSpace \<Rightarrow> Machine \<Rightarrow> Machine result" where
  \<comment> \<open>\<open>Execute\<close> up to \<open>machine->Run()\<close>, which never returns\<close>
  "Execute_setup sp m = bindE (InitRegisters sp m) (\<lambda>m1. Inr (RestoreState sp m1))"

definition AddrSpace_Translate ::
  "AddrSpace \<Rightarrow> cint \<Rightarrow> bool \<Rightarrow> (ExceptionType + nat \<times> AddrSpace) result" where
  "AddrSpace_Translate sp vaddr isReadWrite =
     (let vpn = unat vaddr div PageSize; offset = unat vaddr mod PageSize in
      if vpn \<ge> as_numPages sp then Inr (Inl AddressErrorException)
      else case as_pageTable sp of
        None \<Rightarrow> Inl BadAccess
      | Some pt \<Rightarrow> bindE (aget pt (int vpn)) (\<lambda>pte.
          if isReadWrite \<and> readOnly pte then Inr (Inl ReadOnlyException)
          else let pfn = physicalPage pte in
            if sint pfn \<ge> int NumPhysPages then Inr (Inl BusErrorException)
            else let paddr = unat (pfn * of_nat PageSize + of_nat offset) in
              assertE (paddr < MemorySize)
                (Inr (Inr (paddr, sp\<lparr>as_pageTable := Some (pt[vpn := use_entry isReadWrite pte])\<rparr>)))))"

section \<open>Allocating the pages\<close>

definition frames :: "TranslationEntry list \<Rightarrow> int list" where
  "frames pt = map (\<lambda>e. sint (physicalPage e)) pt"

definition fresh_entry :: "nat \<Rightarrow> TranslationEntry \<Rightarrow> bool" where
  "fresh_entry i e \<longleftrightarrow> virtualPage e = of_nat i \<and> valid e \<and> \<not> readOnly e \<and> \<not> use e \<and> \<not> dirty e"

definition owned_bytes :: "TranslationEntry list \<Rightarrow> nat set" where
  "owned_bytes pt = {q. int (q div PageSize) \<in> set (frames pt)}"

lemma length_frames [simp]: "length (frames pt) = length pt"
  by (simp add: frames_def)

lemma frames_nth: "j < length pt \<Longrightarrow> frames pt ! j = sint (physicalPage (pt ! j))"
  by (simp add: frames_def)

lemma frame_range: "set (frames pt) \<subseteq> {0..<128} \<Longrightarrow> j < length pt \<Longrightarrow> frames pt ! j \<in> {0..<128}"
  by (metis length_frames nth_mem subsetD)

lemma sint_frame [simp]: "0 \<le> f \<Longrightarrow> f < 128 \<Longrightarrow> sint (word_of_int f :: cint) = f"
  by (rule sint_word_of_int) simp_all

lemma sint_frame_address [simp]:
  "0 \<le> f \<Longrightarrow> f < 128 \<Longrightarrow> sint (word_of_int f * 128 :: cint) = f * 128"
  using sint_word_of_int [of "f * 128"] by simp

lemma page_split:
  fixes q n l :: nat
  assumes "l \<le> 128"
  shows "n * 128 \<le> q \<and> q < n * 128 + l \<longleftrightarrow> q div 128 = n \<and> q mod 128 < l"
    and "q div 128 = n \<Longrightarrow> q - n * 128 = q mod 128"
proof -
  have q: "q div 128 * 128 + q mod 128 = q" by simp
  then show "q div 128 = n \<Longrightarrow> q - n * 128 = q mod 128" by linarith
  have "q div 128 = n" if "n * 128 \<le> q" "q < n * 128 + l"
    using that assms by (intro div_nat_eqI) simp_all
  with q show "n * 128 \<le> q \<and> q < n * 128 + l \<longleftrightarrow> q div 128 = n \<and> q mod 128 < l"
    by (metis add_less_cancel_left le_add1)
qed

lemma write_page:
  assumes "0 \<le> f" "f < 128" "length bs \<le> 128"
  shows "\<exists>mem'. write_mem mem (f * 128) bs = Inr mem' \<and>
    (\<forall>q. mem' q = (if int (q div 128) = f \<and> q mod 128 < length bs then bs ! (q mod 128) else mem q))"
proof -
  obtain n where f: "f = int n" using assms(1) nonneg_int_cases by blast
  have "nat (f * 128) = n * 128" unfolding f by (simp add: nat_mult_distrib)
  with assms f have "write_mem mem (f * 128) bs =
      Inr (\<lambda>q. if n * 128 \<le> q \<and> q < n * 128 + length bs then bs ! (q - n * 128) else mem q)"
    by (auto simp: write_mem_def fun_eq_iff)
  then show ?thesis
    unfolding page_split(1) [OF assms(3)] f using page_split(2) [OF assms(3)] by auto
qed

definition zeroed :: "KernelMem \<Rightarrow> TranslationEntry list \<Rightarrow> nat \<Rightarrow> byte" where
  "zeroed k pt q = (if q \<in> owned_bytes pt then 0 else mainMemory (machine k) q)"

definition page_loop_inv :: "KernelMem \<Rightarrow> int \<Rightarrow> TranslationEntry list \<times> KernelMem \<Rightarrow> bool" where
  "page_loop_inv k i s \<longleftrightarrow> (case s of (pt, k') \<Rightarrow>
     int (length pt) = i \<and> (\<forall>j < length pt. fresh_entry j (pt ! j)) \<and>
     distinct (frames pt) \<and> set (frames pt) \<subseteq> {0..<128} - marked (gPhysPageBitMap k) \<and>
     wf_Bitmap (gPhysPageBitMap k') \<and> numBits (gPhysPageBitMap k') = numBits (gPhysPageBitMap k) \<and>
     marked (gPhysPageBitMap k') = marked (gPhysPageBitMap k) \<union> set (frames pt) \<and>
     machine k' = (machine k)\<lparr>mainMemory := zeroed k pt\<rparr> \<and> addrLock k' = addrLock k)"

lemma low_frame_free:
  assumes "wf_Bitmap b" and "128 \<le> numBits b" and "card (marked b \<inter> {0..<128}) < 128"
  shows "\<exists>i b'. Bitmap_FindAndSet b = Inr (i, b') \<and> 0 \<le> i \<and> i < 128 \<and> i \<notin> marked b \<and>
    wf_Bitmap b' \<and> numBits b' = numBits b \<and> marked b' = insert i (marked b)"
proof -
  have "\<not> {0..<128} \<subseteq> marked b"
  proof
    assume "{0..<128} \<subseteq> marked b"
    then have "marked b \<inter> {0..<128} = {0..<128 :: int}" by blast
    with assms(3) show False by simp
  qed
  then obtain j where j: "0 \<le> j" "j < 128" "j \<notin> marked b"
    by (meson atLeastLessThan_iff subsetI)
  then have "marked b \<noteq> {0..<numBits b}" using assms(2) by auto
  from FindAndSet_free [OF assms(1) this] obtain i b' where i: "Bitmap_FindAndSet b = Inr (i, b')" "0 \<le> i"
    "i \<notin> marked b" "{0..<i} \<subseteq> marked b" "wf_Bitmap b'" "numBits b' = numBits b" "marked b' = insert i (marked b)"
    by blast
  moreover have "i \<le> j" using j i by (meson atLeastLessThan_iff not_le subsetD)
  ultimately show ?thesis using j by auto
qed

lemma alloc_page_step:
  assumes inv: "page_loop_inv k i (pt, k')" and "0 \<le> i"
    and room: "i + int (card (marked (gPhysPageBitMap k) \<inter> {0..<128})) < 128"
    and "128 \<le> numBits (gPhysPageBitMap k)"
  shows "\<exists>s'. alloc_page i (pt, k') = Inr s' \<and> page_loop_inv k (i + 1) s'"
proof -
  let ?M = "marked (gPhysPageBitMap k)"
  note I = inv [unfolded page_loop_inv_def, simplified]
  have "(?M \<union> set (frames pt)) \<inter> {0..<128} = (?M \<inter> {0..<128}) \<union> set (frames pt)" using I by auto
  then have "card ((?M \<union> set (frames pt)) \<inter> {0..<128}) \<le> card (?M \<inter> {0..<128}) + card (set (frames pt))"
    by (simp only: card_Un_le)
  moreover have "int (card (set (frames pt))) = i"
    using I distinct_card [of "frames pt"] by (simp add: frames_def)
  ultimately have "card (marked (gPhysPageBitMap k') \<inter> {0..<128}) < 128" using I room by simp
  with low_frame_free [of "gPhysPageBitMap k'"] I assms(4) obtain f bm where
    f: "Bitmap_FindAndSet (gPhysPageBitMap k') = Inr (f, bm)" "0 \<le> f" "f < 128" "f \<notin> marked (gPhysPageBitMap k')"
    "wf_Bitmap bm" "numBits bm = numBits (gPhysPageBitMap k')" "marked bm = insert f (marked (gPhysPageBitMap k'))"
    by auto
  obtain mem' where w: "write_mem (mainMemory (machine k')) (f * 128) (replicate 128 0) = Inr mem'"
    and m': "\<And>q. mem' q = (if int (q div 128) = f then 0 else mainMemory (machine k') q)"
    using write_page [of f "replicate 128 0" "mainMemory (machine k')"] f by auto
  let ?e = "\<lparr>virtualPage = word_of_int i, physicalPage = word_of_int f, valid = True, readOnly = False, use = False, dirty = False\<rparr>"
  have "alloc_page i (pt, k') = Inr (pt @ [?e], set_memory (k'\<lparr>gPhysPageBitMap := bm\<rparr>) mem')"
    using f w by (simp add: alloc_page_def Let_def)
  moreover have "page_loop_inv k (i + 1) (pt @ [?e], set_memory (k'\<lparr>gPhysPageBitMap := bm\<rparr>) mem')"
  proof -
    let ?pt = "pt @ [?e]"
    have fr: "frames ?pt = frames pt @ [f]" using f by (simp add: frames_def)
    have "fresh_entry j (?pt ! j)" if "j < length ?pt" for j
      using I that \<open>0 \<le> i\<close> by (cases "j = length pt") (auto simp: nth_append fresh_entry_def)
    moreover have "mem' = zeroed k ?pt"
      using m' I by (auto simp: fun_eq_iff zeroed_def owned_bytes_def fr)
    moreover have "distinct (frames ?pt)" "set (frames ?pt) \<subseteq> {0..<128} - ?M"
      "marked bm = ?M \<union> set (frames ?pt)" "int (length ?pt) = i + 1"
      unfolding fr using I f by auto
    ultimately show ?thesis
      using I f unfolding page_loop_inv_def by (simp add: set_memory_def)
  qed
  ultimately show ?thesis by blast
qed

text \<open>With enough free frames below \<open>NumPhysPages\<close> the page loop succeeds.\<close>

definition low_free :: "Bitmap \<Rightarrow> nat" where
  "low_free b = 128 - card (marked b \<inter> {0..<128})"

lemma reserve_pages_ok:
  assumes "wf_Bitmap (gPhysPageBitMap k)" and "128 \<le> numBits (gPhysPageBitMap k)"
    and "space_pages sz \<le> low_free (gPhysPageBitMap k)"
  shows "\<exists>pt k'. reserve_pages sz k = Inr (Some pt, k') \<and> page_loop_inv k (int (space_pages sz)) (pt, k')"
proof -
  let ?b = "gPhysPageBitMap k" and ?n = "space_pages sz"
  have fin: "finite (marked ?b)" using finite_subset [OF marked_subset [of ?b]] by simp
  have c128: "card (marked ?b \<inter> {0..<128}) \<le> 128"
    using card_mono [of "{0..<128::int}" "marked ?b \<inter> {0..<128}"] by simp
  have "card (marked ?b) = card (marked ?b \<inter> {0..<128}) + card (marked ?b - {0..<128})"
    using fin by (metis card_Int_Diff)
  moreover have "card (marked ?b - {0..<128}) \<le> card {128..<numBits ?b}"
    by (rule card_mono) (use marked_subset [of ?b] in auto)
  ultimately have clear: "int ?n \<le> numBits ?b - int (card (marked ?b))"
    using assms(2,3) c128 by (simp add: low_free_def)
  have "\<exists>s. for_loop 0 (int ?n) alloc_page ([], k) = Inr s \<and> page_loop_inv k (int ?n) s"
  proof (rule for_loop_rule [where I = "page_loop_inv k"])
    show "page_loop_inv k 0 ([], k)"
      using assms(1) by (simp add: page_loop_inv_def frames_def owned_bytes_def zeroed_def [abs_def])
    fix i s assume "0 \<le> i" "i < int ?n" "page_loop_inv k i s"
    then show "\<exists>s'. alloc_page i s = Inr s' \<and> page_loop_inv k (i + 1) s'"
      using alloc_page_step [of k i "fst s" "snd s"] assms(2,3) c128 by (simp add: low_free_def)
  qed simp
  then obtain pt k' where l: "for_loop 0 (int ?n) alloc_page ([], k) = Inr (pt, k')"
    "page_loop_inv k (int ?n) (pt, k')" by (metis surj_pair)
  moreover have "?n \<le> NumPhysPages" using assms(3) by (simp add: low_free_def)
  ultimately show ?thesis
    using clear NumClear_card [OF assms(1)] by (simp add: reserve_pages_def Let_def)
qed

section \<open>Loading the code\<close>

text \<open>What \<^verbatim>\<open>read\<close> of a regular UNIX file returns: the bytes from the position on, as far as there are any.\<close>

definition regular_file :: "read_at \<Rightarrow> byte list \<Rightarrow> bool" where
  "regular_file readAt file \<longleftrightarrow>
     (\<forall>n pos. 0 \<le> n \<and> 0 \<le> pos \<longrightarrow> readAt n pos = Inr (take (nat n) (drop (nat pos) file)))"

definition image_byte :: "byte list \<Rightarrow> nat \<Rightarrow> byte \<Rightarrow> byte" where
  "image_byte file a old = (if a < length file then file ! a else old)"

definition page_byte :: "KernelMem \<Rightarrow> TranslationEntry list \<Rightarrow> nat \<Rightarrow> nat \<Rightarrow> byte" where
  "page_byte k pt j off = mainMemory (machine k) (nat (frames pt ! j) * 128 + off)"

definition load_inv :: "byte list \<Rightarrow> nat \<Rightarrow> TranslationEntry list \<Rightarrow> KernelMem \<Rightarrow> int \<Rightarrow> KernelMem \<Rightarrow> bool" where
  "load_inv file base pt k i k' \<longleftrightarrow>
     gPhysPageBitMap k' = gPhysPageBitMap k \<and> addrLock k' = addrLock k \<and>
     machine k' = (machine k)\<lparr>mainMemory := mainMemory (machine k')\<rparr> \<and>
     (\<forall>j < length pt. \<forall>off < 128. page_byte k' pt j off =
        (if int j < i then image_byte file (base + j * 128 + off) (page_byte k pt j off)
         else page_byte k pt j off)) \<and>
     (\<forall>q. q \<notin> owned_bytes pt \<longrightarrow> mainMemory (machine k') q = mainMemory (machine k) q)"

lemma load_page_step:
  assumes inv: "load_inv file base pt k i k'" and i: "0 \<le> i" "i < int (length pt)"
    and fr: "set (frames pt) \<subseteq> {0..<128}" "distinct (frames pt)"
    and bs: "bs = take 128 (drop (base + nat i * 128) file)"
  shows "\<exists>mem. write_mem (mainMemory (machine k')) (frames pt ! nat i * 128) bs = Inr mem \<and>
    load_inv file base pt k (i + 1) (set_memory k' mem)"
proof -
  obtain n where n: "i = int n" "n < length pt" using i nonneg_int_cases by (metis of_nat_less_iff)
  have len: "length (frames pt) = length pt" by (simp add: frames_def)
  have F: "frames pt ! j \<in> {0..<128}" if "j < length pt" for j using fr(1) that len nth_mem by (metis subsetD)
  obtain mem where w: "write_mem (mainMemory (machine k')) (frames pt ! n * 128) bs = Inr mem"
    and mem: "\<And>q. mem q = (if int (q div 128) = frames pt ! n \<and> q mod 128 < length bs then bs ! (q mod 128)
      else mainMemory (machine k') q)"
    using write_page [of "frames pt ! n" bs] F [OF n(2)] bs by auto
  have b: "page_byte (set_memory k' mem) pt j off = (if j = n then image_byte file (base + n * 128 + off)
      (page_byte k' pt n off) else page_byte k' pt j off)" if "j < length pt" "off < 128" for j off
  proof -
    have "(nat (frames pt ! j) * 128 + off) div 128 = nat (frames pt ! j)"
      "(nat (frames pt ! j) * 128 + off) mod 128 = off" using that by simp_all
    moreover have "frames pt ! j = frames pt ! n \<longleftrightarrow> j = n"
      using fr(2) that(1) n(2) len by (simp add: nth_eq_iff_index_eq)
    ultimately show ?thesis
      using F [OF that(1)] that(2) mem [of "nat (frames pt ! j) * 128 + off"]
      by (auto simp: page_byte_def set_memory_def image_byte_def bs n(1))
  qed
  have "q \<notin> owned_bytes pt \<Longrightarrow> mem q = mainMemory (machine k') q" for q
    using mem [of q] n len by (auto simp: owned_bytes_def)
  moreover have "(machine k')\<lparr>mainMemory := mem\<rparr> = (machine k)\<lparr>mainMemory := mem\<rparr>"
  proof -
    have "m = m0\<lparr>mainMemory := x\<rparr> \<Longrightarrow> m\<lparr>mainMemory := mem\<rparr> = m0\<lparr>mainMemory := mem\<rparr>" for m m0 :: Machine and x
      by simp
    then show ?thesis using inv unfolding load_inv_def by blast
  qed
  ultimately have "load_inv file base pt k (i + 1) (set_memory k' mem)"
    using inv b
    unfolding load_inv_def n(1) by (auto simp: set_memory_def page_byte_def)
  with w n show ?thesis by auto
qed

lemma load_segment_ok:
  assumes "regular_file readAt file" and "virtualAddr seg = 0" and "0 < sint (seg_size seg)"
    and "0 \<le> sint (inFileAddr seg)" "sint (inFileAddr seg) + 128 * 128 < 2 ^ 31" and "length pt \<le> 128"
    and fr: "set (frames pt) \<subseteq> {0..<128}" "distinct (frames pt)"
  shows "\<exists>k'. load_segment readAt seg pt k = Inr k' \<and>
    load_inv file (nat (sint (inFileAddr seg))) pt k (int (length pt)) k'"
proof -
  let ?base = "nat (sint (inFileAddr seg))"
  let ?body = "\<lambda>i k. bindE (aget pt i) (\<lambda>e.
        bindE (readAt (int PageSize) (sint (inFileAddr seg + of_int i * of_nat PageSize))) (\<lambda>bs.
        bindE (write_mem (mainMemory (machine k))
                (sint (virtualAddr seg + physicalPage e * of_nat PageSize)) bs) (\<lambda>mem.
          Inr (set_memory k mem))))"
  have "\<exists>k'. for_loop 0 (int (length pt)) ?body k = Inr k' \<and> load_inv file ?base pt k (int (length pt)) k'"
  proof (rule for_loop_rule [where I = "load_inv file ?base pt k"])
    show "load_inv file ?base pt k 0 k" by (simp add: load_inv_def)
    fix i k' assume i: "0 \<le> i" "i < int (length pt)" and inv: "load_inv file ?base pt k i k'"
    have "- (2 ^ 31) \<le> sint (inFileAddr seg) + i * 128" "sint (inFileAddr seg) + i * 128 < 2 ^ 31"
      using i assms(4-6) by simp_all
    from sint_word_of_int [OF this] have pos: "sint (inFileAddr seg + of_int i * of_nat PageSize) = sint (inFileAddr seg) + i * 128"
      by simp
    have rd: "readAt 128 (sint (inFileAddr seg) + i * 128) = Inr (take 128 (drop (?base + nat i * 128) file))"
    proof -
      have "nat (sint (inFileAddr seg) + i * 128) = ?base + nat i * 128"
        using i(1) assms(4) by (simp add: nat_add_distrib nat_mult_distrib)
      moreover have "0 \<le> sint (inFileAddr seg) + i * 128" using i(1) assms(4) by simp
      ultimately show ?thesis using assms(1) unfolding regular_file_def by simp
    qed
    have "nat i < length pt" using i by simp
    from frame_range [OF fr(1) this] this have "frames pt ! nat i \<in> {0..<128}"
      "frames pt ! nat i = sint (physicalPage (pt ! nat i))" by (simp_all add: frames_nth)
    then have "sint (virtualAddr seg + physicalPage (pt ! nat i) * 128) = frames pt ! nat i * 128"
      using assms(2) sint_frame_address [of "frames pt ! nat i"] by simp
    with load_page_step [OF inv i fr refl] i rd pos
    show "\<exists>k''. ?body i k' = Inr k'' \<and> load_inv file ?base pt k (i + 1) k''" by auto
  qed simp
  then show ?thesis using assms(3) by (simp add: load_segment_def)
qed

section \<open>A new address space\<close>

definition space_fresh :: "KernelMem \<Rightarrow> AddrSpace \<Rightarrow> KernelMem \<Rightarrow> bool" where
  "space_fresh k sp k' \<longleftrightarrow> (\<exists>pt. as_pageTable sp = Some pt \<and> as_numPages sp = length pt \<and>
     (\<forall>j < length pt. fresh_entry j (pt ! j)) \<and> distinct (frames pt) \<and>
     set (frames pt) \<subseteq> {0..<128} - marked (gPhysPageBitMap k) \<and>
     wf_Bitmap (gPhysPageBitMap k') \<and> numBits (gPhysPageBitMap k') = numBits (gPhysPageBitMap k) \<and>
     marked (gPhysPageBitMap k') = marked (gPhysPageBitMap k) \<union> set (frames pt) \<and>
     addrLock k' = addrLock k \<and>
     machine k' = (machine k)\<lparr>mainMemory := mainMemory (machine k')\<rparr> \<and>
     (\<forall>q. q \<notin> owned_bytes pt \<longrightarrow> mainMemory (machine k') q = mainMemory (machine k) q))"

definition mem_ready :: "KernelMem \<Rightarrow> bool" where
  "mem_ready k \<longleftrightarrow> wf_Bitmap (gPhysPageBitMap k) \<and> 128 \<le> numBits (gPhysPageBitMap k) \<and> 0 < addrLock k"

definition code_only :: "NoffHeader \<Rightarrow> bool" where
  \<comment> \<open>the code is at address 0 and there is no initialised data\<close>
  "code_only h \<longleftrightarrow> virtualAddr (code h) = 0 \<and> 0 < sint (seg_size (code h)) \<and>
     0 \<le> sint (inFileAddr (code h)) \<and> sint (inFileAddr (code h)) + int MemorySize < 2 ^ 31 \<and>
     sint (seg_size (initData h)) \<le> 0"

definition image_pages :: "NoffHeader \<Rightarrow> nat" where
  "image_pages h = space_pages
     (seg_size (code h) + seg_size (initData h) + seg_size (uninitData h) + UserStackSize)"

lemma page_byte_vmem:
  assumes "as_pageTable sp = Some pt" "set (frames pt) \<subseteq> {0..<128}" "va < 128 * length pt"
  shows "vmem (RestoreState sp m) va = mainMemory m (nat (frames pt ! (va div 128)) * 128 + va mod 128)"
proof -
  have j: "va div 128 < length pt" using assms(3) by (simp add: less_mult_imp_div_less mult.commute)
  from frame_range [OF assms(2) j] have "nat (frames pt ! (va div 128)) = unat (physicalPage (pt ! (va div 128)))"
    using j uint_eq_sint [of "physicalPage (pt ! (va div 128))"] by (simp add: frames_nth unat_eq_nat_uint)
  then show ?thesis using assms(1) by (simp add: vmem_def RestoreState_def)
qed

lemma AddrSpace_new_ok:
  assumes h: "get_header big readAt stack = Inr h" and f: "regular_file readAt file" and c: "code_only h"
    and k: "mem_ready k" and room: "image_pages h \<le> low_free (gPhysPageBitMap k)"
  shows "\<exists>sp k'. AddrSpace_new big (Some readAt) stack k = Inr (Entered (sp, k')) \<and>
    space_fresh k sp k' \<and> as_numPages sp = image_pages h \<and>
    (\<forall>va < 128 * as_numPages sp. vmem (RestoreState sp (machine k')) va =
       image_byte file (nat (sint (inFileAddr (code h))) + va) 0)"
proof -
  let ?k1 = "k\<lparr>addrLock := addrLock k - 1\<rparr>" and ?base = "nat (sint (inFileAddr (code h)))"
  obtain pt k2 where r: "reserve_pages (seg_size (code h) + seg_size (initData h) + seg_size (uninitData h) + UserStackSize) ?k1
      = Inr (Some pt, k2)" and I: "page_loop_inv ?k1 (int (image_pages h)) (pt, k2)"
    using reserve_pages_ok [of ?k1 "seg_size (code h) + seg_size (initData h) + seg_size (uninitData h) + UserStackSize"]
      k room unfolding mem_ready_def image_pages_def by auto
  note I' = I [unfolded page_loop_inv_def, simplified]
  have len: "length pt = image_pages h" "length pt \<le> 128" using I' room by (auto simp: low_free_def)
  have fr: "set (frames pt) \<subseteq> {0..<128}" "distinct (frames pt)" using I' by auto
  obtain k3 where l: "load_segment readAt (code h) pt k2 = Inr k3" "load_inv file ?base pt k2 (int (length pt)) k3"
    using load_segment_ok [OF f _ _ _ _ len(2) fr, of "code h" k2] c by (auto simp: code_only_def)
  let ?sp = "\<lparr>as_pageTable = Some pt, as_numPages = length pt\<rparr>" and ?k' = "k3\<lparr>addrLock := addrLock k3 + 1\<rparr>"
  have "load_segment readAt (initData h) pt k3 = Inr k3"
    using c by (simp add: load_segment_def code_only_def)
  then have "AddrSpace_new big (Some readAt) stack k = Inr (Entered (?sp, ?k'))"
    using h k r l by (simp add: AddrSpace_new_def locked_def mem_ready_def)
  moreover have "space_fresh k ?sp ?k'"
    using I' l(2) unfolding space_fresh_def load_inv_def by (auto simp: zeroed_def)
  moreover have "vmem (RestoreState ?sp (machine ?k')) va = image_byte file (?base + va) 0" if "va < 128 * length pt" for va
  proof -
    have j: "va div 128 < length pt" using that by (simp add: less_mult_imp_div_less mult.commute)
    have z: "page_byte k2 pt (va div 128) (va mod 128) = 0"
      using I' frame_range [OF fr(1) j] j by (auto simp: page_byte_def zeroed_def owned_bytes_def in_set_conv_nth)
    have "?base + va div 128 * 128 + va mod 128 = ?base + va" by simp
    with l(2) j z have "page_byte k3 pt (va div 128) (va mod 128) = image_byte file (?base + va) 0"
      unfolding load_inv_def by (simp add: add.commute)
    then show ?thesis using page_byte_vmem [of ?sp pt va "machine k3"] fr(1) that by (simp add: page_byte_def)
  qed
  ultimately show ?thesis using len(1) by auto
qed

section \<open>Giving the pages back\<close>

lemma AddrSpace_delete_ok:
  assumes sp: "as_pageTable sp = Some pt" "as_numPages sp = length pt"
    and b: "wf_Bitmap (gPhysPageBitMap k)" "set (frames pt) \<subseteq> {0..<numBits (gPhysPageBitMap k)}"
  shows "\<exists>k'. AddrSpace_delete sp k = Inr k' \<and> wf_Bitmap (gPhysPageBitMap k') \<and>
    marked (gPhysPageBitMap k') = marked (gPhysPageBitMap k) - set (frames pt) \<and>
    numBits (gPhysPageBitMap k') = numBits (gPhysPageBitMap k) \<and>
    machine k' = machine k \<and> addrLock k' = addrLock k"
proof -
  let ?body = "\<lambda>i k. (case as_pageTable sp of None \<Rightarrow> Inl BadAccess
    | Some pt \<Rightarrow> bindE (aget pt i) (\<lambda>e. bindE (Bitmap_Clear (gPhysPageBitMap k) (sint (physicalPage e))) (\<lambda>bm.
              Inr (k\<lparr>gPhysPageBitMap := bm\<rparr>))))"
  let ?I = "\<lambda>i k'. wf_Bitmap (gPhysPageBitMap k') \<and> numBits (gPhysPageBitMap k') = numBits (gPhysPageBitMap k) \<and>
    marked (gPhysPageBitMap k') = marked (gPhysPageBitMap k) - set (take (nat i) (frames pt)) \<and>
    machine k' = machine k \<and> addrLock k' = addrLock k"
  have "\<exists>k'. for_loop 0 (int (as_numPages sp)) ?body k = Inr k' \<and> ?I (int (as_numPages sp)) k'"
  proof (rule for_loop_rule [where I = ?I])
    fix i k' assume i: "0 \<le> i" "i < int (as_numPages sp)" and I: "?I i k'"
    then have n: "nat i < length pt" using sp by simp
    then have "frames pt ! nat i \<in> {0..<numBits (gPhysPageBitMap k)}"
      using b(2) nth_mem [of "nat i" "frames pt"] by fastforce
    then obtain bm where bm: "Bitmap_Clear (gPhysPageBitMap k') (frames pt ! nat i) = Inr bm" "wf_Bitmap bm"
      "numBits bm = numBits (gPhysPageBitMap k')" "marked bm = marked (gPhysPageBitMap k') - {frames pt ! nat i}"
      using Clear_in_range [of "gPhysPageBitMap k'" "frames pt ! nat i"] I by auto
    have "set (take (nat (i + 1)) (frames pt)) = insert (frames pt ! nat i) (set (take (nat i) (frames pt)))"
      using n i(1) by (simp add: nat_add_distrib take_Suc_conv_app_nth)
    with bm I i n sp show "\<exists>k''. ?body i k' = Inr k'' \<and> ?I (i + 1) k''"
      by (auto simp: frames_nth)
  qed (use b in simp_all)
  with sp show ?thesis by (auto simp: AddrSpace_delete_def)
qed

section \<open>Starting the program\<close>

lemma zero_registers:
  "\<exists>m'. for_loop 0 (int NumTotalRegs) (\<lambda>i m. WriteRegister m i 0) m = Inr m' \<and>
     m' = m\<lparr>registers := registers m'\<rparr> \<and> (\<forall>r < NumTotalRegs. registers m' r = 0)"
proof -
  let ?I = "\<lambda>i m'. m' = m\<lparr>registers := registers m'\<rparr> \<and> (\<forall>r. int r < i \<longrightarrow> registers m' r = 0)"
  have "\<exists>m'. for_loop 0 (int NumTotalRegs) (\<lambda>i m. WriteRegister m i 0) m = Inr m' \<and> ?I (int NumTotalRegs) m'"
  proof (rule for_loop_rule [where I = ?I])
    fix i m' assume i: "0 \<le> i" "i < int NumTotalRegs" and I: "?I i m'"
    have "WriteRegister m' i 0 = Inr (set_reg (nat i) 0 m')" using i by (simp add: WriteRegister_def)
    moreover have "set_reg (nat i) 0 m' = m\<lparr>registers := registers (set_reg (nat i) 0 m')\<rparr>"
      using I unfolding set_reg_def by (metis Machine.surjective Machine.update_convs(1) Machine.select_convs(1))
    moreover have "registers (set_reg (nat i) 0 m') r = 0" if "int r < i + 1" for r
      using I i(1) that by auto
    ultimately show "\<exists>m''. WriteRegister m' i 0 = Inr m'' \<and> ?I (i + 1) m''" by blast
  qed simp_all
  then show ?thesis by simp
qed

lemma Execute_setup_ok:
  assumes "as_pageTable sp = Some pt" "as_numPages sp = length pt" "tlb m = None"
  shows "\<exists>m'. Execute_setup sp m = Inr m' \<and> user_ready m' \<and> mainMemory m' = mainMemory m \<and>
    pageTable m' = Some pt \<and> registers m' PCReg = 0 \<and> registers m' NextPCReg = 4 \<and>
    registers m' StackReg = of_nat (length pt) * 128 - 16"
proof -
  obtain m1 where m1: "for_loop 0 (int NumTotalRegs) (\<lambda>i m. WriteRegister m i 0) m = Inr m1"
    "m1 = m\<lparr>registers := registers m1\<rparr>" "\<And>r. r < NumTotalRegs \<Longrightarrow> registers m1 r = 0"
    using zero_registers by blast
  then have t: "tlb m1 = None" "mainMemory m1 = mainMemory m" using assms(3) by (metis Machine.select_convs Machine.surjective Machine.update_convs(1))+
  show ?thesis
    using m1(1,3) t assms(1,2)
    by (simp add: Execute_setup_def InitRegisters_def WriteRegister_def RestoreState_def user_ready_def
        cpu_ok_def paged_def)
qed

section \<open>Translation by the kernel\<close>

lemma paddr_eq:
  assumes "0 \<le> sint pfn" "sint pfn < 128" "off < 128"
  shows "unat (pfn * of_nat PageSize + of_nat off :: cint) = unat pfn * 128 + off"
proof -
  have "unat pfn < 128" using assms(1,2) uint_eq_sint [of pfn] by (simp add: unat_eq_nat_uint)
  then have "unat pfn * 128 + off < 2 ^ 32" using assms(3) by simp
  moreover have "pfn * of_nat PageSize + of_nat off = of_nat (unat pfn * 128 + off)" by simp
  ultimately show ?thesis by (simp only: unat_of_nat take_bit_eq_mod) simp
qed

section \<open>An example image\<close>

definition file0 :: "byte list" where
  \<comment> \<open>a NOFF header, then one instruction, \<open>sw $1, 8($0)\<close>, as the code segment\<close>
  "file0 = [0xad, 0xdf, 0xba, 0,  0, 0, 0, 0, 52, 0, 0, 0, 4, 0, 0, 0] @ replicate 36 0 @ [0x08, 0, 0x01, 0xac]"

definition readAt0 :: read_at where
  "readAt0 n pos = (if 0 \<le> n \<and> 0 \<le> pos then Inr (take (nat n) (drop (nat pos) file0)) else Inl AssertFailed)"

definition header0 :: NoffHeader where
  "header0 = NoffHeader_of (\<lambda>i. if i < 52 then file0 ! i else 0)"

definition kernel0 :: KernelMem where
  "kernel0 = \<lparr>machine = Machine_init False 0 0,
     gPhysPageBitMap = \<lparr>numBits = 512, numWords = 16, words = replicate 16 0\<rparr>, addrLock = 1\<rparr>"

lemma length_file0: "length file0 = 56"
  by (simp add: file0_def)

lemma regular_file0: "regular_file readAt0 file0"
  by (simp add: regular_file_def readAt0_def)

lemma header0_fields:
  "noffMagic header0 = NOFFMAGIC" "virtualAddr (code header0) = 0" "inFileAddr (code header0) = 52"
  "seg_size (code header0) = 4" "seg_size (initData header0) = 0" "seg_size (uninitData header0) = 0"
  by code_simp+

lemma get_header0: "get_header False readAt0 (\<lambda>_. 0) = Inr header0"
proof -
  have "readAt0 52 0 = Inr (take 52 file0)" by (simp add: readAt0_def)
  moreover have "(\<lambda>i. if i < length (take 52 file0) then take 52 file0 ! i else 0) = (\<lambda>i. if i < 52 then file0 ! i else 0)"
    by (simp add: fun_eq_iff length_file0)
  ultimately show ?thesis
    using header0_fields(1) by (simp add: get_header_def Let_def header0_def)
qed

lemma image0: "code_only header0" "image_pages header0 = 9"
  by (simp_all add: code_only_def image_pages_def header0_fields space_pages_def)

lemma kernel0_ready: "mem_ready kernel0" "marked (gPhysPageBitMap kernel0) = {}" "tlb (machine kernel0) = None"
  by (simp_all add: mem_ready_def kernel0_def wf_Bitmap_def marked_def is_marked_def Machine_init_def
      divRoundUp_def sdiv_nonneg smod_nonneg)

lemma space0:
  obtains sp k1 where "AddrSpace_new False (Some readAt0) (\<lambda>_. 0) kernel0 = Inr (Entered (sp, k1))"
    "space_fresh kernel0 sp k1" "as_numPages sp = 9"
    "\<And>va. va < 1152 \<Longrightarrow> vmem (RestoreState sp (machine k1)) va = image_byte file0 (52 + va) 0"
  using AddrSpace_new_ok [OF get_header0 regular_file0 image0(1) kernel0_ready(1)]
  by (auto simp: low_free_def kernel0_ready(2) image0(2) header0_fields)

lemma space0_twice:
  obtains sp k1 sp' k2 where "space_fresh kernel0 sp k1" "space_fresh k1 sp' k2" "tlb (machine k1) = None"
    "\<And>va. va < 1152 \<Longrightarrow> vmem (RestoreState sp (machine k1)) va = image_byte file0 (52 + va) 0"
    "as_numPages sp = 9"
proof -
  obtain sp k1 where 1: "space_fresh kernel0 sp k1" "as_numPages sp = 9"
    "\<And>va. va < 1152 \<Longrightarrow> vmem (RestoreState sp (machine k1)) va = image_byte file0 (52 + va) 0"
    by (rule space0) blast
  then obtain pt where pt: "length pt = 9" "marked (gPhysPageBitMap k1) = set (frames pt)"
    "machine k1 = (machine kernel0)\<lparr>mainMemory := mainMemory (machine k1)\<rparr>"
    "mem_ready k1"
    using kernel0_ready by (auto simp: space_fresh_def mem_ready_def)
  have "card (marked (gPhysPageBitMap k1) \<inter> {0..<128}) \<le> 9"
    using card_length [of "frames pt"] pt(1,2) card_mono [of "set (frames pt)" "set (frames pt) \<inter> {0..<128}"] by simp
  then have "image_pages header0 \<le> low_free (gPhysPageBitMap k1)" by (simp add: low_free_def image0)
  from AddrSpace_new_ok [OF get_header0 regular_file0 image0(1) pt(4) this]
  obtain sp' k2 where "space_fresh k1 sp' k2" by blast
  moreover have "tlb (machine k1) = None"
    using kernel0_ready(3) by (subst pt(3)) simp
  ultimately show thesis using 1 that by blast
qed

section \<open>Properties\<close>

text \<open>
  C27. A program whose code starts at virtual address 0 and that has no initialised data is loaded
  correctly: if the machine has as many free frames as the image needs, the constructor returns
  with the lock released and a page table of exactly \<open>image_pages\<close> fresh, writable entries whose
  frames are distinct, lie in main memory and were free; these frames and no others become marked;
  every virtual address of the new space reads as the byte of the file at that offset from the
  code segment, or zero past the end of the file; and memory outside the frames is unchanged.
\<close>

theorem new_address_space:
  assumes "get_header big readAt stack = Inr h" and "regular_file readAt file" and "code_only h"
    and "mem_ready k" and "image_pages h \<le> low_free (gPhysPageBitMap k)"
  shows "\<exists>sp k'. AddrSpace_new big (Some readAt) stack k = Inr (Entered (sp, k')) \<and>
    space_fresh k sp k' \<and> as_numPages sp = image_pages h \<and>
    (\<forall>va < 128 * as_numPages sp. vmem (RestoreState sp (machine k')) va =
       image_byte file (nat (sint (inFileAddr (code h))) + va) 0)"
  by (rule AddrSpace_new_ok [OF assms])

theorem new_address_space_witness:
  "\<exists>sp k'. AddrSpace_new False (Some readAt0) (\<lambda>_. 0) kernel0 = Inr (Entered (sp, k')) \<and>
     as_numPages sp = 9 \<and> vmem (RestoreState sp (machine k')) 3 = 0xac"
proof -
  have "image_pages header0 \<le> low_free (gPhysPageBitMap kernel0)"
    by (simp add: image0 low_free_def kernel0_ready)
  from new_address_space [OF get_header0 regular_file0 image0(1) kernel0_ready(1) this]
  obtain sp k' where 1: "AddrSpace_new False (Some readAt0) (\<lambda>_. 0) kernel0 = Inr (Entered (sp, k'))"
    "as_numPages sp = 9"
    "\<And>va. va < 1152 \<Longrightarrow> vmem (RestoreState sp (machine k')) va = image_byte file0 (52 + va) 0"
    by (auto simp: image0 header0_fields)
  have "image_byte file0 55 0 = 0xac" by code_simp
  with 1 show ?thesis by auto
qed

text \<open>
  Deleting an address space gives back exactly its frames: after \<open>~AddrSpace\<close> the set of used
  frames is what it was before the space was created, whatever the program did to memory meanwhile.
\<close>

theorem delete_restores_frames:
  assumes "space_fresh k sp k1" and "mem_ready k" and "gPhysPageBitMap k2 = gPhysPageBitMap k1"
  shows "\<exists>k3. AddrSpace_delete sp k2 = Inr k3 \<and> wf_Bitmap (gPhysPageBitMap k3) \<and>
    marked (gPhysPageBitMap k3) = marked (gPhysPageBitMap k) \<and> machine k3 = machine k2"
proof -
  from assms(1) obtain pt where pt: "as_pageTable sp = Some pt" "as_numPages sp = length pt"
    "set (frames pt) \<subseteq> {0..<128} - marked (gPhysPageBitMap k)" "wf_Bitmap (gPhysPageBitMap k1)"
    "numBits (gPhysPageBitMap k1) = numBits (gPhysPageBitMap k)"
    "marked (gPhysPageBitMap k1) = marked (gPhysPageBitMap k) \<union> set (frames pt)"
    by (auto simp: space_fresh_def)
  moreover have "set (frames pt) \<subseteq> {0..<numBits (gPhysPageBitMap k2)}"
    using pt assms(2,3) by (auto simp: mem_ready_def)
  moreover have "marked (gPhysPageBitMap k) \<union> set (frames pt) - set (frames pt) = marked (gPhysPageBitMap k)"
    using pt(3) by blast
  ultimately show ?thesis using AddrSpace_delete_ok [of sp pt k2] assms(3) by auto
qed

theorem delete_restores_frames_witness:
  "\<exists>sp k1 k3. AddrSpace_new False (Some readAt0) (\<lambda>_. 0) kernel0 = Inr (Entered (sp, k1)) \<and>
     AddrSpace_delete sp k1 = Inr k3 \<and> marked (gPhysPageBitMap k3) = {}"
proof -
  obtain sp k1 where "AddrSpace_new False (Some readAt0) (\<lambda>_. 0) kernel0 = Inr (Entered (sp, k1))"
    "space_fresh kernel0 sp k1" by (rule space0) blast
  with delete_restores_frames [OF this(2) kernel0_ready(1) refl] kernel0_ready(2) show ?thesis by auto
qed



text \<open>
  \<open>Execute\<close> leaves the machine ready for user mode: \<open>user_ready\<close> (theory \<open>User_Mode\<close>) holds, the program
  starts at address 0 with the next PC at 4 and the stack pointer 16 bytes below the end of the
  address space, and the machine translates through the space's page table.
\<close>

theorem execute_starts_program:
  assumes "space_fresh k sp k'" and "tlb (machine k') = None"
  shows "\<exists>m pt. Execute_setup sp (machine k') = Inr m \<and> user_ready m \<and> as_pageTable sp = Some pt \<and>
    pageTable m = Some pt \<and> mainMemory m = mainMemory (machine k') \<and>
    registers m PCReg = 0 \<and> registers m NextPCReg = 4 \<and>
    registers m StackReg = of_nat (as_numPages sp) * of_nat PageSize - 16"
  using assms Execute_setup_ok [of sp _ "machine k'"] by (fastforce simp: space_fresh_def)

theorem execute_starts_program_witness:
  "\<exists>sp k1 m. AddrSpace_new False (Some readAt0) (\<lambda>_. 0) kernel0 = Inr (Entered (sp, k1)) \<and>
     Execute_setup sp (machine k1) = Inr m \<and> user_ready m \<and> registers m StackReg = 1136"
proof -
  obtain sp k1 where 1: "AddrSpace_new False (Some readAt0) (\<lambda>_. 0) kernel0 = Inr (Entered (sp, k1))"
    "space_fresh kernel0 sp k1" "as_numPages sp = 9" by (rule space0) blast
  then have "machine k1 = (machine kernel0)\<lparr>mainMemory := mainMemory (machine k1)\<rparr>"
    by (simp add: space_fresh_def) blast
  then have "tlb (machine k1) = None" using kernel0_ready(3) by (metis Machine.select_convs(3) Machine.surjective Machine.update_convs(2))
  from execute_starts_program [OF 1(2) this] 1 show ?thesis by auto
qed



section \<open>Running out of frames\<close>

text \<open>
  The bitmap has 512 bits (threads/kernel.cc) but main memory has only \<open>NumPhysPages\<close> = 128
  frames, and the check before the loop compares with the number of clear bits. Once the frames
  that exist are all in use the constructor goes on, takes a frame that does not exist and clears
  memory behind the end of \<open>mainMemory\<close>.
\<close>

lemma overrun_when_frames_are_used:
  assumes "get_header big readAt stack = Inr h" and "mem_ready k" and "numBits (gPhysPageBitMap k) \<le> 512"
    and used: "{0..<128} \<subseteq> marked (gPhysPageBitMap k)"
    and n: "0 < image_pages h" "image_pages h \<le> 128"
      "int (image_pages h) \<le> numBits (gPhysPageBitMap k) - int (card (marked (gPhysPageBitMap k)))"
  shows "AddrSpace_new big (Some readAt) stack k = Inl BadAccess"
proof -
  let ?k = "k\<lparr>addrLock := addrLock k - 1\<rparr>" and ?b = "gPhysPageBitMap k"
  have wf: "wf_Bitmap ?b" using assms(2) by (simp add: mem_ready_def)
  have "marked ?b \<noteq> {0..<numBits ?b}" 
    using n(1,3) wf by (auto simp: wf_Bitmap_def split: if_splits)
  from FindAndSet_free [OF wf this] obtain f bm where f: "Bitmap_FindAndSet ?b = Inr (f, bm)" "0 \<le> f"
    "f < numBits ?b" "f \<notin> marked ?b" by blast
  have "128 \<le> f" using used f by (meson atLeastLessThan_iff not_le subsetD)
  moreover from this f assms(3) have "sint (word_of_int f * 128 :: cint) = f * 128"
    using sint_word_of_int [of "f * 128"] by simp
  ultimately have "alloc_page 0 ([], ?k) = Inl BadAccess"
    using f by (simp add: alloc_page_def Let_def write_mem_def)
  then have "for_loop 0 (int (image_pages h)) alloc_page ([], ?k) = Inl BadAccess"
    using n(1) by (simp add: for_loop_step)
  then show ?thesis
    using assms(1,2) n NumClear_card [OF wf]
    by (simp add: AddrSpace_new_def locked_def mem_ready_def reserve_pages_def image_pages_def Let_def)
qed

end
