(* ===== verification/Threads.thy ===== *)
theory Threads
  imports AddrSpace
begin

text \<open>
  Threads, the scheduler and semaphores: threads/thread.cc, threads/scheduler.cc and the class
  \<open>Semaphore\<close> of threads/synch.cc.

  Thread objects live in a heap, \<open>threads\<close>, indexed by their address; the ready list and the
  queue of a semaphore hold addresses, as the lists of pointers in the code do. \<open>Run\<close> ends in the
  context of the thread it switches to: what that thread executes first after \<^verbatim>\<open>SWITCH\<close> is
  \<open>switch_in\<close>, the rest of its own call of \<open>Run\<close>, or \<open>Begin\<close> for a thread that never ran. A thread
  that sleeps inside \<open>P\<close> is marked with the semaphore it waits for (\<open>waits_for\<close>, the place its
  stack returns to). When no thread is ready \<open>Sleep\<close> idles the machine: \<open>Idles\<close>.
\<close>

section \<open>Data\<close>

datatype ThreadStatus = JUST_CREATED | RUNNING | READY | BLOCKED
datatype IntStatus = IntOff | IntOn

record Thread =
  t_name :: "byte list"
  processID :: int
  status :: ThreadStatus
  userRegisters :: "nat \<Rightarrow> cint"
  t_space :: "AddrSpace option"
  stack_word :: "cint option"     \<comment> \<open>the word at \<open>*stack\<close>, \<open>None\<close> when \<open>stack\<close> is NULL\<close>
  started :: bool                 \<comment> \<open>false while \<open>machineState[PCState]\<close> is \<open>ThreadRoot\<close>\<close>
  waits_for :: "nat option"       \<comment> \<open>asleep or woken up inside \<open>P\<close> of this semaphore\<close>
  saved_level :: IntStatus        \<comment> \<open>the local \<open>oldLevel\<close> of the \<open>P\<close> or \<open>Yield\<close> it is in\<close>

record Semaphore =
  s_value :: int
  s_queue :: "nat list"

record Kernel = KernelMem +
  threads :: "nat \<Rightarrow> Thread option"
  currentThread :: nat
  readyList :: "nat list"
  toBeDestroyed :: "nat option"
  level :: IntStatus
  sems :: "nat \<Rightarrow> Semaphore option"

abbreviation STACK_FENCEPOST :: cint where "STACK_FENCEPOST \<equiv> 0xdedbeef"

datatype 'a slept = Switched 'a | Idles 'a

section \<open>Threads and the scheduler\<close>

definition with_thread :: "Kernel \<Rightarrow> nat \<Rightarrow> (Thread \<Rightarrow> 'a result) \<Rightarrow> 'a result" where
  "with_thread k t f = (case threads k t of None \<Rightarrow> Inl BadAccess | Some th \<Rightarrow> f th)"

definition set_thread :: "nat \<Rightarrow> Thread \<Rightarrow> Kernel \<Rightarrow> Kernel" where
  "set_thread t th k = k\<lparr>threads := (threads k)(t := Some th)\<rparr>"

definition Thread_new :: "byte list \<Rightarrow> Thread \<Rightarrow> Thread" where
  \<comment> \<open>the constructor; \<open>processID\<close> and \<open>userRegisters\<close> keep what the memory held\<close>
  "Thread_new nm raw = raw\<lparr>t_name := nm, status := JUST_CREATED, t_space := None,
     stack_word := None, started := False, waits_for := None\<rparr>"

definition Thread_delete :: "Kernel \<Rightarrow> nat \<Rightarrow> Kernel result" where
  "Thread_delete k t = with_thread k t (\<lambda>th.
     assertE (t \<noteq> currentThread k) (Inr (k\<lparr>threads := (threads k)(t := None)\<rparr>)))"

definition ReadyToRun :: "Kernel \<Rightarrow> nat \<Rightarrow> Kernel result" where
  "ReadyToRun k t = assertE (level k = IntOff) (with_thread k t (\<lambda>th.
     Inr (set_thread t (th\<lparr>status := READY\<rparr>) (k\<lparr>readyList := readyList k @ [t]\<rparr>))))"

definition FindNextToRun :: "Kernel \<Rightarrow> (nat option \<times> Kernel) result" where
  "FindNextToRun k = assertE (level k = IntOff)
     (case readyList k of
        [] \<Rightarrow> Inr (None, k)
      | t # ts \<Rightarrow> Inr (Some t, k\<lparr>readyList := ts\<rparr>))"

definition SaveUserState :: "Machine \<Rightarrow> Thread \<Rightarrow> Thread" where
  "SaveUserState m th = th\<lparr>userRegisters :=
     (\<lambda>i. if i < NumTotalRegs then registers m i else userRegisters th i)\<rparr>"

definition RestoreUserState :: "Thread \<Rightarrow> Machine \<Rightarrow> Machine" where
  "RestoreUserState th m = m\<lparr>registers :=
     (\<lambda>i. if i < NumTotalRegs then userRegisters th i else registers m i)\<rparr>"

definition CheckOverflow :: "Thread \<Rightarrow> bool" where
  "CheckOverflow th = (case stack_word th of None \<Rightarrow> True | Some w \<Rightarrow> w = STACK_FENCEPOST)"

definition CheckToBeDestroyed :: "Kernel \<Rightarrow> Kernel result" where
  "CheckToBeDestroyed k =
     (case toBeDestroyed k of
        None \<Rightarrow> Inr k
      | Some t \<Rightarrow> bindE (Thread_delete k t) (\<lambda>k'. Inr (k'\<lparr>toBeDestroyed := None\<rparr>)))"

definition Begin :: "Kernel \<Rightarrow> Kernel result" where
  "Begin k = bindE (CheckToBeDestroyed k) (\<lambda>k'. Inr (k'\<lparr>level := IntOn\<rparr>))"

definition switch_in :: "Kernel \<Rightarrow> Kernel result" where
  \<comment> \<open>what the new current thread runs first: the tail of \<open>Run\<close>, or \<open>ThreadRoot\<close>\<close>
  "switch_in k = with_thread k (currentThread k) (\<lambda>th.
     if started th
     then assertE (level k = IntOff) (bindE (CheckToBeDestroyed k) (\<lambda>k1.
       case t_space th of
         None \<Rightarrow> Inr k1
       | Some sp \<Rightarrow> Inr (k1\<lparr>machine := RestoreState sp (RestoreUserState th (machine k1))\<rparr>)))
     else Begin (set_thread (currentThread k) (th\<lparr>started := True\<rparr>) k))"

definition Run :: "Kernel \<Rightarrow> nat \<Rightarrow> bool \<Rightarrow> Kernel result" where
  "Run k nextThread finishing =
     (let oldThread = currentThread k in
      assertE (level k = IntOff)
        (bindE (if finishing
                then assertE (toBeDestroyed k = None) (Inr (k\<lparr>toBeDestroyed := Some oldThread\<rparr>))
                else Inr k) (\<lambda>k1.
         with_thread k1 oldThread (\<lambda>o1.
           let k2 = (if t_space o1 \<noteq> None then set_thread oldThread (SaveUserState (machine k1) o1) k1 else k1)
           in assertE (CheckOverflow o1)
             (with_thread k2 nextThread (\<lambda>n.
                switch_in (set_thread nextThread (n\<lparr>status := RUNNING\<rparr>)
                  (k2\<lparr>currentThread := nextThread\<rparr>))))))))"

definition Sleep :: "Kernel \<Rightarrow> nat \<Rightarrow> bool \<Rightarrow> (Kernel slept) result" where
  "Sleep k t finishing =
     assertE (t = currentThread k) (assertE (level k = IntOff)
       (with_thread k t (\<lambda>th.
         let k1 = set_thread t (th\<lparr>status := BLOCKED\<rparr>) k in
         bindE (FindNextToRun k1) (\<lambda>(nxt, k2).
           case nxt of
             None \<Rightarrow> Inr (Idles k2)
           | Some n \<Rightarrow> bindE (Run k2 n finishing) (\<lambda>k3. Inr (Switched k3))))))"

definition Finish :: "Kernel \<Rightarrow> nat \<Rightarrow> (Kernel slept) result" where
  "Finish k t = assertE (t = currentThread k) (Sleep (k\<lparr>level := IntOff\<rparr>) t True)"

definition Yield :: "Kernel \<Rightarrow> nat \<Rightarrow> Kernel result" where
  "Yield k t =
     (let oldLevel = level k; k0 = k\<lparr>level := IntOff\<rparr> in
      assertE (t = currentThread k)
        (bindE (FindNextToRun k0) (\<lambda>(nxt, k1).
          case nxt of
            None \<Rightarrow> Inr (k1\<lparr>level := oldLevel\<rparr>)
          | Some n \<Rightarrow> bindE (ReadyToRun k1 t) (\<lambda>k2. with_thread k2 t (\<lambda>th.
              Run (set_thread t (th\<lparr>saved_level := oldLevel\<rparr>) k2) n False)))))"

definition Yield_return :: "Kernel \<Rightarrow> Kernel result" where
  \<comment> \<open>the last statement of \<open>Yield\<close>, when the thread runs again\<close>
  "Yield_return k = with_thread k (currentThread k) (\<lambda>th. Inr (k\<lparr>level := saved_level th\<rparr>))"

definition Fork :: "Kernel \<Rightarrow> nat \<Rightarrow> Kernel result" where
  "Fork k t = with_thread k t (\<lambda>th.
     let k1 = set_thread t (th\<lparr>stack_word := Some STACK_FENCEPOST, started := False\<rparr>) k in
     bindE (ReadyToRun (k1\<lparr>level := IntOff\<rparr>) t) (\<lambda>k2. Inr (k2\<lparr>level := level k\<rparr>)))"

section \<open>Semaphores\<close>

definition Semaphore_new :: "int \<Rightarrow> Semaphore" where
  "Semaphore_new initialValue = \<lparr>s_value = initialValue, s_queue = []\<rparr>"

datatype 'a P_result = Taken 'a | Slept 'a | SleptIdle 'a

definition P_round :: "Kernel \<Rightarrow> nat \<Rightarrow> (Kernel P_result) result" where
  \<comment> \<open>one evaluation of the loop condition of \<open>P\<close> by the current thread: it takes the semaphore,
     or it queues itself and sleeps and the call ends in another thread's context\<close>
  "P_round k s =
     (case sems k s of
        None \<Rightarrow> Inl BadAccess
      | Some sem \<Rightarrow> with_thread k (currentThread k) (\<lambda>th.
          let t = currentThread k;
              oldLevel = (if waits_for th = None then level k else saved_level th);
              k0 = k\<lparr>level := IntOff\<rparr> in
          if s_value sem = 0
          then bindE (Sleep (set_thread t (th\<lparr>waits_for := Some s, saved_level := oldLevel\<rparr>)
                 (k0\<lparr>sems := (sems k0)(s := Some (sem\<lparr>s_queue := s_queue sem @ [t]\<rparr>))\<rparr>)) t False) (\<lambda>r.
                 case r of Switched k1 \<Rightarrow> Inr (Slept k1) | Idles k1 \<Rightarrow> Inr (SleptIdle k1))
          else Inr (Taken (set_thread t (th\<lparr>waits_for := None\<rparr>)
                 (k0\<lparr>sems := (sems k0)(s := Some (sem\<lparr>s_value := s_value sem - 1\<rparr>)), level := oldLevel\<rparr>)))))"

definition Semaphore_V :: "Kernel \<Rightarrow> nat \<Rightarrow> Kernel result" where
  "Semaphore_V k s =
     (case sems k s of
        None \<Rightarrow> Inl BadAccess
      | Some sem \<Rightarrow>
          let k0 = k\<lparr>level := IntOff\<rparr> in
          bindE (case s_queue sem of
                   [] \<Rightarrow> Inr (k0\<lparr>sems := (sems k0)(s := Some (sem\<lparr>s_value := s_value sem + 1\<rparr>))\<rparr>)
                 | t # ts \<Rightarrow> bindE (ReadyToRun k0 t) (\<lambda>k1.
                     Inr (k1\<lparr>sems := (sems k1)(s := Some \<lparr>s_value = s_value sem + 1, s_queue = ts\<rparr>)\<rparr>)))
            (\<lambda>k2. Inr (k2\<lparr>level := level k\<rparr>)))"

section \<open>What the scheduler's bookkeeping looks like\<close>

definition tview :: "Thread \<Rightarrow> ThreadStatus \<times> nat option \<times> bool" where
  "tview th = (status th, waits_for th, CheckOverflow th)"

definition tv :: "Kernel \<Rightarrow> nat \<Rightarrow> (ThreadStatus \<times> nat option \<times> bool) option" where
  "tv k t = map_option tview (threads k t)"

lemma tv_Some: "tv k t = Some (st, w, ok) \<longleftrightarrow>
    (\<exists>th. threads k t = Some th \<and> status th = st \<and> waits_for th = w \<and> CheckOverflow th = ok)"
  by (auto simp: tv_def tview_def)

lemma set_thread_simps [simp]:
  "threads (set_thread t th k) = (threads k)(t := Some th)" "currentThread (set_thread t th k) = currentThread k"
  "readyList (set_thread t th k) = readyList k" "toBeDestroyed (set_thread t th k) = toBeDestroyed k"
  "level (set_thread t th k) = level k" "sems (set_thread t th k) = sems k" "machine (set_thread t th k) = machine k"
  by (simp_all add: set_thread_def)

lemma SaveUserState_view [simp]: "tview (SaveUserState m th) = tview th" "t_space (SaveUserState m th) = t_space th"
  "CheckOverflow (SaveUserState m th) = CheckOverflow th" "started (SaveUserState m th) = started th"
  "status (SaveUserState m th) = status th" "waits_for (SaveUserState m th) = waits_for th"
  by (simp_all add: SaveUserState_def tview_def CheckOverflow_def)

lemma CheckOverflow_status [simp]:
  "CheckOverflow (th\<lparr>status := st\<rparr>) = CheckOverflow th" "CheckOverflow (th\<lparr>started := b\<rparr>) = CheckOverflow th"
  "CheckOverflow (th\<lparr>waits_for := w\<rparr>) = CheckOverflow th" "CheckOverflow (th\<lparr>saved_level := l\<rparr>) = CheckOverflow th"
  by (simp_all add: CheckOverflow_def)

lemma Run_ok:
  assumes "level k = IntOff" "toBeDestroyed k = None" "threads k (currentThread k) = Some o1"
    "CheckOverflow o1" "threads k n = Some th" "n \<noteq> currentThread k"
  shows "\<exists>k'. Run k n fin = Inr k' \<and> currentThread k' = n \<and> readyList k' = readyList k \<and> sems k' = sems k \<and>
    toBeDestroyed k' = None \<and>
    tv k' = (tv k)(n := Some (RUNNING, waits_for th, CheckOverflow th), currentThread k := (if fin then None else tv k (currentThread k)))"
  using assms
  by (auto simp: Run_def Let_def with_thread_def switch_in_def CheckToBeDestroyed_def Thread_delete_def Begin_def
      tv_def fun_eq_iff tview_def split: option.splits)

section \<open>The invariant of the scheduler\<close>

text \<open>
  \<open>sched_ok\<close>: the current thread is running, every thread on the ready list is there once and
  ready, every thread on a semaphore's queue is there once, blocked and waiting for that very
  semaphore, and no stack has overflowed. \<open>no_lost_wakeup\<close>: while threads queue at a semaphore,
  every unit of its value is matched by a thread that was woken up and has not looked yet.
\<close>

definition awake :: "Kernel \<Rightarrow> nat set" where
  "awake k = insert (currentThread k) (set (readyList k))"

definition woken :: "Kernel \<Rightarrow> nat \<Rightarrow> nat set" where
  "woken k s = {t \<in> awake k. \<exists>st ok. tv k t = Some (st, Some s, ok)}"

definition sched_ok :: "Kernel \<Rightarrow> bool" where
  "sched_ok k \<longleftrightarrow>
     (\<exists>w. tv k (currentThread k) = Some (RUNNING, w, True)) \<and>
     distinct (readyList k) \<and> (\<forall>t \<in> set (readyList k). \<exists>w. tv k t = Some (READY, w, True)) \<and>
     (\<forall>s sem. sems k s = Some sem \<longrightarrow> distinct (s_queue sem) \<and> 0 \<le> s_value sem \<and>
        (\<forall>t \<in> set (s_queue sem). tv k t = Some (BLOCKED, Some s, True))) \<and>
     toBeDestroyed k = None"

definition no_lost_wakeup :: "Kernel \<Rightarrow> bool" where
  "no_lost_wakeup k \<longleftrightarrow>
     (\<forall>s sem. sems k s = Some sem \<and> s_queue sem \<noteq> [] \<longrightarrow> s_value sem \<le> int (card (woken k s)))"

lemma sched_okD:
  assumes "sched_ok k"
  shows "currentThread k \<notin> set (readyList k)"
    "sems k s = Some sem \<Longrightarrow> t \<in> set (s_queue sem) \<Longrightarrow> t \<noteq> currentThread k \<and> t \<notin> set (readyList k)"
    "sems k s = Some sem \<Longrightarrow> sems k s' = Some sem' \<Longrightarrow> t \<in> set (s_queue sem) \<Longrightarrow> t \<in> set (s_queue sem') \<Longrightarrow> s = s'"
proof -
  show "currentThread k \<notin> set (readyList k)"
    "sems k s = Some sem \<Longrightarrow> t \<in> set (s_queue sem) \<Longrightarrow> t \<noteq> currentThread k \<and> t \<notin> set (readyList k)"
    using assms unfolding sched_ok_def by fastforce+
  assume "sems k s = Some sem" "sems k s' = Some sem'" "t \<in> set (s_queue sem)" "t \<in> set (s_queue sem')"
  with assms have "tv k t = Some (BLOCKED, Some s, True)" "tv k t = Some (BLOCKED, Some s', True)"
    unfolding sched_ok_def by blast+
  then show "s = s'" by simp
qed

lemma finite_woken [simp]: "finite (woken k s)"
  by (rule finite_subset [of _ "awake k"]) (auto simp: woken_def awake_def)

section \<open>Atomic steps of the running thread\<close>

text \<open>What the thread on the CPU may do next; every rule is one uninterrupted piece of kernel code.\<close>

inductive kstep :: "Kernel \<Rightarrow> Kernel \<Rightarrow> bool" where
  P_take: "P_round k s = Inr (Taken k') \<Longrightarrow> tv k (currentThread k) = Some (RUNNING, w, True) \<Longrightarrow>
     w \<in> {None, Some s} \<Longrightarrow> kstep k k'"
| P_sleep: "P_round k s = Inr (Slept k') \<Longrightarrow> tv k (currentThread k) = Some (RUNNING, w, True) \<Longrightarrow>
     w \<in> {None, Some s} \<Longrightarrow> kstep k k'"
| V: "Semaphore_V k s = Inr k' \<Longrightarrow> kstep k k'"
| yield: "Yield k (currentThread k) = Inr k' \<Longrightarrow> tv k (currentThread k) = Some (RUNNING, None, True) \<Longrightarrow> kstep k k'"
| yield_return: "Yield_return k = Inr k' \<Longrightarrow> kstep k k'"
| fork: "tv k t = Some (JUST_CREATED, None, ok) \<Longrightarrow> Fork k t = Inr k' \<Longrightarrow> kstep k k'"
| create: "threads k t = None \<Longrightarrow> k' = set_thread t (Thread_new nm raw) k \<Longrightarrow> kstep k k'"
| new_semaphore: "sems k s = None \<Longrightarrow> 0 \<le> v \<Longrightarrow> k' = k\<lparr>sems := (sems k)(s := Some (Semaphore_new v))\<rparr> \<Longrightarrow> kstep k k'"
| finish: "Finish k (currentThread k) = Inr (Switched k') \<Longrightarrow> tv k (currentThread k) = Some (RUNNING, None, True) \<Longrightarrow> kstep k k'"

inductive_cases kstepE: "kstep k k'"

section \<open>Facts about the operations\<close>

lemma Sleep_ok:
  assumes "level k = IntOff" "toBeDestroyed k = None" "tv k (currentThread k) = Some (st, w, True)"
    "readyList k = n # ts" "tv k n = Some (READY, w', ok)" "n \<noteq> currentThread k"
  shows "\<exists>k'. Sleep k (currentThread k) fin = Inr (Switched k') \<and> currentThread k' = n \<and> readyList k' = ts \<and>
    sems k' = sems k \<and> toBeDestroyed k' = None \<and>
    tv k' = (tv k)(n := Some (RUNNING, w', ok), currentThread k := (if fin then None else Some (BLOCKED, w, True)))"
proof -
  obtain th0 where th0: "threads k (currentThread k) = Some th0" "waits_for th0 = w" "CheckOverflow th0"
    using assms(3) by (auto simp: tv_Some)
  obtain thn where thn: "threads k n = Some thn" "waits_for thn = w'" "CheckOverflow thn = ok"
    using assms(5) by (auto simp: tv_Some)
  let ?k2 = "(set_thread (currentThread k) (th0\<lparr>status := BLOCKED\<rparr>) k)\<lparr>readyList := ts\<rparr>"
  have "tv ?k2 = (tv k)(currentThread k := Some (BLOCKED, w, True))"
    using th0 by (auto simp: fun_eq_iff tv_def tview_def)
  moreover obtain k' where "Run ?k2 n fin = Inr k'" "currentThread k' = n" "readyList k' = ts" "sems k' = sems k"
    "toBeDestroyed k' = None" "tv k' = (tv ?k2)(n := Some (RUNNING, waits_for thn, CheckOverflow thn),
      currentThread k := (if fin then None else tv ?k2 (currentThread k)))"
    using Run_ok [of ?k2 "th0\<lparr>status := BLOCKED\<rparr>" n thn fin] assms th0 thn by auto
  ultimately show ?thesis
    using assms th0 thn by (auto simp: Sleep_def with_thread_def FindNextToRun_def Let_def)
qed

lemma slept_case_iffs:
  "(case r of Switched k1 \<Rightarrow> Inr (Slept k1) | Idles k1 \<Rightarrow> Inr (SleptIdle k1)) = (Inr (Slept k') :: (Kernel P_result) result)
     \<longleftrightarrow> r = Switched k'"
  "(case r of Switched k1 \<Rightarrow> Inr (Slept k1) | Idles k1 \<Rightarrow> Inr (SleptIdle k1)) \<noteq> (Inr (Taken k') :: (Kernel P_result) result)"
  by (cases r; simp)+

lemma P_take_effect:
  assumes "P_round k s = Inr (Taken k')" "tv k (currentThread k) = Some (RUNNING, w, True)"
  obtains sem where "sems k s = Some sem" "s_value sem \<noteq> 0" "currentThread k' = currentThread k"
    "readyList k' = readyList k" "toBeDestroyed k' = toBeDestroyed k"
    "sems k' = (sems k)(s := Some (sem\<lparr>s_value := s_value sem - 1\<rparr>))"
    "tv k' = (tv k)(currentThread k := Some (RUNNING, None, True))"
proof -
  obtain sem th where 1: "sems k s = Some sem" "threads k (currentThread k) = Some th" "status th = RUNNING"
    "CheckOverflow th"
    using assms by (auto simp: P_round_def tv_Some split: option.splits)
  then have "s_value sem \<noteq> 0"
    using assms(1) by (auto simp: P_round_def with_thread_def Let_def bindE_eq_Inr slept_case_iffs split: if_splits)
  with 1 assms(1) that show thesis
    by (auto simp: P_round_def with_thread_def Let_def tv_def fun_eq_iff tview_def)
qed

lemma P_sleep_effect:
  assumes "sched_ok k" "P_round k s = Inr (Slept k')" "tv k (currentThread k) = Some (RUNNING, w, True)"
  obtains sem n ts w' where "sems k s = Some sem" "s_value sem = 0" "readyList k = n # ts"
    "tv k n = Some (READY, w', True)" "currentThread k' = n" "readyList k' = ts" "toBeDestroyed k' = None"
    "sems k' = (sems k)(s := Some (sem\<lparr>s_queue := s_queue sem @ [currentThread k]\<rparr>))"
    "tv k' = (tv k)(n := Some (RUNNING, w', True), currentThread k := Some (BLOCKED, Some s, True))"
proof -
  let ?c = "currentThread k"
  obtain sem th where 1: "sems k s = Some sem" "threads k ?c = Some th" "status th = RUNNING" "CheckOverflow th"
    using assms by (auto simp: P_round_def tv_Some split: option.splits)
  let ?l = "if waits_for th = None then level k else saved_level th"
  let ?k1 = "set_thread ?c (th\<lparr>waits_for := Some s, saved_level := ?l\<rparr>)
    (k\<lparr>level := IntOff, sems := (sems k)(s := Some (sem\<lparr>s_queue := s_queue sem @ [?c]\<rparr>))\<rparr>)"
  have v: "s_value sem = 0" and S: "Sleep ?k1 ?c False = Inr (Switched k')"
    using assms(2) 1 by (auto simp: P_round_def with_thread_def Let_def bindE_eq_Inr slept_case_iffs split: if_splits)
  have tv1: "tv ?k1 = (tv k)(?c := Some (RUNNING, Some s, True))"
    using 1 by (auto simp: tv_def fun_eq_iff tview_def)
  have "readyList k \<noteq> []"
    using S 1 by (auto simp: Sleep_def with_thread_def FindNextToRun_def Let_def)
  then obtain n ts where r: "readyList k = n # ts" by (cases "readyList k") auto
  with assms(1) obtain w' where n: "tv k n = Some (READY, w', True)" "n \<noteq> ?c"
    using sched_okD(1) [OF assms(1)] by (auto simp: sched_ok_def)
  from Sleep_ok [of ?k1 RUNNING "Some s" n ts w' True False] S r n tv1 assms(1) have
    "currentThread k' = n" "readyList k' = ts" "toBeDestroyed k' = None"
    "sems k' = (sems k)(s := Some (sem\<lparr>s_queue := s_queue sem @ [?c]\<rparr>))"
    "tv k' = (tv k)(n := Some (RUNNING, w', True), ?c := Some (BLOCKED, Some s, True))"
    by (auto simp: sched_ok_def fun_eq_iff)
  with 1 v r n that show thesis by blast
qed

lemma P_take_inv:
  assumes "sched_ok k" "no_lost_wakeup k" "P_round k s = Inr (Taken k')"
    "tv k (currentThread k) = Some (RUNNING, w, True)" "w \<in> {None, Some s}"
  shows "sched_ok k' \<and> no_lost_wakeup k'"
proof -
  let ?c = "currentThread k"
  obtain sem where e: "sems k s = Some sem" "s_value sem \<noteq> 0" "currentThread k' = ?c"
    "readyList k' = readyList k" "toBeDestroyed k' = toBeDestroyed k"
    "sems k' = (sems k)(s := Some (sem\<lparr>s_value := s_value sem - 1\<rparr>))"
    "tv k' = (tv k)(?c := Some (RUNNING, None, True))"
    using P_take_effect [OF assms(3,4)] .
  have q: "t \<noteq> ?c" if "sems k s' = Some sem'" "t \<in> set (s_queue sem')" for s' sem' t
    using sched_okD(2) [OF assms(1) that] by blast
  have "sched_ok k'"
    using assms(1) e q sched_okD(1) [OF assms(1)] unfolding sched_ok_def by (auto 0 3)
  moreover have "no_lost_wakeup k'"
    unfolding no_lost_wakeup_def
  proof (intro allI impI)
    fix s' sem' assume a: "sems k' s' = Some sem' \<and> s_queue sem' \<noteq> []"
    have w: "woken k' s' = woken k s' - {?c}"
      using e by (auto simp: woken_def awake_def)
    show "s_value sem' \<le> int (card (woken k' s'))"
    proof (cases "s' = s")
      case True
      then have "s_value sem' = s_value sem - 1" "s_value sem \<le> int (card (woken k s))"
        using a e assms(2) by (auto simp: no_lost_wakeup_def)
      then show ?thesis using w True by (cases "?c \<in> woken k s") (auto simp: card_Diff_singleton_if)
    next
      case False
      then have "?c \<notin> woken k s'" using assms(4,5) by (auto simp: woken_def)
      then show ?thesis using a e assms(2) False w by (auto simp: no_lost_wakeup_def)
    qed
  qed
  ultimately show ?thesis by blast
qed

lemma P_sleep_inv:
  assumes "sched_ok k" "no_lost_wakeup k" "P_round k s = Inr (Slept k')"
    "tv k (currentThread k) = Some (RUNNING, w, True)" "w \<in> {None, Some s}"
  shows "sched_ok k' \<and> no_lost_wakeup k'"
proof -
  let ?c = "currentThread k"
  obtain sem n ts w' where e: "sems k s = Some sem" "s_value sem = 0" "readyList k = n # ts"
    "tv k n = Some (READY, w', True)" "currentThread k' = n" "readyList k' = ts" "toBeDestroyed k' = None"
    "sems k' = (sems k)(s := Some (sem\<lparr>s_queue := s_queue sem @ [?c]\<rparr>))"
    "tv k' = (tv k)(n := Some (RUNNING, w', True), ?c := Some (BLOCKED, Some s, True))"
    using P_sleep_effect [OF assms(1,3,4)] .
  have q: "t \<noteq> ?c \<and> t \<noteq> n" if "sems k s' = Some sem'" "t \<in> set (s_queue sem')" for s' sem' t
    using sched_okD(2) [OF assms(1) that] e(3) by auto
  have nc: "n \<noteq> ?c" "?c \<notin> set ts" "n \<notin> set ts" "distinct ts"
    using sched_okD(1) [OF assms(1)] assms(1) e(3) by (auto simp: sched_ok_def)
  have "\<exists>w. tv k' t = Some (READY, w, True)" if "t \<in> set ts" for t
    using that nc e assms(1) by (auto simp: sched_ok_def)
  moreover have "distinct (s_queue sem') \<and> 0 \<le> s_value sem' \<and> (\<forall>t \<in> set (s_queue sem'). tv k' t = Some (BLOCKED, Some s', True))"
    if "sems k' s' = Some sem'" for s' sem'
    using that e q nc assms(1) by (auto simp: sched_ok_def split: if_splits)
  ultimately have "sched_ok k'"
    using e nc unfolding sched_ok_def by auto
  moreover have "woken k' s' = woken k s' - {?c}" for s'
    using e nc by (auto simp: woken_def awake_def)
  then have "no_lost_wakeup k'"
    using assms(2,4,5) e unfolding no_lost_wakeup_def
    by (auto simp: woken_def split: if_splits)
  ultimately show ?thesis by blast
qed

lemma V_inv:
  assumes "sched_ok k" "no_lost_wakeup k" "Semaphore_V k s = Inr k'"
  shows "sched_ok k' \<and> no_lost_wakeup k'"
proof -
  obtain sem where s: "sems k s = Some sem" using assms(3) by (auto simp: Semaphore_V_def split: option.splits)
  show ?thesis
  proof (cases "s_queue sem")
    case Nil
    with assms(3) s have k': "k' = k\<lparr>sems := (sems k)(s := Some (sem\<lparr>s_value := s_value sem + 1\<rparr>))\<rparr>"
      by (simp add: Semaphore_V_def)
    with assms(1,2) s Nil show ?thesis
      by (auto simp: sched_ok_def no_lost_wakeup_def woken_def awake_def tv_def split: if_splits)
  next
    case (Cons t ts)
    obtain th where th: "threads k t = Some th" "status th = BLOCKED" "waits_for th = Some s" "CheckOverflow th"
      using assms(1) s Cons unfolding sched_ok_def tv_Some by (metis list.set_intros(1))
    have na: "t \<noteq> currentThread k" "t \<notin> set (readyList k)" using sched_okD(2) [OF assms(1) s] Cons by auto
    have e: "currentThread k' = currentThread k" "readyList k' = readyList k @ [t]" "toBeDestroyed k' = toBeDestroyed k"
      "sems k' = (sems k)(s := Some \<lparr>s_value = s_value sem + 1, s_queue = ts\<rparr>)"
      "tv k' = (tv k)(t := Some (READY, Some s, True))"
      using assms(3) s Cons th
      by (auto simp: Semaphore_V_def ReadyToRun_def with_thread_def fun_eq_iff tv_def tview_def)
    have "distinct (s_queue sem)" using assms(1) s unfolding sched_ok_def by blast
    with Cons have dq: "t \<notin> set ts" "distinct ts" by auto
    have "u \<noteq> t" if "sems k s' = Some sem'" "u \<in> set (s_queue sem')" "s' \<noteq> s" for s' sem' u
      using sched_okD(3) [OF assms(1) s that(1)] that Cons by auto
    then have "distinct (s_queue sem') \<and> 0 \<le> s_value sem' \<and> (\<forall>u \<in> set (s_queue sem'). tv k' u = Some (BLOCKED, Some s', True))"
      if "sems k' s' = Some sem'" for s' sem'
      using that e dq s Cons assms(1) by (auto simp: sched_ok_def split: if_splits)
    with e na assms(1) have "sched_ok k'" by (auto simp: sched_ok_def)
    moreover have "woken k' s' = (if s' = s then insert t (woken k s) else woken k s')" for s'
      using e na th by (auto simp: woken_def awake_def tv_Some)
    moreover have "t \<notin> woken k s" using na by (auto simp: woken_def awake_def)
    ultimately show ?thesis
      using assms(2) e s Cons unfolding no_lost_wakeup_def by (auto split: if_splits)
  qed
qed

text \<open>A change of the interrupt level, or of threads that are nowhere queued, keeps the invariant.\<close>

lemma inv_cong:
  assumes "sched_ok k" "no_lost_wakeup k" "currentThread k' = currentThread k" "readyList k' = readyList k"
    "toBeDestroyed k' = toBeDestroyed k" "sems k' = sems k"
    "\<And>t. tv k t \<noteq> None \<Longrightarrow> tv k' t = tv k t"
  shows "sched_ok k' \<and> no_lost_wakeup k'"
proof
  have t: "tv k t = Some x \<Longrightarrow> tv k' t = Some x" for t x using assms(7) [of t] by simp
  have "\<exists>w. tv k' (currentThread k) = Some (RUNNING, w, True)"
    "\<forall>t \<in> set (readyList k). \<exists>w. tv k' t = Some (READY, w, True)"
    "\<And>s sem. sems k s = Some sem \<Longrightarrow> \<forall>t \<in> set (s_queue sem). tv k' t = Some (BLOCKED, Some s, True)"
    using assms(1) t unfolding sched_ok_def by blast+
  then show "sched_ok k'" using assms(1) unfolding sched_ok_def assms(3-6) by blast
  have "tv k t \<noteq> None" if "t \<in> awake k" for t
    using assms(1) that unfolding sched_ok_def awake_def by blast
  then have "tv k' t = tv k t" if "t \<in> awake k" for t using assms(7) that by blast
  then have "woken k' s = woken k s" for s using assms(3,4) by (auto simp: woken_def awake_def)
  then show "no_lost_wakeup k'" using assms(2,6) by (simp add: no_lost_wakeup_def)
qed

lemma Yield_inv:
  assumes "sched_ok k" "no_lost_wakeup k" "Yield k (currentThread k) = Inr k'"
    "tv k (currentThread k) = Some (RUNNING, None, True)"
  shows "sched_ok k' \<and> no_lost_wakeup k'"
proof (cases "readyList k")
  case Nil
  with assms(3) have k': "k' = k"
    by (simp add: Yield_def FindNextToRun_def)
  with assms show ?thesis by simp
next
  case (Cons n ts)
  let ?c = "currentThread k"
  obtain th where th: "threads k ?c = Some th" "waits_for th = None" "CheckOverflow th" using assms(4) by (auto simp: tv_Some)
  have nc: "n \<noteq> ?c" "?c \<notin> set ts" "n \<notin> set ts" "distinct ts"
    using sched_okD(1) [OF assms(1)] assms(1) Cons by (auto simp: sched_ok_def)
  obtain thn w' where thn: "threads k n = Some thn" "tv k n = Some (READY, w', True)" "waits_for thn = w'" "CheckOverflow thn"
    using assms(1) Cons by (auto simp: sched_ok_def tv_Some)
  let ?k2 = "set_thread ?c (th\<lparr>status := READY, saved_level := level k\<rparr>) (k\<lparr>level := IntOff, readyList := ts @ [?c]\<rparr>)"
  have run: "Run ?k2 n False = Inr k'"
    using assms(3) Cons th by (simp add: Yield_def FindNextToRun_def ReadyToRun_def with_thread_def set_thread_def)
  have tv2: "tv ?k2 = (tv k)(?c := Some (READY, None, True))"
    using th by (auto simp: tv_def fun_eq_iff tview_def)
  from Run_ok [of ?k2 "th\<lparr>status := READY, saved_level := level k\<rparr>" n thn False] run th thn nc assms(1) tv2
  have e: "currentThread k' = n" "readyList k' = ts @ [?c]" "sems k' = sems k" "toBeDestroyed k' = None"
    "tv k' = (tv k)(n := Some (RUNNING, w', True), ?c := Some (READY, None, True))"
    by (auto simp: sched_ok_def fun_eq_iff)
  have q: "t \<noteq> ?c \<and> t \<noteq> n" if "sems k s' = Some sem'" "t \<in> set (s_queue sem')" for s' sem' t
    using sched_okD(2) [OF assms(1) that] Cons by auto
  have "sched_ok k'" using assms(1) e nc q Cons unfolding sched_ok_def by (auto 0 3)
  moreover have "woken k' s = woken k s" for s
    using e nc Cons assms(4) thn by (auto simp: woken_def awake_def)
  ultimately show ?thesis using assms(2) e by (simp add: no_lost_wakeup_def)
qed

lemma Finish_inv:
  assumes "sched_ok k" "no_lost_wakeup k" "Finish k (currentThread k) = Inr (Switched k')"
    "tv k (currentThread k) = Some (RUNNING, None, True)"
  shows "sched_ok k' \<and> no_lost_wakeup k'"
proof -
  let ?c = "currentThread k" and ?k0 = "k\<lparr>level := IntOff\<rparr>"
  have S: "Sleep ?k0 ?c True = Inr (Switched k')" using assms(3) by (simp add: Finish_def)
  have tv0: "tv ?k0 = tv k" by (simp add: tv_def fun_eq_iff)
  have "readyList k \<noteq> []"
    using S assms(4) by (auto simp: Sleep_def with_thread_def FindNextToRun_def Let_def tv_Some)
  then obtain n ts where r: "readyList k = n # ts" by (cases "readyList k") auto
  have nc: "n \<noteq> ?c" "?c \<notin> set ts" "n \<notin> set ts" "distinct ts"
    using sched_okD(1) [OF assms(1)] assms(1) r by (auto simp: sched_ok_def)
  obtain w' where n: "tv k n = Some (READY, w', True)" using assms(1) r by (auto simp: sched_ok_def)
  from Sleep_ok [of ?k0 RUNNING None n ts w' True True] S r n nc tv0 assms(1,4) have e:
    "currentThread k' = n" "readyList k' = ts" "toBeDestroyed k' = None" "sems k' = sems k"
    "tv k' = (tv k)(n := Some (RUNNING, w', True), ?c := None)"
    by (auto simp: sched_ok_def)
  have q: "t \<noteq> ?c \<and> t \<noteq> n" if "sems k s' = Some sem'" "t \<in> set (s_queue sem')" for s' sem' t
    using sched_okD(2) [OF assms(1) that] r by auto
  have "sched_ok k'" using assms(1) e nc q r unfolding sched_ok_def by (auto 0 3)
  moreover have "woken k' s = woken k s" for s
    using e nc r n assms(4) by (auto simp: woken_def awake_def)
  ultimately show ?thesis using assms(2) e by (simp add: no_lost_wakeup_def)
qed

lemma Fork_inv:
  assumes "sched_ok k" "no_lost_wakeup k" "tv k t = Some (JUST_CREATED, None, ok)" "Fork k t = Inr k'"
  shows "sched_ok k' \<and> no_lost_wakeup k'"
proof -
  obtain th where th: "threads k t = Some th" "status th = JUST_CREATED" "waits_for th = None"
    using assms(3) by (auto simp: tv_Some)
  have e: "currentThread k' = currentThread k" "readyList k' = readyList k @ [t]" "toBeDestroyed k' = toBeDestroyed k"
    "sems k' = sems k" "tv k' = (tv k)(t := Some (READY, None, True))"
    using assms(4) th
    by (auto simp: Fork_def ReadyToRun_def with_thread_def fun_eq_iff tv_def tview_def CheckOverflow_def Let_def)
  have na: "t \<noteq> currentThread k" "t \<notin> set (readyList k)"
    "\<And>s sem. sems k s = Some sem \<Longrightarrow> t \<notin> set (s_queue sem)"
    using assms(1,3) by (fastforce simp: sched_ok_def)+
  have "sched_ok k'" using assms(1) e na unfolding sched_ok_def by (auto 0 3)
  moreover have "woken k' s = woken k s" for s
    using e na by (auto simp: woken_def awake_def)
  ultimately show ?thesis using assms(2) e by (simp add: no_lost_wakeup_def)
qed

lemma kstep_inv:
  assumes "kstep k k'" "sched_ok k" "no_lost_wakeup k"
  shows "sched_ok k' \<and> no_lost_wakeup k'"
  using assms
proof cases
  case (yield_return)
  then show ?thesis
    using inv_cong [OF assms(2,3)] by (auto simp: Yield_return_def with_thread_def tv_def split: option.splits)
next
  case (create t nm raw)
  then show ?thesis by (intro inv_cong [OF assms(2,3)]) (auto simp: tv_def)
next
  case (new_semaphore s v)
  then show ?thesis using assms(2,3)
    by (auto simp: sched_ok_def no_lost_wakeup_def woken_def awake_def tv_def Semaphore_new_def split: if_splits)
qed (use assms P_take_inv P_sleep_inv V_inv Yield_inv Fork_inv Finish_inv in blast)+

section \<open>Properties\<close>

definition boot :: "Machine \<Rightarrow> Bitmap \<Rightarrow> Thread \<Rightarrow> Kernel" where
  \<comment> \<open>\<open>Kernel::Initialize\<close>: the main thread runs, nothing else exists; address 0 is its Thread\<close>
  "boot m bm raw = \<lparr>machine = m, gPhysPageBitMap = bm, addrLock = 1,
     threads = (\<lambda>_. None)(0 := Some ((Thread_new [] raw)\<lparr>processID := 0, status := RUNNING, started := True\<rparr>)),
     currentThread = 0, readyList = [], toBeDestroyed = None, level = IntOn, sems = (\<lambda>_. None)\<rparr>"

lemma boot_inv: "sched_ok (boot m bm raw)" "no_lost_wakeup (boot m bm raw)"
  by (simp_all add: sched_ok_def no_lost_wakeup_def boot_def tv_def tview_def Thread_new_def CheckOverflow_def)

lemma reachable_inv:
  assumes "kstep\<^sup>*\<^sup>* (boot m bm raw) k"
  shows "sched_ok k" "no_lost_wakeup k"
proof -
  from assms have "sched_ok k \<and> no_lost_wakeup k"
    by (induction rule: rtranclp_induct) (use boot_inv kstep_inv in blast)+
  then show "sched_ok k" "no_lost_wakeup k" by blast+
qed


definition boot0 :: Kernel where
  "boot0 = boot (Machine_init False 0 0) \<lparr>numBits = 512, numWords = 16, words = replicate 16 0\<rparr>
     \<lparr>t_name = [], processID = 0, status = JUST_CREATED, userRegisters = (\<lambda>_. 0), t_space = None,
      stack_word = None, started = False, waits_for = None, saved_level = IntOn\<rparr>"

definition boot1 :: Kernel where
  "boot1 = boot0\<lparr>sems := (\<lambda>_. None)(7 := Some \<lparr>s_value = 1, s_queue = []\<rparr>)\<rparr>"

lemma boot1_step: "kstep boot0 boot1"
  by (rule kstep.new_semaphore [where s = 7 and v = 1]) (simp_all add: boot0_def boot1_def boot_def Semaphore_new_def)

lemma boot1_P: "\<exists>k. P_round boot1 7 = Inr (Taken k) \<and> sems k 7 = Some \<lparr>s_value = 0, s_queue = []\<rparr>"
  by (simp add: P_round_def boot1_def boot0_def boot_def with_thread_def Let_def)



definition boot2 :: Kernel where
  "boot2 = set_thread 5 (Thread_new [104] (the (threads boot0 0))) boot1"



lemma RestoreUserState_cong [simp]:
  "RestoreUserState (th\<lparr>status := st\<rparr>) m = RestoreUserState th m"
  by (simp add: RestoreUserState_def cong: if_cong)

lemma Run_resumes:
  assumes "Run k n False = Inr k'" and "threads k n = Some th" and "currentThread k \<noteq> n"
    and "started th" and "t_space th = Some sp"
  shows "machine k' = RestoreState sp (RestoreUserState th (machine k))"
proof -
  obtain o1 where "threads k (currentThread k) = Some o1"
    using assms(1) by (cases "threads k (currentThread k)") (auto simp: Run_def with_thread_def Let_def result_iffs)
  with assms show ?thesis
    by (auto simp: Run_def Let_def with_thread_def switch_in_def CheckToBeDestroyed_def Thread_delete_def
      result_iffs split: option.splits if_splits)
qed


definition switch_demo :: Kernel where
  \<comment> \<open>the main thread has an address space and register 4 holds 42; thread 1 is ready\<close>
  "switch_demo = (let th = the (threads boot0 0) in
     boot0\<lparr>machine := (machine boot0)\<lparr>registers := (\<lambda>_. 0)(4 := 42)\<rparr>, level := IntOff,
       threads := (\<lambda>_. None)(0 := Some (th\<lparr>t_space := Some \<lparr>as_pageTable = Some [], as_numPages = 0\<rparr>\<rparr>),
                           1 := Some th)\<rparr>)"


end
