(* ===== verification/FileSys.thy ===== *)
theory FileSys
  imports User_Mode
begin

text \<open>
  The file system of this build: the stubs of filesys/filesys.h and filesys/openfile.h
  (\<^verbatim>\<open>FILESYS_STUB\<close>) over the UNIX calls of lib/sysdep.cc, and the table of twenty open files.

  UNIX itself is a parameter, the record \<open>Unix\<close> of functions on a host state \<open>'h\<close>. What happens
  inside a routine of the kernel is an \<open>hres\<close>: it goes on with a value, the machine halts, Nachos
  dies, or it waits for console input that has not been typed. \<open>World\<close> is what a system call sees:
  the machine, the open files, the console and the host.
\<close>

section \<open>Effects\<close>

datatype ('s, 'a) hres = Go 'a 's | HaltsNow 's | Dies fault | NeedsInput 's

definition bindH :: "('s, 'a) hres \<Rightarrow> ('a \<Rightarrow> 's \<Rightarrow> ('s, 'b) hres) \<Rightarrow> ('s, 'b) hres" where
  "bindH m f = (case m of Go x s \<Rightarrow> f x s | HaltsNow s \<Rightarrow> HaltsNow s | Dies e \<Rightarrow> Dies e | NeedsInput s \<Rightarrow> NeedsInput s)"

definition lift_result :: "'a result \<Rightarrow> 's \<Rightarrow> ('s, 'a) hres" where
  "lift_result r s = (case r of Inl e \<Rightarrow> Dies e | Inr x \<Rightarrow> Go x s)"

lemma bindH_simps [simp]:
  "bindH (Go x s) f = f x s" "bindH (HaltsNow s) f = HaltsNow s" "bindH (Dies e) f = Dies e" "bindH (NeedsInput s) f = NeedsInput s"
  by (simp_all add: bindH_def)

lemma bindH_eq_Go: "bindH m f = Go y s' \<longleftrightarrow> (\<exists>x s. m = Go x s \<and> f x s = Go y s')"
  by (cases m) simp_all

lemma lift_result_simps [simp]: "lift_result (Inr x) s = Go x s" "lift_result (Inl e) s = Dies e"
  by (simp_all add: lift_result_def)

lemma lift_result_eq_Go [simp]: "lift_result r s = Go x s' \<longleftrightarrow> r = Inr x \<and> s' = s"
  by (cases r) auto

section \<open>State\<close>

record 'h Unix =
  u_creat :: "byte list \<Rightarrow> 'h \<Rightarrow> int \<times> 'h"              \<comment> \<open>\<open>open(name, O_RDWR|O_CREAT|O_TRUNC, 0666)\<close>\<close>
  u_open :: "byte list \<Rightarrow> 'h \<Rightarrow> int \<times> 'h"               \<comment> \<open>\<open>open(name, O_RDWR, 0)\<close>\<close>
  u_close :: "int \<Rightarrow> 'h \<Rightarrow> int \<times> 'h"
  u_read :: "int \<Rightarrow> int \<Rightarrow> 'h \<Rightarrow> (int \<times> byte list) \<times> 'h"   \<comment> \<open>the bytes are those stored in the buffer\<close>
  u_write :: "int \<Rightarrow> byte list \<Rightarrow> int \<Rightarrow> 'h \<Rightarrow> int \<times> 'h"
  u_lseek :: "int \<Rightarrow> int \<Rightarrow> int \<Rightarrow> 'h \<Rightarrow> int \<times> 'h"
  u_unlink :: "byte list \<Rightarrow> 'h \<Rightarrow> int \<times> 'h"
  u_socket :: "'h \<Rightarrow> int \<times> 'h"
  u_connect :: "int \<Rightarrow> byte list \<Rightarrow> cint \<Rightarrow> 'h \<Rightarrow> int \<times> 'h"

record OpenFile =
  o_type :: cint
  isConnect :: bool
  o_file :: int
  currentOffset :: cint
  is_socketH :: bool      \<comment> \<open>the dynamic class of the object\<close>

record FileSystem =
  openfile :: "OpenFile option list"
  fs_filename :: "byte list list"

datatype MachineStatus = IdleMode | SystemMode | UserMode

record 'h World =
  mach :: Machine
  fileSystem :: FileSystem
  console_in :: "byte list"      \<comment> \<open>the characters that will be typed\<close>
  console_out :: "byte list"
  mode :: MachineStatus
  host :: 'h

abbreviation MaxOpen :: nat where "MaxOpen \<equiv> 20"

definition host_call :: "('h \<Rightarrow> 'a \<times> 'h) \<Rightarrow> 'h World \<Rightarrow> ('h World, 'a) hres" where
  "host_call f w = (case f (host w) of (x, h) \<Rightarrow> Go x (w\<lparr>host := h\<rparr>))"

definition assertH :: "bool \<Rightarrow> 's \<Rightarrow> ('s, unit) hres" where
  "assertH c s = (if c then Go () s else Dies AssertFailed)"

section \<open>The wrappers of sysdep.cc\<close>

definition OpenForWrite :: "'h Unix \<Rightarrow> byte list \<Rightarrow> 'h World \<Rightarrow> ('h World, int) hres" where
  "OpenForWrite u name w = bindH (host_call (u_creat u name) w) (\<lambda>fd w1. bindH (assertH (fd \<ge> 0) w1) (\<lambda>_ w2. Go fd w2))"

definition OpenForReadWrite :: "'h Unix \<Rightarrow> byte list \<Rightarrow> bool \<Rightarrow> 'h World \<Rightarrow> ('h World, int) hres" where
  "OpenForReadWrite u name crashOnError w =
     bindH (host_call (u_open u name) w) (\<lambda>fd w1. bindH (assertH (\<not> crashOnError \<or> fd \<ge> 0) w1) (\<lambda>_ w2. Go fd w2))"

definition ReadPartial :: "'h Unix \<Rightarrow> int \<Rightarrow> int \<Rightarrow> 'h World \<Rightarrow> ('h World, int \<times> byte list) hres" where
  "ReadPartial u fd n w = host_call (u_read u fd n) w"

definition WriteFile :: "'h Unix \<Rightarrow> int \<Rightarrow> byte list \<Rightarrow> int \<Rightarrow> 'h World \<Rightarrow> ('h World, unit) hres" where
  "WriteFile u fd buf n w = bindH (host_call (u_write u fd buf n) w) (\<lambda>r. assertH (r = n))"

definition Lseek :: "'h Unix \<Rightarrow> int \<Rightarrow> int \<Rightarrow> int \<Rightarrow> 'h World \<Rightarrow> ('h World, unit) hres" where
  "Lseek u fd offset whence w = bindH (host_call (u_lseek u fd offset whence) w) (\<lambda>r. assertH (r \<ge> 0))"

definition Tell :: "'h Unix \<Rightarrow> int \<Rightarrow> 'h World \<Rightarrow> ('h World, int) hres" where
  \<comment> \<open>\<open>lseek(fd, 0, SEEK_CUR)\<close>\<close>
  "Tell u fd w = host_call (u_lseek u fd 0 1) w"

definition Close :: "'h Unix \<Rightarrow> int \<Rightarrow> 'h World \<Rightarrow> ('h World, int) hres" where
  "Close u fd w = bindH (host_call (u_close u fd) w) (\<lambda>r w1. bindH (assertH (r \<ge> 0) w1) (\<lambda>_ w2. Go r w2))"

definition Unlink :: "'h Unix \<Rightarrow> byte list \<Rightarrow> 'h World \<Rightarrow> ('h World, bool) hres" where
  \<comment> \<open>the result of \<open>unlink\<close> converted to \<open>bool\<close>\<close>
  "Unlink u name w = bindH (host_call (u_unlink u name) w) (\<lambda>r w1. Go (r \<noteq> 0) w1)"

definition CloseSocket :: "'h Unix \<Rightarrow> int \<Rightarrow> 'h World \<Rightarrow> ('h World, unit) hres" where
  "CloseSocket u fd w = bindH (host_call (u_close u fd) w) (\<lambda>_ w1. Go () w1)"

section \<open>Open files\<close>

text \<open>
  The methods that change the object return it updated. A buffer is the list of its bytes; a count
  is a C \<open>int\<close>.
\<close>

definition OpenFile_new :: "int \<Rightarrow> cint \<Rightarrow> OpenFile" where
  \<comment> \<open>\<open>OpenFile(int f)\<close>: \<open>type\<close> keeps what the memory held\<close>
  "OpenFile_new f raw_type = \<lparr>o_type = raw_type, isConnect = True, o_file = f, currentOffset = 0, is_socketH = False\<rparr>"

definition OpenFile_new2 :: "int \<Rightarrow> cint \<Rightarrow> OpenFile" where
  "OpenFile_new2 f m = \<lparr>o_type = m, isConnect = False, o_file = f, currentOffset = 0, is_socketH = False\<rparr>"

definition socketH_new :: "int \<Rightarrow> OpenFile" where
  "socketH_new f = (OpenFile_new2 f 2)\<lparr>is_socketH := True\<rparr>"

definition OpenFile_delete :: "'h Unix \<Rightarrow> OpenFile \<Rightarrow> 'h World \<Rightarrow> ('h World, unit) hres" where
  "OpenFile_delete u f w =
     (if o_type f \<noteq> 2 then bindH (Close u (o_file f) w) (\<lambda>_ w1. Go () w1) else CloseSocket u (o_file f) w)"

definition ReadAt :: "'h Unix \<Rightarrow> OpenFile \<Rightarrow> cint \<Rightarrow> cint \<Rightarrow> 'h World \<Rightarrow> ('h World, int \<times> byte list) hres" where
  "ReadAt u f numBytes position w =
     bindH (Lseek u (o_file f) (sint position) 0 w) (\<lambda>_. ReadPartial u (o_file f) (sint numBytes))"

definition WriteAt :: "'h Unix \<Rightarrow> OpenFile \<Rightarrow> byte list \<Rightarrow> cint \<Rightarrow> cint \<Rightarrow> 'h World \<Rightarrow> ('h World, cint) hres" where
  "WriteAt u f buf numBytes position w =
     bindH (Lseek u (o_file f) (sint position) 0 w) (\<lambda>_ w1.
     bindH (WriteFile u (o_file f) buf (sint numBytes) w1) (\<lambda>_ w2. Go numBytes w2))"

definition OpenFile_Read :: "'h Unix \<Rightarrow> OpenFile \<Rightarrow> cint \<Rightarrow> 'h World \<Rightarrow> ('h World, (cint \<times> byte list) \<times> OpenFile) hres" where
  \<comment> \<open>the virtual method: \<open>socketH::Read\<close> for a socket\<close>
  "OpenFile_Read u f numBytes w =
     (if is_socketH f
      then if \<not> isConnect f then Go ((-1, []), f) w
           else bindH (host_call (u_read u (o_file f) (sint numBytes)) w) (\<lambda>(r, bs) w1. Go ((of_int r, bs), f) w1)
      else bindH (ReadAt u f numBytes (currentOffset f) w) (\<lambda>(r, bs) w1.
             Go ((of_int r, bs), f\<lparr>currentOffset := currentOffset f + of_int r\<rparr>) w1))"

definition OpenFile_Write :: "'h Unix \<Rightarrow> OpenFile \<Rightarrow> byte list \<Rightarrow> cint \<Rightarrow> 'h World \<Rightarrow> ('h World, cint \<times> OpenFile) hres" where
  "OpenFile_Write u f buf numBytes w =
     (if is_socketH f
      then if \<not> isConnect f then Go (-1, f) w
           else bindH (host_call (u_write u (o_file f) buf (sint numBytes)) w) (\<lambda>r w1. Go (of_int r, f) w1)
      else bindH (WriteAt u f buf numBytes (currentOffset f) w) (\<lambda>n w1. Go (n, f\<lparr>currentOffset := currentOffset f + n\<rparr>) w1))"

definition OpenFile_Seek :: "'h Unix \<Rightarrow> OpenFile \<Rightarrow> cint \<Rightarrow> 'h World \<Rightarrow> ('h World, OpenFile) hres" where
  "OpenFile_Seek u f pos w =
     bindH (Lseek u (o_file f) (sint pos) 0 w) (\<lambda>_ w1.
     bindH (Tell u (o_file f) w1) (\<lambda>p w2. Go (f\<lparr>currentOffset := of_int p\<rparr>) w2))"

definition GetCurrentPos :: "'h Unix \<Rightarrow> OpenFile \<Rightarrow> 'h World \<Rightarrow> ('h World, cint \<times> OpenFile) hres" where
  "GetCurrentPos u f w = bindH (Tell u (o_file f) w) (\<lambda>p w1. Go (of_int p, f\<lparr>currentOffset := of_int p\<rparr>) w1)"

definition OpenFile_Length :: "'h Unix \<Rightarrow> OpenFile \<Rightarrow> 'h World \<Rightarrow> ('h World, cint) hres" where
  "OpenFile_Length u f w =
     bindH (Lseek u (o_file f) 0 2 w) (\<lambda>_ w1. bindH (Tell u (o_file f) w1) (\<lambda>p w2. Go (of_int p) w2))"

definition OpenFile_Connect :: "'h Unix \<Rightarrow> OpenFile \<Rightarrow> byte list \<Rightarrow> cint \<Rightarrow> 'h World \<Rightarrow> ('h World, cint \<times> OpenFile) hres" where
  "OpenFile_Connect u f ip port w =
     (if o_type f \<noteq> 2 then Go (-1, f) w
      else bindH (host_call (u_connect u (o_file f) ip port) w) (\<lambda>r w1.
        if r < 0 then Go (-1, f\<lparr>isConnect := False\<rparr>) w1 else Go (0, f\<lparr>isConnect := True\<rparr>) w1))"

section \<open>The file system\<close>

definition FileSystem_Create :: "'h Unix \<Rightarrow> byte list \<Rightarrow> 'h World \<Rightarrow> ('h World, bool) hres" where
  "FileSystem_Create u name w =
     bindH (OpenForWrite u name w) (\<lambda>fd w1.
       if fd = -1 then Go False w1 else bindH (Close u fd w1) (\<lambda>_ w2. Go True w2))"

definition FileSystem_Open :: "'h Unix \<Rightarrow> byte list \<Rightarrow> cint \<Rightarrow> 'h World \<Rightarrow> ('h World, OpenFile option) hres" where
  \<comment> \<open>\<open>Open(char *name)\<close>\<close>
  "FileSystem_Open u name raw_type w =
     bindH (OpenForReadWrite u name False w) (\<lambda>fd w1.
       Go (if fd < 0 then None else Some (OpenFile_new fd raw_type)) w1)"

definition FileSystem_Open2 :: "'h Unix \<Rightarrow> byte list \<Rightarrow> cint \<Rightarrow> 'h World \<Rightarrow> ('h World, OpenFile option) hres" where
  \<comment> \<open>\<open>Open(char *name, int type)\<close>\<close>
  "FileSystem_Open2 u name m w =
     bindH (OpenForReadWrite u name False w) (\<lambda>fd w1.
       Go (if fd = -1 then None else Some (OpenFile_new2 fd m)) w1)"

definition socketTCP :: "'h Unix \<Rightarrow> 'h World \<Rightarrow> ('h World, OpenFile option) hres" where
  "socketTCP u w = bindH (host_call (u_socket u) w) (\<lambda>fd w1. Go (if fd < 0 then None else Some (socketH_new fd)) w1)"

definition FileSystem_Remove :: "'h Unix \<Rightarrow> byte list \<Rightarrow> 'h World \<Rightarrow> ('h World, bool) hres" where
  "FileSystem_Remove u name w = bindH (Unlink u name w) (\<lambda>r w1. Go (r = False) w1)"

definition isFull :: "FileSystem \<Rightarrow> int result" where
  "isFull fs = searchE (\<lambda>i. bindE (aget (openfile fs) i) (\<lambda>f. Inr (f = None))) 0 (int MaxOpen)"

definition set_openfile :: "int \<Rightarrow> OpenFile option \<Rightarrow> 'h World \<Rightarrow> ('h World, unit) hres" where
  \<comment> \<open>\<open>openfile[i] = f\<close>\<close>
  "set_openfile i f w = bindH (lift_result (aset (openfile (fileSystem w)) i f) w) (\<lambda>tab w1.
     Go () (w1\<lparr>fileSystem := (fileSystem w1)\<lparr>openfile := tab\<rparr>\<rparr>))"

definition set_filename :: "int \<Rightarrow> byte list \<Rightarrow> 'h World \<Rightarrow> ('h World, unit) hres" where
  "set_filename i nm w = bindH (lift_result (aset (fs_filename (fileSystem w)) i nm) w) (\<lambda>tab w1.
     Go () (w1\<lparr>fileSystem := (fileSystem w1)\<lparr>fs_filename := tab\<rparr>\<rparr>))"

abbreviation stdin_name :: "byte list" where "stdin_name \<equiv> [115, 116, 100, 105, 110]"
abbreviation stdout_name :: "byte list" where "stdout_name \<equiv> [115, 116, 100, 111, 117, 116]"

definition open_std :: "'h Unix \<Rightarrow> byte list \<Rightarrow> int \<Rightarrow> cint \<Rightarrow> cint \<Rightarrow> 'h World \<Rightarrow> ('h World, unit) hres" where
  \<comment> \<open>\<open>openfile[i] = Open(name); openfile[i]->type = t; filename[i] = name;\<close>\<close>
  "open_std u name i t raw_type w =
     bindH (FileSystem_Open u name raw_type w) (\<lambda>f w1.
       case f of None \<Rightarrow> Dies BadAccess
       | Some f \<Rightarrow> bindH (set_openfile i (Some (f\<lparr>o_type := t\<rparr>)) w1) (\<lambda>_. set_filename i name))"

definition FileSystem_new :: "'h Unix \<Rightarrow> cint \<Rightarrow> cint \<Rightarrow> 'h World \<Rightarrow> ('h World, unit) hres" where
  "FileSystem_new u raw1 raw2 w =
     bindH (FileSystem_Create u stdin_name
       (w\<lparr>fileSystem := \<lparr>openfile = replicate MaxOpen None, fs_filename = replicate MaxOpen []\<rparr>\<rparr>)) (\<lambda>_ w1.
     bindH (FileSystem_Create u stdout_name w1) (\<lambda>_ w2.
     bindH (open_std u stdin_name 0 1 raw1 w2) (\<lambda>_. open_std u stdout_name 1 0 raw2)))"

fun delete_all :: "'h Unix \<Rightarrow> OpenFile option list \<Rightarrow> 'h World \<Rightarrow> ('h World, unit) hres" where
  "delete_all u [] w = Go () w"
| "delete_all u (None # fs) w = delete_all u fs w"
| "delete_all u (Some f # fs) w = bindH (OpenFile_delete u f w) (\<lambda>_. delete_all u fs)"

definition FileSystem_delete :: "'h Unix \<Rightarrow> 'h World \<Rightarrow> ('h World, unit) hres" where
  "FileSystem_delete u w = delete_all u (openfile (fileSystem w)) w"

end
