(* ===== verification/Processes.thy ===== *)
theory Processes
  imports AddrSpace
begin

text \<open>
  Processes and named semaphores: userprog/PCB.cc, userprog/Ptable.cc, userprog/STable.cc and
  userprog/Sem.cc.

  These routines run in many threads at once and synchronise through semaphores only. A call of
  \<open>P\<close> or \<open>V\<close> is where a thread can lose the CPU: \<open>P\<close> may sleep, and both re-enable interrupts, so
  that a timer interrupt can make the thread yield. The code between two such calls is atomic. A
  routine is therefore a tree, \<open>kcode\<close>: the state at the end of an atomic segment, the semaphore
  operation the segment ends with, and the continuation that runs when the operation has been
  done. The step relation \<open>pstep\<close> interleaves the trees of all threads.

  PCB objects, semaphores and Thread objects are allocated in a heap indexed by addresses that are
  not used twice; \<open>delete\<close> makes the entry \<open>None\<close>, and following a deleted pointer is a fault. Fields
  the constructors leave uninitialised come from an argument \<open>raw\<close>. Messages the routines print
  for the operator are not part of the state.
\<close>

section \<open>Routines that use semaphores\<close>

datatype ('k, 'a) kcode =
    Ret 'a 'k
  | Fault fault
  | Halted 'k          \<comment> \<open>\<open>kernel->interrupt->Halt()\<close>\<close>
  | Finished 'k        \<comment> \<open>\<open>Thread::Finish()\<close> by the running thread\<close>
  | OpP nat 'k "'k \<Rightarrow> ('k, 'a) kcode"
  | OpV nat 'k "'k \<Rightarrow> ('k, 'a) kcode"

primrec bindK :: "('k, 'a) kcode \<Rightarrow> ('a \<Rightarrow> 'k \<Rightarrow> ('k, 'b) kcode) \<Rightarrow> ('k, 'b) kcode" where
  "bindK (Ret x k) f = f x k"
| "bindK (Fault e) f = Fault e"
| "bindK (Halted k) f = Halted k"
| "bindK (Finished k) f = Finished k"
| "bindK (OpP s k c) f = OpP s k (\<lambda>k'. bindK (c k') f)"
| "bindK (OpV s k c) f = OpV s k (\<lambda>k'. bindK (c k') f)"

definition needE :: "'b result \<Rightarrow> ('b \<Rightarrow> ('k, 'a) kcode) \<Rightarrow> ('k, 'a) kcode" where
  "needE r f = (case r of Inl e \<Rightarrow> Fault e | Inr x \<Rightarrow> f x)"

definition deref :: "(nat \<Rightarrow> 'b option) \<Rightarrow> nat option \<Rightarrow> 'b result" where
  \<comment> \<open>\<open>*p\<close>, with \<open>None\<close> the null pointer\<close>
  "deref heap p = (case p of None \<Rightarrow> Inl BadAccess | Some a \<Rightarrow>
     (case heap a of None \<Rightarrow> Inl BadAccess | Some x \<Rightarrow> Inr x))"

lemma needE_simps [simp]: "needE (Inr x) f = f x" "needE (Inl e) f = Fault e"
  by (simp_all add: needE_def)

lemma deref_simps [simp]:
  "deref heap None = Inl BadAccess" "heap a = None \<Longrightarrow> deref heap (Some a) = Inl BadAccess"
  "heap a = Some x \<Longrightarrow> deref heap (Some a) = Inr x"
  by (simp_all add: deref_def)

section \<open>Data\<close>

abbreviation MAX_PROCESS :: nat where "MAX_PROCESS \<equiv> 10"
abbreviation MAX_SEMAPHORE :: nat where "MAX_SEMAPHORE \<equiv> 10"

record PCB =
  joinsem :: nat
  exitsem :: nat
  mutex :: nat
  exitcode :: cint
  numwait :: cint
  pcb_processID :: int
  filename :: "byte list"
  thread :: "nat option"
  parentID :: int

record Sem =
  sem :: nat
  sem_name :: "byte list"

datatype entry = StartProcess_1 nat | StartProcess_2 "byte list list"
  \<comment> \<open>what a forked thread runs first: the argument is the address of the PCB whose \<open>processID\<close> is
     passed, or \<open>argv\<close>\<close>

record PThread =
  pt_name :: "byte list"
  pt_processID :: int
  pt_space :: bool        \<comment> \<open>\<open>space != NULL\<close>\<close>
  pt_entry :: "entry option"

record Procs =
  pcb :: "nat option list"
  psize :: int
  bmsem :: nat
  semTab :: "nat option list"
  pcbs :: "nat \<Rightarrow> PCB option"
  psems :: "nat \<Rightarrow> Sem option"
  semvals :: "nat \<Rightarrow> int option"
  pthreads :: "nat \<Rightarrow> PThread option"
  next_free :: nat

type_synonym pcode = "(Procs, cint) kcode"

definition new_semaphore :: "int \<Rightarrow> Procs \<Rightarrow> nat \<times> Procs" where
  "new_semaphore v k = (next_free k, k\<lparr>semvals := (semvals k)(next_free k := Some v), next_free := next_free k + 1\<rparr>)"

definition delete_semaphore :: "nat \<Rightarrow> Procs \<Rightarrow> Procs" where
  "delete_semaphore s k = k\<lparr>semvals := (semvals k)(s := None)\<rparr>"

definition set_pcb :: "nat \<Rightarrow> PCB \<Rightarrow> Procs \<Rightarrow> Procs" where
  "set_pcb a p k = k\<lparr>pcbs := (pcbs k)(a := Some p)\<rparr>"

definition strcpy :: "nat \<Rightarrow> byte list \<Rightarrow> (byte list) result" where
  \<comment> \<open>into an array of \<open>n\<close> characters, the terminating zero included\<close>
  "strcpy n s = (if length s < n then Inr s else Inl BadAccess)"

section \<open>Process control blocks\<close>

definition PCB_new :: "int \<Rightarrow> byte list \<Rightarrow> PCB \<Rightarrow> Procs \<Rightarrow> (nat \<times> Procs) result" where
  "PCB_new pid fn raw k =
     (let a = next_free k;
          (j, k1) = new_semaphore 0 (k\<lparr>next_free := a + 1\<rparr>);
          (e, k2) = new_semaphore 0 k1;
          (m, k3) = new_semaphore 1 k2 in
      bindE (strcpy 128 fn) (\<lambda>f.
        Inr (a, set_pcb a (raw\<lparr>pcb_processID := pid, joinsem := j, exitsem := e, mutex := m, filename := f\<rparr>) k3)))"

definition FreeSpace :: "nat \<Rightarrow> PThread \<Rightarrow> Procs \<Rightarrow> Procs" where
  \<comment> \<open>the frames are given back by \<open>AddrSpace_delete\<close>\<close>
  "FreeSpace t th k = k\<lparr>pthreads := (pthreads k)(t := Some (th\<lparr>pt_space := False\<rparr>))\<rparr>"

definition PCB_delete :: "nat \<Rightarrow> nat \<Rightarrow> Procs \<Rightarrow> pcode" where
  \<comment> \<open>the destructor, called by thread \<open>me\<close>; the memory is released afterwards\<close>
  "PCB_delete me a k = needE (deref (pcbs k) (Some a)) (\<lambda>p.
     let k1 = delete_semaphore (mutex p) (delete_semaphore (exitsem p) (delete_semaphore (joinsem p) k)) in
     case thread p of
       None \<Rightarrow> Ret 0 (k1\<lparr>pcbs := (pcbs k1)(a := None)\<rparr>)
     | Some t \<Rightarrow> needE (deref (pthreads k1) (Some me)) (\<lambda>cur. needE (deref (pthreads k1) (Some t)) (\<lambda>th.
         if pt_processID cur = pt_processID th then Finished (FreeSpace t th k1)
         else Ret 0 (k1\<lparr>pcbs := (pcbs k1)(a := None)\<rparr>))))"

definition fork_process :: "nat \<Rightarrow> byte list \<Rightarrow> entry \<Rightarrow> Procs \<Rightarrow> pcode" where
  \<comment> \<open>the common body of \<open>PCB::Exec\<close> and \<open>PCB::ExecV\<close>\<close>
  "fork_process a name e k = needE (deref (pcbs k) (Some a)) (\<lambda>p.
     OpP (mutex p) k (\<lambda>k1. needE (deref (pcbs k1) (Some a)) (\<lambda>p1.
       let t = next_free k1;
           th = \<lparr>pt_name = name, pt_processID = pcb_processID p1, pt_space = False, pt_entry = Some e\<rparr>;
           k2 = set_pcb a (p1\<lparr>thread := Some t\<rparr>) (k1\<lparr>next_free := t + 1, pthreads := (pthreads k1)(t := Some th)\<rparr>)
       in OpV (mutex p1) k2 (\<lambda>k3. needE (deref (pcbs k3) (Some a)) (\<lambda>p3. Ret (of_int (pcb_processID p3)) k3)))))"

definition PCB_Exec :: "nat \<Rightarrow> byte list \<Rightarrow> Procs \<Rightarrow> pcode" where
  "PCB_Exec a name k = fork_process a name (StartProcess_1 a) k"

definition PCB_ExecV :: "nat \<Rightarrow> byte list list \<Rightarrow> Procs \<Rightarrow> pcode" where
  "PCB_ExecV a argv k = (case argv of [] \<Rightarrow> Fault BadAccess | arg0 # _ \<Rightarrow> fork_process a arg0 (StartProcess_2 argv) k)"

definition IncNumWait :: "nat \<Rightarrow> Procs \<Rightarrow> (Procs \<Rightarrow> pcode) \<Rightarrow> pcode" where
  "IncNumWait a k c = needE (deref (pcbs k) (Some a)) (\<lambda>p.
     OpP (mutex p) k (\<lambda>k1. needE (deref (pcbs k1) (Some a)) (\<lambda>p1.
       OpV (mutex p1) (set_pcb a (p1\<lparr>numwait := numwait p1 + 1\<rparr>) k1) c)))"

definition DecNumWait :: "nat \<Rightarrow> Procs \<Rightarrow> (Procs \<Rightarrow> pcode) \<Rightarrow> pcode" where
  "DecNumWait a k c = needE (deref (pcbs k) (Some a)) (\<lambda>p.
     OpP (mutex p) k (\<lambda>k1. needE (deref (pcbs k1) (Some a)) (\<lambda>p1.
       OpV (mutex p1) (if sint (numwait p1) > 0 then set_pcb a (p1\<lparr>numwait := numwait p1 - 1\<rparr>) k1 else k1) c)))"

definition JoinWait :: "nat \<Rightarrow> Procs \<Rightarrow> (Procs \<Rightarrow> pcode) \<Rightarrow> pcode" where
  "JoinWait a k c = needE (deref (pcbs k) (Some a)) (\<lambda>p. OpP (joinsem p) k c)"

definition ExitWait :: "nat \<Rightarrow> Procs \<Rightarrow> (Procs \<Rightarrow> pcode) \<Rightarrow> pcode" where
  "ExitWait a k c = needE (deref (pcbs k) (Some a)) (\<lambda>p. OpP (exitsem p) k c)"

definition JoinRelease :: "nat \<Rightarrow> Procs \<Rightarrow> (Procs \<Rightarrow> pcode) \<Rightarrow> pcode" where
  "JoinRelease a k c = needE (deref (pcbs k) (Some a)) (\<lambda>p. OpV (joinsem p) k c)"

definition ExitRelease :: "nat \<Rightarrow> Procs \<Rightarrow> (Procs \<Rightarrow> pcode) \<Rightarrow> pcode" where
  "ExitRelease a k c = needE (deref (pcbs k) (Some a)) (\<lambda>p. OpV (exitsem p) k c)"

definition SetExitCode :: "nat \<Rightarrow> cint \<Rightarrow> Procs \<Rightarrow> (Procs \<Rightarrow> pcode) \<Rightarrow> pcode" where
  "SetExitCode a ec k c = needE (deref (pcbs k) (Some a)) (\<lambda>p. c (set_pcb a (p\<lparr>exitcode := ec\<rparr>) k))"

section \<open>The process table\<close>

definition entry_at :: "Procs \<Rightarrow> int \<Rightarrow> (nat \<Rightarrow> pcode) \<Rightarrow> pcode" where
  \<comment> \<open>\<open>pcb[i]->\<close>: an index outside the array or a null entry is an invalid access\<close>
  "entry_at k i f = needE (aget (pcb k) i) (\<lambda>p. case p of None \<Rightarrow> Fault BadAccess | Some a \<Rightarrow> f a)"

definition PTable_new :: "nat \<Rightarrow> PCB \<Rightarrow> Procs \<Rightarrow> Procs result" where
  "PTable_new me raw k =
     (let (b, k1) = new_semaphore 1 (k\<lparr>psize := int MAX_PROCESS, pcb := replicate MAX_PROCESS None\<rparr>) in
      bindE (PCB_new 0 (map of_nat [109, 97, 105, 110, 116, 104, 114, 101, 97, 100]) raw (k1\<lparr>bmsem := b\<rparr>)) (\<lambda>(a, k2).
      bindE (deref (pthreads k2) (Some me)) (\<lambda>th.
      bindE (deref (pcbs k2) (Some a)) (\<lambda>p.
        let p1 = (if pt_processID th = 0 then p\<lparr>thread := Some me\<rparr> else p)
        in Inr (set_pcb a (p1\<lparr>parentID := -1\<rparr>) (k2\<lparr>pcb := (pcb k2)[0 := Some a]\<rparr>))))))"

definition PTable_delete :: "Procs \<Rightarrow> Procs" where
  \<comment> \<open>the destructor: \<open>if (!pcb[i]) delete pcb[i]\<close> only ever deletes null pointers\<close>
  "PTable_delete k = delete_semaphore (bmsem k) k"

definition GetFreeSlot :: "Procs \<Rightarrow> int result" where
  "GetFreeSlot k = searchE (\<lambda>i. bindE (aget (pcb k) i) (\<lambda>p. Inr (p = None))) 0 (psize k)"

definition PTable_GetFileName :: "Procs \<Rightarrow> int \<Rightarrow> (byte list) result" where
  "PTable_GetFileName k i = bindE (aget (pcb k) i) (\<lambda>a. bindE (deref (pcbs k) a) (\<lambda>p. Inr (filename p)))"

definition Remove :: "nat \<Rightarrow> int \<Rightarrow> Procs \<Rightarrow> pcode" where
  "Remove me i k = needE (aget (pcb k) i) (\<lambda>e.
     case e of
       None \<Rightarrow> Ret 0 k
     | Some a \<Rightarrow> needE (aset (pcb k) i None) (\<lambda>tab. PCB_delete me a (k\<lparr>pcb := tab\<rparr>)))"

definition add_process :: "int \<Rightarrow> int \<Rightarrow> byte list \<Rightarrow> PCB \<Rightarrow> Procs \<Rightarrow> (nat \<times> Procs) result" where
  \<comment> \<open>\<open>pcb[index] = new PCB(index, name); pcb[index]->parentID = parent;\<close>\<close>
  "add_process index parent name raw k =
     bindE (PCB_new index name raw k) (\<lambda>(a, k1).
     bindE (aset (pcb k1) index (Some a)) (\<lambda>tab.
     bindE (deref (pcbs k1) (Some a)) (\<lambda>p.
       Inr (a, set_pcb a (p\<lparr>parentID := parent\<rparr>) (k1\<lparr>pcb := tab\<rparr>)))))"

definition start_in_slot :: "nat \<Rightarrow> PCB \<Rightarrow> byte list \<Rightarrow> (nat \<Rightarrow> Procs \<Rightarrow> pcode) \<Rightarrow> Procs \<Rightarrow> pcode" where
  \<comment> \<open>the common end of \<open>ExecUpdate\<close> and \<open>ExecV\<close>: from \<open>GetFreeSlot\<close> on\<close>
  "start_in_slot me raw name ex k =
     needE (GetFreeSlot k) (\<lambda>index.
       if index < 0 then OpV (bmsem k) k (Ret (-1))
       else needE (deref (pthreads k) (Some me)) (\<lambda>cur.
         needE (add_process index (pt_processID cur) name raw k) (\<lambda>(a, k1).
           bindK (ex a k1) (\<lambda>pid k2. OpV (bmsem k2) k2 (Ret pid)))))"

definition ExecUpdate :: "nat \<Rightarrow> PCB \<Rightarrow> byte list option \<Rightarrow> Procs \<Rightarrow> pcode" where
  "ExecUpdate me raw name k0 = OpP (bmsem k0) k0 (\<lambda>k.
     case name of
       None \<Rightarrow> OpV (bmsem k) k (Ret (-1))
     | Some nm \<Rightarrow> needE (deref (pthreads k) (Some me)) (\<lambda>cur.
         if nm = pt_name cur then OpV (bmsem k) k (Ret (-1))
         else start_in_slot me raw nm (\<lambda>a. PCB_Exec a nm) k))"

definition PTable_ExecV :: "nat \<Rightarrow> PCB \<Rightarrow> byte list list \<Rightarrow> Procs \<Rightarrow> pcode" where
  "PTable_ExecV me raw argv k0 = OpP (bmsem k0) k0 (\<lambda>k.
     start_in_slot me raw (case argv of [] \<Rightarrow> [] | a0 # _ \<Rightarrow> a0) (\<lambda>a. PCB_ExecV a argv) k)"

definition Join_collect :: "int \<Rightarrow> Procs \<Rightarrow> pcode" where
  \<comment> \<open>after \<open>JoinWait\<close>: fetch the exit code and let the child go\<close>
  "Join_collect i k = entry_at k i (\<lambda>a. needE (deref (pcbs k) (Some a)) (\<lambda>p.
     ExitRelease a k (Ret (exitcode p))))"

definition Join_wait :: "int \<Rightarrow> Procs \<Rightarrow> pcode" where
  "Join_wait i k = entry_at k i (\<lambda>a. JoinWait a k (Join_collect i))"

definition JoinUpdate :: "nat \<Rightarrow> int \<Rightarrow> Procs \<Rightarrow> pcode" where
  "JoinUpdate me i k =
     (if i < 0 \<or> i \<ge> psize k then Ret (-1) k
      else needE (aget (pcb k) i) (\<lambda>e.
        case e of
          None \<Rightarrow> Ret (-1) k
        | Some a \<Rightarrow> needE (deref (pcbs k) (Some a)) (\<lambda>p. needE (deref (pthreads k) (Some me)) (\<lambda>cur.
            if parentID p \<noteq> pt_processID cur then Ret (-1) k
            else entry_at k (parentID p) (\<lambda>pa. IncNumWait pa k (Join_wait i))))))"

definition Exit_remove :: "nat \<Rightarrow> int \<Rightarrow> Procs \<Rightarrow> pcode" where
  "Exit_remove me i k = Remove me i k"

definition Exit_wait :: "nat \<Rightarrow> int \<Rightarrow> Procs \<Rightarrow> pcode" where
  "Exit_wait me i k = entry_at k i (\<lambda>a. ExitWait a k (Exit_remove me i))"

definition Exit_release :: "nat \<Rightarrow> int \<Rightarrow> Procs \<Rightarrow> pcode" where
  "Exit_release me i k = entry_at k i (\<lambda>a. JoinRelease a k (Exit_wait me i))"

definition ExitUpdate :: "nat \<Rightarrow> cint \<Rightarrow> Procs \<Rightarrow> pcode" where
  "ExitUpdate me ec k = needE (deref (pthreads k) (Some me)) (\<lambda>cur.
     let i = pt_processID cur in
     if i = 0 then Halted (FreeSpace me cur k)
     else entry_at k i (\<lambda>a. SetExitCode a ec k (\<lambda>k1. needE (deref (pcbs k1) (Some a)) (\<lambda>p.
       entry_at k1 (parentID p) (\<lambda>pa. DecNumWait pa k1 (Exit_release me i))))))"

section \<open>Named semaphores\<close>

definition Sem_new :: "byte list \<Rightarrow> int \<Rightarrow> Procs \<Rightarrow> (nat \<times> Procs) result" where
  "Sem_new name initial k =
     bindE (strcpy 50 name) (\<lambda>n.
       let a = next_free k; (s, k1) = new_semaphore initial (k\<lparr>next_free := a + 1\<rparr>) in
       Inr (a, k1\<lparr>psems := (psems k1)(a := Some \<lparr>sem = s, sem_name = n\<rparr>)\<rparr>))"

definition STable_new :: "Procs \<Rightarrow> Procs" where
  "STable_new k = k\<lparr>semTab := replicate MAX_SEMAPHORE None\<rparr>"

definition Sem_delete :: "nat \<Rightarrow> Procs \<Rightarrow> Procs result" where
  "Sem_delete a k = bindE (deref (psems k) (Some a)) (\<lambda>s.
     Inr ((delete_semaphore (sem s) k)\<lparr>psems := (psems k)(a := None)\<rparr>))"

definition STable_delete :: "Procs \<Rightarrow> Procs result" where
  "STable_delete k = for_loop 0 (int MAX_SEMAPHORE) (\<lambda>i k.
     bindE (aget (semTab k) i) (\<lambda>e. case e of
         None \<Rightarrow> Inr k
       | Some a \<Rightarrow> bindE (Sem_delete a k) (\<lambda>k1. bindE (aset (semTab k1) i None) (\<lambda>tab. Inr (k1\<lparr>semTab := tab\<rparr>))))) k"

definition Sem_named :: "Procs \<Rightarrow> byte list \<Rightarrow> int \<Rightarrow> bool result" where
  \<comment> \<open>\<open>sem[i] != NULL && strcmp(sem[i]->GetName(), name) == 0\<close>\<close>
  "Sem_named k name i = bindE (aget (semTab k) i) (\<lambda>e.
     case e of None \<Rightarrow> Inr False | Some a \<Rightarrow> bindE (deref (psems k) (Some a)) (\<lambda>s. Inr (sem_name s = name)))"

definition FindFreeSlot :: "Procs \<Rightarrow> int result" where
  "FindFreeSlot k = searchE (\<lambda>i. bindE (aget (semTab k) i) (\<lambda>e. Inr (e = None))) 0 (int MAX_SEMAPHORE)"

definition STable_Create :: "byte list \<Rightarrow> int \<Rightarrow> Procs \<Rightarrow> pcode" where
  "STable_Create name init k =
     needE (searchE (Sem_named k name) 0 (int MAX_SEMAPHORE)) (\<lambda>i.
       if i \<ge> 0 then Ret (-1) k
       else needE (FindFreeSlot k) (\<lambda>id.
         if id < 0 then Ret (-1) k
         else needE (Sem_new name init k) (\<lambda>(a, k1). needE (aset (semTab k1) id (Some a)) (\<lambda>tab.
           Ret 0 (k1\<lparr>semTab := tab\<rparr>)))))"

definition STable_find :: "byte list \<Rightarrow> Procs \<Rightarrow> (Sem option) result" where
  "STable_find name k =
     bindE (searchE (Sem_named k name) 0 (int MAX_SEMAPHORE)) (\<lambda>i.
       if i < 0 then Inr None
       else bindE (aget (semTab k) i) (\<lambda>e. bindE (deref (psems k) e) (\<lambda>s. Inr (Some s))))"

definition STable_Wait :: "byte list \<Rightarrow> Procs \<Rightarrow> pcode" where
  "STable_Wait name k = needE (STable_find name k) (\<lambda>r.
     case r of None \<Rightarrow> Ret (-1) k | Some s \<Rightarrow> OpP (sem s) k (Ret 0))"

definition STable_Signal :: "byte list \<Rightarrow> Procs \<Rightarrow> pcode" where
  "STable_Signal name k = needE (STable_find name k) (\<lambda>r.
     case r of None \<Rightarrow> Ret (-1) k | Some s \<Rightarrow> OpV (sem s) k (Ret 0))"

section \<open>Starting a process\<close>

definition run_entry :: "(byte list \<Rightarrow> fault option) \<Rightarrow> nat \<Rightarrow> entry \<Rightarrow> Procs \<Rightarrow> pcode" where
  \<comment> \<open>\<open>StartProcess_1\<close> and \<open>StartProcess_2\<close> up to \<open>Execute\<close>; \<open>space fn\<close> says how the \<open>AddrSpace\<close>
     constructor ends for the file\<close>
  "run_entry space me e k =
     needE (case e of
              StartProcess_1 a \<Rightarrow> bindE (deref (pcbs k) (Some a)) (\<lambda>p. PTable_GetFileName k (pcb_processID p))
            | StartProcess_2 argv \<Rightarrow> (case argv of [] \<Rightarrow> Inl BadAccess | a0 # _ \<Rightarrow> Inr a0)) (\<lambda>fileName.
       case space fileName of
         Some f \<Rightarrow> Fault f
       | None \<Rightarrow> needE (deref (pthreads k) (Some me)) (\<lambda>th.
           Ret 0 (k\<lparr>pthreads := (pthreads k)(me := Some (th\<lparr>pt_space := True, pt_entry := None\<rparr>))\<rparr>)))"

section \<open>All threads together\<close>

datatype syscall = Call_Exec "byte list" PCB | Call_ExecV "byte list list" PCB | Call_Join int | Call_Exit cint
  | Call_CreateSemaphore "byte list" int | Call_Wait "byte list" | Call_Signal "byte list"

primrec do_syscall :: "nat \<Rightarrow> syscall \<Rightarrow> Procs \<Rightarrow> pcode" where
  "do_syscall me (Call_Exec name raw) k = ExecUpdate me raw (Some name) k"
| "do_syscall me (Call_ExecV argv raw) k = PTable_ExecV me raw argv k"
| "do_syscall me (Call_Join i) k = JoinUpdate me i k"
| "do_syscall me (Call_Exit ec) k = ExitUpdate me ec k"
| "do_syscall me (Call_CreateSemaphore name v) k = STable_Create name v k"
| "do_syscall me (Call_Wait name) k = STable_Wait name k"
| "do_syscall me (Call_Signal name) k = STable_Signal name k"

datatype tstate = User cint | InKernel pcode   \<comment> \<open>\<open>User v\<close>: the last system call returned \<open>v\<close>\<close>
datatype stop = Crash fault | Halt

record Sys =
  kern :: Procs
  run :: "nat \<Rightarrow> tstate option"
  stopped :: "stop option"

primrec advance :: "nat \<Rightarrow> Sys \<Rightarrow> pcode \<Rightarrow> Sys" where
  "advance t \<sigma> (Ret v k) = \<sigma>\<lparr>kern := k, run := (run \<sigma>)(t := Some (User v))\<rparr>"
| "advance t \<sigma> (Fault e) = \<sigma>\<lparr>stopped := Some (Crash e)\<rparr>"
| "advance t \<sigma> (Halted k) = \<sigma>\<lparr>kern := k, stopped := Some Halt\<rparr>"
| "advance t \<sigma> (Finished k) = \<sigma>\<lparr>kern := k\<lparr>pthreads := (pthreads k)(t := None)\<rparr>, run := (run \<sigma>)(t := None)\<rparr>"
| "advance t \<sigma> (OpP s k c) = \<sigma>\<lparr>kern := k, run := (run \<sigma>)(t := Some (InKernel (OpP s k c)))\<rparr>"
| "advance t \<sigma> (OpV s k c) = \<sigma>\<lparr>kern := k, run := (run \<sigma>)(t := Some (InKernel (OpV s k c)))\<rparr>"

definition set_sem :: "nat \<Rightarrow> int \<Rightarrow> Procs \<Rightarrow> Procs" where
  "set_sem s v k = k\<lparr>semvals := (semvals k)(s := Some v)\<rparr>"

inductive pstep :: "(byte list \<Rightarrow> fault option) \<Rightarrow> nat \<Rightarrow> Sys \<Rightarrow> Sys \<Rightarrow> bool" for space where
  call: "stopped \<sigma> = None \<Longrightarrow> run \<sigma> t = Some (User v) \<Longrightarrow>
    pstep space t \<sigma> (advance t \<sigma> (do_syscall t sc (kern \<sigma>)))"
| P_done: "stopped \<sigma> = None \<Longrightarrow> run \<sigma> t = Some (InKernel (OpP s k0 c)) \<Longrightarrow>
    semvals (kern \<sigma>) s = Some v \<Longrightarrow> v \<noteq> 0 \<Longrightarrow>
    pstep space t \<sigma> (advance t \<sigma> (c (set_sem s (v - 1) (kern \<sigma>))))"
| V_done: "stopped \<sigma> = None \<Longrightarrow> run \<sigma> t = Some (InKernel (OpV s k0 c)) \<Longrightarrow>
    semvals (kern \<sigma>) s = Some v \<Longrightarrow>
    pstep space t \<sigma> (advance t \<sigma> (c (set_sem s (v + 1) (kern \<sigma>))))"
| start: "stopped \<sigma> = None \<Longrightarrow> run \<sigma> t = None \<Longrightarrow> pthreads (kern \<sigma>) t = Some th \<Longrightarrow>
    pt_entry th = Some e \<Longrightarrow>
    pstep space t \<sigma> (advance t \<sigma> (run_entry space t e (kern \<sigma>)))"

text \<open>
  \<open>segs R c k\<close>: every atomic segment of the code \<open>c\<close>, whatever the other threads did before it,
  relates the state it starts in to the state it ends in by \<open>R\<close>; the first one starts in \<open>k\<close>.
\<close>

primrec segs :: "(Procs \<Rightarrow> Procs \<Rightarrow> bool) \<Rightarrow> pcode \<Rightarrow> Procs \<Rightarrow> bool" where
  "segs R (Ret v k') k = R k k'"
| "segs R (Fault e) k = True"
| "segs R (Halted k') k = R k k'"
| "segs R (Finished k') k = R k k'"
| "segs R (OpP s k' c) k = (R k k' \<and> (\<forall>k2. segs R (c k2) k2))"
| "segs R (OpV s k' c) k = (R k k' \<and> (\<forall>k2. segs R (c k2) k2))"

lemma segs_needE [intro]: "(\<And>x. r = Inr x \<Longrightarrow> segs R (f x) k) \<Longrightarrow> segs R (needE r f) k"
  by (cases r) simp_all

text \<open>A relation that can describe atomic segments composes them.\<close>

locale segment_relation =
  fixes R :: "Procs \<Rightarrow> Procs \<Rightarrow> bool"
  assumes seg_refl: "R k k" and seg_trans: "R k1 k2 \<Longrightarrow> R k2 k3 \<Longrightarrow> R k1 k3"
begin

lemma segs_weaken: "segs R c k2 \<Longrightarrow> R k1 k2 \<Longrightarrow> segs R c k1"
  by (cases c) (auto intro: seg_trans)

lemma segs_bindK:
  assumes "segs R c k" and "\<And>x k. segs R (f x k) k"
  shows "segs R (bindK c f) k"
  using assms(1)
proof (induction c arbitrary: k)
  case (Ret x k')
  then show ?case using segs_weaken [OF assms(2)] by simp
qed auto

lemma segs_Ret: "segs R (Ret v k) k"
  by (simp add: seg_refl)

end

definition raw0 :: PCB where
  "raw0 = \<lparr>joinsem = 0, exitsem = 0, mutex = 0, exitcode = 0, numwait = 0, pcb_processID = 0, filename = [], thread = None, parentID = 0\<rparr>"

end
