(* ===== verification/Exception.thy ===== *)
theory Exception
  imports Mips_Semantics FileSys Processes
begin

text \<open>
  The kernel's entry point: userprog/exception.cc with userprog/ksyscall.h and the system call
  numbers of userprog/syscall.h.

  Every case of the handler is a definition of its own. A \<open>ReadMem\<close> or \<open>WriteMem\<close> of the kernel
  that traps re-enters the handler with an exception that halts the machine, so such a trap is
  \<open>HaltsNow\<close>. A system call of the process or semaphore tables may sleep: the handler ends in
  \<open>Calls c\<close>, the call of theory \<open>Processes\<close> it makes, and \<open>return_value\<close> is what it does with the
  result. The loop that prints to the console has no bound in the code; it is a partial function,
  and \<open>Loops\<close> says that it does not end. What the kernel prints for the operator is not modelled.
\<close>

section \<open>System call numbers\<close>

abbreviation SC_Halt :: cint where "SC_Halt \<equiv> 0"
abbreviation SC_Exit :: cint where "SC_Exit \<equiv> 1"
abbreviation SC_Exec :: cint where "SC_Exec \<equiv> 2"
abbreviation SC_Join :: cint where "SC_Join \<equiv> 3"
abbreviation SC_Create :: cint where "SC_Create \<equiv> 4"
abbreviation SC_Remove :: cint where "SC_Remove \<equiv> 5"
abbreviation SC_Open :: cint where "SC_Open \<equiv> 6"
abbreviation SC_Read :: cint where "SC_Read \<equiv> 7"
abbreviation SC_Write :: cint where "SC_Write \<equiv> 8"
abbreviation SC_Seek :: cint where "SC_Seek \<equiv> 9"
abbreviation SC_Close :: cint where "SC_Close \<equiv> 10"
abbreviation SC_CreateSemaphore :: cint where "SC_CreateSemaphore \<equiv> 16"
abbreviation SC_Wait :: cint where "SC_Wait \<equiv> 17"
abbreviation SC_Signal :: cint where "SC_Signal \<equiv> 18"
abbreviation SC_Add :: cint where "SC_Add \<equiv> 42"
abbreviation SC_PrintString :: cint where "SC_PrintString \<equiv> 43"
abbreviation SC_ReadString :: cint where "SC_ReadString \<equiv> 44"
abbreviation SC_PrintInt :: cint where "SC_PrintInt \<equiv> 45"
abbreviation SC_Socket :: cint where "SC_Socket \<equiv> 50"
abbreviation SC_Connect :: cint where "SC_Connect \<equiv> 51"
abbreviation SC_Send :: cint where "SC_Send \<equiv> 52"
abbreviation SC_Receive :: cint where "SC_Receive \<equiv> 53"
abbreviation SC_ExecV :: cint where "SC_ExecV \<equiv> 55"

abbreviation MaxFileLength :: cint where "MaxFileLength \<equiv> 32"
abbreviation MAX_LENGTH_PROCESS_NAME :: cint where "MAX_LENGTH_PROCESS_NAME \<equiv> 32"
abbreviation MAX_LENGTH_IP :: cint where "MAX_LENGTH_IP \<equiv> 46"

section \<open>Access to the machine\<close>

definition reg :: "'h World \<Rightarrow> nat \<Rightarrow> cint" where
  \<comment> \<open>\<open>kernel->machine->ReadRegister(r)\<close> for a register that exists\<close>
  "reg w r = registers (mach w) r"

definition set_result :: "cint \<Rightarrow> 'h World \<Rightarrow> 'h World" where
  \<comment> \<open>\<open>kernel->machine->WriteRegister(2, v)\<close>\<close>
  "set_result v w = w\<lparr>mach := set_reg 2 v (mach w)\<rparr>"

definition IncreasePC :: "Machine \<Rightarrow> Machine" where
  "IncreasePC m =
     (let m1 = set_reg PrevPCReg (registers m PCReg) m;
          m2 = set_reg PCReg (registers m1 PCReg + 4) m1
      in set_reg NextPCReg (registers m2 PCReg + 4) m2)"

definition return_value :: "cint \<Rightarrow> 'h World \<Rightarrow> 'h World" where
  \<comment> \<open>\<open>WriteRegister(2, v); IncreasePC(); return;\<close>\<close>
  "return_value v w = (let w1 = set_result v w in w1\<lparr>mach := IncreasePC (mach w1)\<rparr>)"

definition return_void :: "'h World \<Rightarrow> 'h World" where
  "return_void w = w\<lparr>mach := IncreasePC (mach w)\<rparr>"

definition kernel_access :: "('a access) result \<Rightarrow> 'h World \<Rightarrow> ('h World, 'a) hres" where
  "kernel_access r w = (case r of
       Inl f \<Rightarrow> Dies f
     | Inr (Trap which m) \<Rightarrow> HaltsNow (w\<lparr>mach := m\<rparr>)
     | Inr (Done v m) \<Rightarrow> Go v (w\<lparr>mach := m\<rparr>))"

definition k_ReadMem :: "cint \<Rightarrow> nat \<Rightarrow> 'h World \<Rightarrow> ('h World, cint) hres" where
  "k_ReadMem a sz w = kernel_access (ReadMem (mach w) a sz) w"

definition k_WriteMem :: "cint \<Rightarrow> nat \<Rightarrow> cint \<Rightarrow> 'h World \<Rightarrow> ('h World, unit) hres" where
  "k_WriteMem a sz v w = kernel_access (WriteMem (mach w) a sz v) w"

section \<open>Copying between user and kernel memory\<close>

fun u2s_loop :: "nat \<Rightarrow> cint \<Rightarrow> 'h World \<Rightarrow> ('h World, byte list) hres" where
  \<comment> \<open>the loop of \<open>User2System\<close>: the bytes it stores in the buffer\<close>
  "u2s_loop 0 a w = Go [] w"
| "u2s_loop (Suc n) a w = bindH (k_ReadMem a 1 w) (\<lambda>oneChar w1.
     if oneChar = 0 then Go [0] w1
     else bindH (u2s_loop n (a + 1) w1) (\<lambda>cs w2. Go (ucast oneChar # cs) w2))"

definition User2System :: "cint \<Rightarrow> cint \<Rightarrow> 'h World \<Rightarrow> ('h World, byte list) hres" where
  "User2System virtAddr limit w =
     (if sint (limit + 1) < 0 then Dies BadAlloc
      else bindH (u2s_loop (nat (sint limit)) virtAddr w) (\<lambda>cs w1.
        Go (cs @ replicate (nat (sint (limit + 1)) - length cs) 0) w1))"

fun s2u_loop :: "nat \<Rightarrow> nat \<Rightarrow> cint \<Rightarrow> byte list \<Rightarrow> 'h World \<Rightarrow> ('h World, nat) hres" where
  \<comment> \<open>the \<open>do\<close> loop of \<open>System2User\<close> from index \<open>i\<close>, with \<open>Suc n\<close> characters left\<close>
  "s2u_loop n i virtAddr buffer w =
     bindH (lift_result (aget buffer (int i)) w) (\<lambda>oneChar w1.
     bindH (k_WriteMem (virtAddr + of_nat i) 1 (scast oneChar) w1) (\<lambda>_ w2.
       case n of
         0 \<Rightarrow> Go (i + 1) w2
       | Suc n' \<Rightarrow> if oneChar = 0 then Go (i + 1) w2 else s2u_loop n' (i + 1) virtAddr buffer w2))"

declare s2u_loop.simps [simp del]

definition System2User :: "cint \<Rightarrow> cint \<Rightarrow> byte list \<Rightarrow> 'h World \<Rightarrow> ('h World, cint) hres" where
  "System2User virtAddr len buffer w =
     (if sint len < 0 then Go (-1) w
      else if len = 0 then Go len w
      else bindH (s2u_loop (nat (sint len) - 1) 0 virtAddr buffer w) (\<lambda>i w1. Go (of_nat i) w1))"

definition cstring :: "byte list \<Rightarrow> byte list" where
  \<comment> \<open>the C string in a buffer\<close>
  "cstring buf = takeWhile (\<lambda>c. c \<noteq> 0) buf"

fun u2s2_arg :: "nat \<Rightarrow> nat \<Rightarrow> cint \<Rightarrow> 'h World \<Rightarrow> ('h World, cint) hres" where
  \<comment> \<open>the inner loop of \<open>User2System2\<close>: the new \<open>virtAddr\<close>\<close>
  "u2s2_arg 0 j a w = Go a w"
| "u2s2_arg (Suc n) j a w = bindH (k_ReadMem (a + of_nat j) 1 w) (\<lambda>oneChar w1.
     if oneChar = 0
     then Go (if (j + 1) mod 8 \<noteq> 0 then a + of_nat (((j + 1) div 8 + 1) * 8) else a + of_nat (j + 1)) w1
     else u2s2_arg n (j + 1) a w1)"

fun u2s2_args :: "nat \<Rightarrow> nat \<Rightarrow> cint \<Rightarrow> 'h World \<Rightarrow> ('h World, unit) hres" where
  "u2s2_args 0 limit a w = Go () w"
| "u2s2_args (Suc n) limit a w = bindH (u2s2_arg limit 0 a w) (\<lambda>a'. u2s2_args n limit a')"

definition User2System2 :: "cint \<Rightarrow> cint \<Rightarrow> cint \<Rightarrow> 'h World \<Rightarrow> ('h World, byte list list) hres" where
  \<comment> \<open>the statement that would store the characters is commented out: all strings stay empty\<close>
  "User2System2 virtAddr limit argc w =
     (if sint argc < 0 \<or> (0 < sint argc \<and> sint (limit + 1) < 0) then Dies BadAlloc
      else let realAddr = (argc div 2 + argc mod 2) * 8 in
        bindH (u2s2_args (nat (sint argc)) (nat (sint limit)) (virtAddr + realAddr) w) (\<lambda>_ w1.
          Go (replicate (nat (sint argc)) (replicate (nat (sint (limit + 1))) 0)) w1))"

section \<open>The console\<close>

definition putChar :: "byte \<Rightarrow> 'h World \<Rightarrow> 'h World" where
  "putChar c w = w\<lparr>console_out := console_out w @ [c]\<rparr>"

definition PrintBuffer :: "byte list \<Rightarrow> nat \<Rightarrow> 'h World \<Rightarrow> 'h World" where
  "PrintBuffer buffer n w = fold putChar (take n buffer) w"

definition ReadChar :: "'h World \<Rightarrow> ('h World, byte) hres" where
  "ReadChar w = (case console_in w of [] \<Rightarrow> NeedsInput w | c # cs \<Rightarrow> Go c (w\<lparr>console_in := cs\<rparr>))"

section \<open>Files\<close>

definition ret :: "cint \<Rightarrow> 'h World \<Rightarrow> ('h World, unit) hres" where
  "ret v w = Go () (return_value v w)"

definition file_at :: "cint \<Rightarrow> 'h World \<Rightarrow> ('h World, OpenFile option) hres" where
  \<comment> \<open>\<open>kernel->fileSystem->openfile[id]\<close>\<close>
  "file_at fid w = lift_result (aget (openfile (fileSystem w)) (sint fid)) w"

definition sc_Add :: "'h World \<Rightarrow> ('h World, unit) hres" where
  "sc_Add w = ret (reg w 4 + reg w 5) w"

definition sc_Create :: "'h Unix \<Rightarrow> 'h World \<Rightarrow> ('h World, unit) hres" where
  "sc_Create u w = bindH (User2System (reg w 4) (MaxFileLength + 1) w) (\<lambda>buf w1.
     if cstring buf = [] then ret (-1) w1
     else bindH (FileSystem_Create u (cstring buf) w1) (\<lambda>ok w2. ret (if ok then 0 else -1) w2))"

definition sc_Open :: "'h Unix \<Rightarrow> 'h World \<Rightarrow> ('h World, unit) hres" where
  "sc_Open u w = bindH (User2System (reg w 4) (MaxFileLength + 1) w) (\<lambda>buf w1.
     bindH (lift_result (isFull (fileSystem w1)) w1) (\<lambda>tempt w2.
       if tempt = -1 then ret (-1) w2
       else if cstring buf = [] then ret (-1) w2
       else if reg w 5 = 1 \<or> reg w 5 = 0
       then bindH (FileSystem_Open2 u (cstring buf) (reg w 5) w2) (\<lambda>f w3.
              bindH (set_openfile tempt f w3) (\<lambda>_ w4.
                if f \<noteq> None
                then bindH (set_filename tempt (cstring buf) w4) (\<lambda>_. ret (of_int tempt))
                else ret (-1) w4))
       else ret (-1) w2))"

definition sc_Close :: "'h Unix \<Rightarrow> 'h World \<Rightarrow> ('h World, unit) hres" where
  "sc_Close u w =
     (let fid = reg w 4 in
      if sint fid < 2 \<or> sint fid \<ge> 20 then ret (-1) w
      else bindH (file_at fid w) (\<lambda>f w1.
        case f of
          None \<Rightarrow> ret (-1) w1
        | Some f \<Rightarrow>
            bindH (set_filename (sint fid) [] (set_result 0 w1)) (\<lambda>_ w2.
            bindH (OpenFile_delete u f w2) (\<lambda>_ w3.
            bindH (set_openfile (sint fid) None w3) (\<lambda>_ w4. Go () (return_void w4))))))"

fun stdin_loop :: "nat \<Rightarrow> 'h World \<Rightarrow> ('h World, byte list) hres" where
  \<comment> \<open>the characters read from the console: at most \<open>n\<close>, up to and with the newline\<close>
  "stdin_loop 0 w = Go [] w"
| "stdin_loop (Suc n) w = bindH (ReadChar w) (\<lambda>c w1.
     if c = 10 then Go [c] w1 else bindH (stdin_loop n w1) (\<lambda>cs w2. Go (c # cs) w2))"

definition blit :: "byte list \<Rightarrow> byte list \<Rightarrow> byte list" where
  \<comment> \<open>the buffer after \<open>read\<close> stored these bytes at its beginning\<close>
  "blit bs buf = take (length buf) bs @ drop (length bs) buf"

definition read_stdin :: "cint \<Rightarrow> cint \<Rightarrow> byte list \<Rightarrow> 'h World \<Rightarrow> ('h World, unit) hres" where
  "read_stdin virtAddr charcount buf w =
     bindH (stdin_loop (nat (sint charcount)) w) (\<lambda>cs w1.
     bindH (lift_result (aset (blit cs buf) (int (length cs)) 0) w1) (\<lambda>buf' w2.
     bindH (System2User virtAddr (of_nat (length cs)) buf' w2) (\<lambda>_. ret (of_nat (length cs)))))"

definition receive :: "'h Unix \<Rightarrow> cint \<Rightarrow> cint \<Rightarrow> cint \<Rightarrow> OpenFile \<Rightarrow> byte list \<Rightarrow> 'h World \<Rightarrow> ('h World, unit) hres" where
  \<comment> \<open>\<open>Read\<close> from a connected socket, as in \<open>SC_Read\<close> and \<open>SC_Receive\<close>\<close>
  "receive u virtAddr charcount fid f buf w =
     (if o_type f = 2 \<and> isConnect f
      then bindH (OpenFile_Read u f charcount w) (\<lambda>((tempt, bs), f') w1.
             bindH (set_openfile (sint fid) (Some f') w1) (\<lambda>_ w2.
               if sint tempt > 0
               then bindH (System2User virtAddr tempt (blit bs buf) w2) (\<lambda>_. ret tempt)
               else ret (-1) w2))
      else ret (-1) w)"

definition send :: "'h Unix \<Rightarrow> cint \<Rightarrow> cint \<Rightarrow> OpenFile \<Rightarrow> byte list \<Rightarrow> 'h World \<Rightarrow> ('h World, unit) hres" where
  \<comment> \<open>\<open>Write\<close> to a connected socket, as in \<open>SC_Write\<close> and \<open>SC_Send\<close>\<close>
  "send u charcount fid f buf w =
     (if o_type f = 2 \<and> isConnect f
      then bindH (OpenFile_Write u f buf charcount w) (\<lambda>(tempt, f') w1.
             bindH (set_openfile (sint fid) (Some f') w1) (\<lambda>_ w2.
               ret (if sint tempt > 0 then tempt else -1) w2))
      else ret (-1) w)"

definition sc_Read :: "'h Unix \<Rightarrow> 'h World \<Rightarrow> ('h World, unit) hres" where
  "sc_Read u w =
     (let virtAddr = reg w 4; charcount = reg w 5; fid = reg w 6 in
      if sint fid < 0 \<or> sint fid \<ge> 20 then ret (-1) w
      else bindH (file_at fid w) (\<lambda>f w1.
        case f of
          None \<Rightarrow> ret (-1) w1
        | Some f \<Rightarrow>
            bindH (GetCurrentPos u f w1) (\<lambda>(OldPos, f1) w2.
            bindH (set_openfile (sint fid) (Some f1) w2) (\<lambda>_ w3.
            bindH (User2System virtAddr charcount w3) (\<lambda>buf w4.
              if fid = 0 then read_stdin virtAddr charcount buf w4
              else if o_type f1 = 0 \<or> o_type f1 = 1
              then bindH (OpenFile_Read u f1 charcount w4) (\<lambda>((r, bs), f2) w5.
                     bindH (set_openfile (sint fid) (Some f2) w5) (\<lambda>_ w6.
                       if sint r > 0
                       then bindH (GetCurrentPos u f2 w6) (\<lambda>(NewPos, f3) w7.
                            bindH (set_openfile (sint fid) (Some f3) w7) (\<lambda>_ w8.
                            bindH (System2User virtAddr (NewPos - OldPos) (blit bs buf) w8) (\<lambda>_. ret (NewPos - OldPos))))
                       else ret (-1) w6))
              else receive u virtAddr charcount fid f1 buf w4)))))"

partial_function (option) out_loop :: "cint \<Rightarrow> byte list \<Rightarrow> 'h World \<Rightarrow> (('h World, nat) hres) option" where
  \<comment> \<open>the loop that writes to the console, one buffer at a time\<close>
  "out_loop virtAddr buf w =
     (let s = takeWhile (\<lambda>c. c \<noteq> 0) (take 255 buf); w1 = fold putChar s w in
      if length s = 255
      then (case User2System (virtAddr + 255) 255 w1 of
              Go buf' w2 \<Rightarrow> out_loop (virtAddr + 255) buf' w2
            | HaltsNow w2 \<Rightarrow> Some (HaltsNow w2)
            | Dies e \<Rightarrow> Some (Dies e)
            | NeedsInput w2 \<Rightarrow> Some (NeedsInput w2))
      else if length s = length buf then Some (Dies BadAccess)
      else Some (Go (length s) w1))"

definition sc_Write :: "'h Unix \<Rightarrow> 'h World \<Rightarrow> (('h World, unit) hres) option" where
  "sc_Write u w =
     (let virtAddr = reg w 4; charcount = reg w 5; fid = reg w 6 in
      if sint fid < 0 \<or> sint fid \<ge> 20 then Some (ret (-1) w)
      else case aget (openfile (fileSystem w)) (sint fid) of
          Inl e \<Rightarrow> Some (Dies e)
        | Inr None \<Rightarrow> Some (ret (-1) w)
        | Inr (Some f) \<Rightarrow>
            if fid = 0 \<or> o_type f = 1 then Some (ret (-1) w)
            else (case bindH (GetCurrentPos u f w) (\<lambda>(OldPos, f1) w1.
                       bindH (set_openfile (sint fid) (Some f1) w1) (\<lambda>_ w2.
                       bindH (User2System virtAddr charcount w2) (\<lambda>buf w3. Go (OldPos, f1, buf) w3))) of
                HaltsNow w3 \<Rightarrow> Some (HaltsNow w3)
              | Dies e \<Rightarrow> Some (Dies e)
              | NeedsInput w3 \<Rightarrow> Some (NeedsInput w3)
              | Go (OldPos, f1, buf) w3 \<Rightarrow>
                  if fid = 1
                  then map_option (\<lambda>r. bindH r (\<lambda>lengthWrite. ret (of_nat lengthWrite - 1))) (out_loop virtAddr buf w3)
                  else if o_type f1 = 0
                  then Some (bindH (OpenFile_Write u f1 buf charcount w3) (\<lambda>(r, f2) w4.
                         bindH (set_openfile (sint fid) (Some f2) w4) (\<lambda>_ w5.
                           if sint r > 0
                           then bindH (GetCurrentPos u f2 w5) (\<lambda>(NewPos, f3) w6.
                                bindH (set_openfile (sint fid) (Some f3) w6) (\<lambda>_. ret (NewPos - OldPos)))
                           else ret (-1) w5)))
                  else Some (send u charcount fid f1 buf w3)))"

definition sc_Seek :: "'h Unix \<Rightarrow> 'h World \<Rightarrow> ('h World, unit) hres" where
  "sc_Seek u w =
     (let pos = reg w 4; fid = reg w 5 in
      if fid = 0 \<or> fid = 1 \<or> sint fid \<ge> 20 then ret (-1) w
      else bindH (file_at fid w) (\<lambda>f w1.
        case f of
          None \<Rightarrow> ret (-1) w1
        | Some f \<Rightarrow>
            if o_type f = 2 then ret (-1) w1
            else bindH (OpenFile_Length u f w1) (\<lambda>len w2.
              if sint pos > sint len then ret (-1) w2
              else let pos' = (if pos = -1 then len else pos) in
                bindH (OpenFile_Seek u f pos' w2) (\<lambda>f1 w3.
                bindH (set_openfile (sint fid) (Some f1) w3) (\<lambda>_. ret pos')))))"

definition sc_Remove :: "'h Unix \<Rightarrow> 'h World \<Rightarrow> ('h World, unit) hres" where
  "sc_Remove u w = bindH (User2System (reg w 4) (MaxFileLength + 1) w) (\<lambda>buf w1.
     if cstring buf = [] then ret (-1) w1
     else if cstring buf \<in> set (fs_filename (fileSystem w1)) then ret (-1) w1
     else bindH (FileSystem_Remove u (cstring buf) w1) (\<lambda>ok w2. ret (if ok then 0 else -1) w2))"

section \<open>Console input and output\<close>

definition sc_PrintString :: "'h World \<Rightarrow> ('h World, unit) hres" where
  "sc_PrintString w = bindH (User2System (reg w 4) 255 w) (\<lambda>buffer w1.
     Go () (return_void (PrintBuffer buffer (length (cstring buffer)) w1)))"

fun read_line :: "byte list \<Rightarrow> byte list \<Rightarrow> 'h World \<Rightarrow> ('h World, byte list) hres" where
  \<comment> \<open>\<open>while ((c = ReadChar()) != '\n') strName[inputLength++] = c;\<close>: the characters so far, then the input\<close>
  "read_line cs [] w = NeedsInput (w\<lparr>console_in := []\<rparr>)"
| "read_line cs (c # input) w =
     (if c = 10 then Go cs (w\<lparr>console_in := input\<rparr>) else read_line (cs @ [c]) input w)"

definition sc_ReadString :: "'h World \<Rightarrow> ('h World, unit) hres" where
  \<comment> \<open>\<open>strName\<close> has \<open>length\<close> bytes; a line that does not fit with its terminating zero is written past its end\<close>
  "sc_ReadString w =
     (let virAddr = reg w 4; len = reg w 5 in
      if sint len < 0 then Dies BadAlloc
      else bindH (read_line [] (console_in w) w) (\<lambda>cs w1.
        if int (length cs) \<ge> sint len then Dies BadAccess
        else bindH (System2User virAddr (of_nat (length cs)) (cs @ [0]) w1) (\<lambda>_ w2. Go () (return_void w2))))"

function count_digits :: "int \<Rightarrow> nat" where
  \<comment> \<open>\<open>while (temp > 0) { countDigits++; temp /= 10; }\<close>\<close>
  "count_digits temp = (if temp > 0 then Suc (count_digits (temp sdiv 10)) else 0)"
  by pat_completeness auto
termination
  by (relation "measure nat") (auto simp: sdiv_nonneg)

declare count_digits.simps [simp del]

fun fill_digits :: "nat \<Rightarrow> nat \<Rightarrow> int \<Rightarrow> byte list \<Rightarrow> (byte list) result" where
  \<comment> \<open>\<open>for (i = indexStart + n - 1; i >= indexStart; i--) { buffer[i] = number % 10 + '0'; number /= 10; }\<close>\<close>
  "fill_digits 0 indexStart number buffer = Inr buffer"
| "fill_digits (Suc n) indexStart number buffer =
     bindE (aset buffer (int (indexStart + n)) (of_int (number smod 10 + 48))) (fill_digits n indexStart (number sdiv 10))"

definition sc_PrintInt :: "'h World \<Rightarrow> ('h World, unit) hres" where
  \<comment> \<open>every byte of the new buffer that is printed has been stored before\<close>
  "sc_PrintInt w =
     (if reg w 4 = 0 then Go () (return_void (putChar 48 w))
      else let neg = sint (reg w 4) < 0;
               number = sint (if neg then - reg w 4 else reg w 4);
               indexStart = (if neg then 1 else 0);
               countDigits = count_digits number in
        bindH (lift_result (fill_digits countDigits indexStart number (replicate 12 0)) w) (\<lambda>buffer w1.
          if neg
          then bindH (lift_result (bindE (aset buffer 0 45) (\<lambda>b. aset b (int (countDigits + 1)) 0)) w1) (\<lambda>b w2.
                 Go () (return_void (PrintBuffer b (countDigits + 1) w2)))
          else bindH (lift_result (aset buffer (int countDigits) 0) w1) (\<lambda>b w2.
                 Go () (return_void (PrintBuffer b countDigits w2)))))"

section \<open>Sockets\<close>

definition sc_Socket :: "'h Unix \<Rightarrow> 'h World \<Rightarrow> ('h World, unit) hres" where
  "sc_Socket u w = bindH (lift_result (isFull (fileSystem w)) w) (\<lambda>tempt w1.
     if tempt = -1 then ret (-1) w1
     else bindH (socketTCP u w1) (\<lambda>f w2.
       bindH (set_openfile tempt f w2) (\<lambda>_ w3.
         if f \<noteq> None
         then bindH (set_filename tempt (map of_nat [115, 111, 99, 107, 101, 116]) w3) (\<lambda>_. ret (of_int tempt))
         else ret (-1) w3)))"

definition sc_Connect :: "'h Unix \<Rightarrow> 'h World \<Rightarrow> ('h World, unit) hres" where
  "sc_Connect u w =
     (let socketid = reg w 4; virtAddr = reg w 5; port = reg w 6 in
      if sint socketid < 2 \<or> sint socketid \<ge> 20 then ret (-1) w
      else bindH (file_at socketid w) (\<lambda>f w1.
        case f of
          None \<Rightarrow> ret (-1) w1
        | Some f \<Rightarrow>
            bindH (User2System virtAddr MAX_LENGTH_IP w1) (\<lambda>ip w2.
            bindH (OpenFile_Connect u f (cstring ip) port w2) (\<lambda>(r, f1) w3.
            bindH (set_openfile (sint socketid) (Some f1) w3) (\<lambda>_. ret (if sint r < 0 then -1 else 0))))))"

definition sc_Send :: "'h Unix \<Rightarrow> 'h World \<Rightarrow> ('h World, unit) hres" where
  "sc_Send u w =
     (let virtAddr = reg w 4; charcount = reg w 5; fid = reg w 6 in
      if sint fid < 0 \<or> sint fid \<ge> 20 then ret (-1) w
      else bindH (file_at fid w) (\<lambda>f w1.
        case f of
          None \<Rightarrow> ret (-1) w1
        | Some f \<Rightarrow> bindH (User2System virtAddr charcount w1) (\<lambda>buf. send u charcount fid f buf)))"

definition sc_Receive :: "'h Unix \<Rightarrow> 'h World \<Rightarrow> ('h World, unit) hres" where
  "sc_Receive u w =
     (let virtAddr = reg w 4; charcount = reg w 5; fid = reg w 6 in
      if sint fid < 2 \<or> sint fid \<ge> 20 then ret (-1) w
      else bindH (file_at fid w) (\<lambda>f w1.
        case f of
          None \<Rightarrow> ret (-1) w1
        | Some f \<Rightarrow> bindH (User2System virtAddr charcount w1) (\<lambda>buf. receive u virtAddr charcount fid f buf)))"

section \<open>Processes and semaphores\<close>

text \<open>\<open>Go None\<close>: the call has returned to the user program; \<open>Go (Some c)\<close>: the table's routine is called.\<close>

definition sc_Exec :: "'h Unix \<Rightarrow> cint \<Rightarrow> PCB \<Rightarrow> 'h World \<Rightarrow> ('h World, syscall option) hres" where
  "sc_Exec u raw_type raw w = bindH (User2System (reg w 4) (MAX_LENGTH_PROCESS_NAME + 1) w) (\<lambda>name w1.
     bindH (FileSystem_Open u (cstring name) raw_type w1) (\<lambda>oFile w2.
       case oFile of
         None \<Rightarrow> Go None (return_value (-1) w2)
       | Some f \<Rightarrow> bindH (OpenFile_delete u f w2) (\<lambda>_ w3. Go (Some (Call_Exec (cstring name) raw)) w3)))"

definition sc_named :: "(byte list \<Rightarrow> syscall) \<Rightarrow> 'h World \<Rightarrow> ('h World, syscall option) hres" where
  \<comment> \<open>\<open>SC_CreateSemaphore\<close>, \<open>SC_Signal\<close> and \<open>SC_Wait\<close>: fetch the name, call the table\<close>
  "sc_named c w = bindH (User2System (reg w 4) (MAX_LENGTH_PROCESS_NAME + 1) w) (\<lambda>name w1.
     Go (Some (c (cstring name))) w1)"

fun execv_args :: "nat \<Rightarrow> cint \<Rightarrow> 'h World \<Rightarrow> ('h World, byte list list) hres" where
  "execv_args 0 a w = Go [] w"
| "execv_args (Suc n) a w = bindH (k_ReadMem a 4 w) (\<lambda>argAddr w1.
     bindH (User2System argAddr MaxFileLength w1) (\<lambda>arg w2.
     bindH (execv_args n (a + 4) w2) (\<lambda>args w3. Go (cstring arg # args) w3)))"

definition sc_ExecV :: "PCB \<Rightarrow> 'h World \<Rightarrow> ('h World, syscall option) hres" where
  "sc_ExecV raw w =
     (let argc = reg w 4; addr = reg w 5 in
      if sint (argc + 1) < 0 then Dies BadAlloc
      else bindH (execv_args (nat (sint argc)) addr w) (\<lambda>argv w1.
        if sint argc < 0 then Dies BadAccess
        else Go (Some (Call_ExecV argv raw)) w1))"

section \<open>The handler\<close>

datatype 'h outcome =
    Resumes "'h World"            \<comment> \<open>back to the user program\<close>
  | Halts "'h World"
  | Crashes fault
  | Awaits "'h World"             \<comment> \<open>for a character to be typed\<close>
  | Loops
  | Calls syscall "'h World"

definition finish :: "('h World, unit) hres \<Rightarrow> 'h outcome" where
  "finish r = (case r of Go _ w \<Rightarrow> Resumes w | HaltsNow w \<Rightarrow> Halts w | Dies e \<Rightarrow> Crashes e | NeedsInput w \<Rightarrow> Awaits w)"

definition finish_call :: "('h World, syscall option) hres \<Rightarrow> 'h outcome" where
  "finish_call r = (case r of Go None w \<Rightarrow> Resumes w | Go (Some c) w \<Rightarrow> Calls c w
     | HaltsNow w \<Rightarrow> Halts w | Dies e \<Rightarrow> Crashes e | NeedsInput w \<Rightarrow> Awaits w)"

definition handle_syscall :: "'h Unix \<Rightarrow> cint \<Rightarrow> PCB \<Rightarrow> 'h World \<Rightarrow> 'h outcome" where
  "handle_syscall u raw_type raw w =
     (let type = reg w 2 in
      if type = SC_Halt then Halts w
      else if type = SC_Add then finish (sc_Add w)
      else if type = SC_Create then finish (sc_Create u w)
      else if type = SC_Open then finish (sc_Open u w)
      else if type = SC_Close then finish (sc_Close u w)
      else if type = SC_Read then finish (sc_Read u w)
      else if type = SC_Write then (case sc_Write u w of None \<Rightarrow> Loops | Some r \<Rightarrow> finish r)
      else if type = SC_Seek then finish (sc_Seek u w)
      else if type = SC_Remove then finish (sc_Remove u w)
      else if type = SC_PrintString then finish (sc_PrintString w)
      else if type = SC_ReadString then finish (sc_ReadString w)
      else if type = SC_PrintInt then finish (sc_PrintInt w)
      else if type = SC_Socket then finish (sc_Socket u w)
      else if type = SC_Connect then finish (sc_Connect u w)
      else if type = SC_Send then finish (sc_Send u w)
      else if type = SC_Receive then finish (sc_Receive u w)
      else if type = SC_Exec then finish_call (sc_Exec u raw_type raw w)
      else if type = SC_Join then Calls (Call_Join (sint (reg w 4))) w
      else if type = SC_Exit then Calls (Call_Exit (reg w 4)) w
      else if type = SC_CreateSemaphore then finish_call (sc_named (\<lambda>n. Call_CreateSemaphore n (sint (reg w 5))) w)
      else if type = SC_Signal then finish_call (sc_named Call_Signal w)
      else if type = SC_Wait then finish_call (sc_named Call_Wait w)
      else if type = SC_ExecV then finish_call (sc_ExecV raw w)
      else Crashes AssertFailed)"

definition ExceptionHandler :: "'h Unix \<Rightarrow> cint \<Rightarrow> PCB \<Rightarrow> ExceptionType \<Rightarrow> 'h World \<Rightarrow> 'h outcome" where
  "ExceptionHandler u raw_type raw which w =
     (case which of
        NoException \<Rightarrow> Resumes (w\<lparr>mode := SystemMode\<rparr>)
      | PageFaultException \<Rightarrow> Halts w
      | ReadOnlyException \<Rightarrow> Halts w
      | BusErrorException \<Rightarrow> Halts w
      | AddressErrorException \<Rightarrow> Halts w
      | OverflowException \<Rightarrow> Halts w
      | IllegalInstrException \<Rightarrow> Halts w
      | NumExceptionTypes \<Rightarrow> Halts w
      | SyscallException \<Rightarrow> handle_syscall u raw_type raw w)"

end
