(* ===== verification/Syscall_Contract.thy ===== *)
theory Syscall_Contract
  imports Exception
begin

text \<open>
  What every system call keeps: the kernel touches only the memory its caller may write, leaves
  the page table's mappings alone, and returns to the instruction after the call with at most
  register 2 changed.

  \<open>meets R Q s r\<close> says that a routine started in \<open>s\<close> ends in a state related to \<open>s\<close> by \<open>R\<close> when it
  goes on and by \<open>Q\<close> when the machine halts or waits. The locale \<open>effect_contract\<close> composes such
  statements along \<open>bindH\<close>; the collection \<open>calm_intros\<close> holds one rule per routine.
\<close>

named_theorems calm_intros

section \<open>Contracts of effects\<close>

fun meets :: "('s \<Rightarrow> 's \<Rightarrow> bool) \<Rightarrow> ('s \<Rightarrow> 's \<Rightarrow> bool) \<Rightarrow> 's \<Rightarrow> ('s, 'a) hres \<Rightarrow> bool" where
  "meets R Q s (Go x s') = R s s'"
| "meets R Q s (HaltsNow s') = Q s s'"
| "meets R Q s (NeedsInput s') = Q s s'"
| "meets R Q s (Dies e) = True"

locale effect_contract =
  fixes R R' Q :: "'s \<Rightarrow> 's \<Rightarrow> bool"
  assumes before: "R s1 s2 \<Longrightarrow> R' s2 s3 \<Longrightarrow> R' s1 s3" and stops: "R s1 s2 \<Longrightarrow> Q s2 s3 \<Longrightarrow> Q s1 s3"
begin

lemma meets_bindH:
  assumes "meets R Q s m" and "\<And>x s'. meets R' Q s' (f x s')"
  shows "meets R' Q s (bindH m f)"
proof (cases m)
  case (Go x s1)
  then show ?thesis using assms(1) assms(2) [of s1 x] before stops
    by (cases "f x s1") auto
qed (use assms(1) in auto)

end

section \<open>The contract of the kernel\<close>

definition calm :: "'h World \<Rightarrow> 'h World \<Rightarrow> bool" where
  "calm w w' \<longleftrightarrow> (user_ready (mach w) \<longrightarrow> user_ready (mach w') \<and> confined (mach w) (mach w') \<and>
     registers (mach w') = registers (mach w))"

definition halted_in :: "'h World \<Rightarrow> 'h World \<Rightarrow> bool" where
  "halted_in w w' \<longleftrightarrow> (user_ready (mach w) \<longrightarrow> confined (mach w) (mach w'))"

definition after_call :: "cint \<Rightarrow> (nat \<Rightarrow> cint) \<Rightarrow> nat \<Rightarrow> cint" where
  \<comment> \<open>the registers after a system call that returned \<open>v\<close>\<close>
  "after_call v r = r(2 := v, PrevPCReg := r PCReg, PCReg := r PCReg + 4, NextPCReg := r PCReg + 8)"

definition returned :: "'h World \<Rightarrow> 'h World \<Rightarrow> bool" where
  "returned w w' \<longleftrightarrow> (user_ready (mach w) \<longrightarrow> user_ready (mach w') \<and> confined (mach w) (mach w') \<and>
     (\<exists>v. registers (mach w') = after_call v (registers (mach w))))"

lemma calm_refl [simp, calm_intros]: "calm w w"
  by (auto simp: calm_def user_ready_def)

lemma calm_trans: "calm w1 w2 \<Longrightarrow> calm w2 w3 \<Longrightarrow> calm w1 w3"
  unfolding calm_def user_ready_def by (metis confined_trans)

lemma calm_halted: "calm w1 w2 \<Longrightarrow> halted_in w2 w3 \<Longrightarrow> halted_in w1 w3"
  unfolding calm_def halted_in_def user_ready_def by (metis confined_trans)

lemma calm_returned: "calm w1 w2 \<Longrightarrow> returned w2 w3 \<Longrightarrow> returned w1 w3"
  unfolding calm_def returned_def user_ready_def by (metis confined_trans)

interpretation calm: effect_contract calm calm halted_in
  by unfold_locales (auto intro: calm_trans calm_halted)

interpretation ends: effect_contract calm returned halted_in
  by unfold_locales (auto intro: calm_returned calm_halted)

abbreviation quiet :: "'h World \<Rightarrow> ('h World, 'a) hres \<Rightarrow> bool" where
  "quiet \<equiv> meets calm halted_in"

abbreviation returns :: "'h World \<Rightarrow> ('h World, 'a) hres \<Rightarrow> bool" where
  "returns \<equiv> meets returned halted_in"

lemmas [calm_intros] = calm.meets_bindH ends.meets_bindH

lemma meets_if [calm_intros]: "(c \<Longrightarrow> meets R Q s a) \<Longrightarrow> (\<not> c \<Longrightarrow> meets R Q s b) \<Longrightarrow> meets R Q s (if c then a else b)"
  by simp

lemma meets_option [calm_intros]:
  "meets R Q s a \<Longrightarrow> (\<And>x. meets R Q s (f x)) \<Longrightarrow> meets R Q s (case v of None \<Rightarrow> a | Some x \<Rightarrow> f x)"
  by (cases v) simp_all

lemma meets_prod [calm_intros]: "(\<And>x y. meets R Q s (f x y)) \<Longrightarrow> meets R Q s (case p of (x, y) \<Rightarrow> f x y)"
  by (cases p) simp

lemma meets_prod2 [calm_intros]: "(\<And>x y. meets R Q s (f x y s)) \<Longrightarrow> meets R Q s ((case p of (x, y) \<Rightarrow> f x y) s)"
  by (cases p) simp

lemma calm_world [simp]: "calm w (w\<lparr>fileSystem := f\<rparr>)" "calm w (w\<lparr>console_in := i\<rparr>)" "calm w (w\<lparr>console_out := i\<rparr>)" "calm w (w\<lparr>host := h\<rparr>)"
  by (auto simp: calm_def user_ready_def)

section \<open>The routines below the handler\<close>

lemma kernel_access_quiet:
  assumes "user_ready (mach w) \<Longrightarrow> trap_ok (mach w) (\<lambda>v m'. registers m' = registers (mach w)) r"
  shows "quiet w (kernel_access r w)"
proof (cases "user_ready (mach w)")
  case True
  with assms have "trap_ok (mach w) (\<lambda>v m'. registers m' = registers (mach w)) r" by blast
  then show ?thesis
  proof (cases rule: trap_okE)
    case (2 v m')
    then show ?thesis using True by (auto simp: kernel_access_def calm_def user_ready_def cpu_ok_def confined_paged)
  qed (auto simp: kernel_access_def halted_in_def)
next
  case False
  then show ?thesis
    by (cases r) (auto simp: kernel_access_def calm_def halted_in_def split: access.split)
qed

lemma k_ReadMem_quiet [calm_intros]: "sz \<in> {1, 2, 4} \<Longrightarrow> quiet w (k_ReadMem a sz w)"
  unfolding k_ReadMem_def
  by (intro kernel_access_quiet ReadMem_contract) (auto simp: user_ready_def cpu_ok_pending)

lemma k_WriteMem_quiet [calm_intros]: "sz \<in> {1, 2, 4} \<Longrightarrow> quiet w (k_WriteMem a sz v w)"
  unfolding k_WriteMem_def
  by (intro kernel_access_quiet WriteMem_contract) (auto simp: user_ready_def cpu_ok_pending)

lemma Go_quiet [calm_intros]: "calm w w' \<Longrightarrow> quiet w (Go x w')"
  by simp

lemma Dies_meets [calm_intros]: "meets R Q w (Dies e)"
  by simp

lemma host_call_quiet [calm_intros]: "quiet w (host_call f w)"
  by (simp add: host_call_def split: prod.split)

lemma lift_result_quiet [calm_intros]: "quiet w (lift_result r w)"
  by (simp add: lift_result_def split: sum.split)

lemma assertH_quiet [calm_intros]: "quiet w (assertH c w)"
  by (simp add: assertH_def)

lemma u2s_loop_quiet [calm_intros]: "quiet w (u2s_loop n a w)"
  by (induction n a w rule: u2s_loop.induct) (auto intro!: calm_intros)

lemma User2System_quiet [calm_intros]: "quiet w (User2System a l w)"
  unfolding User2System_def by (intro calm_intros)

lemma s2u_loop_quiet [calm_intros]: "quiet w (s2u_loop n i a b w)"
  by (induction n arbitrary: i w) (subst s2u_loop.simps, auto intro!: calm_intros)+

lemma System2User_quiet [calm_intros]: "quiet w (System2User a l b w)"
  unfolding System2User_def by (intro calm_intros)

lemma stdin_loop_quiet [calm_intros]: "quiet w (stdin_loop n w)"
proof (induction n arbitrary: w)
  case (Suc n)
  have "quiet w (ReadChar w)" by (auto simp: ReadChar_def halted_in_def user_ready_def split: list.split)
  then show ?case by (auto intro!: calm_intros Suc.IH)
qed simp

lemma read_line_quiet [calm_intros]: "quiet w (read_line cs input w)"
  by (induction cs input w rule: read_line.induct) (auto simp: halted_in_def user_ready_def confined_def mappings_def)

lemmas file_defs = OpenForWrite_def OpenForReadWrite_def ReadPartial_def WriteFile_def Lseek_def Tell_def Close_def
  Unlink_def CloseSocket_def OpenFile_delete_def ReadAt_def WriteAt_def OpenFile_Read_def OpenFile_Write_def
  OpenFile_Seek_def GetCurrentPos_def OpenFile_Length_def OpenFile_Connect_def FileSystem_Create_def
  FileSystem_Open_def FileSystem_Open2_def socketTCP_def FileSystem_Remove_def set_openfile_def set_filename_def
  file_at_def

lemma files_quiet [calm_intros]:
  "quiet w (OpenFile_delete u f w)" "quiet w (OpenFile_Read u f n w)" "quiet w (OpenFile_Write u f b n w)"
  "quiet w (OpenFile_Seek u f p w)" "quiet w (GetCurrentPos u f w)" "quiet w (OpenFile_Length u f w)"
  "quiet w (OpenFile_Connect u f ip port w)" "quiet w (FileSystem_Create u nm w)" "quiet w (FileSystem_Open u nm t w)"
  "quiet w (FileSystem_Open2 u nm t w)" "quiet w (socketTCP u w)" "quiet w (FileSystem_Remove u nm w)"
  "quiet w (set_openfile i fo w)" "quiet w (set_filename i nm w)" "quiet w (file_at fid w)"
  unfolding file_defs by (intro calm_intros calm_world)+

section \<open>The cases of the handler\<close>

lemma return_value_returned: "returned w (return_value v w)"
proof (cases "user_ready (mach w)")
  case True
  have "registers (mach (return_value v w)) = after_call v (registers (mach w))"
    by (simp add: return_value_def set_result_def IncreasePC_def after_call_def Let_def fun_eq_iff)
  moreover have "confined (mach w) (mach (return_value v w))"
    using True by (simp add: return_value_def set_result_def IncreasePC_def Let_def user_ready_def)
  ultimately show ?thesis
    using True by (auto simp: returned_def user_ready_def cpu_ok_def after_call_def confined_paged)
qed (simp add: returned_def)

lemma return_void_eq: "return_void w = return_value (reg w 2) w"
  by (simp add: return_void_def return_value_def set_result_def reg_def set_reg_def)

lemma ret_returns [calm_intros]: "returns w (ret v w)"
  by (simp add: ret_def return_value_returned)

lemma Go_returns [calm_intros]:
  "calm w w' \<Longrightarrow> returns w (Go () (return_value v w'))" "calm w w' \<Longrightarrow> returns w (Go () (return_void w'))"
  using calm_returned return_value_returned by (simp_all add: return_void_eq) blast+

lemma putChar_calm: "calm w (putChar c w)"
  by (simp add: putChar_def)

lemma PrintBuffer_calm: "calm w (PrintBuffer b n w)"
proof -
  have "calm w (fold putChar cs w)" for cs
    by (induction cs arbitrary: w) (use putChar_calm calm_trans in fastforce)+
  then show ?thesis by (simp add: PrintBuffer_def)
qed

lemma meets_prod3 [calm_intros]:
  "(\<And>x y. meets R Q s (f x y z s)) \<Longrightarrow> meets R Q s ((case p of (x, y) \<Rightarrow> f x y) z s)"
  by (cases p) simp

lemma read_stdin_returns [calm_intros]: "returns w (read_stdin a n b w)"
  unfolding read_stdin_def by (intro calm_intros)

lemma receive_returns [calm_intros]: "returns w (receive u a n fid f b w)"
  unfolding receive_def by (intro calm_intros)

lemma send_returns [calm_intros]: "returns w (send u n fid f b w)"
  unfolding send_def by (intro calm_intros)

lemma sc_Add_returns [calm_intros]: "returns w (sc_Add w)"
  unfolding sc_Add_def Let_def by (intro calm_intros putChar_calm PrintBuffer_calm)

lemma sc_Create_returns [calm_intros]: "returns w (sc_Create u w)"
  unfolding sc_Create_def Let_def by (intro calm_intros putChar_calm PrintBuffer_calm)

lemma sc_Open_returns [calm_intros]: "returns w (sc_Open u w)"
  unfolding sc_Open_def Let_def by (intro calm_intros putChar_calm PrintBuffer_calm)

lemma sc_Read_returns [calm_intros]: "returns w (sc_Read u w)"
  unfolding sc_Read_def Let_def by (intro calm_intros putChar_calm PrintBuffer_calm)

lemma sc_Seek_returns [calm_intros]: "returns w (sc_Seek u w)"
  unfolding sc_Seek_def Let_def by (intro calm_intros putChar_calm PrintBuffer_calm)

lemma sc_Remove_returns [calm_intros]: "returns w (sc_Remove u w)"
  unfolding sc_Remove_def Let_def by (intro calm_intros putChar_calm PrintBuffer_calm)

lemma sc_PrintString_returns [calm_intros]: "returns w (sc_PrintString w)"
  unfolding sc_PrintString_def Let_def by (intro calm_intros putChar_calm PrintBuffer_calm)

lemma sc_ReadString_returns [calm_intros]: "returns w (sc_ReadString w)"
  unfolding sc_ReadString_def Let_def by (intro calm_intros putChar_calm PrintBuffer_calm)

lemma sc_PrintInt_returns [calm_intros]: "returns w (sc_PrintInt w)"
  unfolding sc_PrintInt_def Let_def by (intro calm_intros putChar_calm PrintBuffer_calm)

lemma sc_Socket_returns [calm_intros]: "returns w (sc_Socket u w)"
  unfolding sc_Socket_def Let_def by (intro calm_intros putChar_calm PrintBuffer_calm)

lemma sc_Connect_returns [calm_intros]: "returns w (sc_Connect u w)"
  unfolding sc_Connect_def Let_def by (intro calm_intros putChar_calm PrintBuffer_calm)

lemma sc_Send_returns [calm_intros]: "returns w (sc_Send u w)"
  unfolding sc_Send_def Let_def by (intro calm_intros putChar_calm PrintBuffer_calm)

lemma sc_Receive_returns [calm_intros]: "returns w (sc_Receive u w)"
  unfolding sc_Receive_def Let_def by (intro calm_intros putChar_calm PrintBuffer_calm)

lemma ready_set_result: "user_ready (mach (set_result v w)) = user_ready (mach w)"
  by (auto simp: set_result_def user_ready_def cpu_ok_def)

lemma confined_set_result: "confined (mach (set_result v w)) m = confined (mach w) m"
  by (simp add: set_result_def confined_def mappings_def writable_def)

lemma set_result_returns:
  assumes "returns (set_result v w) m"
  shows "returns w m"
proof (cases m)
  case (Go x w')
  then show ?thesis using assms
    by (simp add: returned_def ready_set_result confined_set_result) (auto simp: after_call_def set_result_def)
qed (use assms in \<open>auto simp: halted_in_def ready_set_result confined_set_result\<close>)

lemma sc_Close_returns: "returns w (sc_Close u w)"
proof -
  have "returns w (bindH (set_filename i [] (set_result 0 w)) (\<lambda>_ w2. bindH (OpenFile_delete u f w2) (\<lambda>_ w3.
      bindH (set_openfile i None w3) (\<lambda>_ w4. Go () (return_void w4)))))" for i f and w :: "'a World"
    by (rule set_result_returns [where v = 0]) (intro calm_intros)
  then show ?thesis
    unfolding sc_Close_def Let_def
    by (intro meets_if ret_returns ends.meets_bindH [OF files_quiet(15)] meets_option)
qed

lemma fold_putChar_calm: "calm w (fold putChar cs w)"
  using PrintBuffer_calm [of w cs "length cs"] by (simp add: PrintBuffer_def)

lemma out_loop_meets:
  assumes "effect_contract R R Q" and printed: "\<And>cs w. R w (fold putChar cs w)"
    and copied: "\<And>a l w. meets R Q w (User2System a l w)" and "out_loop a b w = Some r"
  shows "meets R Q w r"
  using assms(4)
proof (rule out_loop.raw_induct [where P = "\<lambda>a b w r. meets R Q w r", rotated], goal_cases)
  case (1 loop a b w r)
  let ?s = "takeWhile (\<lambda>c. c \<noteq> 0) (take 255 b)"
  let ?w = "fold putChar ?s w" and ?next = "User2System (a + 255) 255 (fold putChar ?s w)"
  have w: "R w ?w" by (rule printed)
  show ?case
  proof (cases "length ?s = 255")
    case True
    have "meets R Q w (bindH (Go () ?w) (\<lambda>_. User2System (a + 255) 255))"
      by (rule effect_contract.meets_bindH [OF assms(1)]) (use w copied in simp_all)
    then have m: "meets R Q w ?next" by simp
    show ?thesis
    proof (cases ?next)
      case (Go b' w2)
      then have "loop (a + 255) b' w2 = Some r" using 1(2) True by (simp add: Let_def)
      then have "meets R Q w2 r" by (rule 1(1))
      then show ?thesis using m Go assms(1) by (cases r) (auto simp: effect_contract_def)
    qed (use m 1(2) True in \<open>auto simp: Let_def\<close>)
  qed (use 1(2) w in \<open>auto simp: Let_def split: if_splits\<close>)
qed

lemma out_loop_quiet: "out_loop a b w = Some r \<Longrightarrow> quiet w r"
  by (rule out_loop_meets [OF calm.effect_contract_axioms]) (auto intro: fold_putChar_calm User2System_quiet)

text \<open>The stages of \<open>Write\<close>: fetching the buffer, and writing it to a file.\<close>

definition write_prepare :: "'h Unix \<Rightarrow> cint \<Rightarrow> cint \<Rightarrow> cint \<Rightarrow> OpenFile \<Rightarrow> 'h World \<Rightarrow> ('h World, cint \<times> OpenFile \<times> byte list) hres" where
  "write_prepare u virtAddr charcount fid f w = bindH (GetCurrentPos u f w) (\<lambda>(OldPos, f1) w1.
     bindH (set_openfile (sint fid) (Some f1) w1) (\<lambda>_ w2.
     bindH (User2System virtAddr charcount w2) (\<lambda>buf w3. Go (OldPos, f1, buf) w3)))"

definition write_file :: "'h Unix \<Rightarrow> cint \<Rightarrow> cint \<Rightarrow> cint \<Rightarrow> OpenFile \<Rightarrow> byte list \<Rightarrow> 'h World \<Rightarrow> ('h World, unit) hres" where
  "write_file u charcount fid OldPos f1 buf w3 = bindH (OpenFile_Write u f1 buf charcount w3) (\<lambda>(r, f2) w4.
     bindH (set_openfile (sint fid) (Some f2) w4) (\<lambda>_ w5.
       if sint r > 0
       then bindH (GetCurrentPos u f2 w5) (\<lambda>(NewPos, f3) w6.
            bindH (set_openfile (sint fid) (Some f3) w6) (\<lambda>_. ret (NewPos - OldPos)))
       else ret (-1) w5))"

lemma sc_Write_stages:
  assumes "sc_Write u w = Some r"
  obtains "r = ret (-1) w"
  | e where "r = Dies e"
  | f where "\<not> (sint (reg w 6) < 0 \<or> sint (reg w 6) \<ge> 20)" "aget (openfile (fileSystem w)) (sint (reg w 6)) = Inr (Some f)"
      "\<forall>x w3. write_prepare u (reg w 4) (reg w 5) (reg w 6) f w \<noteq> Go x w3"
      "r = bindH (write_prepare u (reg w 4) (reg w 5) (reg w 6) f w) (\<lambda>_ w. Go () w)"
  | f OldPos f1 buf w3 r' where "\<not> (sint (reg w 6) < 0 \<or> sint (reg w 6) \<ge> 20)"
      "aget (openfile (fileSystem w)) (sint (reg w 6)) = Inr (Some f)"
      "write_prepare u (reg w 4) (reg w 5) (reg w 6) f w = Go (OldPos, f1, buf) w3"
      "out_loop (reg w 4) buf w3 = Some r'" "r = bindH r' (\<lambda>n. ret (of_nat n - 1))"
  | f OldPos f1 buf w3 where "\<not> (sint (reg w 6) < 0 \<or> sint (reg w 6) \<ge> 20)"
      "aget (openfile (fileSystem w)) (sint (reg w 6)) = Inr (Some f)"
      "write_prepare u (reg w 4) (reg w 5) (reg w 6) f w = Go (OldPos, f1, buf) w3"
      "r = write_file u (reg w 5) (reg w 6) OldPos f1 buf w3 \<or> r = send u (reg w 5) (reg w 6) f1 buf w3"
proof (cases "sint (reg w 6) < 0 \<or> sint (reg w 6) \<ge> 20")
  case False
  note [simp] = sc_Write_def Let_def write_prepare_def [symmetric] write_file_def [symmetric]
  show thesis
  proof (cases "aget (openfile (fileSystem w)) (sint (reg w 6))")
    case (Inr fo)
    show thesis
    proof (cases fo)
      case (Some f)
      show thesis
      proof (cases "write_prepare u (reg w 4) (reg w 5) (reg w 6) f w")
        case (Go x w3)
        obtain OldPos f1 buf where "x = (OldPos, f1, buf)" by (cases x)
        with Go assms False Inr Some show thesis
          by (auto split: if_splits intro: that)
      qed (use assms False Inr Some in \<open>auto split: if_splits intro: that\<close>)
    qed (use assms False Inr that in simp)
  qed (use assms False that(2) in auto)
qed (use assms that in \<open>simp add: sc_Write_def Let_def\<close>)

lemma sc_Write_meets:
  assumes "sc_Write u w = Some r" and c: "effect_contract R R' Q" and returns: "\<And>v w. meets R' Q w (ret v w)"
    and prepare: "\<And>f. \<not> (sint (reg w 6) < 0 \<or> sint (reg w 6) \<ge> 20) \<Longrightarrow>
       aget (openfile (fileSystem w)) (sint (reg w 6)) = Inr (Some f) \<Longrightarrow>
       meets R Q w (write_prepare u (reg w 4) (reg w 5) (reg w 6) f w)"
    and console: "\<And>a b w r. out_loop a b w = Some r \<Longrightarrow> meets R Q w r"
    and stored: "\<And>n p f b w'. meets R' Q w' (write_file u n (reg w 6) p f b w')"
    and sent: "\<And>n f b w'. meets R' Q w' (send u n (reg w 6) f b w')"
  shows "meets R' Q w r"
proof -
  have after: "meets R' Q w r" if "meets R Q w m" "m = Go x w3" "meets R' Q w3 r" for m :: "('a World, 'b) hres" and x w3
    using that c by (cases r) (auto simp: effect_contract_def)
  show ?thesis
    using assms(1)
  proof (cases rule: sc_Write_stages)
    case (3 f)
    then show ?thesis using prepare [of f] by (cases "write_prepare u (reg w 4) (reg w 5) (reg w 6) f w") auto
  next
    case (4 f OldPos f1 buf w3 r')
    have "meets R' Q w3 r" unfolding 4(5)
      by (rule effect_contract.meets_bindH [OF c]) (use 4(4) console returns in auto)
    then show ?thesis using after [OF prepare [OF 4(1,2)] 4(3)] by blast
  next
    case (5 f OldPos f1 buf w3)
    then show ?thesis using after [OF prepare [OF 5(1,2)] 5(3)] stored sent by auto
  qed (use returns in auto)
qed

lemma write_prepare_quiet: "quiet w (write_prepare u a n fid f w)"
  unfolding write_prepare_def by (intro calm_intros)

lemma sc_Write_returns:
  assumes "sc_Write u w = Some r"
  shows "returns w r"
proof (rule sc_Write_meets [OF assms ends.effect_contract_axioms])
  show "quiet w (write_prepare u (reg w 4) (reg w 5) (reg w 6) f w)" for f
    by (rule write_prepare_quiet)
  show "returns w' (write_file u n (reg w 6) p f b w')" for n p f b w'
    unfolding write_file_def by (intro calm_intros)
qed (intro ret_returns send_returns out_loop_quiet; assumption)+

definition called :: "'h World \<Rightarrow> ('h World, syscall option) hres \<Rightarrow> bool" where
  "called w m \<longleftrightarrow> (case m of Go None w' \<Rightarrow> returned w w' | Go (Some c) w' \<Rightarrow> calm w w'
     | HaltsNow w' \<Rightarrow> halted_in w w' | NeedsInput w' \<Rightarrow> halted_in w w' | Dies e \<Rightarrow> True)"

lemma called_bindH:
  assumes "quiet w m" and "\<And>x w'. called w' (f x w')"
  shows "called w (bindH m f)"
proof (cases m)
  case (Go x w1)
  then show ?thesis using assms(1) assms(2) [of w1 x]
    by (cases "f x w1") (auto simp: called_def split: option.splits intro: calm_returned calm_halted calm_trans)
qed (use assms(1) in \<open>auto simp: called_def\<close>)

lemma called_calls: "called w (sc_Exec u t raw w)" "called w (sc_named c w)" "called w (sc_ExecV raw w)"
proof -
  have go: "called w (Go None (return_value v w))" "called w (Go (Some c) w)" "called w (Dies e)"
    for w :: "'b World" and v c e
    by (simp_all add: called_def return_value_returned)
  have args: "quiet w (execv_args n a w)" for n a and w :: "'b World"
    by (induction n a w rule: execv_args.induct) (auto intro!: calm_intros)
  show "called w (sc_named c w)"
    unfolding sc_named_def by (intro called_bindH calm_intros go)
  show "called w (sc_ExecV raw w)"
    unfolding sc_ExecV_def Let_def by (auto intro!: called_bindH args go)
  show "called w (sc_Exec u t raw w)"
    unfolding sc_Exec_def by (auto intro!: called_bindH files_quiet User2System_quiet go split: option.split)
qed

section \<open>The contract of a system call\<close>

fun keeps_contract :: "'h World \<Rightarrow> 'h outcome \<Rightarrow> bool" where
  "keeps_contract w (Resumes w') = (user_ready (mach w') \<and> confined (mach w) (mach w') \<and>
     (\<exists>v. registers (mach w') = after_call v (registers (mach w))))"
| "keeps_contract w (Calls c w') = (user_ready (mach w') \<and> confined (mach w) (mach w') \<and>
     registers (mach w') = registers (mach w))"
| "keeps_contract w (Halts w') = confined (mach w) (mach w')"
| "keeps_contract w (Awaits w') = confined (mach w) (mach w')"
| "keeps_contract w (Crashes e) = True"
| "keeps_contract w Loops = True"

lemma finish_keeps: "user_ready (mach w) \<Longrightarrow> returns w r \<Longrightarrow> keeps_contract w (finish r)"
  by (cases r) (auto simp: finish_def returned_def halted_in_def)

lemma finish_call_keeps: "user_ready (mach w) \<Longrightarrow> called w r \<Longrightarrow> keeps_contract w (finish_call r)"
  by (cases r) (auto simp: finish_call_def called_def returned_def halted_in_def calm_def split: option.splits)

lemma sc_Write_keeps: "user_ready (mach w) \<Longrightarrow> keeps_contract w (case sc_Write u w of None \<Rightarrow> Loops | Some r \<Rightarrow> finish r)"
  using sc_Write_returns finish_keeps by (fastforce split: option.split)

lemma self_keeps: "user_ready (mach w) \<Longrightarrow> keeps_contract w (Halts w)" "user_ready (mach w) \<Longrightarrow> keeps_contract w (Calls c w)"
  by (simp_all add: user_ready_def)

lemma keeps_if: "(c \<Longrightarrow> keeps_contract w a) \<Longrightarrow> keeps_contract w b \<Longrightarrow> keeps_contract w (if c then a else b)"
  by simp

lemma handle_syscall_keeps:
  assumes "user_ready (mach w)"
  shows "keeps_contract w (handle_syscall u raw_type raw w)"
  unfolding handle_syscall_def Let_def using assms
  by (intro keeps_if self_keeps finish_keeps finish_call_keeps sc_Write_keeps called_calls sc_Close_returns calm_intros
      keeps_contract.simps(5) [THEN iffD2] TrueI)

text \<open>
  C2. Whatever a user program raises, the exception handler keeps its contract: when it returns to
  the program the registers are those of the system call but for the result in register 2 and the
  program counters, which are advanced by one instruction; when it goes on to the process or
  semaphore table the registers are untouched; and in every outcome no byte of memory outside the
  pages that the program may write has changed, nor any mapping of its page table, whatever the
  host's files, sockets and console deliver.
\<close>

theorem syscall_contract:
  assumes "user_ready (mach w)" and "which \<noteq> NoException"
  shows "keeps_contract w (ExceptionHandler u raw_type raw which w)"
  using assms handle_syscall_keeps [OF assms(1)] self_keeps(1) [OF assms(1)]
  by (cases which) (simp_all add: ExceptionHandler_def)

definition unix_refusing :: "unit Unix" where
  \<comment> \<open>a host on which every call fails\<close>
  "unix_refusing = \<lparr>u_creat = \<lambda>_ h. (-1, h), u_open = \<lambda>_ h. (-1, h), u_close = \<lambda>_ h. (-1, h), u_read = \<lambda>_ _ h. ((-1, []), h),
     u_write = \<lambda>_ _ _ h. (-1, h), u_lseek = \<lambda>_ _ _ h. (-1, h), u_unlink = \<lambda>_ h. (-1, h), u_socket = \<lambda>h. (-1, h),
     u_connect = \<lambda>_ _ _ h. (-1, h)\<rparr>"

definition world_add :: "unit World" where
  \<comment> \<open>a program that has called \<open>Add(7, -9)\<close> at address 64\<close>
  "world_add = \<lparr>mach = machine_sw\<lparr>registers := (\<lambda>_. 0)(2 := SC_Add, 4 := 7, 5 := -9, PCReg := 64, NextPCReg := 68)\<rparr>,
     fileSystem = \<lparr>openfile = replicate MaxOpen None, fs_filename = replicate MaxOpen []\<rparr>,
     console_in = [], console_out = [], mode = SystemMode, host = ()\<rparr>"

theorem syscall_contract_witness:
  "\<exists>w'. ExceptionHandler unix_refusing 0 raw0 SyscallException world_add = Resumes w' \<and> user_ready (mach w') \<and>
     registers (mach w') 2 = -2 \<and> registers (mach w') PCReg = 68 \<and> registers (mach w') NextPCReg = 72 \<and>
     mainMemory (mach w') 200 = mainMemory machine_sw 200"
proof -
  have r: "user_ready (mach world_add)"
    using user_ready_machine_sw by (simp add: world_add_def user_ready_def cpu_ok_def paged_def)
  have regs: "reg world_add 2 = SC_Add" "reg world_add 4 = 7" "reg world_add 5 = -9"
    by (simp_all add: reg_def world_add_def)
  have res: "ExceptionHandler unix_refusing 0 raw0 SyscallException world_add = Resumes (return_value (-2) world_add)"
    by (simp add: ExceptionHandler_def handle_syscall_def sc_Add_def finish_def ret_def regs)
  moreover have "registers (mach (return_value (-2) world_add)) 2 = -2"
    "registers (mach (return_value (-2) world_add)) PCReg = 68" "registers (mach (return_value (-2) world_add)) NextPCReg = 72"
    by (simp_all add: return_value_def set_result_def IncreasePC_def Let_def world_add_def)
  moreover have "200 \<notin> writable (mach world_add)"
    by (simp add: writable_def world_add_def machine_sw_def machine1_def)
  ultimately show ?thesis
    using syscall_contract [OF r, of SyscallException unix_refusing 0 raw0]
    by (simp add: confined_def) (simp add: world_add_def)
qed

end
