(* ===== verification/User_Buffers.thy ===== *)
theory User_Buffers
  imports Syscall_Contract
begin

text \<open>
  Copying between the kernel and a user program, and what is printed on the console.

  \<open>readable\<close> and \<open>storable\<close> are the virtual addresses that the page table translates for a load
  and for a store; \<open>vmem\<close> is the memory at a virtual address. The lemmas say what \<open>User2System\<close>
  and \<open>System2User\<close> do in terms of these, the properties what the system calls built on them print
  or store, and that the handler always comes to an end.
\<close>

section \<open>The memory a program can use\<close>

definition readable :: "Machine \<Rightarrow> nat \<Rightarrow> bool" where
  "readable m va \<longleftrightarrow> (let e = the (pageTable m) ! (va div PageSize) in
     va div PageSize < pageTableSize m \<and> valid e \<and> unat (physicalPage e) < NumPhysPages)"

definition storable :: "Machine \<Rightarrow> nat \<Rightarrow> bool" where
  "storable m va \<longleftrightarrow> readable m va \<and> \<not> readOnly (the (pageTable m) ! (va div PageSize))"

definition used :: "Machine \<Rightarrow> Machine \<Rightarrow> bool" where
  \<comment> \<open>\<open>m'\<close> is \<open>m\<close> with use and dirty bits of the page table set\<close>
  "used m m' \<longleftrightarrow> (\<exists>pt'. m' = m\<lparr>pageTable := Some pt'\<rparr> \<and> mappings m' = mappings m)"

lemma used_refl [simp]: "paged m \<Longrightarrow> used m m"
  by (auto simp: used_def paged_def intro!: exI [of _ "the (pageTable m)"])

lemma used_trans: "used m1 m2 \<Longrightarrow> used m2 m3 \<Longrightarrow> used m1 m3"
  by (auto simp: used_def)

lemma used_fields:
  assumes "used m m'"
  shows "mainMemory m' = mainMemory m" "registers m' = registers m" "pageTableSize m' = pageTableSize m" "tlb m' = tlb m"
  using assms by (auto simp: used_def)

lemma mappings_entry:
  assumes "paged m" and "paged m'" and "mappings m' = mappings m" and "pageTableSize m' = pageTableSize m"
    and "i < pageTableSize m"
  shows "prot (the (pageTable m') ! i) = prot (the (pageTable m) ! i)"
proof -
  from assms obtain pt pt' where pt: "pageTable m = Some pt" "pageTable m' = Some pt'"
    "length pt = pageTableSize m" "length pt' = pageTableSize m" by (auto simp: paged_def)
  with assms(3) have "map prot pt' = map prot pt" by (simp add: mappings_def)
  then have "map prot pt' ! i = map prot pt ! i" by simp
  with pt assms(5) show ?thesis by simp
qed

lemma prot_eq: "prot e = prot e' \<longleftrightarrow> virtualPage e = virtualPage e' \<and> physicalPage e = physicalPage e' \<and>
    valid e = valid e' \<and> readOnly e = readOnly e'"
  by (auto simp: prot_def)

lemma used_paged: "used m m' \<Longrightarrow> paged m \<Longrightarrow> paged m'"
  by (auto simp: used_def paged_def mappings_def) (metis length_map)

lemma same_access:
  assumes "paged m" and "paged m'" and "mappings m' = mappings m" and "pageTableSize m' = pageTableSize m"
  shows "readable m' = readable m" "storable m' = storable m"
proof -
  have e: "i < pageTableSize m \<Longrightarrow> prot (the (pageTable m') ! i) = prot (the (pageTable m) ! i)" for i
    by (rule mappings_entry [OF assms])
  show "readable m' = readable m" "storable m' = storable m"
    using e assms(4) by (auto simp: fun_eq_iff readable_def storable_def Let_def prot_eq)
qed

lemma used_access:
  assumes "used m m'" and "paged m"
  shows "readable m' = readable m" "storable m' = storable m" "readable m va \<Longrightarrow> vmem m' va = vmem m va"
proof -
  have *: "paged m'" "mappings m' = mappings m" "pageTableSize m' = pageTableSize m"
    using assms used_paged by (auto simp: used_def)
  show "readable m' = readable m" "storable m' = storable m"
    by (rule same_access [OF assms(2) *])+
  show "vmem m' va = vmem m va" if "readable m va"
    using mappings_entry [OF assms(2) *, of "va div PageSize"] that used_fields(1) [OF assms(1)]
    by (simp add: vmem_def readable_def Let_def prot_eq)
qed

lemma used_update:
  assumes "pageTable m = Some pt"
  shows "used m (m\<lparr>pageTable := Some (pt[i := use_entry wr (pt ! i)])\<rparr>)"
proof -
  have "map prot (pt[i := use_entry wr (pt ! i)]) = map prot pt"
    by (cases "i < length pt") (auto simp: nth_list_update prot_def intro!: nth_equalityI)
  then show ?thesis using assms by (auto simp: used_def mappings_def)
qed

lemma pagedD:
  assumes "paged m"
  shows "tlb m = None" "pageTable m = Some (the (pageTable m))" "length (the (pageTable m)) = pageTableSize m"
  using assms by (auto simp: paged_def)

section \<open>One byte\<close>

lemma read_byte:
  assumes "paged (mach w)" and "readable (mach w) (unat a)"
  shows "\<exists>m'. k_ReadMem a 1 w = Go (scast (vmem (mach w) (unat a))) (w\<lparr>mach := m'\<rparr>) \<and> used (mach w) m'"
proof -
  let ?m = "mach w" and ?v = "unat a div PageSize"
  let ?pt = "the (pageTable ?m)"
  let ?m' = "?m\<lparr>pageTable := Some (?pt[?v := use_entry False (?pt ! ?v)])\<rparr>"
  have "Translate ?m a 1 False = Inr (Inr (unat (physicalPage (?pt ! ?v)) * PageSize + unat a mod PageSize, ?m'))"
    using assms(2) pagedD [OF assms(1)]
    by (subst Translate_pt [OF pagedD [OF assms(1)]]) (auto simp: readable_def Let_def aligned_def)
  then have "k_ReadMem a 1 w = Go (scast (vmem ?m (unat a))) (w\<lparr>mach := ?m'\<rparr>)"
    by (simp add: k_ReadMem_def kernel_access_def ReadMem_def vmem_def)
  with used_update [OF pagedD(2) [OF assms(1)]] show ?thesis by blast
qed

lemma read_byte_only_readable:
  assumes "paged (mach w)" and "k_ReadMem a 1 w = Go c w'"
  shows "readable (mach w) (unat a)"
proof (rule ccontr)
  assume n: "\<not> readable (mach w) (unat a)"
  let ?m = "mach w"
  have "\<exists>exc. Translate ?m a 1 False = Inr (Inl exc)"
    using n pagedD [OF assms(1)]
    by (subst Translate_pt [OF pagedD [OF assms(1)]]) (auto simp: readable_def Let_def aligned_def)
  then show False
    using assms(2) by (auto simp: k_ReadMem_def kernel_access_def ReadMem_def RaiseException_def bindE_def
      split: sum.splits access.splits)
qed

section \<open>Strings out of user memory\<close>

definition user_byte :: "Machine \<Rightarrow> cint \<Rightarrow> nat \<Rightarrow> byte" where
  "user_byte m a i = vmem m (unat (a + of_nat i))"

definition user_string :: "Machine \<Rightarrow> cint \<Rightarrow> nat \<Rightarrow> byte list" where
  \<comment> \<open>the string at \<open>a\<close>, cut after \<open>n\<close> characters\<close>
  "user_string m a n = takeWhile (\<lambda>c. c \<noteq> 0) (map (user_byte m a) [0..<n])"

definition string_readable :: "Machine \<Rightarrow> cint \<Rightarrow> nat \<Rightarrow> bool" where
  \<comment> \<open>every byte of it, with the terminating zero if that comes before the cut\<close>
  "string_readable m a n \<longleftrightarrow> (\<forall>i < n. i \<le> length (user_string m a n) \<longrightarrow> readable m (unat (a + of_nat i)))"

lemma user_byte_Suc: "user_byte m a (Suc i) = user_byte m (a + 1) i"
  by (simp add: user_byte_def add.assoc)

lemma user_string_Suc:
  "user_string m a (Suc n) = (if vmem m (unat a) = 0 then [] else vmem m (unat a) # user_string m (a + 1) n)"
proof -
  have "map (user_byte m a) [0..<Suc n] = user_byte m a 0 # map (\<lambda>i. user_byte m a (Suc i)) [0..<n]"
    by (simp only: upt_conv_Cons [of 0 "Suc n"] map_Suc_upt [symmetric]) simp
  then show ?thesis
    by (simp add: user_string_def user_byte_Suc) (simp add: user_byte_def)
qed

lemma user_string_0 [simp]: "user_string m a 0 = []"
  by (simp add: user_string_def)

lemma length_user_string: "length (user_string m a n) \<le> n"
  using length_takeWhile_le [of "\<lambda>c. c \<noteq> 0" "map (user_byte m a) [0..<n]"] by (simp add: user_string_def)

lemma string_readable_Suc:
  "string_readable m a (Suc n) \<longleftrightarrow> readable m (unat a) \<and> (vmem m (unat a) \<noteq> 0 \<longrightarrow> string_readable m (a + 1) n)"
  by (cases "vmem m (unat a) = 0") (simp_all add: string_readable_def user_string_Suc All_less_Suc2 add.assoc)

lemma ucast_scast_byte [simp]: "(ucast (scast (b :: byte) :: cint) :: byte) = b"
  by (rule bit_word_eqI) (auto simp: bit_simps)

lemma scast_eq_0 [simp]: "(scast (b :: byte) :: cint) = 0 \<longleftrightarrow> b = 0"
proof
  assume "(scast b :: cint) = 0"
  then have "(ucast (scast b :: cint) :: byte) = 0" by simp
  then show "b = 0" by simp
qed simp

lemma user_string_used:
  assumes "used m m'" and "paged m" and "string_readable m a n"
  shows "user_string m' a n = user_string m a n" "string_readable m' a n"
proof -
  have "user_string m' a n = user_string m a n \<and> string_readable m' a n"
    using assms(3)
    by (induction n arbitrary: a)
      (auto simp: string_readable_def [of _ _ 0] string_readable_Suc user_string_Suc used_access [OF assms(1,2)])
  then show "user_string m' a n = user_string m a n" "string_readable m' a n" by simp_all
qed

lemma u2s_loop_reads:
  assumes "paged (mach w)" and "string_readable (mach w) a n"
  shows "\<exists>m'. u2s_loop n a w = Go (user_string (mach w) a n @ replicate (if length (user_string (mach w) a n) < n then 1 else 0) 0)
     (w\<lparr>mach := m'\<rparr>) \<and> used (mach w) m'"
  using assms
proof (induction n arbitrary: a w)
  case (Suc n)
  then obtain m1 where m1: "k_ReadMem a 1 w = Go (scast (vmem (mach w) (unat a))) (w\<lparr>mach := m1\<rparr>)" "used (mach w) m1"
    using read_byte [of w a] by (auto simp: string_readable_Suc)
  show ?case
  proof (cases "vmem (mach w) (unat a) = 0")
    case False
    let ?w = "w\<lparr>mach := m1\<rparr>"
    have "string_readable (mach w) (a + 1) n" using Suc.prems(2) False by (simp add: string_readable_Suc)
    note r = user_string_used [OF m1(2) Suc.prems(1) this]
    have "paged (mach ?w)" using used_paged [OF m1(2) Suc.prems(1)] by simp
    from Suc.IH [OF this, of "a + 1"] r obtain m' where "u2s_loop n (a + 1) ?w = Go (user_string (mach w) (a + 1) n @
        replicate (if length (user_string (mach w) (a + 1) n) < n then 1 else 0) 0) (?w\<lparr>mach := m'\<rparr>)" "used m1 m'"
      by auto
    then show ?thesis using m1 False by (auto simp: user_string_Suc intro: used_trans)
  qed (use m1 in \<open>auto simp: user_string_Suc\<close>)
next
  case 0
  then show ?case by (auto intro!: exI [of _ "mach w"])
qed

lemma sint_succ:
  fixes v :: cint
  assumes "sint v < 2 ^ 31 - 1" and "0 \<le> sint v"
  shows "sint (v + 1) = sint v + 1" "nat (sint v) = unat v"
proof -
  have "signed_take_bit 31 (sint v + 1) = sint v + 1"
    using assms by (intro signed_take_bit_int_eq_self) auto
  then show "sint (v + 1) = sint v + 1" by (simp add: sint_word_ariths)
  show "nat (sint v) = unat v" using assms(2) uint_eq_sint [of v] by (simp flip: nat_uint_eq)
qed

lemma User2System_reads:
  assumes "paged (mach w)" and "0 \<le> sint limit" "sint limit < 2 ^ 31 - 1"
    and "string_readable (mach w) a (nat (sint limit))"
  shows "\<exists>m'. User2System a limit w = Go (user_string (mach w) a (nat (sint limit)) @
       replicate (nat (sint limit) + 1 - length (user_string (mach w) a (nat (sint limit)))) 0) (w\<lparr>mach := m'\<rparr>) \<and>
     used (mach w) m'"
proof -
  let ?n = "nat (sint limit)" and ?s = "user_string (mach w) a (nat (sint limit))"
  obtain m' where u: "u2s_loop ?n a w = Go (?s @ replicate (if length ?s < ?n then 1 else 0) 0) (w\<lparr>mach := m'\<rparr>)"
      "used (mach w) m'"
    using u2s_loop_reads [OF assms(1,4)] by blast
  have "nat (sint (limit + 1)) = ?n + 1" using sint_succ(1) [OF assms(3,2)] assms(2) by simp
  moreover have "length ?s \<le> ?n" by (rule length_user_string)
  then have "replicate (if length ?s < ?n then 1 else 0) (0::byte) @
      replicate (?n + 1 - (length ?s + (if length ?s < ?n then 1 else 0))) 0 = replicate (?n + 1 - length ?s) 0"
    by (simp add: replicate_add [symmetric] del: replicate_Suc)
  ultimately show ?thesis
    using u sint_succ(1) [OF assms(3,2)] assms(2) by (auto simp: User2System_def)
qed

lemma cstring_user_string: "cstring (user_string m a n @ replicate (Suc k) 0) = user_string m a n"
proof -
  have "\<forall>c \<in> set (user_string m a n). c \<noteq> 0"
    unfolding user_string_def using set_takeWhileD by fast
  then show ?thesis by (simp add: cstring_def takeWhile_append2)
qed

lemma fold_putChar: "fold putChar cs w = w\<lparr>console_out := console_out w @ cs\<rparr>"
  by (induction cs arbitrary: w) (simp_all add: putChar_def)

text \<open>
  C26. \<open>PrintString\<close> prints exactly the string at the address in register 4, up to its terminating
  zero or 255 characters, and returns to the program with no other change of memory, registers
  or page table mappings than the advanced program counters.
\<close>

theorem print_string_prints:
  assumes "user_ready (mach w)" and "reg w 2 = SC_PrintString" and "string_readable (mach w) (reg w 4) 255"
  shows "\<exists>w'. ExceptionHandler u raw_type raw SyscallException w = Resumes w' \<and>
    console_out w' = console_out w @ user_string (mach w) (reg w 4) 255 \<and>
    mainMemory (mach w') = mainMemory (mach w) \<and> mappings (mach w') = mappings (mach w) \<and>
    registers (mach w') = after_call SC_PrintString (registers (mach w))"
proof -
  let ?s = "user_string (mach w) (reg w 4) 255"
  obtain m' where u: "User2System (reg w 4) 255 w = Go (?s @ replicate (256 - length ?s) 0) (w\<lparr>mach := m'\<rparr>)"
      "used (mach w) m'"
    using User2System_reads [of w 255 "reg w 4"] assms by (auto simp: user_ready_def)
  have "256 - length ?s = Suc (255 - length ?s)" using length_user_string [of "mach w" "reg w 4" 255] by simp
  then have "sc_PrintString w = Go () (return_void (w\<lparr>mach := m', console_out := console_out w @ ?s\<rparr>))"
    using u(1) by (simp add: sc_PrintString_def cstring_user_string PrintBuffer_def fold_putChar del: replicate_Suc)
  moreover have "registers m' = registers (mach w)" "mainMemory m' = mainMemory (mach w)" "mappings m' = mappings (mach w)"
    using used_fields [OF u(2)] u(2) by (auto simp: used_def)
  moreover have "registers (mach w) 2 = SC_PrintString" using assms(2) by (simp add: reg_def)
  ultimately show ?thesis
    using assms(2)
    by (auto simp: ExceptionHandler_def handle_syscall_def finish_def return_void_def IncreasePC_def Let_def
        after_call_def mappings_def fun_eq_iff)
qed

definition world_hi :: "unit World" where
  \<comment> \<open>a program that has called \<open>PrintString\<close> with the address of \<open>"hi"\<close>\<close>
  "world_hi = world_add\<lparr>mach := machine_sw\<lparr>registers := (\<lambda>_. 0)(2 := SC_PrintString, 4 := 0),
     mainMemory := (\<lambda>_. 0)(384 := 104, 385 := 105)\<rparr>\<rparr>"

lemma world_hi_ready: "user_ready (mach world_hi)"
  using user_ready_machine_sw by (simp add: world_hi_def user_ready_def cpu_ok_def paged_def)

theorem print_string_prints_witness:
  "\<exists>w'. ExceptionHandler unix_refusing 0 raw0 SyscallException world_hi = Resumes w' \<and> console_out w' = [104, 105]"
proof -
  have n: "(255::nat) = Suc (Suc (Suc 252))" by simp
  have v: "vmem (mach world_hi) 0 = 104" "vmem (mach world_hi) 1 = 105" "vmem (mach world_hi) 2 = 0"
    "readable (mach world_hi) 0" "readable (mach world_hi) 1" "readable (mach world_hi) 2"
    by (simp_all add: vmem_def readable_def world_hi_def Let_def) (simp_all add: machine_sw_def machine1_def Machine_init_def)
  have r: "reg world_hi 2 = SC_PrintString" "reg world_hi 4 = 0" "console_out world_hi = []"
    by (simp_all add: reg_def world_hi_def world_add_def)
  have "user_string (mach world_hi) 0 255 = [104, 105]" "string_readable (mach world_hi) 0 255"
    unfolding n user_string_Suc string_readable_Suc using v by simp_all
  with print_string_prints [OF world_hi_ready r(1), of unix_refusing 0 raw0] r show ?thesis by auto
qed

section \<open>The handler comes to an end\<close>

lemma User2System_Go:
  assumes "user_ready (mach w)" and "User2System a limit w = Go b w'"
  shows "user_ready (mach w')" "pageTableSize (mach w') = pageTableSize (mach w)"
  using User2System_quiet [of w a limit] assms by (auto simp: calm_def confined_def)

lemma User2System_first:
  assumes "user_ready (mach w)" and "User2System a 255 w = Go b w'"
  shows "unat a < pageTableSize (mach w) * PageSize"
proof -
  have "(255 :: nat) = Suc 254" by simp
  then have "\<exists>c w1. k_ReadMem a 1 w = Go c w1" if "u2s_loop 255 a w = Go x w'" for x
    using that by (simp only: u2s_loop.simps bindH_eq_Go) blast
  then obtain c w1 where "k_ReadMem a 1 w = Go c w1"
    using assms(2) by (auto simp: User2System_def bindH_eq_Go)
  with read_byte_only_readable assms(1) have "readable (mach w) (unat a)" by (auto simp: user_ready_def)
  then show ?thesis by (simp add: readable_def Let_def less_mult_imp_div_less div_less_iff_less_mult)
qed

lemma out_loop_step:
  fixes w :: "'h World"
  assumes "user_ready (mach w)"
    and "\<And>b' (w' :: 'h World). user_ready (mach w') \<Longrightarrow> pageTableSize (mach w') = pageTableSize (mach w) \<Longrightarrow>
      unat (a + 255) < pageTableSize (mach w) * PageSize \<Longrightarrow> out_loop (a + 255) b' w' \<noteq> None"
  shows "out_loop a b w \<noteq> None"
proof -
  let ?w = "fold putChar (takeWhile (\<lambda>c. c \<noteq> 0) (take 255 b)) w"
  have m: "mach ?w = mach w" by (simp add: fold_putChar)
  show ?thesis
  proof (cases "User2System (a + 255) 255 ?w")
    case (Go b' w2)
    have r: "user_ready (mach ?w)" using assms(1) m by simp
    have "out_loop (a + 255) b' w2 \<noteq> None"
      by (rule assms(2)) (use User2System_Go [OF r Go] User2System_first [OF r Go] m in simp_all)
    then show ?thesis using Go by (subst out_loop.simps) (simp add: Let_def)
  qed (subst out_loop.simps, simp add: Let_def)+
qed

lemma out_loop_ends:
  fixes w :: "'h World"
  assumes "user_ready (mach w)" and bound: "pageTableSize (mach w) * PageSize + 255 \<le> 2 ^ 32"
  shows "out_loop a b w \<noteq> None"
proof -
  have from_table: "out_loop a b w' \<noteq> None"
    if "user_ready (mach w')" "pageTableSize (mach w') = pageTableSize (mach w)" "unat a < pageTableSize (mach w) * PageSize"
    for a b and w' :: "'h World"
    using that
  proof (induction "pageTableSize (mach w) * PageSize - unat a" arbitrary: a b w' rule: less_induct)
    case less
    have "unat a + unat (255 :: cint) < 2 ^ LENGTH(32)"
      using less.prems(3) bound by simp
    then have "unat (a + 255) = unat a + unat (255 :: cint)" by (rule unat_add_lem [THEN iffD1])
    then have "pageTableSize (mach w) * PageSize - unat (a + 255) < pageTableSize (mach w) * PageSize - unat a"
      using less.prems(3) by simp
    then show ?case
      by (intro out_loop_step [OF less.prems(1)] less.hyps) (simp_all add: less.prems)
  qed
  show ?thesis by (rule out_loop_step [OF assms(1)], rule from_table)
qed

lemma sc_Write_ends:
  assumes "user_ready (mach w)" and "pageTableSize (mach w) \<le> NumPhysPages"
  shows "sc_Write u w \<noteq> None"
proof -
  have "out_loop a b w3 \<noteq> None" if "write_prepare u (reg w 4) (reg w 5) (reg w 6) f w = Go x w3" for f x w3 a b
  proof (rule out_loop_ends)
    have "calm w w3" using write_prepare_quiet [of w u "reg w 4" "reg w 5" "reg w 6" f] that by simp
    then show "user_ready (mach w3)" "pageTableSize (mach w3) * PageSize + 255 \<le> 2 ^ 32"
      using assms by (auto simp: calm_def confined_def)
  qed
  then show ?thesis
    unfolding sc_Write_def Let_def write_prepare_def [symmetric]
    by (auto split: sum.split option.split hres.split prod.split)
qed

text \<open>
  C21. The kernel always comes back. For a program whose page table is no larger than main memory,
  the handling of any exception ends: the only loop of the handler without a bound in the code,
  the one that prints a buffer of \<open>Write\<close> on the console 255 characters at a time, reaches a
  terminating zero or the end of the address space.
\<close>

theorem handler_terminates:
  assumes "user_ready (mach w)" and "pageTableSize (mach w) \<le> NumPhysPages"
  shows "ExceptionHandler u raw_type raw which w \<noteq> Loops"
proof -
  obtain r where "sc_Write u w = Some r" using sc_Write_ends [OF assms] by blast
  moreover have "finish r \<noteq> Loops" "finish_call r' \<noteq> Loops" for r :: "('a World, unit) hres" and r' :: "('a World, _) hres"
    by (auto simp: finish_def finish_call_def split: hres.split option.split)
  ultimately have "handle_syscall u raw_type raw w \<noteq> Loops"
    unfolding handle_syscall_def Let_def by simp
  then show ?thesis by (cases which) (simp_all add: ExceptionHandler_def)
qed

definition world_write :: "unit World" where
  \<comment> \<open>the same program calling \<open>Write\<close> on the console\<close>
  "world_write = world_hi\<lparr>mach := set_reg 2 SC_Write (set_reg 5 3 (set_reg 6 1 (mach world_hi))),
     fileSystem := \<lparr>openfile = None # Some (OpenFile_new2 1 0) # replicate 18 None, fs_filename = replicate MaxOpen []\<rparr>\<rparr>"

theorem handler_terminates_witness:
  "reg world_write 2 = SC_Write \<and> ExceptionHandler unix_refusing 0 raw0 SyscallException world_write \<noteq> Loops"
proof -
  have "user_ready (mach world_write)"
    using world_hi_ready by (simp add: world_write_def user_ready_def cpu_ok_def)
  moreover have "pageTableSize (mach world_write) \<le> NumPhysPages"
    by (simp add: world_write_def world_hi_def)
  ultimately show ?thesis
    using handler_terminates [of world_write] by (simp add: reg_def) (simp add: world_write_def)
qed

section \<open>Strings into user memory\<close>

definition copied :: "byte list \<Rightarrow> nat \<Rightarrow> byte list" where
  \<comment> \<open>what \<open>System2User\<close> copies: at most \<open>n\<close> bytes, up to and with the first zero\<close>
  "copied buf n = (let s = cstring (take n buf) in take n (s @ [0]))"

definition separate :: "Machine \<Rightarrow> bool" where
  \<comment> \<open>no two pages share a frame\<close>
  "separate m \<longleftrightarrow> distinct (map physicalPage (the (pageTable m)))"

definition put_bytes :: "Machine \<Rightarrow> cint \<Rightarrow> byte list \<Rightarrow> Machine \<Rightarrow> bool" where
  \<comment> \<open>\<open>m'\<close> is \<open>m\<close> with the bytes stored from virtual address \<open>a\<close> on, and no other change the program could see\<close>
  "put_bytes m a bs m' \<longleftrightarrow> paged m' \<and> mappings m' = mappings m \<and> pageTableSize m' = pageTableSize m \<and>
     registers m' = registers m \<and>
     (\<forall>i < length bs. user_byte m' a i = bs ! i) \<and>
     (\<forall>va. readable m va \<and> (\<forall>i < length bs. va \<noteq> unat (a + of_nat i)) \<longrightarrow> vmem m' va = vmem m va)"

lemma copied_simps [simp]:
  "copied buf 0 = []" "copied (c # buf) (Suc n) = c # (if c = 0 then [] else copied buf n)"
  by (simp_all add: copied_def cstring_def Let_def take_Suc_conv_app_nth)

lemma separate_mappings:
  assumes "paged m" and "paged m'" and "mappings m' = mappings m"
  shows "separate m' = separate m"
proof -
  have *: "map physicalPage (the (pageTable x)) = map (\<lambda>(v, p, _). p) (the (mappings x))" if "paged x" for x
    using that by (auto simp: mappings_def paged_def prot_def)
  show ?thesis unfolding separate_def *[OF assms(1)] *[OF assms(2)] assms(3) by simp
qed

lemma frame_inj:
  assumes "separate m" and "paged m" and "readable m x" and "readable m y"
    and "unat (physicalPage (the (pageTable m) ! (x div PageSize))) * PageSize + x mod PageSize =
      unat (physicalPage (the (pageTable m) ! (y div PageSize))) * PageSize + y mod PageSize"
  shows "x = y"
proof -
  let ?f = "\<lambda>z. unat (physicalPage (the (pageTable m) ! (z div PageSize)))"
  have "(?f x * PageSize + x mod PageSize) div PageSize = (?f y * PageSize + y mod PageSize) div PageSize"
    "(?f x * PageSize + x mod PageSize) mod PageSize = (?f y * PageSize + y mod PageSize) mod PageSize"
    using assms(5) by simp_all
  then have "physicalPage (the (pageTable m) ! (x div PageSize)) = physicalPage (the (pageTable m) ! (y div PageSize))"
    and r: "x mod PageSize = y mod PageSize" by (simp_all add: unsigned_word_eqI)
  then have "x div PageSize = y div PageSize"
    using assms(1,3,4) pagedD(3) [OF assms(2)] by (auto simp: separate_def readable_def Let_def distinct_conv_nth)
  with r show ?thesis by (metis div_mult_mod_eq)
qed

lemma write_byte:
  assumes "paged (mach w)" and "storable (mach w) (unat a)" and "separate (mach w)"
  shows "\<exists>m'. k_WriteMem a 1 (scast c) w = Go () (w\<lparr>mach := m'\<rparr>) \<and> put_bytes (mach w) a [c] m'"
proof -
  let ?m = "mach w" and ?v = "unat a div PageSize"
  let ?pt = "the (pageTable ?m)"
  let ?pa = "unat (physicalPage (?pt ! ?v)) * PageSize + unat a mod PageSize"
  let ?m1 = "?m\<lparr>pageTable := Some (?pt[?v := use_entry True (?pt ! ?v)])\<rparr>"
  let ?m' = "?m1\<lparr>mainMemory := (mainMemory ?m)(?pa := c)\<rparr>"
  have "Translate ?m a 1 True = Inr (Inr (?pa, ?m1))"
    using assms(2) pagedD [OF assms(1)]
    by (subst Translate_pt [OF pagedD [OF assms(1)]]) (auto simp: storable_def readable_def Let_def aligned_def)
  then have "k_WriteMem a 1 (scast c) w = Go () (w\<lparr>mach := ?m'\<rparr>)"
    by (simp add: k_WriteMem_def kernel_access_def WriteMem_def ucast_and_ff)
  moreover have "put_bytes ?m a [c] ?m'"
  proof -
    have u: "used ?m ?m1" by (rule used_update [OF pagedD(2) [OF assms(1)]])
    have p: "paged ?m1" by (rule used_paged [OF u assms(1)])
    have e: "vmem ?m' va = (if va = unat a then c else vmem ?m va)" if "readable ?m va" for va
    proof -
      have "?pt[?v := use_entry True (?pt ! ?v)] ! (va div PageSize) = (if va div PageSize = ?v then use_entry True (?pt ! ?v) else ?pt ! (va div PageSize))"
        using that pagedD(3) [OF assms(1)] by (simp add: nth_list_update readable_def Let_def)
      then have "vmem ?m' va = ((mainMemory ?m)(?pa := c)) (unat (physicalPage (?pt ! (va div PageSize))) * PageSize + va mod PageSize)"
        by (simp add: vmem_def)
      then show ?thesis
        using frame_inj [OF assms(3,1) that, of "unat a"] assms(2) by (auto simp: storable_def vmem_def)
    qed
    show ?thesis
      using p u assms(2) e by (auto simp: put_bytes_def user_byte_def storable_def used_def paged_def mappings_def)
  qed
  ultimately show ?thesis by blast
qed

lemma put_bytes_trans:
  assumes "put_bytes m a [c] m1" and "put_bytes m1 (a + 1) bs m2" and "paged m" and "length bs < 2 ^ 32 - 1"
    and "readable m (unat a)"
  shows "put_bytes m a (c # bs) m2"
proof -
  have r: "readable m1 = readable m"
    using assms(1,3) same_access(1) [of m m1] by (simp add: put_bytes_def)
  have b: "vmem m1 (unat a) = c" using assms(1) by (simp add: put_bytes_def user_byte_def)
  have far: "unat a \<noteq> unat (a + 1 + of_nat i)" if "i < length bs" for i
  proof
    assume "unat a = unat (a + 1 + of_nat i)"
    then have "a = a + 1 + of_nat i" by (rule unsigned_word_eqI)
    then have "a + 0 = a + (1 + of_nat i)" by (simp add: add.assoc)
    then have "(of_nat (Suc i) :: cint) = 0" by simp
    then have "unat (of_nat (Suc i) :: cint) = 0" by (simp only: unat_0)
    with that assms(4) show False by (simp add: unat_of_nat del: of_nat_Suc)
  qed
  have "vmem m2 (unat a) = c" using assms(2,5) b r far by (simp add: put_bytes_def)
  then have "user_byte m2 a i = (c # bs) ! i" if "i < Suc (length bs)" for i
    using assms(2) that by (cases i) (simp_all add: put_bytes_def user_byte_def add.assoc)
  moreover have "vmem m2 va = vmem m va"
    if "readable m va" "\<forall>i < Suc (length bs). va \<noteq> unat (a + of_nat i)" for va
  proof -
    have "va \<noteq> unat a" using that(2) by force
    moreover have "va \<noteq> unat (a + 1 + of_nat i)" if "i < length bs" for i
      using \<open>\<forall>i < Suc (length bs). _ i\<close> [rule_format, of "Suc i"] that by (simp add: add.assoc)
    ultimately show ?thesis using assms(1,2) that(1) r by (simp add: put_bytes_def)
  qed
  ultimately show ?thesis using assms(1,2) by (simp add: put_bytes_def)
qed

lemma s2u_loop_writes:
  assumes "paged (mach w)" and "separate (mach w)" and "i + n < length buf" and "n < 2 ^ 32 - 1"
    and "\<forall>j \<le> n. storable (mach w) (unat (a + of_nat (i + j)))"
  shows "\<exists>m'. s2u_loop n i a buf w = Go (i + length (copied (drop i buf) (Suc n))) (w\<lparr>mach := m'\<rparr>) \<and>
    put_bytes (mach w) (a + of_nat i) (copied (drop i buf) (Suc n)) m'"
  using assms
proof (induction n arbitrary: i w)
  case 0
  then obtain m' where "k_WriteMem (a + of_nat i) 1 (scast (buf ! i)) w = Go () (w\<lparr>mach := m'\<rparr>)"
     "put_bytes (mach w) (a + of_nat i) [buf ! i] m'"
    using write_byte [of w "a + of_nat i" "buf ! i"] by auto
  with 0 show ?case by (subst s2u_loop.simps) (auto simp: Cons_nth_drop_Suc [symmetric])
next
  case (Suc n)
  let ?c = "buf ! i"
  obtain m1 where w1: "k_WriteMem (a + of_nat i) 1 (scast ?c) w = Go () (w\<lparr>mach := m1\<rparr>)"
     "put_bytes (mach w) (a + of_nat i) [?c] m1"
    using write_byte [of w "a + of_nat i" ?c] Suc.prems(1,2) Suc.prems(5) [rule_format, of 0] by auto
  have d: "drop i buf = ?c # drop (Suc i) buf" using Suc.prems(3) by (simp add: Cons_nth_drop_Suc)
  show ?case
  proof (cases "?c = 0")
    case True
    then show ?thesis using w1 d Suc.prems by (subst s2u_loop.simps) auto
  next
    case False
    let ?w = "w\<lparr>mach := m1\<rparr>" and ?bs = "copied (drop (Suc i) buf) (Suc n)"
    have acc: "paged m1" "storable m1 = storable (mach w)" "separate m1"
      using w1(2) Suc.prems(1,2) same_access(2) [of "mach w" m1] separate_mappings [of "mach w" m1]
      by (auto simp: put_bytes_def)
    have st: "storable (mach w) (unat (a + of_nat (Suc i + j)))" if "j \<le> n" for j
      using Suc.prems(5) [rule_format, of "Suc j"] that by simp
    obtain m' where m': "s2u_loop n (Suc i) a buf ?w = Go (Suc i + length ?bs) (?w\<lparr>mach := m'\<rparr>)"
        "put_bytes m1 (a + of_nat (Suc i)) ?bs m'"
      using Suc.IH [of ?w "Suc i"] acc st Suc.prems(3,4) by auto
    have "length ?bs < 2 ^ 32 - 1"
      using Suc.prems(4) by (simp add: copied_def Let_def)
    then have "put_bytes (mach w) (a + of_nat i) (?c # ?bs) m'"
      using m'(2) Suc.prems
      by (intro put_bytes_trans [OF w1(2)]) (auto simp: ac_simps storable_def)
    then show ?thesis using w1 m' d False Suc.prems by (subst s2u_loop.simps) auto
  qed
qed

lemma copied_takeWhile:
  assumes "\<forall>i < length (copied xs n). f i = copied xs n ! i" and "n \<le> length xs"
  shows "takeWhile (\<lambda>c. c \<noteq> 0) (map f [0..<n]) = cstring (take n xs)"
  using assms
proof (induction n arbitrary: xs f)
  case (Suc n)
  then obtain x ys where xs: "xs = x # ys" by (cases xs) auto
  have m: "map f [0..<Suc n] = f 0 # map (\<lambda>i. f (Suc i)) [0..<n]"
    by (simp only: upt_conv_Cons [of 0 "Suc n"] map_Suc_upt [symmetric]) simp
  have "f 0 = x" using Suc.prems(1) xs by force
  moreover have "takeWhile (\<lambda>c. c \<noteq> 0) (map (\<lambda>i. f (Suc i)) [0..<n]) = cstring (take n ys)" if "x \<noteq> 0"
    using Suc.prems xs that by (intro Suc.IH) auto
  ultimately show ?case using xs unfolding m by (simp add: cstring_def)
qed (simp add: cstring_def)

text \<open>
  C25. \<open>System2User\<close> and \<open>User2System\<close> are inverse on strings. When the target is in pages the
  program may write, and its pages have frames of their own, \<open>System2User\<close> stores the characters
  of the buffer up to the length given or the first zero, which is stored too, reports how many
  bytes it stored, and changes no other byte of the program's memory; reading the string back with
  \<open>User2System\<close> gives the characters that were stored, zero-padded.
\<close>

theorem copy_round_trip:
  assumes "paged (mach w)" and "separate (mach w)" and "0 < sint len" and "sint len < 2 ^ 31 - 1"
    and "nat (sint len) \<le> length buf"
    and "\<forall>i < nat (sint len). storable (mach w) (unat (a + of_nat i))"
  shows "\<exists>m1 m2. System2User a len buf w = Go (of_nat (length (copied buf (nat (sint len))))) (w\<lparr>mach := m1\<rparr>) \<and>
    put_bytes (mach w) a (copied buf (nat (sint len))) m1 \<and>
    (let s = cstring (take (nat (sint len)) buf) in
     User2System a len (w\<lparr>mach := m1\<rparr>) = Go (s @ replicate (nat (sint len) + 1 - length s) 0) (w\<lparr>mach := m2\<rparr>)) \<and>
    used m1 m2"
proof -
  let ?n = "nat (sint len)"
  obtain n where n: "?n = Suc n" using assms(3) by (metis gr0_implies_Suc zero_less_nat_eq)
  have "n < 2 ^ 32 - 1" using n assms(4) by simp
  then obtain m1 where m1: "s2u_loop n 0 a buf w = Go (length (copied buf ?n)) (w\<lparr>mach := m1\<rparr>)"
      "put_bytes (mach w) a (copied buf ?n) m1"
    using s2u_loop_writes [of w 0 n buf a] assms n by (auto simp: less_Suc_eq_le)
  have s: "System2User a len buf w = Go (of_nat (length (copied buf ?n))) (w\<lparr>mach := m1\<rparr>)"
    using m1(1) assms(3) n by (auto simp: System2User_def)
  have p: "paged m1" "storable m1 = storable (mach w)"
    using m1(2) assms(1) same_access(2) [of "mach w" m1] by (auto simp: put_bytes_def)
  then have "string_readable m1 a ?n"
    using assms(6) by (auto simp: string_readable_def storable_def fun_eq_iff)
  moreover have "user_string m1 a ?n = cstring (take ?n buf)"
    unfolding user_string_def using m1(2) assms(5) by (intro copied_takeWhile) (simp_all add: put_bytes_def)
  ultimately obtain m2 where
    "User2System a len (w\<lparr>mach := m1\<rparr>) = Go (cstring (take ?n buf) @
       replicate (?n + 1 - length (cstring (take ?n buf))) 0) (w\<lparr>mach := m2\<rparr>)" "used m1 m2"
    using User2System_reads [of "w\<lparr>mach := m1\<rparr>" len a] p(1) assms(3,4) by auto
  with s m1(2) show ?thesis by (auto simp: Let_def)
qed

theorem copy_round_trip_witness:
  "\<exists>m1 m2. System2User 4 3 [97, 0, 98] world_hi = Go 2 (world_hi\<lparr>mach := m1\<rparr>) \<and>
     User2System 4 3 (world_hi\<lparr>mach := m1\<rparr>) = Go [97, 0, 0, 0] (world_hi\<lparr>mach := m2\<rparr>) \<and>
     vmem m1 1 = 105"
proof -
  have w: "storable (mach world_hi) x" if "x < 128" for x
    using that by (simp add: storable_def readable_def world_hi_def Let_def) (simp add: machine_sw_def machine1_def Machine_init_def)
  have p: "paged (mach world_hi)" "separate (mach world_hi)" "vmem (mach world_hi) 1 = 105"
    using world_hi_ready by (auto simp: user_ready_def) (simp_all add: separate_def vmem_def world_hi_def machine_sw_def machine1_def)
  have a: "storable (mach world_hi) (unat (4 + of_nat i :: cint))" if "i < 3" for i
  proof -
    have "unat (4 + of_nat i :: cint) = 4 + i" using that by (simp add: unat_word_ariths unat_of_nat)
    then show ?thesis using that w by simp
  qed
  have n: "nat (sint (3 :: cint)) = 3" "copied [97, 0, 98] 3 = [97, 0]" "cstring (take 3 [97, 0, 98 :: byte]) = [97]"
    by (simp_all add: copied_def cstring_def Let_def)
  have "\<exists>m1 m2. System2User 4 3 [97, 0, 98] world_hi = Go 2 (world_hi\<lparr>mach := m1\<rparr>) \<and>
     put_bytes (mach world_hi) 4 [97, 0] m1 \<and>
     User2System 4 3 (world_hi\<lparr>mach := m1\<rparr>) = Go [97, 0, 0, 0] (world_hi\<lparr>mach := m2\<rparr>)"
    using copy_round_trip [of world_hi 3 "[97, 0, 98]" 4, unfolded n, OF p(1,2)] a
    by (auto simp: Let_def numeral_3_eq_3)
  moreover have "vmem m1 1 = 105" if "put_bytes (mach world_hi) 4 [97, 0] m1" for m1
    using that p(3) w [of 1] by (auto simp: put_bytes_def storable_def less_Suc_eq)
  ultimately show ?thesis by blast
qed

end
