(* ===== verification/File_Table.thy ===== *)
theory File_Table
  imports User_Buffers
begin

text \<open>
  The table of open files: its invariant, which descriptors the system calls accept, and what
  \<open>Open\<close>, \<open>Close\<close> and \<open>Remove\<close> do with it.

  \<open>keep P\<close> says that a step keeps a predicate \<open>P\<close> of the file system; the collection \<open>keep_intros\<close>
  holds one rule per routine, composed by the locale \<open>effect_contract\<close> of theory
  \<open>Syscall_Contract\<close>.
\<close>

named_theorems keep_intros

section \<open>The invariant\<close>

definition file_table_ok :: "FileSystem \<Rightarrow> bool" where
  \<comment> \<open>twenty slots, the console in the first two, and a name exactly in the slots that are taken\<close>
  "file_table_ok fs \<longleftrightarrow> length (openfile fs) = MaxOpen \<and> openfile fs ! 0 \<noteq> None \<and> openfile fs ! 1 \<noteq> None \<and>
     list_all2 (\<lambda>f name. f = None \<longleftrightarrow> name = []) (openfile fs) (fs_filename fs)"

definition with_file :: "nat \<Rightarrow> OpenFile option \<Rightarrow> byte list \<Rightarrow> FileSystem \<Rightarrow> FileSystem" where
  \<comment> \<open>the table with slot \<open>k\<close> set\<close>
  "with_file k f name fs = fs\<lparr>openfile := (openfile fs)[k := f], fs_filename := (fs_filename fs)[k := name]\<rparr>"

definition open_at :: "int \<Rightarrow> FileSystem \<Rightarrow> bool" where
  "open_at i fs \<longleftrightarrow> file_table_ok fs \<and> 0 \<le> i \<and> i < int MaxOpen \<and> openfile fs ! nat i \<noteq> None"

lemma file_table_okD:
  assumes "file_table_ok fs"
  shows "length (openfile fs) = MaxOpen" "length (fs_filename fs) = MaxOpen" "openfile fs ! 0 \<noteq> None" "openfile fs ! Suc 0 \<noteq> None"
    "i < MaxOpen \<Longrightarrow> openfile fs ! i = None \<longleftrightarrow> fs_filename fs ! i = []"
  using assms list_all2_lengthD list_all2_nthD by (fastforce simp: file_table_ok_def)+

lemma with_file_ok:
  assumes "file_table_ok fs" and "f = None \<longleftrightarrow> name = []" and "2 \<le> k \<or> f \<noteq> None"
  shows "file_table_ok (with_file k f name fs)"
  using assms unfolding file_table_ok_def with_file_def
  by (cases "k = 0"; cases "k = 1") (auto intro: list_all2_update_cong simp: nth_list_update)

definition keep :: "(FileSystem \<Rightarrow> bool) \<Rightarrow> 'h World \<Rightarrow> 'h World \<Rightarrow> bool" where
  "keep P w w' \<longleftrightarrow> (P (fileSystem w) \<longrightarrow> P (fileSystem w'))"

abbreviation keeps :: "(FileSystem \<Rightarrow> bool) \<Rightarrow> 'h World \<Rightarrow> ('h World, 'a) hres \<Rightarrow> bool" where
  "keeps P \<equiv> meets (keep P) (keep P)"

interpretation kept: effect_contract "keep P" "keep P" "keep P" for P
  by unfold_locales (auto simp: keep_def)

lemmas [keep_intros] = kept.meets_bindH meets_if meets_option meets_prod meets_prod2 meets_prod3 Dies_meets

section \<open>The routines that leave the table alone\<close>

lemma keep_same [simp]: "fileSystem w' = fileSystem w \<Longrightarrow> keep P w w'"
  by (simp add: keep_def)

lemma Go_keeps [keep_intros]: "fileSystem w' = fileSystem w \<Longrightarrow> keeps P w (Go x w')"
  by simp

lemma kernel_access_keeps: "keeps P w (kernel_access r w)"
  by (auto simp: kernel_access_def split: sum.split access.split)

lemma basic_keeps [keep_intros]:
  "keeps P w (k_ReadMem a sz w)" "keeps P w (k_WriteMem a sz v w)" "keeps P w (lift_result r w)" "keeps P w (host_call f w)"
  "keeps P w (assertH c w)" "keeps P w (ReadChar w)"
  by (simp_all add: k_ReadMem_def k_WriteMem_def kernel_access_keeps lift_result_def host_call_def assertH_def ReadChar_def
      split: sum.split prod.split list.split)

lemma u2s_loop_keeps [keep_intros]: "keeps P w (u2s_loop n a w)"
  by (induction n a w rule: u2s_loop.induct) (auto intro!: keep_intros)

lemma User2System_keeps [keep_intros]: "keeps P w (User2System a l w)"
  unfolding User2System_def by (intro keep_intros refl)

lemma s2u_loop_keeps [keep_intros]: "keeps P w (s2u_loop n i a b w)"
  by (induction n arbitrary: i w) (subst s2u_loop.simps, auto intro!: keep_intros)+

lemma System2User_keeps [keep_intros]: "keeps P w (System2User a l b w)"
  unfolding System2User_def by (intro keep_intros refl)

lemma stdin_loop_keeps [keep_intros]: "keeps P w (stdin_loop n w)"
  by (induction n arbitrary: w) (auto intro!: keep_intros)

lemma read_line_keeps [keep_intros]: "keeps P w (read_line cs input w)"
  by (induction cs input w rule: read_line.induct) (auto simp: keep_def)

lemma return_same [simp]: "fileSystem (return_value v w) = fileSystem w" "fileSystem (return_void w) = fileSystem w"
  "fileSystem (set_result v w) = fileSystem w" "fileSystem (PrintBuffer b n w) = fileSystem w" "fileSystem (putChar c w) = fileSystem w"
  by (simp_all add: return_value_def return_void_def set_result_def PrintBuffer_def fold_putChar putChar_def Let_def)

lemma ret_keeps [keep_intros]: "keeps P w (ret v w)"
  by (simp add: ret_def)

lemma files_keep [keep_intros]:
  "keeps P w (OpenFile_delete u f w)" "keeps P w (OpenFile_Read u f n w)" "keeps P w (OpenFile_Write u f b n w)"
  "keeps P w (OpenFile_Seek u f p w)" "keeps P w (GetCurrentPos u f w)" "keeps P w (OpenFile_Length u f w)"
  "keeps P w (OpenFile_Connect u f ip port w)" "keeps P w (FileSystem_Create u nm w)" "keeps P w (FileSystem_Open u nm t w)"
  "keeps P w (FileSystem_Open2 u nm t w)" "keeps P w (socketTCP u w)" "keeps P w (FileSystem_Remove u nm w)"
  unfolding file_defs by (intro keep_intros refl)+

section \<open>The routines that change it\<close>

lemma set_openfile_keeps [keep_intros]: "keeps (open_at i) w (set_openfile i (Some f) w)"
proof (cases "open_at i (fileSystem w)")
  case True
  let ?fs = "fileSystem w"
  have t: "file_table_ok ?fs" "0 \<le> i" "i < int MaxOpen" "openfile ?fs ! nat i \<noteq> None" using True by (simp_all add: open_at_def)
  note d = file_table_okD [OF t(1)]
  have "with_file (nat i) (Some f) (fs_filename ?fs ! nat i) ?fs = ?fs\<lparr>openfile := (openfile ?fs)[nat i := Some f]\<rparr>"
    by (simp add: with_file_def)
  then have "file_table_ok (?fs\<lparr>openfile := (openfile ?fs)[nat i := Some f]\<rparr>)"
    using with_file_ok [OF t(1), of "Some f" "fs_filename ?fs ! nat i" "nat i"] d(5) [of "nat i"] t by auto
  then show ?thesis using t d(1) by (simp add: set_openfile_def keep_def open_at_def)
qed (auto simp: set_openfile_def lift_result_def keep_def split: sum.split)

lemma with_descriptor:
  assumes "sint fid = i" and "\<And>f w. keeps (open_at i) w (g f w)"
  shows "keeps file_table_ok w (bindH (file_at fid w) (\<lambda>f w1. case f of None \<Rightarrow> ret v w1 | Some f \<Rightarrow> g f w1))"
proof (cases "0 \<le> i \<and> i < int (length (openfile (fileSystem w)))")
  case True
  then have e: "file_at fid w = Go (openfile (fileSystem w) ! nat i) w"
    using assms(1) by (simp add: file_at_def)
  show ?thesis
  proof (cases "openfile (fileSystem w) ! nat i")
    case (Some f)
    have "open_at i (fileSystem w) \<longleftrightarrow> file_table_ok (fileSystem w)"
      using True Some by (auto simp: open_at_def file_table_ok_def)
    moreover have "open_at i fs \<Longrightarrow> file_table_ok fs" for fs by (simp add: open_at_def)
    ultimately show ?thesis
      using assms(2) [of w f] e Some by (cases "g f w") (auto simp: keep_def)
  qed (simp add: e ret_def)
qed (use assms(1) in \<open>auto simp: file_at_def aget_def lift_result_def\<close>)

lemma transfers_keep [keep_intros]:
  "keeps P w (read_stdin a n b w)" "keeps (open_at (sint fid)) w (receive u a n fid f b w)"
  "keeps (open_at (sint fid)) w (send u n fid f b w)"
  unfolding read_stdin_def receive_def send_def by (intro keep_intros)+

lemma sc_Read_keeps: "keeps file_table_ok w (sc_Read u w)"
  unfolding sc_Read_def Let_def
  by (rule meets_if, rule ret_keeps, rule with_descriptor, rule refl) (intro keep_intros)

lemma sc_Seek_keeps: "keeps file_table_ok w (sc_Seek u w)"
  unfolding sc_Seek_def Let_def
  by (rule meets_if, rule ret_keeps, rule with_descriptor, rule refl) (intro keep_intros)

lemma sc_Connect_keeps: "keeps file_table_ok w (sc_Connect u w)"
  unfolding sc_Connect_def Let_def
  by (rule meets_if, rule ret_keeps, rule with_descriptor, rule refl) (intro keep_intros)

lemma sc_Send_keeps: "keeps file_table_ok w (sc_Send u w)"
  unfolding sc_Send_def Let_def
  by (rule meets_if, rule ret_keeps, rule with_descriptor, rule refl) (intro keep_intros)

lemma sc_Receive_keeps: "keeps file_table_ok w (sc_Receive u w)"
  unfolding sc_Receive_def Let_def
  by (rule meets_if, rule ret_keeps, rule with_descriptor, rule refl) (intro keep_intros)

lemma plain_calls_keep:
  "keeps P w (sc_Add w)" "keeps P w (sc_Create u w)" "keeps P w (sc_Remove u w)" "keeps P w (sc_PrintString w)"
  "keeps P w (sc_ReadString w)" "keeps P w (sc_PrintInt w)"
  unfolding sc_Add_def sc_Create_def sc_Remove_def sc_PrintString_def sc_ReadString_def sc_PrintInt_def Let_def
  by (intro keep_intros; simp)+

section \<open>Open, Close and Socket\<close>

lemma isFull_ok:
  assumes "file_table_ok fs"
  obtains "isFull fs = Inr (-1)" "\<forall>i < MaxOpen. openfile fs ! i \<noteq> None"
  | k where "isFull fs = Inr (int k)" "2 \<le> k" "k < MaxOpen" "openfile fs ! k = None" "\<forall>i < k. openfile fs ! i \<noteq> None"
proof -
  let ?p = "\<lambda>i. bindE (aget (openfile fs) i) (\<lambda>f. Inr (f = None))" and ?q = "\<lambda>i. openfile fs ! nat i = None"
  have p: "\<And>i. 0 \<le> i \<Longrightarrow> i < int MaxOpen \<Longrightarrow> ?p i = Inr (?q i)"
    using assms by (simp add: file_table_ok_def)
  have std: "openfile fs ! 0 \<noteq> None" "openfile fs ! Suc 0 \<noteq> None" using file_table_okD [OF assms] by auto
  have "(\<exists>i. searchE ?p 0 (int MaxOpen) = Inr i \<and> 0 \<le> i \<and> i < int MaxOpen \<and> ?q i \<and> (\<forall>j. 0 \<le> j \<and> j < i \<longrightarrow> \<not> ?q j))
      \<or> searchE ?p 0 (int MaxOpen) = Inr (-1) \<and> (\<forall>j. 0 \<le> j \<and> j < int MaxOpen \<longrightarrow> \<not> ?q j)"
    by (rule searchE_pure) (rule p)
  then show thesis
  proof (elim disjE exE conjE)
    fix i assume i: "searchE ?p 0 (int MaxOpen) = Inr i" "0 \<le> i" "i < int MaxOpen" "?q i" "\<forall>j. 0 \<le> j \<and> j < i \<longrightarrow> \<not> ?q j"
    have "nat i \<noteq> 0" "nat i \<noteq> 1" using i(4) std by (metis One_nat_def)+
    moreover have "\<forall>j < nat i. openfile fs ! j \<noteq> None"
      using i(5) by (metis nat_int of_nat_0_le_iff zless_nat_eq_int_zless)
    ultimately show thesis using i by (intro that(2) [of "nat i"]) (auto simp: isFull_def)
  next
    assume n: "searchE ?p 0 (int MaxOpen) = Inr (-1)" "\<forall>j. 0 \<le> j \<and> j < int MaxOpen \<longrightarrow> \<not> ?q j"
    have "\<forall>j < MaxOpen. openfile fs ! j \<noteq> None"
      using n(2) by (metis nat_int of_nat_0_le_iff of_nat_less_iff)
    with n(1) show thesis by (intro that(1)) (auto simp: isFull_def)
  qed
qed

lemma set_slot:
  assumes "k < length (openfile (fileSystem w))" "k < length (fs_filename (fileSystem w))"
  shows "set_openfile (int k) f w = Go () (w\<lparr>fileSystem := (fileSystem w)\<lparr>openfile := (openfile (fileSystem w))[k := f]\<rparr>\<rparr>)"
    "set_filename (int k) nm w = Go () (w\<lparr>fileSystem := (fileSystem w)\<lparr>fs_filename := (fs_filename (fileSystem w))[k := nm]\<rparr>\<rparr>)"
  using assms by (simp_all add: set_openfile_def set_filename_def)

definition slot_free :: "nat \<Rightarrow> FileSystem \<Rightarrow> bool" where
  "slot_free k fs \<longleftrightarrow> file_table_ok fs \<and> 2 \<le> k \<and> k < MaxOpen \<and> openfile fs ! k = None"

lemma install:
  assumes "slot_free k (fileSystem w)"
  shows "bindH (set_openfile (int k) f w) (\<lambda>_ w4. if f \<noteq> None then bindH (set_filename (int k) nm w4) (\<lambda>_. ret v) else ret (-1) w4) =
    Go () (return_value (if f = None then -1 else v)
      (w\<lparr>fileSystem := if f = None then fileSystem w else with_file k f nm (fileSystem w)\<rparr>))"
proof -
  have l: "k < length (openfile (fileSystem w))" "k < length (fs_filename (fileSystem w))"
    using assms file_table_okD(1,2) by (auto simp: slot_free_def)
  have "(openfile (fileSystem w))[k := None] = openfile (fileSystem w)"
    using assms l(1) list_update_id [of "openfile (fileSystem w)" k] by (simp add: slot_free_def)
  then show ?thesis using l by (simp add: set_slot ret_def with_file_def)
qed

lemma install_keeps:
  assumes "nm \<noteq> []"
  shows "meets (\<lambda>w w'. slot_free k (fileSystem w) \<longrightarrow> file_table_ok (fileSystem w')) Q w
    (bindH (set_openfile (int k) f w) (\<lambda>_ w4. if f \<noteq> None then bindH (set_filename (int k) nm w4) (\<lambda>_. ret v) else ret (-1) w4))"
proof (cases "slot_free k (fileSystem w)")
  case True
  then show ?thesis using assms unfolding install [OF True] by (auto simp: slot_free_def intro!: with_file_ok)
next
  case False
  then show ?thesis by (cases "k < length (openfile (fileSystem w)) \<and> k < length (fs_filename (fileSystem w))")
     (auto simp: ret_def set_openfile_def set_filename_def lift_result_def aset_def)
qed

lemma keeps_vacuous: "\<not> P (fileSystem w) \<Longrightarrow> keeps P w m"
  by (cases m) (simp_all add: keep_def)

lemma then_install:
  assumes "keeps (slot_free k) w m" and "slot_free k (fileSystem w)" and "nm \<noteq> []"
  shows "keeps file_table_ok w (bindH m (\<lambda>f w3. bindH (set_openfile (int k) f w3)
     (\<lambda>_ w4. if f \<noteq> None then bindH (set_filename (int k) nm w4) (\<lambda>_. ret v) else ret (-1) w4)))"
proof (cases m)
  case (Go f w3)
  then have "slot_free k (fileSystem w3)" using assms(1,2) by (simp add: keep_def)
  then show ?thesis using assms(3) Go
    by (simp only: bindH_simps install) (auto simp: keep_def slot_free_def intro!: with_file_ok)
qed (use assms in \<open>auto simp: keep_def slot_free_def\<close>)

lemma sc_Open_keeps: "keeps file_table_ok w (sc_Open u w)"
proof -
  have "keeps file_table_ok w1 (bindH (lift_result (isFull (fileSystem w1)) w1) (\<lambda>tempt w2.
       if tempt = -1 then ret (-1) w2
       else if name = [] then ret (-1) w2
       else if reg w 5 = 1 \<or> reg w 5 = 0
       then bindH (FileSystem_Open2 u name (reg w 5) w2) (\<lambda>f w3.
              bindH (set_openfile tempt f w3) (\<lambda>_ w4.
                if f \<noteq> None
                then bindH (set_filename tempt name w4) (\<lambda>_. ret (of_int tempt))
                else ret (-1) w4))
       else ret (-1) w2))" for name w1
  proof (cases "file_table_ok (fileSystem w1)")
    case True
    then show ?thesis
    proof (cases rule: isFull_ok)
      case (2 k)
      then have "slot_free k (fileSystem w1)" using True by (simp add: slot_free_def)
      then show ?thesis
        using 2(1) by (auto simp del: not_None_eq intro!: then_install files_keep ret_keeps)
    qed (simp add: ret_keeps)
  qed (rule keeps_vacuous)
  then show ?thesis unfolding sc_Open_def by (rule kept.meets_bindH [OF User2System_keeps])
qed

lemma sc_Socket_keeps: "keeps file_table_ok w (sc_Socket u w)"
proof (cases "file_table_ok (fileSystem w)")
  case True
  then show ?thesis
  proof (cases rule: isFull_ok)
    case (2 k)
    then have "slot_free k (fileSystem w)" using True by (simp add: slot_free_def)
    then show ?thesis
      using 2(1) by (auto simp: sc_Socket_def simp del: not_None_eq intro!: then_install files_keep ret_keeps)
  qed (simp add: sc_Socket_def ret_keeps)
qed (rule keeps_vacuous)

lemma OpenFile_delete_eq:
  "OpenFile_delete u f w = (case u_close u (o_file f) (host w) of
     (r, h) \<Rightarrow> if o_type f \<noteq> 2 \<and> r < 0 then Dies AssertFailed else Go () (w\<lparr>host := h\<rparr>))"
  by (simp add: OpenFile_delete_def Close_def CloseSocket_def host_call_def assertH_def split: prod.split)

lemma sc_Close_eq:
  assumes "file_table_ok (fileSystem w)" and k: "sint (reg w 4) = int k" "2 \<le> k" "k < MaxOpen"
    and "openfile (fileSystem w) ! k = Some f" and c: "u_close u (o_file f) (host w) = (r, h)"
  shows "sc_Close u w = (if o_type f \<noteq> 2 \<and> r < 0 then Dies AssertFailed
     else Go () (return_value 0 (w\<lparr>fileSystem := with_file k None [] (fileSystem w), host := h\<rparr>)))"
  using assms file_table_okD(1,2) [OF assms(1)]
  by (simp add: sc_Close_def file_at_def set_filename_def OpenFile_delete_eq set_openfile_def return_void_def
      return_value_def set_result_def with_file_def)

lemma sc_Close_keeps: "keeps file_table_ok w (sc_Close u w)"
proof (cases "file_table_ok (fileSystem w)")
  case True
  note d = file_table_okD [OF True]
  show ?thesis
  proof (cases "2 \<le> sint (reg w 4) \<and> sint (reg w 4) < int MaxOpen")
    case in_range: True
    define k where "k = nat (sint (reg w 4))"
    have k: "sint (reg w 4) = int k" "2 \<le> k" "k < MaxOpen" using in_range by (auto simp: k_def)
    show ?thesis
    proof (cases "openfile (fileSystem w) ! k")
      case None
      then show ?thesis using k d(1) by (simp add: sc_Close_def file_at_def ret_keeps)
    next
      case (Some f)
      obtain r h where c: "u_close u (o_file f) (host w) = (r, h)" by (cases "u_close u (o_file f) (host w)")
      show ?thesis unfolding sc_Close_eq [OF True k Some c] using True k(2) by (auto simp: keep_def intro: with_file_ok)
    qed
  qed (auto simp: sc_Close_def ret_keeps)
qed (rule keeps_vacuous)

lemma out_loop_keeps: "out_loop a b w = Some r \<Longrightarrow> keeps P w r"
  by (rule out_loop_meets [OF kept.effect_contract_axioms]) (auto simp: fold_putChar intro: User2System_keeps)

lemma sc_Write_keeps_table:
  assumes "sc_Write u w = Some r"
  shows "keeps file_table_ok w r"
proof (cases "open_at (sint (reg w 6)) (fileSystem w)")
  case True
  have "keeps (open_at (sint (reg w 6))) w r"
  proof (rule sc_Write_meets [OF assms kept.effect_contract_axioms])
    show "keeps (open_at (sint (reg w 6))) w (write_prepare u (reg w 4) (reg w 5) (reg w 6) f w)" for f
      unfolding write_prepare_def by (intro keep_intros; simp)
    show "keeps (open_at (sint (reg w 6))) w' (write_file u n (reg w 6) p f b w')" for n p f b w'
      unfolding write_file_def by (intro keep_intros)
  qed (intro keep_intros out_loop_keeps; assumption)+
  then show ?thesis using True by (cases r) (auto simp: keep_def open_at_def)
next
  case False
  then have bad: "aget (openfile (fileSystem w)) (sint (reg w 6)) = Inr (Some f) \<Longrightarrow> \<not> file_table_ok (fileSystem w)" for f
    using file_table_okD(1) by (auto simp: open_at_def result_iffs)
  from assms show ?thesis
    by (cases rule: sc_Write_stages) (use bad in \<open>auto simp: ret_keeps intro: keeps_vacuous\<close>)
qed

section \<open>The handler keeps the invariant\<close>

fun world_of :: "'h outcome \<Rightarrow> 'h World option" where
  "world_of (Resumes w) = Some w"
| "world_of (Halts w) = Some w"
| "world_of (Awaits w) = Some w"
| "world_of (Calls c w) = Some w"
| "world_of (Crashes e) = None"
| "world_of Loops = None"

definition table_kept :: "'h World \<Rightarrow> 'h outcome \<Rightarrow> bool" where
  "table_kept w r \<longleftrightarrow> (\<forall>w'. world_of r = Some w' \<longrightarrow> keep file_table_ok w w')"

lemma finish_kept: "keeps file_table_ok w m \<Longrightarrow> table_kept w (finish m)"
  by (cases m) (simp_all add: finish_def table_kept_def)

lemma finish_call_kept: "keeps file_table_ok w m \<Longrightarrow> table_kept w (finish_call m)"
  by (cases m) (auto simp: finish_call_def table_kept_def split: option.split)

lemma calls_keep: "keeps P w (sc_Exec u t raw w)" "keeps P w (sc_named c w)" "keeps P w (sc_ExecV raw w)"
proof -
  have args: "keeps P w (execv_args n a w)" for n a and w :: "'b World"
    by (induction n a w rule: execv_args.induct) (auto intro!: keep_intros)
  show "keeps P w (sc_Exec u t raw w)" "keeps P w (sc_named c w)" "keeps P w (sc_ExecV raw w)"
    unfolding sc_Exec_def sc_named_def sc_ExecV_def Let_def by (intro keep_intros args; simp)+
qed

lemma kept_if: "(c \<Longrightarrow> table_kept w a) \<Longrightarrow> table_kept w b \<Longrightarrow> table_kept w (if c then a else b)"
  by simp

lemma handle_syscall_kept: "table_kept w (handle_syscall u raw_type raw w)"
proof -
  have same: "table_kept w (Halts w)" "table_kept w (Calls c w)" "table_kept w (Crashes e)" for c e
    by (simp_all add: table_kept_def)
  have wr: "table_kept w (case sc_Write u w of None \<Rightarrow> Loops | Some r \<Rightarrow> finish r)"
    by (auto simp: table_kept_def [of _ Loops] split: option.split intro: finish_kept sc_Write_keeps_table)
  show ?thesis
    unfolding handle_syscall_def Let_def
    by (intro kept_if same wr finish_kept finish_call_kept plain_calls_keep calls_keep sc_Open_keeps sc_Close_keeps
        sc_Read_keeps sc_Seek_keeps sc_Socket_keeps sc_Connect_keeps sc_Send_keeps sc_Receive_keeps)
qed

lemma open_std_table:
  assumes "open_std u name i t raw w = Go () w'"
  shows "\<exists>f. fileSystem w' = with_file (nat i) (Some f) name (fileSystem w) \<and> 0 \<le> i \<and>
     i < int (length (openfile (fileSystem w))) \<and> i < int (length (fs_filename (fileSystem w)))"
proof -
  from assms obtain f w1 where f: "FileSystem_Open u name raw w = Go (Some f) w1"
    "bindH (set_openfile i (Some (f\<lparr>o_type := t\<rparr>)) w1) (\<lambda>_. set_filename i name) = Go () w'"
    by (auto simp: open_std_def bindH_eq_Go split: option.splits)
  have "fileSystem w1 = fileSystem w"
    using files_keep(9) [of "\<lambda>fs. fs = fileSystem w" w u name raw] f(1) by (simp add: keep_def)
  with f(2) show ?thesis
    by (auto simp: bindH_eq_Go set_openfile_def set_filename_def with_file_def result_iffs)
qed

lemma FileSystem_new_ok:
  assumes "FileSystem_new u raw1 raw2 w = Go () w'"
  shows "file_table_ok (fileSystem w')"
proof -
  let ?fs = "\<lparr>openfile = replicate MaxOpen None, fs_filename = replicate MaxOpen []\<rparr>"
  from assms obtain w1 w2 w3 where s: "FileSystem_Create u stdin_name (w\<lparr>fileSystem := ?fs\<rparr>) = Go True w1 \<or>
      FileSystem_Create u stdin_name (w\<lparr>fileSystem := ?fs\<rparr>) = Go False w1"
    "FileSystem_Create u stdout_name w1 = Go True w2 \<or> FileSystem_Create u stdout_name w1 = Go False w2"
    "open_std u stdin_name 0 1 raw1 w2 = Go () w3" "open_std u stdout_name 1 0 raw2 w3 = Go () w'"
    unfolding FileSystem_new_def bindH_eq_Go by (metis (full_types) old.unit.exhaust)
  have "fileSystem w1 = ?fs"
    using files_keep(8) [of "\<lambda>fs. fs = ?fs" "w\<lparr>fileSystem := ?fs\<rparr>" u stdin_name] s(1) by (auto simp: keep_def)
  moreover have "fileSystem w2 = fileSystem w1"
    using files_keep(8) [of "\<lambda>fs. fs = fileSystem w1" w1 u stdout_name] s(2) by (auto simp: keep_def)
  ultimately show ?thesis
    using open_std_table [OF s(3)] open_std_table [OF s(4)]
    by (auto simp: with_file_def file_table_ok_def list_all2_conv_all_nth nth_list_update nth_Cons' split: if_splits)
qed

text \<open>
  C22. The table of open files stays consistent. The constructor of the file system establishes,
  and the handler keeps on every path that does not kill Nachos: the table has twenty slots, the
  console's descriptors 0 and 1 are always open, and a slot has a file name exactly when it holds
  an open file.
\<close>

theorem file_table_invariant:
  "(\<forall>w1. FileSystem_new u raw1 raw2 w = Go () w1 \<longrightarrow> file_table_ok (fileSystem w1)) \<and>
   (file_table_ok (fileSystem w) \<longrightarrow>
     (\<forall>w'. world_of (ExceptionHandler u raw_type raw which w) = Some w' \<longrightarrow> file_table_ok (fileSystem w')))"
proof (intro conjI allI impI)
  show "file_table_ok (fileSystem w1)" if "FileSystem_new u raw1 raw2 w = Go () w1" for w1
    by (rule FileSystem_new_ok [OF that])
  show "file_table_ok (fileSystem w')" if ok: "file_table_ok (fileSystem w)"
    and w': "world_of (ExceptionHandler u raw_type raw which w) = Some w'" for w'
    using ok w' handle_syscall_kept [of w u raw_type raw]
    by (cases which) (auto simp: ExceptionHandler_def table_kept_def keep_def)
qed

definition unix7 :: "unit Unix" where
  \<comment> \<open>a host on which every file opens as descriptor 7\<close>
  "unix7 = unix_refusing\<lparr>u_creat := \<lambda>_ h. (7, h), u_open := \<lambda>_ h. (7, h), u_close := \<lambda>_ h. (0, h)\<rparr>"

theorem file_table_invariant_witness:
  "\<exists>w1. FileSystem_new unix7 0 0 world_add = Go () w1 \<and> file_table_ok (fileSystem w1) \<and>
     (\<exists>w'. world_of (ExceptionHandler unix7 0 raw0 SyscallException w1) = Some w' \<and> file_table_ok (fileSystem w'))"
proof -
  have "\<exists>w1. FileSystem_new unix7 0 0 world_add = Go () w1 \<and> mach w1 = mach world_add"
    by (simp add: FileSystem_new_def FileSystem_Create_def OpenForWrite_def Close_def open_std_def FileSystem_Open_def
      OpenForReadWrite_def host_call_def assertH_def unix7_def set_openfile_def set_filename_def)
  then obtain w1 where w1: "FileSystem_new unix7 0 0 world_add = Go () w1" "mach w1 = mach world_add" by blast
  have "reg w1 2 = SC_Add" using w1(2) by (simp add: reg_def world_add_def)
  then have "\<exists>w'. world_of (ExceptionHandler unix7 0 raw0 SyscallException w1) = Some w'"
    by (simp add: ExceptionHandler_def handle_syscall_def sc_Add_def finish_def ret_def)
  moreover have "file_table_ok (fileSystem w1)"
    using w1(1) file_table_invariant [where u = unix7 and w = world_add] by blast
  ultimately show ?thesis using w1(1) file_table_invariant [where u = unix7 and w = w1] by blast
qed

section \<open>Which descriptors are accepted\<close>

definition descriptor_register :: "cint \<Rightarrow> nat option" where
  \<comment> \<open>where a system call expects its file descriptor\<close>
  "descriptor_register call =
     (if call = SC_Close \<or> call = SC_Connect then Some 4
      else if call = SC_Seek then Some 5
      else if call = SC_Read \<or> call = SC_Write \<or> call = SC_Send \<or> call = SC_Receive then Some 6
      else None)"

lemma closed_calls:
  assumes "file_table_ok (fileSystem w)"
  shows "\<not> open_at (sint (reg w 4)) (fileSystem w) \<Longrightarrow> sc_Close u w = ret (-1) w"
    "\<not> open_at (sint (reg w 4)) (fileSystem w) \<Longrightarrow> sc_Connect u w = ret (-1) w"
    "\<not> open_at (sint (reg w 6)) (fileSystem w) \<Longrightarrow> sc_Read u w = ret (-1) w"
    "\<not> open_at (sint (reg w 6)) (fileSystem w) \<Longrightarrow> sc_Write u w = Some (ret (-1) w)"
    "\<not> open_at (sint (reg w 6)) (fileSystem w) \<Longrightarrow> sc_Send u w = ret (-1) w"
    "\<not> open_at (sint (reg w 6)) (fileSystem w) \<Longrightarrow> sc_Receive u w = ret (-1) w"
    "\<not> open_at (sint (reg w 5)) (fileSystem w) \<Longrightarrow> 0 \<le> sint (reg w 5) \<Longrightarrow> sc_Seek u w = ret (-1) w"
proof -
  have at: "file_at (reg w r) w = Go None w \<and> aget (openfile (fileSystem w)) (sint (reg w r)) = Inr None"
    if "\<not> open_at (sint (reg w r)) (fileSystem w)" "0 \<le> sint (reg w r)" "sint (reg w r) < 20" for r
    using that assms file_table_okD(1) [OF assms] by (simp add: open_at_def file_at_def)
  show "sc_Close u w = ret (-1) w" "sc_Connect u w = ret (-1) w" if "\<not> open_at (sint (reg w 4)) (fileSystem w)"
    using at [OF that] by (simp_all add: sc_Close_def sc_Connect_def Let_def)
  show "sc_Read u w = ret (-1) w" "sc_Write u w = Some (ret (-1) w)" "sc_Send u w = ret (-1) w" "sc_Receive u w = ret (-1) w"
    if "\<not> open_at (sint (reg w 6)) (fileSystem w)"
    using at [OF that] by (simp_all add: sc_Read_def sc_Write_def sc_Send_def sc_Receive_def Let_def)
  show "sc_Seek u w = ret (-1) w" if "\<not> open_at (sint (reg w 5)) (fileSystem w)" "0 \<le> sint (reg w 5)"
    using at [OF that] by (simp add: sc_Seek_def Let_def)
qed


definition files0 :: FileSystem where
  \<comment> \<open>only the console is open\<close>
  "files0 = \<lparr>openfile = Some (OpenFile_new2 3 1) # Some (OpenFile_new2 4 0) # replicate 18 None,
     fs_filename = stdin_name # stdout_name # replicate 18 []\<rparr>"

lemma files0_ok: "file_table_ok files0"
  by (simp add: file_table_ok_def files0_def numeral_eq_Suc)

definition world_read :: "unit World" where
  \<comment> \<open>\<open>Read(0, 4, 5)\<close>, with descriptor 5 closed\<close>
  "world_read = world_hi\<lparr>mach := set_reg 2 SC_Read (set_reg 5 4 (set_reg 6 5 (mach world_hi))), fileSystem := files0\<rparr>"


lemma seek_negative_descriptor:
  \<comment> \<open>\<open>Seek\<close> does not test for negative descriptors\<close>
  assumes "reg w 2 = SC_Seek" and "sint (reg w 5) < 0"
  shows "ExceptionHandler u raw_type raw SyscallException w = Crashes BadAccess"
proof -
  have "reg w 5 \<noteq> 0" "reg w 5 \<noteq> 1" using assms(2) by auto
  then have "sc_Seek u w = Dies BadAccess" using assms(2) by (simp add: sc_Seek_def file_at_def aget_def)
  then show ?thesis using assms(1) by (simp add: ExceptionHandler_def handle_syscall_def finish_def)
qed

section \<open>Opening, closing and removing\<close>

definition free_slots :: "FileSystem \<Rightarrow> nat set" where
  "free_slots fs = {i. i < MaxOpen \<and> openfile fs ! i = None}"

lemma isFull_free:
  assumes "file_table_ok fs"
  shows "isFull fs = Inr (if free_slots fs = {} then -1 else int (Min (free_slots fs)))"
    "free_slots fs \<noteq> {} \<Longrightarrow> slot_free (Min (free_slots fs)) fs"
proof -
  have fin: "finite (free_slots fs)" by (simp add: free_slots_def)
  have "isFull fs = Inr (if free_slots fs = {} then -1 else int (Min (free_slots fs))) \<and>
     (free_slots fs \<noteq> {} \<longrightarrow> slot_free (Min (free_slots fs)) fs)"
    using assms
  proof (cases rule: isFull_ok)
    case (2 k)
    then have "k \<in> free_slots fs" by (simp add: free_slots_def)
    moreover have "Min (free_slots fs) = k"
      using 2 fin by (intro Min_eqI) (auto simp: free_slots_def not_less [symmetric])
    ultimately show ?thesis using 2 assms by (auto simp: slot_free_def)
  qed (simp add: free_slots_def)
  then show "isFull fs = Inr (if free_slots fs = {} then -1 else int (Min (free_slots fs)))"
    "free_slots fs \<noteq> {} \<Longrightarrow> slot_free (Min (free_slots fs)) fs" by simp_all
qed

text \<open>
  C24. \<open>Open\<close> returns the lowest free descriptor. When the table is full, the name is empty, the
  mode is neither 0 nor 1 or the host does not open the file, the result is -1 and the table of
  open files is unchanged; otherwise the result is the least free slot, which is never one of the
  console's, and exactly that slot now holds the file, with its name.
\<close>

theorem open_allocates:
  assumes "user_ready (mach w)" and "file_table_ok (fileSystem w)" and "reg w 2 = SC_Open"
    and name: "string_readable (mach w) (reg w 4) 33" "name = user_string (mach w) (reg w 4) 33"
    and host: "u_open u name (host w) = (fd, h)"
  shows "\<exists>w'. ExceptionHandler u raw_type raw SyscallException w = Resumes w' \<and>
    (let k = Min (free_slots (fileSystem w)) in
     if free_slots (fileSystem w) = {} \<or> name = [] \<or> reg w 5 \<notin> {0, 1} \<or> fd = -1
     then reg w' 2 = -1 \<and> fileSystem w' = fileSystem w
     else reg w' 2 = of_nat k \<and> 2 \<le> k \<and> k < MaxOpen \<and>
       fileSystem w' = with_file k (Some (OpenFile_new2 fd (reg w 5))) name (fileSystem w))"
proof -
  let ?k = "Min (free_slots (fileSystem w))"
  obtain m' where u: "User2System (reg w 4) 33 w = Go (name @ replicate (34 - length name) 0) (w\<lparr>mach := m'\<rparr>)"
    using User2System_reads [of w 33 "reg w 4"] assms(1) name by (auto simp: user_ready_def)
  have "34 - length name = Suc (33 - length name)"
    using length_user_string [of "mach w" "reg w 4" 33] name(2) by simp
  then have c: "cstring (name @ replicate (34 - length name) 0) = name"
    unfolding name(2) using cstring_user_string by metis
  have full: "isFull (fileSystem w) = Inr (if free_slots (fileSystem w) = {} then -1 else int ?k)"
    by (rule isFull_free(1) [OF assms(2)])
  have res: "ExceptionHandler u raw_type raw SyscallException w = finish (sc_Open u w)"
    using assms(3) by (simp add: ExceptionHandler_def handle_syscall_def)
  have result: "reg (return_value v w) 2 = v" for v and w :: "'a World"
    by (simp add: reg_def return_value_def set_result_def IncreasePC_def Let_def)
  show ?thesis
  proof (cases "free_slots (fileSystem w) = {} \<or> name = [] \<or> reg w 5 \<notin> {0, 1}")
    case True
    then have "sc_Open u w = Go () (return_value (-1) (w\<lparr>mach := m'\<rparr>))"
      using u c full by (auto simp: sc_Open_def ret_def)
    then show ?thesis unfolding res using True by (auto simp: finish_def result)
  next
    case False
    let ?f = "if fd = -1 then None else Some (OpenFile_new2 fd (reg w 5))" and ?w = "w\<lparr>mach := m', host := h\<rparr>"
    have sf: "slot_free ?k (fileSystem ?w)" using isFull_free(2) [OF assms(2)] False by simp
    have "FileSystem_Open2 u name (reg w 5) (w\<lparr>mach := m'\<rparr>) = Go ?f ?w"
      using host by (simp add: FileSystem_Open2_def OpenForReadWrite_def host_call_def assertH_def)
    then have "sc_Open u w = Go () (return_value (if ?f = None then -1 else of_int (int ?k))
      (?w\<lparr>fileSystem := if ?f = None then fileSystem ?w else with_file ?k ?f name (fileSystem ?w)\<rparr>))"
      using u c full False install [OF sf, of ?f name "of_int (int ?k)"]
      by (auto simp: sc_Open_def)
    then show ?thesis unfolding res using False sf by (auto simp: finish_def result slot_free_def)
  qed
qed

definition world_open :: "unit World" where
  \<comment> \<open>\<open>Open("hi", 0)\<close>\<close>
  "world_open = world_hi\<lparr>mach := set_reg 2 SC_Open (mach world_hi), fileSystem := files0\<rparr>"

lemma world_open_ready: "user_ready (mach world_open)" "fileSystem world_open = files0"
  "reg world_open 2 = SC_Open" "reg world_open 4 = 0" "reg world_open 5 = 0"
  using world_hi_ready by (simp_all add: world_open_def world_hi_def reg_def user_ready_def cpu_ok_def)

lemma world_open_string:
  "user_string (mach world_open) 0 33 = [104, 105]" "string_readable (mach world_open) 0 33"
proof -
  have n: "(33::nat) = Suc (Suc (Suc 30))" by simp
  have v: "vmem (mach world_open) 0 = 104" "vmem (mach world_open) 1 = 105" "vmem (mach world_open) 2 = 0"
    "readable (mach world_open) 0" "readable (mach world_open) 1" "readable (mach world_open) 2"
    by (simp_all add: vmem_def readable_def world_open_def world_hi_def Let_def) (simp_all add: machine_sw_def machine1_def Machine_init_def)
  show "user_string (mach world_open) 0 33 = [104, 105]" "string_readable (mach world_open) 0 33"
    unfolding n user_string_Suc string_readable_Suc using v by simp_all
qed

theorem open_allocates_witness:
  "\<exists>w'. ExceptionHandler unix7 0 raw0 SyscallException world_open = Resumes w' \<and> reg w' 2 = 2 \<and>
     fileSystem w' = with_file 2 (Some (OpenFile_new2 7 0)) [104, 105] files0"
proof -
  have free: "Min (free_slots files0) = 2" "free_slots files0 \<noteq> {}"
  proof -
    have e: "free_slots files0 = {2..<20}"
      by (auto simp: free_slots_def files0_def nth_Cons' split: if_splits)
    show "Min (free_slots files0) = 2" "free_slots files0 \<noteq> {}" unfolding e by (auto intro: Min_eqI)
  qed
  note r = world_open_ready
  show ?thesis
    using open_allocates [of world_open "[104, 105]" unix7 7 "()" 0 raw0, unfolded r(2), OF r(1) files0_ok r(3)]
      world_open_string free
    by (simp add: r unix7_def)
qed

text \<open>
  \<open>Close\<close> undoes \<open>Open\<close>. For an open descriptor that is not one of the console's, when the
  host can close its file (or it is a socket), \<open>Close\<close> returns 0 and empties exactly that slot of
  the table and its name; on a table in which the slot was free before \<open>Open\<close> filled it, this gives
  back the table that \<open>Open\<close> started from.
\<close>

theorem close_undoes_open:
  assumes "file_table_ok fs" and "k \<in> free_slots fs" and "name \<noteq> []"
    and w: "fileSystem w = with_file k (Some f) name fs" "reg w 2 = SC_Close" "reg w 4 = of_nat k"
    and host: "u_close u (o_file f) (host w) = (r, h)" "o_type f = 2 \<or> 0 \<le> r"
  shows "ExceptionHandler u raw_type raw SyscallException w =
    Resumes (return_value 0 (w\<lparr>fileSystem := with_file k None [] (fileSystem w), host := h\<rparr>)) \<and>
    with_file k None [] (fileSystem w) = fs"
proof
  have k: "k < MaxOpen" "openfile fs ! k = None" using assms(2) by (simp_all add: free_slots_def)
  note d = file_table_okD [OF assms(1)]
  have "2 \<le> k"
  proof (rule ccontr)
    assume "\<not> 2 \<le> k"
    then have "k = 0 \<or> k = Suc 0" by auto
    then show False using k(2) d(3,4) by auto
  qed
  have "signed_take_bit 31 (int k) = int k"
    using k(1) by (intro signed_take_bit_int_eq_self) auto
  then have "sint (of_nat k :: cint) = int k" by (simp add: signed_of_nat)
  moreover have "file_table_ok (fileSystem w)" unfolding w(1) using assms(1,3) by (intro with_file_ok) auto
  moreover have "openfile (fileSystem w) ! k = Some f" using w(1) k(1) d(1) by (simp add: with_file_def)
  ultimately show "ExceptionHandler u raw_type raw SyscallException w =
    Resumes (return_value 0 (w\<lparr>fileSystem := with_file k None [] (fileSystem w), host := h\<rparr>))"
    using sc_Close_eq [of w k f u r h] w(2,3) k(1) \<open>2 \<le> k\<close> host
    by (auto simp: ExceptionHandler_def handle_syscall_def finish_def)
  have "(openfile fs)[k := None] = openfile fs" "(fs_filename fs)[k := []] = fs_filename fs"
    using k d(5) [of k] list_update_id by metis+
  then show "with_file k None [] (fileSystem w) = fs"
    unfolding w(1) by (simp add: with_file_def)
qed

definition world_close :: "unit World" where
  \<comment> \<open>\<open>Close(2)\<close> after that\<close>
  "world_close = world_hi\<lparr>mach := set_reg 2 SC_Close (set_reg 4 2 (mach world_hi)),
     fileSystem := with_file 2 (Some (OpenFile_new2 7 0)) [104, 105] files0\<rparr>"

theorem close_undoes_open_witness:
  "\<exists>w'. ExceptionHandler unix7 0 raw0 SyscallException world_close = Resumes w' \<and> fileSystem w' = files0"
proof -
  have "2 \<in> free_slots files0" by (simp add: free_slots_def files0_def)
  from close_undoes_open [OF files0_ok this, of "[104, 105]" world_close "OpenFile_new2 7 0" unix7 0 "()" 0 raw0]
  show ?thesis
    by (simp add: world_close_def reg_def unix7_def)
qed

text \<open>
  A file that is open is not removed: when the name given to \<open>Remove\<close> is that of an open
  file, the result is -1 and neither the host's files nor the table of open files change.
\<close>

theorem remove_spares_open_files:
  assumes "user_ready (mach w)" and "reg w 2 = SC_Remove" and "file_table_ok (fileSystem w)"
    and "open_at (int i) (fileSystem w)" and "fs_filename (fileSystem w) ! i = user_string (mach w) (reg w 4) 33"
    and "string_readable (mach w) (reg w 4) 33"
  shows "\<exists>w'. ExceptionHandler u raw_type raw SyscallException w = Resumes w' \<and> reg w' 2 = -1 \<and>
    host w' = host w \<and> fileSystem w' = fileSystem w \<and> mainMemory (mach w') = mainMemory (mach w)"
proof -
  let ?s = "user_string (mach w) (reg w 4) 33"
  obtain m' where u: "User2System (reg w 4) 33 w = Go (?s @ replicate (34 - length ?s) 0) (w\<lparr>mach := m'\<rparr>)" "used (mach w) m'"
    using User2System_reads [of w 33 "reg w 4"] assms(1,6) by (auto simp: user_ready_def)
  have "34 - length ?s = Suc (33 - length ?s)"
    using length_user_string [of "mach w" "reg w 4" 33] by simp
  then have c: "cstring (?s @ replicate (34 - length ?s) 0) = ?s" using cstring_user_string by metis
  have "i < length (fs_filename (fileSystem w))"
    using assms(4) file_table_okD(2) [OF assms(3)] by (simp add: open_at_def)
  then have "?s \<in> set (fs_filename (fileSystem w))" using assms(5) nth_mem by metis
  then have "sc_Remove u w = Go () (return_value (-1) (w\<lparr>mach := m'\<rparr>))"
    using u(1) c by (simp add: sc_Remove_def ret_def)
  then show ?thesis
    using assms(2) used_fields(1) [OF u(2)]
    by (simp add: ExceptionHandler_def handle_syscall_def finish_def reg_def return_value_def set_result_def IncreasePC_def Let_def)
qed

definition world_remove :: "unit World" where
  "world_remove = world_open\<lparr>mach := set_reg 2 SC_Remove (mach world_open), fileSystem := fileSystem world_close\<rparr>"

theorem remove_spares_open_files_witness:
  "\<exists>w'. ExceptionHandler unix7 0 raw0 SyscallException world_remove = Resumes w' \<and> reg w' 2 = -1"
proof -
  have same: "user_string (mach world_remove) a n = user_string (mach world_open) a n"
    "string_readable (mach world_remove) a n = string_readable (mach world_open) a n" for a n
    by (simp_all add: world_remove_def user_string_def string_readable_def user_byte_def vmem_def readable_def cong: map_cong)
  have ok: "file_table_ok (fileSystem world_remove)"
    using with_file_ok [OF files0_ok, of "Some (OpenFile_new2 7 0)" "[104, 105]" 2]
    by (simp add: world_remove_def world_close_def)
  have r: "user_ready (mach world_remove)" "reg world_remove 2 = SC_Remove" "reg world_remove 4 = 0"
    using world_open_ready by (simp_all add: world_remove_def reg_def user_ready_def cpu_ok_def)
  have "open_at (int 2) (fileSystem world_remove)" "fs_filename (fileSystem world_remove) ! 2 = [104, 105]"
    using ok by (simp_all add: open_at_def) (simp_all add: world_remove_def world_close_def with_file_def files0_def)
  with remove_spares_open_files [OF r(1,2) ok, of 2 unix7 0 raw0] same world_open_string r show ?thesis by auto
qed

end
