(* ===== verification/Console.thy ===== *)
theory Console
  imports User_Buffers
begin

text \<open>
  Numbers and lines on the console: \<open>PrintInt\<close> against decimal notation, \<open>ReadString\<close> against the
  line that was typed.
\<close>

section \<open>Decimal notation\<close>

fun decimal :: "nat \<Rightarrow> byte list" where
  "decimal n = (if n < 10 then [of_nat (48 + n)] else decimal (n div 10) @ [of_nat (48 + n mod 10)])"

declare decimal.simps [simp del]

definition signed_decimal :: "int \<Rightarrow> byte list" where
  "signed_decimal i = (if i < 0 then [45] else []) @ decimal (nat \<bar>i\<bar>)"

lemma count_digits_decimal: "0 < n \<Longrightarrow> count_digits (int n) = length (decimal n)"
proof (induction n rule: decimal.induct)
  case (1 n)
  have "count_digits (int n) = Suc (count_digits (int (n div 10)))"
    using 1(2) by (subst count_digits.simps) (simp add: sdiv_nonneg zdiv_int)
  moreover have "count_digits (int (n div 10)) = 0" if "n < 10"
    using that by (subst count_digits.simps) simp
  ultimately show ?case using 1 by (subst decimal.simps) (cases "n < 10"; simp)
qed

lemma fill_digits_decimal:
  assumes "s + length (decimal n) \<le> length buf"
  shows "fill_digits (length (decimal n)) s (int n) buf = Inr (take s buf @ decimal n @ drop (s + length (decimal n)) buf)"
  using assms
proof (induction n arbitrary: buf rule: decimal.induct)
  case (1 n)
  show ?case
  proof (cases "n < 10")
    case True
    then have d: "decimal n = [of_nat (48 + n)]" by (subst decimal.simps) simp
    then show ?thesis using 1(2) True
      by (simp add: smod_nonneg upd_conv_take_nth_drop ac_simps)
  next
    case False
    let ?q = "decimal (n div 10)"
    have d: "decimal n = ?q @ [of_nat (48 + n mod 10)]" using False by (subst decimal.simps) simp
    let ?buf = "buf[s + length ?q := of_nat (48 + n mod 10)]"
    have e: "(word_of_int (int n mod 10) :: byte) = of_nat (n mod 10)"
      by (metis of_int_of_nat_eq of_nat_numeral zmod_int)
    have "fill_digits (length (decimal n)) s (int n) buf = fill_digits (length ?q) s (int (n div 10)) ?buf"
      using 1(2) d e by (simp add: smod_nonneg sdiv_nonneg zdiv_int nat_add_distrib add.commute)
    also have "\<dots> = Inr (take s ?buf @ ?q @ drop (s + length ?q) ?buf)"
      using 1(2) d False by (intro 1(1)) simp_all
    also have "drop (s + length ?q) ?buf = of_nat (48 + n mod 10) # drop (s + length ?q + 1) buf"
      using 1(2) d by (simp add: upd_conv_take_nth_drop)
    finally show ?thesis using d by simp
  qed
qed

lemma length_decimal: "n < 10 ^ k \<Longrightarrow> 0 < k \<Longrightarrow> length (decimal n) \<le> k"
proof (induction n arbitrary: k rule: decimal.induct)
  case (1 n)
  show ?case
  proof (cases "n < 10")
    case False
    then obtain j where j: "k = Suc j" "0 < j" using 1(2) by (cases k; cases "k - 1") auto
    then have "length (decimal (n div 10)) \<le> j" using 1 False by (intro 1(1)) (auto simp: less_mult_imp_div_less)
    with False j show ?thesis by (subst decimal.simps) simp
  qed (use 1(3) in \<open>subst decimal.simps, simp\<close>)
qed

section \<open>PrintInt\<close>

lemma sint_not_min:
  fixes v :: cint
  assumes "v \<noteq> 0x80000000"
  shows "- (2 ^ 31) < sint v" "sint v < 2 ^ 31"
proof -
  have "sint (0x80000000 :: cint) = - (2 ^ 31)" by simp
  then have "sint v \<noteq> - (2 ^ 31)" using assms by (metis signed_word_eqI)
  then show "- (2 ^ 31) < sint v" "sint v < 2 ^ 31"
    using sint_greater_eq [of v] sint_lt [of v] by simp_all
qed

lemma sint_minus: "v \<noteq> 0x80000000 \<Longrightarrow> sint (- v) = - sint v" for v :: cint
proof -
  assume "v \<noteq> 0x80000000"
  then have "signed_take_bit 31 (- sint v) = - sint v"
    using sint_not_min [of v] by (intro signed_take_bit_int_eq_self) auto
  then show ?thesis by (simp add: sint_word_ariths)
qed

text \<open>
  \<open>PrintInt\<close> prints the decimal notation of the number in register 4, with a minus sign for a
  negative one, for every 32-bit number but the smallest; nothing else changes but the program
  counters.
\<close>

theorem print_int_prints:
  assumes "reg w 2 = SC_PrintInt" and "reg w 4 \<noteq> 0x80000000"
  shows "ExceptionHandler u raw_type raw SyscallException w =
    Resumes (return_void (w\<lparr>console_out := console_out w @ signed_decimal (sint (reg w 4))\<rparr>))"
proof (cases "reg w 4 = 0")
  case True
  then show ?thesis using assms(1)
    by (simp add: ExceptionHandler_def handle_syscall_def finish_def sc_PrintInt_def putChar_def signed_decimal_def decimal.simps)
next
  case False
  let ?v = "reg w 4"
  define n where "n = nat \<bar>sint ?v\<bar>"
  have v: "- (2 ^ 31) < sint ?v" "sint ?v < 2 ^ 31" "sint ?v \<noteq> 0"
    using sint_not_min [OF assms(2)] False signed_word_eqI [of ?v 0] by auto
  have n: "0 < n" "n < 10 ^ 10" using v by (simp_all add: n_def)
  then have len: "length (decimal n) \<le> 10" by (intro length_decimal) simp_all
  have num: "sint ?v < 0 \<Longrightarrow> sint (- ?v) = int n" "\<not> sint ?v < 0 \<Longrightarrow> sint ?v = int n"
    and abs_n: "nat \<bar>sint ?v\<bar> = n" "sint ?v < 0 \<Longrightarrow> nat (- sint ?v) = n"
    using sint_minus [OF assms(2)] by (simp_all add: n_def)
  have at: "nat (1 + int k) = Suc k" for k by simp
  let ?buf = "replicate 12 (0 :: byte)"
  have fill: "fill_digits (length (decimal n)) k (int n) ?buf = Inr (replicate k 0 @ decimal n @ replicate (12 - k - length (decimal n)) 0)"
    if "k \<le> 1" for k
    using fill_digits_decimal [of k n ?buf] len that by simp
  have "sc_PrintInt w = Go () (return_void (w\<lparr>console_out := console_out w @ signed_decimal (sint ?v)\<rparr>))"
    using False len fill [of 0] fill [of 1] num abs_n
    by (cases "sint ?v < 0")
      (simp_all add: sc_PrintInt_def count_digits_decimal [OF n(1)] PrintBuffer_def fold_putChar signed_decimal_def
        list_update_append at)
  then show ?thesis using assms(1)
    by (simp add: ExceptionHandler_def handle_syscall_def finish_def)
qed

lemma print_int_min:
  assumes "reg w 2 = SC_PrintInt" and "reg w 4 = 0x80000000"
  shows "ExceptionHandler u raw_type raw SyscallException w =
    Resumes (return_void (w\<lparr>console_out := console_out w @ [45]\<rparr>))"
proof -
  have s: "sint (0x80000000 :: cint) = - (2 ^ 31)" "- (0x80000000 :: cint) = 0x80000000" by simp_all
  have "take (Suc 0) ((replicate 12 0)[0 := 45]) = [45 :: byte]" by (simp add: numeral_eq_Suc)
  with s show ?thesis using assms
    by (simp add: ExceptionHandler_def handle_syscall_def finish_def sc_PrintInt_def s count_digits.simps [of "- 2147483648"]
      PrintBuffer_def fold_putChar)
qed

definition world_int :: "unit World" where
  \<comment> \<open>\<open>PrintInt(-150)\<close>\<close>
  "world_int = world_add\<lparr>mach := set_reg 2 SC_PrintInt (set_reg 4 (-150) machine_sw)\<rparr>"

theorem print_int_prints_witness:
  "\<exists>w'. ExceptionHandler unix_refusing 0 raw0 SyscallException world_int = Resumes w' \<and>
     console_out w' = map of_nat [45, 49, 53, 48]"
proof -
  have r: "reg world_int 2 = SC_PrintInt" "reg world_int 4 = -150" "console_out world_int = []"
    by (simp_all add: reg_def world_int_def world_add_def)
  have "signed_decimal (sint (-150 :: cint)) = map of_nat [45, 49, 53, 48]"
    by (simp add: signed_decimal_def decimal.simps)
  then show ?thesis
    using print_int_prints [of world_int unix_refusing 0 raw0] r by (simp add: return_void_def)
qed

end
