(* ===== verification/User_Process.thy ===== *)
theory User_Process
  imports File_Table Console
begin

text \<open>
  A user program with the kernel below it: \<open>urun\<close> is one leg of a program's execution, either some
  instructions, or instructions up to an exception and the handling of that exception. A call of
  the process or semaphore table may return any value; while the program sleeps there, what other
  programs do to the machine is undone by the context switch and is not part of a leg.
\<close>

section \<open>Legs of an execution\<close>

inductive urun :: "'h Unix \<Rightarrow> 'h World \<Rightarrow> 'h World \<Rightarrow> bool" for u where
  computes: "burst OneInstruction n (mach w) = Inr (Done () m) \<Longrightarrow> urun u w (w\<lparr>mach := m\<rparr>)"
| resumes: "burst OneInstruction n (mach w) = Inr (Trap exc m) \<Longrightarrow>
    ExceptionHandler u raw_type raw exc (w\<lparr>mach := m\<rparr>) = Resumes w' \<Longrightarrow> urun u w w'"
| called: "burst OneInstruction n (mach w) = Inr (Trap exc m) \<Longrightarrow>
    ExceptionHandler u raw_type raw exc (w\<lparr>mach := m\<rparr>) = Calls c w1 \<Longrightarrow> urun u w (return_value v w1)"

inductive_cases urunE: "urun u w w'"

lemma burst_Done:
  assumes "user_ready m" and "burst OneInstruction n m = Inr (Done () m')"
  shows "user_ready m' \<and> confined m m'"
  using mips.burst_ok [OF assms(1), of n] assms(2) by (auto simp: user_ready_def confined_paged)

lemma burst_Trap:
  assumes "user_ready m" and "burst OneInstruction n m = Inr (Trap exc m')"
  shows "user_ready m' \<and> confined m m'"
  using mips.burst_ok [OF assms(1), of n] assms(2) by (auto simp: user_ready_def confined_paged)

lemma handler_confined:
  assumes "user_ready (mach w)" and "ExceptionHandler u raw_type raw exc w = Resumes w' \<or> ExceptionHandler u raw_type raw exc w = Calls c w'"
  shows "user_ready (mach w') \<and> confined (mach w) (mach w')"
proof (cases "exc = SyscallException")
  case True
  then show ?thesis using assms(2) handle_syscall_keeps [OF assms(1), of u raw_type raw]
    by (auto simp: ExceptionHandler_def)
next
  case False
  then have "w' = w\<lparr>mode := SystemMode\<rparr>" using assms(2) by (cases exc) (simp_all add: ExceptionHandler_def)
  then show ?thesis using assms(1) by (simp add: user_ready_def)
qed

lemma handler_table:
  assumes "file_table_ok (fileSystem w)" and "ExceptionHandler u raw_type raw exc w = Resumes w' \<or> ExceptionHandler u raw_type raw exc w = Calls c w'"
  shows "file_table_ok (fileSystem w')"
  using assms handle_syscall_kept [of w u raw_type raw]
  by (cases exc) (auto simp: ExceptionHandler_def table_kept_def keep_def)

lemma confined_via: "user_ready m \<Longrightarrow> confined m m1 \<Longrightarrow> confined m1 m2 \<Longrightarrow> confined m m2"
  unfolding user_ready_def using confined_trans by blast

lemma urun_confined:
  assumes "urun u w w'" and r: "user_ready (mach w)"
  shows "user_ready (mach w') \<and> confined (mach w) (mach w')"
  using assms(1)
proof (cases rule: urun.cases)
  case (computes n m)
  then show ?thesis using burst_Done [OF r] by simp
next
  case (resumes n exc m raw_type raw)
  have m: "user_ready (mach (w\<lparr>mach := m\<rparr>))" "confined (mach w) m" using burst_Trap [OF r resumes(1)] by simp_all
  from handler_confined [OF m(1), of u raw_type raw exc w'] resumes(2) show ?thesis
    using confined_via [OF r m(2)] by simp
next
  case (called n exc m raw_type raw c w1 v)
  have m: "user_ready (mach (w\<lparr>mach := m\<rparr>))" "confined (mach w) m" using burst_Trap [OF r called(2)] by simp_all
  from handler_confined [OF m(1), of u raw_type raw exc w1 c] called(3)
  have w1: "user_ready (mach w1)" "confined (mach w) (mach w1)"
    using confined_via [OF r m(2)] by simp_all
  have "user_ready (mach w')" "confined (mach w1) (mach w')"
    using return_value_returned [of w1 v] w1(1) unfolding called(1) returned_def by blast+
  then show ?thesis using confined_via [OF r w1(2)] by blast
qed

lemma urun_table:
  assumes "urun u w w'" and ok: "file_table_ok (fileSystem w)"
  shows "file_table_ok (fileSystem w')"
  using assms(1)
proof (cases rule: urun.cases)
  case (resumes n exc m raw_type raw)
  then show ?thesis using handler_table [of "w\<lparr>mach := m\<rparr>" u raw_type raw exc w'] ok by simp
next
  case (called n exc m raw_type raw c w1 v)
  then show ?thesis using handler_table [of "w\<lparr>mach := m\<rparr>" u raw_type raw exc w1 c] ok by simp
qed (use ok in simp)

text \<open>
  C1. A user program is confined however long it runs: after any sequence of instructions and
  system calls, its page table has the mappings it started with, every byte of main memory
  outside the frames these let it write is unchanged, the machine is ready to run user code and
  the table of open files is consistent. This composes the simulator's contract for instructions
  with the kernel's for system calls.
\<close>

theorem program_confined:
  assumes "(urun u)\<^sup>*\<^sup>* w w'" and "user_ready (mach w)" and "file_table_ok (fileSystem w)"
  shows "user_ready (mach w') \<and> mappings (mach w') = mappings (mach w) \<and>
    (\<forall>q. q \<notin> writable (mach w) \<longrightarrow> mainMemory (mach w') q = mainMemory (mach w) q) \<and>
    file_table_ok (fileSystem w')"
proof -
  have "user_ready (mach w') \<and> confined (mach w) (mach w') \<and> file_table_ok (fileSystem w')"
    using assms(1)
  proof (induction rule: rtranclp_induct)
    case base
    then show ?case using assms(2,3) by (simp add: user_ready_def)
  next
    case (step w1 w2)
    then show ?case
      using urun_confined [OF step.hyps(2)] urun_table [OF step.hyps(2)] confined_via [OF assms(2)] by blast
  qed
  then show ?thesis by (simp add: confined_def)
qed

definition world_syscall :: "unit World" where
  \<comment> \<open>\<open>syscall\<close> at address 0, with the registers of \<open>Add(7, -9)\<close>\<close>
  "world_syscall = world_add\<lparr>fileSystem := files0, mach := machine_sw\<lparr>mainMemory := (\<lambda>_. 0)(384 := 0x0c),
     registers := (\<lambda>_. 0)(2 := SC_Add, 4 := 7, 5 := -9, NextPCReg := 4)\<rparr>\<rparr>"

lemma world_syscall_leg:
  "\<exists>w'. urun unix7 world_syscall w' \<and> reg w' 2 = -2 \<and> reg w' PCReg = 4"
proof -
  let ?m = "mach world_syscall"
  have f: "ReadMem ?m 0 4 = Inr (Done 0xc (?m\<lparr>pageTable := Some pt_sw\<rparr>))"
    by (simp add: ReadMem_def Translate_pt [where pt = "the (pageTable machine1)"] world_syscall_def machine_sw_def machine1_def
      Machine_init_def Let_def aligned_def use_entry_def load_word_def load_half_def WordToHost_def pt_sw_def)
  have d: "opCode (Decode 0xc) = OP_SYSCALL" by code_simp
  have rg: "registers ?m PCReg = 0" "registers ?m LoadReg = 0" "registers ?m LoadValueReg = 0"
    "registers ?m 2 = SC_Add" "registers ?m 4 = 7" "registers ?m 5 = -9"
    by (simp_all add: world_syscall_def)
  obtain m' where b: "burst OneInstruction 1 ?m = Inr (Trap SyscallException m')"
    "registers m' 2 = SC_Add" "registers m' 4 = 7" "registers m' 5 = -9" "registers m' PCReg = 0"
    by (simp add: bindA_def OneInstruction_def f d rg RaiseException_def DelayedLoad_def Let_def)
  let ?w = "world_syscall\<lparr>mach := m'\<rparr>"
  have r: "reg ?w 2 = SC_Add" "reg ?w 4 = 7" "reg ?w 5 = -9" "reg ?w PCReg = 0"
    using b(2-5) by (simp_all add: reg_def)
  have "ExceptionHandler unix7 0 raw0 SyscallException ?w = Resumes (return_value (-2) ?w)"
    by (simp add: ExceptionHandler_def handle_syscall_def sc_Add_def finish_def ret_def r)
  then have "urun unix7 world_syscall (return_value (-2) ?w)" using b(1) by (blast intro: urun.resumes)
  moreover have "reg (return_value (-2) ?w) 2 = -2" "reg (return_value (-2) ?w) PCReg = 4"
    using r(4) by (simp_all add: reg_def return_value_def set_result_def IncreasePC_def Let_def)
  ultimately show ?thesis by blast
qed

theorem program_confined_witness:
  "\<exists>w'. (urun unix7)\<^sup>*\<^sup>* world_syscall w' \<and> reg w' 2 = -2 \<and> reg w' PCReg = 4 \<and> user_ready (mach w') \<and>
     mainMemory (mach w') 200 = mainMemory (mach world_syscall) 200"
proof -
  obtain w' where w': "(urun unix7)\<^sup>*\<^sup>* world_syscall w'" "reg w' 2 = -2" "reg w' PCReg = 4"
    using world_syscall_leg by blast
  have "user_ready (mach world_syscall)" "file_table_ok (fileSystem world_syscall)"
    using user_ready_machine_sw files0_ok by (simp_all add: world_syscall_def user_ready_def cpu_ok_def paged_def)
  moreover have "200 \<notin> writable (mach world_syscall)"
    by (simp add: writable_def world_syscall_def machine_sw_def machine1_def)
  ultimately show ?thesis using program_confined [OF w'(1)] w' by blast
qed

end
