(* ===== verification/Process_Table.thy ===== *)
theory Process_Table
  imports Processes
begin

text \<open>
  The process table under every interleaving of the threads: \<open>table_ok\<close>, the invariant of the two
  tables and their heap, \<open>own_slot\<close>, what one atomic segment of a thread may do to them, and the
  proof that every routine keeps to it. \<open>alone\<close> runs one call without interference; with it Exec is
  described completely.
\<close>

section \<open>The invariant of the tables\<close>

definition spans :: "Procs \<Rightarrow> (nat \<times> nat) set" where
  \<comment> \<open>first address and length of what the tables own: \<open>bmsem\<close>, each PCB with its three semaphores,
     each \<open>Sem\<close> with its semaphore\<close>
  "spans k = insert (bmsem k, 0) ({(a, 3) |a. Some a \<in> set (pcb k)} \<union> {(a, 1) |a. Some a \<in> set (semTab k)})"

definition apart :: "(nat \<times> nat) set \<Rightarrow> bool" where
  "apart X \<longleftrightarrow> (\<forall>x \<in> X. \<forall>y \<in> X. x \<noteq> y \<longrightarrow> fst x + snd x < fst y \<or> fst y + snd y < fst x)"

definition pcb_ok :: "Procs \<Rightarrow> nat \<Rightarrow> nat \<Rightarrow> bool" where
  "pcb_ok k i a \<longleftrightarrow> semvals k (a + 1) \<noteq> None \<and> semvals k (a + 2) \<noteq> None \<and> semvals k (a + 3) \<noteq> None \<and>
     (\<exists>p. pcbs k a = Some p \<and> pcb_processID p = int i \<and> joinsem p = a + 1 \<and> exitsem p = a + 2 \<and> mutex p = a + 3)"

definition sem_ok :: "Procs \<Rightarrow> nat \<Rightarrow> bool" where
  "sem_ok k a \<longleftrightarrow> semvals k (a + 1) \<noteq> None \<and> (\<exists>s. psems k a = Some s \<and> sem s = a + 1)"

definition table_ok :: "Procs \<Rightarrow> bool" where
  "table_ok k \<longleftrightarrow> length (pcb k) = 10 \<and> psize k = 10 \<and> length (semTab k) = 10 \<and> semvals k (bmsem k) \<noteq> None \<and>
     apart (spans k) \<and> (\<forall>x \<in> spans k. fst x + snd x < next_free k) \<and>
     (\<forall>i < 10. \<forall>a. pcb k ! i = Some a \<longrightarrow> pcb_ok k i a) \<and>
     (\<forall>i < 10. \<forall>a. semTab k ! i = Some a \<longrightarrow> sem_ok k a) \<and>
     (\<forall>i < 10. \<forall>j < 10. \<forall>a b. semTab k ! i = Some a \<and> semTab k ! j = Some b \<and>
        map_option sem_name (psems k a) = map_option sem_name (psems k b) \<longrightarrow> i = j) \<and>
     (\<forall>t. pthreads k t \<noteq> None \<longrightarrow> t < next_free k)"

definition own_slot :: "int \<Rightarrow> Procs \<Rightarrow> Procs \<Rightarrow> bool" where
  \<comment> \<open>what a segment of a thread of process \<open>i\<close> may do to the tables\<close>
  "own_slot i k k' \<longleftrightarrow> (table_ok k \<longrightarrow> table_ok k' \<and> bmsem k' = bmsem k \<and>
     (\<forall>j < 10. \<forall>a. pcb k ! j = Some a \<and> pcb k' ! j \<noteq> Some a \<longrightarrow> int j = i) \<and>
     (\<forall>t th. pthreads k t = Some th \<longrightarrow> (\<exists>th'. pthreads k' t = Some th' \<and> pt_processID th' = pt_processID th)))"

lemma own_slot_refl [simp]: "own_slot i k k"
  by (auto simp: own_slot_def)

lemma own_slot_trans: "own_slot i k1 k2 \<Longrightarrow> own_slot i k2 k3 \<Longrightarrow> own_slot i k1 k3"
  unfolding own_slot_def by (smt (verit, best))

interpretation own: segment_relation "own_slot i" for i
  by unfold_locales (simp, rule own_slot_trans)

lemma own_slotI:
  assumes "table_ok k \<Longrightarrow> table_ok k'" "bmsem k' = bmsem k"
    "\<And>j a. table_ok k \<Longrightarrow> j < 10 \<Longrightarrow> pcb k ! j = Some a \<Longrightarrow> pcb k' ! j \<noteq> Some a \<Longrightarrow> int j = i"
    "\<And>t th. table_ok k \<Longrightarrow> pthreads k t = Some th \<Longrightarrow> \<exists>th'. pthreads k' t = Some th' \<and> pt_processID th' = pt_processID th"
  shows "own_slot i k k'"
  using assms by (auto simp: own_slot_def)

lemma table_ok_cong:
  assumes "table_ok k" "pcb k' = pcb k" "psize k' = psize k" "semTab k' = semTab k" "bmsem k' = bmsem k"
    "next_free k \<le> next_free k'" "psems k' = psems k" "\<And>s. semvals k s \<noteq> None \<Longrightarrow> semvals k' s \<noteq> None"
    "\<And>t. pthreads k' t \<noteq> None \<Longrightarrow> t < next_free k'"
    "\<And>a p. pcbs k a = Some p \<Longrightarrow> \<exists>p'. pcbs k' a = Some p' \<and> pcb_processID p' = pcb_processID p \<and>
       joinsem p' = joinsem p \<and> exitsem p' = exitsem p \<and> mutex p' = mutex p"
  shows "table_ok k'"
proof -
  have s: "spans k' = spans k" using assms by (simp add: spans_def)
  have p: "pcb_ok k i a \<Longrightarrow> pcb_ok k' i a" for i a
    using assms(8,10) unfolding pcb_ok_def by metis
  have q: "sem_ok k a \<Longrightarrow> sem_ok k' a" for a
    using assms(7,8) unfolding sem_ok_def by metis
  show ?thesis
    using assms(1-9) s p q unfolding table_ok_def by (auto 0 3)
qed

lemma own_slot_set_pcb [intro]:
  assumes "pcbs k a = Some p" "pcb_processID p' = pcb_processID p" "joinsem p' = joinsem p"
    "exitsem p' = exitsem p" "mutex p' = mutex p"
  shows "own_slot i k (set_pcb a p' k)"
  by (rule own_slotI; (rule table_ok_cong)?) (use assms in \<open>auto simp: set_pcb_def table_ok_def\<close>)

lemma set_sem_simps [simp]:
  "pcb (set_sem s v k) = pcb k" "psize (set_sem s v k) = psize k" "bmsem (set_sem s v k) = bmsem k"
  "semTab (set_sem s v k) = semTab k" "pcbs (set_sem s v k) = pcbs k" "psems (set_sem s v k) = psems k"
  "pthreads (set_sem s v k) = pthreads k" "next_free (set_sem s v k) = next_free k"
  "semvals (set_sem s v k) = (semvals k)(s := Some v)"
  by (simp_all add: set_sem_def)

lemma table_ok_set_sem:
  assumes "table_ok k"
  shows "table_ok (set_sem s v k)"
  by (rule table_ok_cong [OF assms]) (use assms in \<open>auto simp: set_sem_def table_ok_def\<close>)

lemma own_slot_new_thread:
  assumes "pcbs k a = Some p" "pcb_processID p' = pcb_processID p" "joinsem p' = joinsem p"
    "exitsem p' = exitsem p" "mutex p' = mutex p"
  shows "own_slot i k (set_pcb a p' (k\<lparr>next_free := Suc (next_free k), pthreads := (pthreads k)(next_free k := Some th)\<rparr>))"
  by (rule own_slotI; (rule table_ok_cong)?) (use assms in \<open>auto simp: set_pcb_def table_ok_def less_SucI split: if_splits\<close>)

lemma own_slot_thread:
  assumes "pthreads k t = Some th" "pt_processID th' = pt_processID th"
  shows "own_slot i k (k\<lparr>pthreads := (pthreads k)(t := Some th')\<rparr>)"
  by (rule own_slotI; (rule table_ok_cong)?) (use assms in \<open>auto simp: table_ok_def split: if_splits\<close>)

lemma apart_insert:
  assumes "apart X" "\<forall>x \<in> X. fst x + snd x < a"
  shows "apart (insert (a, n) X)"
  using assms unfolding apart_def by fastforce

lemma apart_subset: "apart X \<Longrightarrow> Y \<subseteq> X \<Longrightarrow> apart Y"
  unfolding apart_def by blast

lemma PCB_new_eq:
  assumes "PCB_new pid fn raw k = Inr (a, k')"
  shows "a = next_free k \<and> k' = k\<lparr>next_free := a + 4,
      semvals := (semvals k)(a + 1 := Some 0, a + 2 := Some 0, a + 3 := Some 1),
      pcbs := (pcbs k)(a := Some (raw\<lparr>pcb_processID := pid, joinsem := a + 1, exitsem := a + 2, mutex := a + 3, filename := fn\<rparr>))\<rparr>"
proof -
  have n: "Suc (Suc (Suc n)) = n + 3" "Suc (Suc (Suc (Suc n))) = n + 4" for n by simp_all
  show ?thesis
    using assms by (auto simp: n PCB_new_def new_semaphore_def set_pcb_def strcpy_def Let_def split: if_splits)
qed

lemma add_process_eq:
  assumes "add_process index parent name raw k = Inr (a, k')"
  shows "a = next_free k \<and> 0 \<le> index \<and> index < int (length (pcb k)) \<and> k' = k\<lparr>next_free := a + 4,
      semvals := (semvals k)(a + 1 := Some 0, a + 2 := Some 0, a + 3 := Some 1),
      pcb := (pcb k)[nat index := Some a],
      pcbs := (pcbs k)(a := Some (raw\<lparr>pcb_processID := index, joinsem := a + 1, exitsem := a + 2, mutex := a + 3,
        filename := name, parentID := parent\<rparr>))\<rparr>"
  using assms by (auto simp: add_process_def result_iffs set_pcb_def dest!: PCB_new_eq)

lemma spans_set_pcb:
  assumes "pcb k' = (pcb k)[i := Some a]" "bmsem k' = bmsem k" "semTab k' = semTab k"
  shows "spans k' \<subseteq> insert (a, 3) (spans k)"
  using assms set_update_subset_insert [of "pcb k" i "Some a"] by (auto simp: spans_def)

lemma pcb_span: "table_ok k \<Longrightarrow> i < 10 \<Longrightarrow> pcb k ! i = Some a \<Longrightarrow> (a, 3) \<in> spans k"
  unfolding table_ok_def spans_def by (metis (mono_tags, lifting) UnI1 insertCI mem_Collect_eq nth_mem)

lemma sem_span: "table_ok k \<Longrightarrow> i < 10 \<Longrightarrow> semTab k ! i = Some a \<Longrightarrow> (a, 1) \<in> spans k"
  unfolding table_ok_def spans_def by (metis (mono_tags, lifting) UnI2 insertCI mem_Collect_eq nth_mem)

lemma span_bound: "table_ok k \<Longrightarrow> x \<in> spans k \<Longrightarrow> fst x + snd x < next_free k"
  by (simp add: table_ok_def)

lemma own_slot_add_process:
  assumes "add_process index parent name raw k = Inr (a, k')" and "pcb k ! nat index = None"
  shows "own_slot i k k'"
proof -
  note e = conjunct2 [OF conjunct2 [OF conjunct2 [OF add_process_eq [OF assms(1)]]]]
  have a: "a = next_free k" "0 \<le> index" "index < int (length (pcb k))" using add_process_eq [OF assms(1)] by blast+
  have "table_ok k'" if t: "table_ok k"
  proof -
    have sp: "spans k' \<subseteq> insert (a, 3) (spans k)" by (rule spans_set_pcb [of _ _ "nat index"]) (simp_all add: e)
    have "apart (insert (a, 3) (spans k))"
      by (rule apart_insert) (use t a in \<open>auto simp: table_ok_def\<close>)
    then have 1: "apart (spans k')" using apart_subset sp by blast
    have 2: "\<forall>x \<in> spans k'. fst x + snd x < next_free k'"
      using sp t a by (auto simp: e table_ok_def) fastforce
    have 3: "pcb_ok k' j b" if "j < 10" "pcb k' ! j = Some b" for j b
    proof (cases "j = nat index")
      case True
      then show ?thesis using that a t by (simp add: e pcb_ok_def table_ok_def)
    next
      case False
      then have b: "pcb k ! j = Some b" using that by (simp add: e)
      have "b + 3 < a" using span_bound [OF t pcb_span [OF t that(1) b]] a by simp
      moreover have "pcb_ok k j b" using t that b by (simp add: table_ok_def)
      ultimately show ?thesis by (auto simp: pcb_ok_def e)
    qed
    have 4: "sem_ok k' b" if "j < 10" "semTab k' ! j = Some b" for j b
    proof -
      have b: "semTab k ! j = Some b" using that by (simp add: e)
      have "b + 1 < a" using span_bound [OF t sem_span [OF t that(1) b]] a by simp
      moreover have "sem_ok k b" using t that b by (simp add: table_ok_def)
      ultimately show ?thesis by (auto simp: sem_ok_def e)
    qed
    have 5: "bmsem k < a" using span_bound [OF t, of "(bmsem k, 0)"] a by (simp add: spans_def)
    have 6: "length (pcb k') = 10" "psize k' = 10" "length (semTab k') = 10" "semvals k' (bmsem k') \<noteq> None"
      "\<forall>t. pthreads k' t \<noteq> None \<longrightarrow> t < next_free k'" "semTab k' = semTab k" "psems k' = psems k"
      using t a 5 by (auto simp: table_ok_def e)
    show ?thesis
      using 1 2 3 4 6 t unfolding table_ok_def by auto
  qed
  then show ?thesis
    by (rule own_slotI) (use assms(2) a in \<open>auto simp: e nth_list_update table_ok_def split: if_splits\<close>)
qed

lemma spans_clear_pcb:
  assumes "pcb k' = (pcb k)[i := None]" "bmsem k' = bmsem k" "semTab k' = semTab k"
  shows "spans k' \<subseteq> spans k"
  using assms set_update_subset_insert [of "pcb k" i None] by (auto simp: spans_def)

text \<open>A PCB that leaves the table takes its own three semaphores with it and no others.\<close>

lemma table_ok_remove:
  assumes t: "table_ok k" "i < 10" "pcb k ! i = Some a"
    and e: "pcb k' = (pcb k)[i := None]" "psize k' = psize k" "bmsem k' = bmsem k" "semTab k' = semTab k"
      "psems k' = psems k" "next_free k' = next_free k"
      "semvals k' = (semvals k)(a + 1 := None, a + 2 := None, a + 3 := None)"
      "\<And>b. b \<noteq> a \<Longrightarrow> pcbs k' b = pcbs k b" "\<And>t. pthreads k' t \<noteq> None \<Longrightarrow> pthreads k t \<noteq> None"
  shows "table_ok k'"
proof -
  have sp: "spans k' \<subseteq> spans k" by (rule spans_clear_pcb [OF e(1,3,4)])
  have ap: "apart (spans k)" using t(1) by (simp add: table_ok_def)
  have A: "(a, 3) \<in> spans k" by (rule pcb_span [OF t])
  have far: "fst x + snd x < a \<or> a + 3 < fst x" if "x \<in> spans k" "x \<noteq> (a, 3)" for x
    using ap A that unfolding apart_def by fastforce
  have keep: "semvals k' s = semvals k s" if "x \<in> spans k" "x \<noteq> (a, 3)" "fst x \<le> s" "s \<le> fst x + snd x" for x s
    using far [OF that(1,2)] that(3,4) e(7) by auto
  have 1: "pcb_ok k' j b" if "j < 10" "pcb k' ! j = Some b" for j b
  proof -
    have ji: "j \<noteq> i" using that t(1) by (auto simp: e(1) table_ok_def)
    then have b: "pcb k ! j = Some b" using that by (simp add: e(1))
    have ok: "pcb_ok k j b" "pcb_ok k i a" using t that b by (simp_all add: table_ok_def)
    have ba: "b \<noteq> a" using ok ji by (auto simp: pcb_ok_def)
    have "semvals k' s = semvals k s" if "b \<le> s" "s \<le> b + 3" for s
      by (rule keep [OF pcb_span [OF t(1) \<open>j < 10\<close> b]]) (use that ba in auto)
    moreover have "pcbs k' b = pcbs k b" by (rule e(8) [OF ba])
    ultimately show ?thesis using ok(1) by (simp add: pcb_ok_def)
  qed
  have 2: "sem_ok k' b" if "j < 10" "semTab k' ! j = Some b" for j b
  proof -
    have b: "semTab k ! j = Some b" using that e(4) by simp
    have "semvals k' (b + 1) = semvals k (b + 1)"
      by (rule keep [OF sem_span [OF t(1) that(1) b]]) auto
    moreover have "sem_ok k b" using t that b by (simp add: table_ok_def)
    ultimately show ?thesis by (simp add: sem_ok_def e(5))
  qed
  have 3: "semvals k' (bmsem k) = semvals k (bmsem k)"
    by (rule keep [of "(bmsem k, 0)"]) (auto simp: spans_def)
  show ?thesis
    using t(1) 1 2 3 apart_subset [OF ap sp] sp e unfolding table_ok_def by (auto 0 4)
qed

lemma Remove_segs: "segs (own_slot i) (Remove me i k) k"
proof (unfold Remove_def, rule segs_needE)
  fix e assume "aget (pcb k) i = Inr e"
  then have e: "0 \<le> i" "i < int (length (pcb k))" "e = pcb k ! nat i" by (auto simp: result_iffs)
  show "segs (own_slot i) (case e of None \<Rightarrow> Ret 0 k
      | Some a \<Rightarrow> needE (aset (pcb k) i None) (\<lambda>tab. PCB_delete me a (k\<lparr>pcb := tab\<rparr>))) k"
  proof (cases e)
    case (Some a)
    have d: "own_slot i k k'"
      if "\<And>p. pcbs k a = Some p \<Longrightarrow> semvals k' = (semvals k)(joinsem p := None, exitsem p := None, mutex p := None)"
        "pcb k' = (pcb k)[nat i := None]" "psize k' = psize k" "bmsem k' = bmsem k" "semTab k' = semTab k"
        "psems k' = psems k" "next_free k' = next_free k" "\<And>b. b \<noteq> a \<Longrightarrow> pcbs k' b = pcbs k b"
        "\<And>t. map_option pt_processID (pthreads k' t) = map_option pt_processID (pthreads k t)" for k'
    proof (rule own_slotI)
      assume t: "table_ok k"
      then have i: "nat i < 10" "pcb k ! nat i = Some a" using e Some by (auto simp: table_ok_def)
      obtain p where p: "pcbs k a = Some p" "joinsem p = a + 1" "exitsem p = a + 2" "mutex p = a + 3"
        using t i unfolding table_ok_def pcb_ok_def by blast
      show "table_ok k'"
        by (rule table_ok_remove [OF t i that(2-7) _ that(8)])
          (use that(1) [OF p(1)] p that(9) in \<open>auto simp: fun_eq_iff\<close>, metis not_None_eq option.map_disc_iff)
    next
      show "int j = i" if "table_ok k" "j < 10" "pcb k ! j = Some b" "pcb k' ! j \<noteq> Some b" for j b
        using that \<open>pcb k' = (pcb k)[nat i := None]\<close> e by (cases "j = nat i") auto
    next
      show "\<exists>th'. pthreads k' t = Some th' \<and> pt_processID th' = pt_processID th" if "pthreads k t = Some th" for t th
        using \<open>\<And>t. map_option pt_processID (pthreads k' t) = map_option pt_processID (pthreads k t)\<close> [of t] that by auto
    qed (rule that(4))
    show ?thesis
      using Some e(1,2) by (auto simp: PCB_delete_def deref_def FreeSpace_def delete_semaphore_def Let_def split: option.split intro!: d)
  qed simp
qed

lemma Sem_named_eq:
  assumes "table_ok k" "0 \<le> i" "i < 10"
  shows "Sem_named k name i = Inr (\<exists>a s. semTab k ! nat i = Some a \<and> psems k a = Some s \<and> sem_name s = name)"
proof -
  have "nat i < 10" using assms by simp
  then have "sem_ok k a" if "semTab k ! nat i = Some a" for a
    using assms(1) that unfolding table_ok_def by blast
  then show ?thesis using assms
    by (auto simp: Sem_named_def table_ok_def sem_ok_def split: option.split)
qed

lemma FindFreeSlot_cases:
  assumes "table_ok k"
  obtains (free) i where "FindFreeSlot k = Inr (int i)" "i < 10" "semTab k ! i = None" |
    (full) "FindFreeSlot k = Inr (-1)" "\<forall>i < 10. semTab k ! i \<noteq> None"
proof -
  have "bindE (aget (semTab k) i) (\<lambda>e. Inr (e = None)) = Inr (semTab k ! nat i = None)" if "0 \<le> i" "i < 10" for i
    using that assms by (simp add: table_ok_def)
  from searchE_pure [of 0 10 _ "\<lambda>i. semTab k ! nat i = None", OF this]
  consider i where "FindFreeSlot k = Inr i" "0 \<le> i" "i < 10" "semTab k ! nat i = None"
    | "FindFreeSlot k = Inr (-1)" "\<forall>i. 0 \<le> i \<and> i < 10 \<longrightarrow> semTab k ! nat i \<noteq> None"
    unfolding FindFreeSlot_def by force
  then show thesis
  proof cases
    case 1
    then show thesis by (intro free [of "nat i"]) auto
  next
    case 2
    then have "\<forall>i < 10. semTab k ! i \<noteq> None" by (metis nat_int of_nat_0_le_iff of_nat_less_iff of_nat_numeral)
    with 2 show thesis by (intro full)
  qed
qed

lemma Create_cases:
  assumes "table_ok k"
  obtains (dup) i a s where "STable_Create name v k = Ret (-1) k" "i < 10" "semTab k ! i = Some a" "psems k a = Some s" "sem_name s = name"
  | (full) "STable_Create name v k = Ret (-1) k" "\<forall>i < 10. semTab k ! i \<noteq> None"
  | (long) "STable_Create name v k = Fault BadAccess" "50 \<le> length name"
  | (ok) i where "length name < 50" "i < 10" "semTab k ! i = None"
      "\<And>j a s. j < 10 \<Longrightarrow> semTab k ! j = Some a \<Longrightarrow> psems k a = Some s \<Longrightarrow> sem_name s \<noteq> name"
      "STable_Create name v k = Ret 0 (k\<lparr>next_free := next_free k + 2, semvals := (semvals k)(next_free k + 1 := Some v),
         psems := (psems k)(next_free k := Some \<lparr>sem = next_free k + 1, sem_name = name\<rparr>),
         semTab := (semTab k)[i := Some (next_free k)]\<rparr>)"
proof -
  let ?q = "\<lambda>i. \<exists>a s. semTab k ! nat i = Some a \<and> psems k a = Some s \<and> sem_name s = name"
  have l: "length (semTab k) = 10" using assms by (simp add: table_ok_def)
  consider i where "searchE (Sem_named k name) 0 10 = Inr i" "0 \<le> i" "i < 10" "?q i"
    | "searchE (Sem_named k name) 0 10 = Inr (-1)" "\<forall>i. 0 \<le> i \<and> i < 10 \<longrightarrow> \<not> ?q i"
    using searchE_pure [of 0 10 "Sem_named k name" ?q, OF Sem_named_eq [OF assms]] by blast
  then show thesis
  proof cases
    case 1
    then have "STable_Create name v k = Ret (-1) k" by (simp add: STable_Create_def)
    with 1 show thesis by (elim exE conjE) (rule dup [of "nat i"]; simp)
  next
    case 2
    have n: "sem_name s \<noteq> name" if "j < 10" "semTab k ! j = Some a" "psems k a = Some s" for j a s
      using 2(2) [rule_format, of "int j"] that by auto
    show thesis using assms
    proof (cases rule: FindFreeSlot_cases)
      case (free i)
      show thesis
      proof (cases "length name < 50")
        case True
        with 2 free l have "STable_Create name v k = Ret 0 (k\<lparr>next_free := next_free k + 2, semvals := (semvals k)(next_free k + 1 := Some v),
           psems := (psems k)(next_free k := Some \<lparr>sem = next_free k + 1, sem_name = name\<rparr>),
           semTab := (semTab k)[i := Some (next_free k)]\<rparr>)"
          by (simp add: STable_Create_def Sem_new_def strcpy_def new_semaphore_def Let_def)
        with True free n show thesis by (intro ok)
      next
        case False
        with 2 free show thesis by (intro long) (simp_all add: STable_Create_def Sem_new_def strcpy_def)
      qed
    next
      case full
      with 2 show thesis by (intro that(2)) (simp_all add: STable_Create_def)
    qed
  qed
qed

lemma spans_set_sem:
  assumes "semTab k' = (semTab k)[i := Some a]" "bmsem k' = bmsem k" "pcb k' = pcb k"
  shows "spans k' \<subseteq> insert (a, 1) (spans k)"
  using assms set_update_subset_insert [of "semTab k" i "Some a"] by (auto simp: spans_def)

lemma table_ok_new_sem:
  assumes t: "table_ok k" "i < 10" "semTab k ! i = None"
    and n: "\<And>j a s. j < 10 \<Longrightarrow> semTab k ! j = Some a \<Longrightarrow> psems k a = Some s \<Longrightarrow> sem_name s \<noteq> name"
    and a: "a = next_free k"
    and e: "k' = k\<lparr>next_free := a + 2, semvals := (semvals k)(a + 1 := Some v),
         psems := (psems k)(a := Some \<lparr>sem = a + 1, sem_name = name\<rparr>), semTab := (semTab k)[i := Some a]\<rparr>"
  shows "table_ok k'"
proof -
  have l: "length (semTab k) = 10" using t by (simp add: table_ok_def)
  have sp: "spans k' \<subseteq> insert (a, 1) (spans k)" by (rule spans_set_sem [of _ _ i]) (simp_all add: e)
  have "apart (insert (a, 1) (spans k))" by (rule apart_insert) (use t a in \<open>auto simp: table_ok_def\<close>)
  then have 1: "apart (spans k')" using apart_subset sp by blast
  have 2: "\<forall>x \<in> spans k'. fst x + snd x < next_free k'" using sp t a by (auto simp: e table_ok_def) fastforce
  have 3: "pcb_ok k' j b" if "j < 10" "pcb k' ! j = Some b" for j b
  proof -
    have b: "pcb k ! j = Some b" using that by (simp add: e)
    have "b + 3 < a" using span_bound [OF t(1) pcb_span [OF t(1) that(1) b]] a by simp
    moreover have "pcb_ok k j b" using t that b by (simp add: table_ok_def)
    ultimately show ?thesis by (auto simp: pcb_ok_def e)
  qed
  have old: "b < a \<and> sem_ok k b" if "j < 10" "j \<noteq> i" "semTab k' ! j = Some b" for j b
  proof -
    have b: "semTab k ! j = Some b" using that by (simp add: e)
    then show ?thesis using span_bound [OF t(1) sem_span [OF t(1) that(1) b]] a t that by (auto simp: table_ok_def)
  qed
  have 4: "sem_ok k' b" if "j < 10" "semTab k' ! j = Some b" for j b
  proof (cases "j = i")
    case True
    then show ?thesis using that l by (simp add: e sem_ok_def)
  next
    case False
    then show ?thesis using old [OF that(1) _ that(2)] by (auto simp: sem_ok_def e)
  qed
  have nm: "map_option sem_name (psems k' b) = map_option sem_name (psems k b) \<and> map_option sem_name (psems k b) \<noteq> Some name"
    if "j < 10" "j \<noteq> i" "semTab k' ! j = Some b" for j b
    using old [OF that] n [of j b] that by (auto simp: e)
  have nmi: "semTab k' ! i = Some a" "map_option sem_name (psems k' a) = Some name" using t l by (simp_all add: e)
  have 5: "j = j'" if "j < 10" "j' < 10" "semTab k' ! j = Some b" "semTab k' ! j' = Some c"
    "map_option sem_name (psems k' b) = map_option sem_name (psems k' c)" for j j' b c
  proof (cases "j = i \<or> j' = i")
    case True
    then show ?thesis using nm [of j b] nm [of j' c] nmi that by (metis option.inject)
  next
    case False
    then have "semTab k ! j = Some b" "semTab k ! j' = Some c" using that by (simp_all add: e)
    then show ?thesis using False that nm [of j b] nm [of j' c] t(1) unfolding table_ok_def by metis
  qed
  have 6: "bmsem k < a" using span_bound [OF t(1), of "(bmsem k, 0)"] a by (simp add: spans_def)
  have 7: "length (pcb k') = 10" "psize k' = 10" "length (semTab k') = 10" "semvals k' (bmsem k') \<noteq> None"
    "\<forall>t. pthreads k' t \<noteq> None \<longrightarrow> t < next_free k'"
    using t a 6 by (auto simp: table_ok_def e)
  show ?thesis unfolding table_ok_def using 1 2 3 4 5 7 by blast
qed

lemma Create_segs: "segs (own_slot i) (STable_Create name v k) k"
proof (cases "table_ok k")
  case True
  then show ?thesis
  proof (cases rule: Create_cases [where name = name and v = v])
    case (ok j)
    let ?k = "k\<lparr>next_free := next_free k + 2, semvals := (semvals k)(next_free k + 1 := Some v),
         psems := (psems k)(next_free k := Some \<lparr>sem = next_free k + 1, sem_name = name\<rparr>),
         semTab := (semTab k)[j := Some (next_free k)]\<rparr>"
    have "table_ok ?k" by (rule table_ok_new_sem [OF True ok(2-4) refl refl])
    then have "own_slot i k ?k" by (intro own_slotI) auto
    then show ?thesis unfolding ok(5) by simp
  qed simp_all
next
  case False
  have "segs (own_slot i) c k" if "\<And>k'. own_slot i k k'" "\<forall>s k1 f. c \<noteq> OpP s k1 f" "\<forall>s k1 f. c \<noteq> OpV s k1 f" for c
    using that by (cases c) auto
  moreover have "own_slot i k k'" for k' using False by (simp add: own_slot_def)
  ultimately show ?thesis
    by (simp add: STable_Create_def needE_def split: sum.split prod.split if_split)
qed

lemma set_pcb_simps [simp]:
  "pcb (set_pcb a p k) = pcb k" "psize (set_pcb a p k) = psize k" "bmsem (set_pcb a p k) = bmsem k"
  "semTab (set_pcb a p k) = semTab k" "psems (set_pcb a p k) = psems k" "pthreads (set_pcb a p k) = pthreads k"
  "semvals (set_pcb a p k) = semvals k" "pcbs (set_pcb a p k) = (pcbs k)(a := Some p)"
  "next_free (set_pcb a p k) = next_free k"
  by (simp_all add: set_pcb_def)

lemma nat_lt_10: "i < 10 \<Longrightarrow> nat i < 10" for i :: int
  by linarith

section \<open>Every routine keeps the tables in order\<close>

lemma segs_case_option [intro]:
  "\<lbrakk>x = None \<Longrightarrow> segs R c k; \<And>y. x = Some y \<Longrightarrow> segs R (f y) k\<rbrakk> \<Longrightarrow> segs R (case x of None \<Rightarrow> c | Some y \<Rightarrow> f y) k"
  by (cases x) simp_all

lemma segs_entry_at [intro]: "(\<And>a. segs R (f a) k) \<Longrightarrow> segs R (entry_at k i f) k"
  unfolding entry_at_def by (intro segs_needE) (auto split: option.split)

lemma deref_Inr [simp]: "deref heap p = Inr x \<longleftrightarrow> (\<exists>a. p = Some a \<and> heap a = Some x)"
  by (auto simp: deref_def split: option.split)

lemma fork_process_segs: "segs (own_slot i) (fork_process a name e k) k"
  unfolding fork_process_def Let_def
  by (intro segs_needE) (auto intro!: segs_needE own_slot_new_thread)

lemma IncNumWait_segs: "(\<And>k. segs (own_slot i) (c k) k) \<Longrightarrow> segs (own_slot i) (IncNumWait a k c) k"
  unfolding IncNumWait_def by (intro segs_needE) (auto intro!: segs_needE own_slot_set_pcb)

lemma DecNumWait_segs: "(\<And>k. segs (own_slot i) (c k) k) \<Longrightarrow> segs (own_slot i) (DecNumWait a k c) k"
  unfolding DecNumWait_def by (intro segs_needE) (auto intro!: segs_needE own_slot_set_pcb)

lemma JoinUpdate_segs: "segs (own_slot i) (JoinUpdate me j k) k"
proof -
  have 1: "segs (own_slot i) (Join_collect j k) k" for k
    unfolding Join_collect_def ExitRelease_def by (intro segs_entry_at segs_needE) simp
  have 2: "segs (own_slot i) (Join_wait j k) k" for k
    unfolding Join_wait_def JoinWait_def by (intro segs_entry_at segs_needE) (simp add: 1)
  show ?thesis
    unfolding JoinUpdate_def
    by (auto split: option.split intro!: segs_needE segs_entry_at IncNumWait_segs 2)
qed

lemma ExitUpdate_segs:
  assumes "pthreads k me = Some th" "pt_processID th = i"
  shows "segs (own_slot i) (ExitUpdate me ec k) k"
proof -
  have 1: "segs (own_slot i) (Exit_wait me i k) k" for k
    unfolding Exit_wait_def ExitWait_def Exit_remove_def by (intro segs_entry_at segs_needE) (simp add: Remove_segs)
  have 2: "segs (own_slot i) (Exit_release me i k) k" for k
    unfolding Exit_release_def JoinRelease_def by (intro segs_entry_at segs_needE) (simp add: 1)
  have "own_slot i k (FreeSpace me th k)" unfolding FreeSpace_def by (rule own_slot_thread [OF assms(1)]) simp
  moreover have "segs (own_slot i) (entry_at k i (\<lambda>a. SetExitCode a ec k (\<lambda>k1. needE (deref (pcbs k1) (Some a)) (\<lambda>p.
       entry_at k1 (parentID p) (\<lambda>pa. DecNumWait pa k1 (Exit_release me i)))))) k"
    unfolding SetExitCode_def
  proof (rule segs_entry_at, rule segs_needE)
    fix a p assume p: "deref (pcbs k) (Some a) = Inr p"
    let ?k = "set_pcb a (p\<lparr>exitcode := ec\<rparr>) k"
    have "own_slot i k ?k" using p by (auto intro: own_slot_set_pcb)
    moreover have "segs (own_slot i) (needE (deref (pcbs ?k) (Some a)) (\<lambda>p.
       entry_at ?k (parentID p) (\<lambda>pa. DecNumWait pa ?k (Exit_release me i)))) ?k"
      by (intro segs_needE segs_entry_at DecNumWait_segs 2)
    ultimately show "segs (own_slot i) (needE (deref (pcbs ?k) (Some a)) (\<lambda>p.
       entry_at ?k (parentID p) (\<lambda>pa. DecNumWait pa ?k (Exit_release me i)))) k"
      by (blast intro: own.segs_weaken)
  qed
  ultimately show ?thesis using assms by (cases "i = 0") (simp_all add: ExitUpdate_def Let_def)
qed

lemma GetFreeSlot_cases:
  assumes "table_ok k"
  obtains (free) i where "GetFreeSlot k = Inr (int i)" "i < 10" "pcb k ! i = None" |
    (full) "GetFreeSlot k = Inr (-1)" "\<forall>i < 10. pcb k ! i \<noteq> None"
proof -
  have "bindE (aget (pcb k) i) (\<lambda>e. Inr (e = None)) = Inr (pcb k ! nat i = None)" if "0 \<le> i" "i < 10" for i
    using that assms by (simp add: table_ok_def)
  from searchE_pure [of 0 10 _ "\<lambda>i. pcb k ! nat i = None", OF this] assms
  consider i where "GetFreeSlot k = Inr i" "0 \<le> i" "i < 10" "pcb k ! nat i = None"
    | "GetFreeSlot k = Inr (-1)" "\<forall>i. 0 \<le> i \<and> i < 10 \<longrightarrow> pcb k ! nat i \<noteq> None"
    unfolding GetFreeSlot_def table_ok_def by force
  then show thesis
  proof cases
    case 1
    then show thesis by (intro free [of "nat i"]) auto
  next
    case 2
    then have "\<forall>i < 10. pcb k ! i \<noteq> None" by (metis nat_int of_nat_0_le_iff of_nat_less_iff of_nat_numeral)
    with 2 show thesis by (intro full)
  qed
qed

lemma segs_not_ok: "\<not> table_ok k \<Longrightarrow> segs (own_slot i) c k' \<Longrightarrow> segs (own_slot i) c k"
  by (cases c) (auto simp: own_slot_def)

lemma start_in_slot_segs:
  assumes "\<And>a k. segs (own_slot i) (ex a k) k"
  shows "segs (own_slot i) (start_in_slot me raw name ex k) k"
proof -
  have b: "segs (own_slot i) (bindK (ex a k1) (\<lambda>pid k2. OpV (bmsem k2) k2 (Ret pid))) k1" for a k1
    by (rule own.segs_bindK [OF assms]) simp
  show ?thesis
  proof (cases "table_ok k")
    case True
    then show ?thesis
    proof (cases rule: GetFreeSlot_cases)
      case (free j)
      have "segs (own_slot i) (case x of (a, k1) \<Rightarrow> bindK (ex a k1) (\<lambda>pid k2. OpV (bmsem k2) k2 (Ret pid))) k"
        if "add_process (int j) pid name raw k = Inr x" for x pid
        using that free own.segs_weaken [OF b own_slot_add_process] by (cases x) auto
      with free show ?thesis unfolding start_in_slot_def by (auto intro!: segs_needE)
    qed (simp add: start_in_slot_def)
  next
    case False
    then show ?thesis
      unfolding start_in_slot_def by (auto intro!: segs_needE intro: segs_not_ok [OF False b])
  qed
qed

lemma do_syscall_segs:
  assumes "pthreads k t = Some th" "pt_processID th = i"
  shows "segs (own_slot i) (do_syscall t sc k) k"
proof (cases sc)
  case (Call_Exec nm raw)
  have "segs (own_slot i) (start_in_slot t raw nm (\<lambda>a. PCB_Exec a nm) k) k" for k
    by (rule start_in_slot_segs) (simp add: PCB_Exec_def fork_process_segs)
  then show ?thesis using Call_Exec by (auto simp: ExecUpdate_def intro!: segs_needE)
next
  case (Call_ExecV argv raw)
  have "segs (own_slot i) (start_in_slot t raw nm (\<lambda>a. PCB_ExecV a argv) k) k" for k nm
    by (rule start_in_slot_segs) (simp add: PCB_ExecV_def fork_process_segs split: list.split)
  then show ?thesis using Call_ExecV by (simp add: PTable_ExecV_def)
next
  case (Call_Wait nm)
  then show ?thesis by (auto simp: STable_Wait_def intro!: segs_needE)
next
  case (Call_Signal nm)
  then show ?thesis by (auto simp: STable_Signal_def intro!: segs_needE)
qed (simp_all add: JoinUpdate_segs ExitUpdate_segs [OF assms] Create_segs)

lemma run_entry_segs: "segs (own_slot i) (run_entry space t e k) k"
  unfolding run_entry_def by (auto split: option.split intro!: segs_needE; erule own_slot_thread; simp)

section \<open>The invariant of the running system\<close>

definition resumes :: "int \<Rightarrow> pcode \<Rightarrow> bool" where
  \<comment> \<open>what a thread of process \<open>i\<close> does when the semaphore operation it waits for is done\<close>
  "resumes i c = (case c of OpP s k f \<Rightarrow> \<forall>k2. segs (own_slot i) (f k2) k2
     | OpV s k f \<Rightarrow> \<forall>k2. segs (own_slot i) (f k2) k2 | _ \<Rightarrow> False)"

definition sys_ok :: "Sys \<Rightarrow> bool" where
  "sys_ok \<sigma> \<longleftrightarrow> table_ok (kern \<sigma>) \<and>
     (\<forall>t st. run \<sigma> t = Some st \<longrightarrow> (\<exists>th. pthreads (kern \<sigma>) t = Some th \<and>
        (\<forall>c. st = InKernel c \<longrightarrow> resumes (pt_processID th) c)))"

definition slots_kept :: "nat \<Rightarrow> Procs \<Rightarrow> Procs \<Rightarrow> bool" where
  \<comment> \<open>no slot changes hands, except that thread \<open>t\<close> may give up the slot of its own process\<close>
  "slots_kept t k k' \<longleftrightarrow> (\<forall>j < 10. \<forall>a. pcb k ! j = Some a \<and> pcb k' ! j \<noteq> Some a \<longrightarrow>
     (\<exists>th. pthreads k t = Some th \<and> pt_processID th = int j))"

lemma table_ok_drop_thread:
  assumes "table_ok k"
  shows "table_ok (k\<lparr>pthreads := (pthreads k)(t := None)\<rparr>)"
  by (rule table_ok_cong [OF assms]) (use assms in \<open>auto simp: table_ok_def split: if_splits\<close>)

lemma advance_ok:
  assumes \<sigma>: "sys_ok \<sigma>" and th: "pthreads (kern \<sigma>) t = Some th"
    and k: "table_ok k" "pcb k = pcb (kern \<sigma>)" "pthreads k = pthreads (kern \<sigma>)"
    and c: "segs (own_slot (pt_processID th)) c k"
  shows "sys_ok (advance t \<sigma> c) \<and> slots_kept t (kern \<sigma>) (kern (advance t \<sigma> c))"
proof -
  have own: "table_ok k' \<and> slots_kept t (kern \<sigma>) k' \<and>
      (\<forall>u x. pthreads (kern \<sigma>) u = Some x \<longrightarrow> (\<exists>x'. pthreads k' u = Some x' \<and> pt_processID x' = pt_processID x))"
    if "own_slot (pt_processID th) k k'" for k'
    using that k th unfolding own_slot_def slots_kept_def by auto
  have \<sigma>': "\<exists>x. pthreads k' u = Some x \<and> (\<forall>c. st = InKernel c \<longrightarrow> resumes (pt_processID x) c)"
    if "own_slot (pt_processID th) k k'" "run \<sigma> u = Some st" for k' u st
    using own [OF that(1)] \<sigma> that(2) unfolding sys_ok_def by metis
  show ?thesis
  proof (cases c)
    case (Finished k')
    then have "own_slot (pt_processID th) k k'" using c by simp
    from own [OF this] \<sigma>' [OF this] Finished show ?thesis
      by (auto simp: sys_ok_def table_ok_drop_thread slots_kept_def)
  next
    case (OpP s k' f)
    then have o: "own_slot (pt_processID th) k k'" "resumes (pt_processID th) c" using c by (simp_all add: resumes_def)
    from own [OF o(1)] \<sigma>' [OF o(1)] o(2) OpP th show ?thesis by (fastforce simp: sys_ok_def)
  next
    case (OpV s k' f)
    then have o: "own_slot (pt_processID th) k k'" "resumes (pt_processID th) c" using c by (simp_all add: resumes_def)
    from own [OF o(1)] \<sigma>' [OF o(1)] o(2) OpV th show ?thesis by (fastforce simp: sys_ok_def)
  next
    case (Ret v k')
    then have "own_slot (pt_processID th) k k'" using c by simp
    from own [OF this] \<sigma>' [OF this] Ret th show ?thesis by (fastforce simp: sys_ok_def)
  next
    case (Halted k')
    then have "own_slot (pt_processID th) k k'" using c by simp
    from own [OF this] \<sigma>' [OF this] Halted show ?thesis by (auto simp: sys_ok_def)
  qed (use \<sigma> in \<open>auto simp: sys_ok_def slots_kept_def\<close>)
qed

lemma pstep_ok:
  assumes "pstep space t \<sigma> \<sigma>'" "sys_ok \<sigma>"
  shows "sys_ok \<sigma>' \<and> slots_kept t (kern \<sigma>) (kern \<sigma>')"
  using assms
proof cases
  case (call v sc)
  then obtain th where th: "pthreads (kern \<sigma>) t = Some th" using assms(2) unfolding sys_ok_def by blast
  show ?thesis
    unfolding call by (rule advance_ok [OF assms(2) th _ _ _ do_syscall_segs [OF th refl]])
      (use assms(2) in \<open>auto simp: sys_ok_def\<close>)
next
  case (P_done s k0 c v)
  then obtain th where th: "pthreads (kern \<sigma>) t = Some th" "resumes (pt_processID th) (OpP s k0 c)"
    using assms(2) unfolding sys_ok_def by blast
  show ?thesis unfolding P_done
    by (rule advance_ok [OF assms(2) th(1), where k = "set_sem s (v - 1) (kern \<sigma>)"])
      (use assms(2) th(2) in \<open>auto simp: sys_ok_def table_ok_set_sem resumes_def\<close>)
next
  case (V_done s k0 c v)
  then obtain th where th: "pthreads (kern \<sigma>) t = Some th" "resumes (pt_processID th) (OpV s k0 c)"
    using assms(2) unfolding sys_ok_def by blast
  show ?thesis unfolding V_done
    by (rule advance_ok [OF assms(2) th(1), where k = "set_sem s (v + 1) (kern \<sigma>)"])
      (use assms(2) th(2) in \<open>auto simp: sys_ok_def table_ok_set_sem resumes_def\<close>)
next
  case (start th e)
  show ?thesis
    unfolding start by (rule advance_ok [OF assms(2) start(4) _ _ _ run_entry_segs])
      (use assms(2) in \<open>auto simp: sys_ok_def\<close>)
qed

section \<open>The system at boot\<close>

definition procs0 :: "byte list \<Rightarrow> Procs" where
  \<comment> \<open>before the tables exist: the main thread, at address 0\<close>
  "procs0 name = \<lparr>pcb = [], psize = 0, bmsem = 0, semTab = [], pcbs = \<lambda>_. None, psems = \<lambda>_. None,
     semvals = \<lambda>_. None, pthreads = (\<lambda>_. None)(0 := Some \<lparr>pt_name = name, pt_processID = 0, pt_space = True, pt_entry = None\<rparr>),
     next_free = 1\<rparr>"

definition boot_procs :: "byte list \<Rightarrow> PCB \<Rightarrow> Procs result" where
  \<comment> \<open>\<open>semTab = new STable(); pTab = new PTable();\<close>\<close>
  "boot_procs name raw = PTable_new 0 raw (STable_new (procs0 name))"

definition sys0 :: "Procs \<Rightarrow> Sys" where
  "sys0 k = \<lparr>kern = k, run = (\<lambda>_. None)(0 := Some (User 0)), stopped = None\<rparr>"

definition psteps :: "(byte list \<Rightarrow> fault option) \<Rightarrow> Sys \<Rightarrow> Sys \<Rightarrow> bool" where
  "psteps space = (\<lambda>\<sigma> \<sigma>'. \<exists>t. pstep space t \<sigma> \<sigma>')\<^sup>*\<^sup>*"

lemma boot_procs_eq: "boot_procs name raw = Inr \<lparr>pcb = Some 2 # replicate 9 None, psize = 10, bmsem = 1,
    semTab = replicate 10 None,
    pcbs = (\<lambda>_. None)(2 := Some (raw\<lparr>pcb_processID := 0, joinsem := 3, exitsem := 4, mutex := 5,
      filename := [109, 97, 105, 110, 116, 104, 114, 101, 97, 100], thread := Some 0, parentID := -1\<rparr>)),
    psems = \<lambda>_. None, semvals = (\<lambda>_. None)(1 := Some 1, 3 := Some 0, 4 := Some 0, 5 := Some 1),
    pthreads = (\<lambda>_. None)(0 := Some \<lparr>pt_name = name, pt_processID = 0, pt_space = True, pt_entry = None\<rparr>),
    next_free = 6\<rparr>"
  by (simp add: boot_procs_def PTable_new_def STable_new_def procs0_def new_semaphore_def PCB_new_def strcpy_def
    set_pcb_def Let_def eval_nat_numeral)

lemma boot_ok: "boot_procs name raw = Inr k \<Longrightarrow> sys_ok (sys0 k)"
  unfolding boot_procs_eq
  by (auto simp: sys_ok_def sys0_def table_ok_def spans_def apart_def pcb_ok_def nth_Cons'
      split: if_splits)

lemma psteps_ok: "psteps space \<sigma> \<sigma>' \<Longrightarrow> sys_ok \<sigma> \<Longrightarrow> sys_ok \<sigma>'"
  unfolding psteps_def by (induction rule: rtranclp_induct) (auto dest: pstep_ok)

section \<open>Properties\<close>

text \<open>
  C8. The process table under every interleaving. In every state the system reaches from boot,
  whatever system calls the processes make and however their threads are interleaved at \<open>P\<close> and \<open>V\<close>:
  the table has ten slots, slot \<open>i\<close> is empty or holds the PCB of process \<open>i\<close> with its three
  semaphores alive, the objects of different slots and of the semaphore table do not overlap, the
  names in the semaphore table are different; and a step of a thread never takes a slot away from a
  process other than the thread's own.
\<close>

theorem process_table_invariant:
  assumes "boot_procs name raw = Inr k" and "psteps space (sys0 k) \<sigma>" and "pstep space t \<sigma> \<sigma>'"
  shows "table_ok (kern \<sigma>) \<and> table_ok (kern \<sigma>') \<and> slots_kept t (kern \<sigma>) (kern \<sigma>')"
  using pstep_ok [OF assms(3) psteps_ok [OF assms(2) boot_ok [OF assms(1)]]] psteps_ok [OF assms(2) boot_ok [OF assms(1)]]
  by (simp add: sys_ok_def)

theorem process_table_invariant_witness:
  "\<exists>k. boot_procs [97] raw0 = Inr k \<and>
     table_ok (kern (advance 0 (sys0 k) (do_syscall 0 (Call_CreateSemaphore [115] 3) k)))"
proof -
  obtain k where k: "boot_procs [97] raw0 = Inr k" by (simp add: boot_procs_eq)
  have "pstep (\<lambda>_. None) 0 (sys0 k) (advance 0 (sys0 k) (do_syscall 0 (Call_CreateSemaphore [115] 3) (kern (sys0 k))))"
    by (rule pstep.call) (simp_all add: sys0_def)
  from process_table_invariant [OF k _ this] k show ?thesis by (auto simp: psteps_def sys0_def)
qed

section \<open>Exec on its own\<close>

primrec alone :: "pcode \<Rightarrow> ((cint \<times> Procs) result) option" where
  \<comment> \<open>the call runs to its end with no other thread in between; \<open>None\<close> when it sleeps or does not return\<close>
  "alone (Ret v k) = Some (Inr (v, k))"
| "alone (Fault e) = Some (Inl e)"
| "alone (Halted k) = None"
| "alone (Finished k) = None"
| "alone (OpP s k c) = (case semvals k s of None \<Rightarrow> None
     | Some v \<Rightarrow> if v = 0 then None else alone (c (set_sem s (v - 1) k)))"
| "alone (OpV s k c) = (case semvals k s of None \<Rightarrow> None | Some v \<Rightarrow> alone (c (set_sem s (v + 1) k)))"

lemma set_sem_set_sem [simp]: "set_sem s v (set_sem s w k) = set_sem s v k"
  by (simp add: set_sem_def)

lemma set_sem_id: "semvals k s = Some v \<Longrightarrow> set_sem s v k = k"
  by (simp add: set_sem_def fun_upd_idem)

lemma add_process_ok:
  assumes "0 \<le> index" "index < int (length (pcb k))" "length name < 128"
  shows "\<exists>k'. add_process index parent name raw k = Inr (next_free k, k')"
  using assms by (simp add: add_process_def PCB_new_def new_semaphore_def strcpy_def set_pcb_def Let_def)

text \<open>
  C19. Exec. Run without interference from a well-formed table, with \<open>bmsem\<close> free: a program that
  names itself, and any program when all ten slots are taken, gets -1 and nothing has changed.
  Otherwise Exec returns the number of a slot that was free; this slot now holds a new PCB whose
  process id is the slot, whose parent is the caller and whose name is the file; a new thread with
  this process id, which will run \<open>StartProcess_1\<close> on the PCB, has been forked; all other slots are as
  before, \<open>bmsem\<close> is free again and the table is still well-formed.
\<close>

theorem exec_functional:
  assumes "table_ok k" and "semvals k (bmsem k) = Some 1" and "pthreads k me = Some cur" and "length name < 128"
  shows "(name = pt_name cur \<or> (\<forall>i < 10. pcb k ! i \<noteq> None) \<longrightarrow> alone (ExecUpdate me raw (Some name) k) = Some (Inr (-1, k))) \<and>
    (name \<noteq> pt_name cur \<and> (\<exists>i < 10. pcb k ! i = None) \<longrightarrow>
      (\<exists>i a p t k'. alone (ExecUpdate me raw (Some name) k) = Some (Inr (word_of_int (int i), k')) \<and> i < 10 \<and>
         pcb k ! i = None \<and> pcb k' = (pcb k)[i := Some a] \<and> pcbs k' a = Some p \<and> pcb_processID p = int i \<and>
         parentID p = pt_processID cur \<and> filename p = name \<and> thread p = Some t \<and> pthreads k t = None \<and>
         pthreads k' = (pthreads k)(t := Some \<lparr>pt_name = name, pt_processID = int i, pt_space = False, pt_entry = Some (StartProcess_1 a)\<rparr>) \<and>
         semvals k' (bmsem k') = Some 1 \<and> table_ok k'))"
proof -
  let ?bm = "bmsem k"
  let ?k1 = "set_sem ?bm 0 k"
  have again: "set_sem ?bm 1 k = k" by (rule set_sem_id [OF assms(2)])
  have t1: "table_ok ?k1" by (rule table_ok_set_sem [OF assms(1)])
  have start: "alone (ExecUpdate me raw (Some name) k) =
      alone (if name = pt_name cur then OpV ?bm ?k1 (Ret (-1)) else start_in_slot me raw name (\<lambda>a. PCB_Exec a name) ?k1)"
    using assms(2,3) by (simp add: ExecUpdate_def)
  show ?thesis using t1
  proof (cases rule: GetFreeSlot_cases)
    case full
    then have "alone (ExecUpdate me raw (Some name) k) = Some (Inr (-1, k))"
      using start again by (simp add: start_in_slot_def)
    moreover have "\<not> (\<exists>i < 10. pcb k ! i = None)" using full by auto
    ultimately show ?thesis by blast
  next
    case (free i)
    show ?thesis
    proof (cases "name = pt_name cur")
      case False
      let ?a = "next_free k"
      obtain k2 where k2: "add_process (int i) (pt_processID cur) name raw ?k1 = Inr (?a, k2)"
        using add_process_ok [of "int i" ?k1 name "pt_processID cur" raw] free t1 assms(4) by (auto simp: table_ok_def)
      note e = conjunct2 [OF conjunct2 [OF conjunct2 [OF add_process_eq [OF k2]]]]
      have t2: "table_ok k2" using own_slot_add_process [OF k2, of 0] free t1 by (simp add: own_slot_def)
      let ?p = "the (pcbs k2 ?a)" and ?t = "next_free (set_sem (next_free k + 3) 0 k2)"
      let ?th = "\<lparr>pt_name = name, pt_processID = int i, pt_space = False, pt_entry = Some (StartProcess_1 ?a)\<rparr>"
      let ?k3 = "set_sem (?a + 3) 0 k2"
      let ?k4 = "set_pcb ?a (?p\<lparr>thread := Some ?t\<rparr>) (?k3\<lparr>next_free := Suc ?t, pthreads := (pthreads ?k3)(?t := Some ?th)\<rparr>)"
      let ?k' = "set_sem ?bm 1 (set_sem (?a + 3) 1 ?k4)"
      have bm: "?bm < ?a" using span_bound [OF assms(1), of "(?bm, 0)"] by (simp add: spans_def)
      have f: "pcbs k2 ?a = Some ?p" "pcb_processID ?p = int i" "mutex ?p = ?a + 3" "parentID ?p = pt_processID cur"
        "filename ?p = name" "semvals k2 (?a + 3) = Some 1" "bmsem k2 = ?bm" "pthreads k2 = pthreads k"
        "semvals k2 ?bm = Some 0" "pcb k2 = (pcb k)[i := Some ?a]" "?t = ?a + 4"
        using bm by (simp_all add: e)
      have "own_slot 0 ?k3 ?k4"
        by (rule own_slot_new_thread [of ?k3 ?a ?p]) (use f in simp_all)
      then have t4: "table_ok ?k4" using table_ok_set_sem [OF t2] unfolding own_slot_def by blast
      have "alone (ExecUpdate me raw (Some name) k) = Some (Inr (word_of_int (int i), ?k'))"
        using False free start k2 f bm assms(3)
        by (simp add: start_in_slot_def PCB_Exec_def fork_process_def Let_def)
      moreover have "table_ok ?k'" by (intro table_ok_set_sem t4)
      moreover have "pthreads k ?t = None" using assms(1) f(11) unfolding table_ok_def by (metis not_add_less1)
      moreover have "pcbs ?k' ?a = Some (?p\<lparr>thread := Some ?t\<rparr>)" "semvals ?k' (bmsem ?k') = Some 1" "pcb ?k' = (pcb k)[i := Some ?a]"
        "pthreads ?k' = (pthreads k)(?t := Some ?th)"
        using f by (simp_all add: set_pcb_def)
      moreover have "pcb_processID (?p\<lparr>thread := Some ?t\<rparr>) = int i" "parentID (?p\<lparr>thread := Some ?t\<rparr>) = pt_processID cur"
        "filename (?p\<lparr>thread := Some ?t\<rparr>) = name" "thread (?p\<lparr>thread := Some ?t\<rparr>) = Some ?t" using f by simp_all
      moreover have "i < 10" "pcb k ! i = None" using free by simp_all
      ultimately show ?thesis using False by blast
    qed (use start again free in auto)
  qed
qed

theorem exec_functional_witness:
  "\<exists>k i k'. boot_procs [97] raw0 = Inr k \<and> alone (ExecUpdate 0 raw0 (Some [98]) k) = Some (Inr (word_of_int (int i), k')) \<and>
     0 < i \<and> i < 10 \<and> pcb k' ! i \<noteq> None"
proof -
  obtain k where k: "boot_procs [97] raw0 = Inr k" by (simp add: boot_procs_eq)
  have t: "table_ok k" using boot_ok [OF k] by (simp add: sys_ok_def sys0_def)
  have f: "semvals k (bmsem k) = Some 1" "pcb k = Some 2 # replicate 9 None"
    "pthreads k 0 = Some \<lparr>pt_name = [97], pt_processID = 0, pt_space = True, pt_entry = None\<rparr>"
    using k by (auto simp: boot_procs_eq)
  have "pcb k ! 1 = None" using f by simp
  then have "\<exists>i < 10. pcb k ! i = None" by (intro exI [of _ 1]) simp
  with exec_functional [OF t f(1,3), of "[98]" raw0]
  obtain i a p t k' where r: "alone (ExecUpdate 0 raw0 (Some [98]) k) = Some (Inr (word_of_int (int i), k'))" "i < 10"
    "pcb k ! i = None" "pcb k' = (pcb k)[i := Some a]" by auto
  have "pcb k' ! i = Some a" unfolding r(4) by (rule nth_list_update_eq) (use r(2) f(2) in simp)
  moreover have "0 < i" using r(3) f(2) by (cases i) auto
  ultimately show ?thesis using r k by (intro exI [of _ k] exI [of _ i] exI [of _ k']) simp
qed

section \<open>What goes wrong\<close>

text \<open>A process whose parent has left the table cannot exit: \<open>ExitUpdate\<close> follows a null pointer.\<close>

lemma orphan_exit_faults:
  assumes "table_ok k" "pthreads k me = Some th" "pt_processID th = int i" "0 < i" "i < 10" "pcb k ! i = Some a"
    "pcbs k a = Some p" "0 \<le> parentID p" "parentID p < 10" "pcb k ! nat (parentID p) = None"
  shows "ExitUpdate me x k = Fault BadAccess"
  using assms by (simp add: ExitUpdate_def Let_def entry_at_def SetExitCode_def table_ok_def)

text \<open>\<open>P\<close> tests for zero: a semaphore created with a negative value never makes anyone wait.\<close>

lemma negative_semaphore_never_blocks:
  assumes "stopped \<sigma> = None" "run \<sigma> t = Some (InKernel (OpP s k c))" "semvals (kern \<sigma>) s = Some v" "v < 0"
  shows "\<exists>\<sigma>'. pstep space t \<sigma> \<sigma>'"
  using pstep.P_done [OF assms(1-3)] assms(4) by (metis order_less_irrefl)

end
