(* ===== verification/Process_Join.thy ===== *)
theory Process_Join
  imports Process_Table
begin

text \<open>
  The rendezvous of \<open>JoinUpdate\<close> and \<open>ExitUpdate\<close>: two counters, one per thread, say where parent and
  child are, and the values of the three semaphores they use are functions of the counters.
\<close>

section \<open>Join and Exit meet\<close>

text \<open>
  A parent (thread \<open>tp\<close>) that joins its child \<open>ci\<close> and the child (thread \<open>tc\<close>) that exits with \<open>ec\<close>,
  each making its call when it likes, interleaved with anything other threads do that does not
  concern these two processes. The counter counts the steps of the two threads.
\<close>

record pair =
  tp :: nat
  tc :: nat
  ci :: int
  ec :: cint
  slot_p :: nat     \<comment> \<open>the parent's slot, its process id\<close>
  pa :: nat         \<comment> \<open>the parent's PCB\<close>
  ca :: nat         \<comment> \<open>the child's PCB\<close>
  msem :: nat       \<comment> \<open>the parent's mutex\<close>
  jsem :: nat       \<comment> \<open>the child's \<open>joinsem\<close>\<close>
  esem :: nat       \<comment> \<open>the child's \<open>exitsem\<close>\<close>

definition undisturbed :: "pair \<Rightarrow> Sys \<Rightarrow> Sys \<Rightarrow> bool" where
  "undisturbed d \<sigma> \<sigma>' \<longleftrightarrow> stopped \<sigma>' = stopped \<sigma> \<and> run \<sigma>' (tp d) = run \<sigma> (tp d) \<and> run \<sigma>' (tc d) = run \<sigma> (tc d) \<and>
     (let k = kern \<sigma>; k' = kern \<sigma>' in length (pcb k') = length (pcb k) \<and> psize k' = psize k \<and>
       pcb k' ! slot_p d = pcb k ! slot_p d \<and> pcb k' ! nat (ci d) = pcb k ! nat (ci d) \<and>
       pcbs k' (pa d) = pcbs k (pa d) \<and> pcbs k' (ca d) = pcbs k (ca d) \<and>
       pthreads k' (tp d) = pthreads k (tp d) \<and> pthreads k' (tc d) = pthreads k (tc d) \<and>
       semvals k' (msem d) = semvals k (msem d) \<and> semvals k' (jsem d) = semvals k (jsem d) \<and>
       semvals k' (esem d) = semvals k (esem d))"

inductive meeting :: "pair \<Rightarrow> Sys \<times> bool \<times> bool \<times> nat \<Rightarrow> Sys \<times> bool \<times> bool \<times> nat \<Rightarrow> bool" for d where
  join: "stopped \<sigma> = None \<Longrightarrow> run \<sigma> (tp d) = Some (User v) \<Longrightarrow>
    meeting d (\<sigma>, False, e, n) (advance (tp d) \<sigma> (do_syscall (tp d) (Call_Join (ci d)) (kern \<sigma>)), True, e, n + 1)"
| exit: "stopped \<sigma> = None \<Longrightarrow> run \<sigma> (tc d) = Some (User v) \<Longrightarrow>
    meeting d (\<sigma>, j, False, n) (advance (tc d) \<sigma> (do_syscall (tc d) (Call_Exit (ec d)) (kern \<sigma>)), j, True, n + 1)"
| go: "t = tp d \<or> t = tc d \<Longrightarrow> run \<sigma> t = Some (InKernel c) \<Longrightarrow> pstep space t \<sigma> \<sigma>' \<Longrightarrow>
    meeting d (\<sigma>, j, e, n) (\<sigma>', j, e, n + 1)"
| others: "undisturbed d \<sigma> \<sigma>' \<Longrightarrow> meeting d (\<sigma>, j, e, n) (\<sigma>', j, e, n)"

definition Join_inc :: "pair \<Rightarrow> Procs \<Rightarrow> pcode" where
  "Join_inc d k1 = needE (deref (pcbs k1) (Some (pa d))) (\<lambda>p1.
     OpV (mutex p1) (set_pcb (pa d) (p1\<lparr>numwait := numwait p1 + 1\<rparr>) k1) (Join_wait (ci d)))"

definition Exit_dec :: "pair \<Rightarrow> Procs \<Rightarrow> pcode" where
  "Exit_dec d k1 = needE (deref (pcbs k1) (Some (pa d))) (\<lambda>p1.
     OpV (mutex p1) (if sint (numwait p1) > 0 then set_pcb (pa d) (p1\<lparr>numwait := numwait p1 - 1\<rparr>) k1 else k1)
       (Exit_release (tc d) (ci d)))"

text \<open>Where the parent and the child are after \<open>a\<close> and \<open>b\<close> steps of their own.\<close>

definition at_join :: "pair \<Rightarrow> nat \<Rightarrow> tstate option \<Rightarrow> bool" where
  "at_join d a st \<longleftrightarrow>
     (a = 0 \<and> (\<exists>v. st = Some (User v))) \<or>
     (a = 1 \<and> (\<exists>k. st = Some (InKernel (OpP (msem d) k (Join_inc d))))) \<or>
     (a = 2 \<and> (\<exists>k. st = Some (InKernel (OpV (msem d) k (Join_wait (ci d)))))) \<or>
     (a = 3 \<and> (\<exists>k. st = Some (InKernel (OpP (jsem d) k (Join_collect (ci d)))))) \<or>
     (a = 4 \<and> (\<exists>k c. st = Some (InKernel (OpV (esem d) k c)) \<and> (\<forall>k. c k = Ret (ec d) k))) \<or>
     (a = 5 \<and> st = Some (User (ec d)))"

definition at_exit :: "pair \<Rightarrow> nat \<Rightarrow> tstate option \<Rightarrow> bool" where
  "at_exit d b st \<longleftrightarrow>
     (b = 0 \<and> (\<exists>v. st = Some (User v))) \<or>
     (b = 1 \<and> (\<exists>k. st = Some (InKernel (OpP (msem d) k (Exit_dec d))))) \<or>
     (b = 2 \<and> (\<exists>k. st = Some (InKernel (OpV (msem d) k (Exit_release (tc d) (ci d)))))) \<or>
     (b = 3 \<and> (\<exists>k. st = Some (InKernel (OpV (jsem d) k (Exit_wait (tc d) (ci d)))))) \<or>
     (b = 4 \<and> (\<exists>k. st = Some (InKernel (OpP (esem d) k (Exit_remove (tc d) (ci d)))))) \<or>
     (b = 5 \<and> st = None)"

definition pair_ok :: "pair \<Rightarrow> Procs \<Rightarrow> nat \<Rightarrow> bool" where
  \<comment> \<open>the table entries of the two processes when the child has made \<open>b\<close> steps\<close>
  "pair_ok d k b \<longleftrightarrow> length (pcb k) = 10 \<and> psize k = 10 \<and> slot_p d < 10 \<and> 0 < ci d \<and> ci d < 10 \<and>
     int (slot_p d) \<noteq> ci d \<and> tp d \<noteq> tc d \<and> pa d \<noteq> ca d \<and> distinct [msem d, jsem d, esem d] \<and>
     pcb k ! slot_p d = Some (pa d) \<and> (\<exists>p. pcbs k (pa d) = Some p \<and> mutex p = msem d) \<and>
     (\<exists>th. pthreads k (tp d) = Some th \<and> pt_processID th = int (slot_p d)) \<and>
     (if b < 5 then pcb k ! nat (ci d) = Some (ca d) \<and>
        (\<exists>p. pcbs k (ca d) = Some p \<and> joinsem p = jsem d \<and> exitsem p = esem d \<and> mutex p \<notin> {msem d, jsem d, esem d} \<and>
           parentID p = int (slot_p d) \<and> thread p = Some (tc d) \<and> (0 < b \<longrightarrow> exitcode p = ec d)) \<and>
        (\<exists>th. pthreads k (tc d) = Some th \<and> pt_processID th = ci d)
      else pcb k ! nat (ci d) = None \<and> pthreads k (tc d) = None)"

definition meet_at :: "pair \<Rightarrow> nat \<Rightarrow> nat \<Rightarrow> Sys \<times> bool \<times> bool \<times> nat \<Rightarrow> bool" where
  "meet_at d a b X \<longleftrightarrow> (case X of (\<sigma>, j, e, n) \<Rightarrow>
     n = a + b \<and> j = (0 < a) \<and> e = (0 < b) \<and> stopped \<sigma> = None \<and> at_join d a (run \<sigma> (tp d)) \<and> at_exit d b (run \<sigma> (tc d)) \<and>
     pair_ok d (kern \<sigma>) b \<and> (4 \<le> a \<longrightarrow> 4 \<le> b) \<and> (b = 5 \<longrightarrow> a = 5) \<and> \<not> (a = 2 \<and> b = 2) \<and>
     semvals (kern \<sigma>) (msem d) = Some (if a = 2 \<or> b = 2 then 0 else 1) \<and>
     (b < 5 \<longrightarrow> semvals (kern \<sigma>) (jsem d) = Some (if b = 4 \<and> a < 4 then 1 else 0) \<and>
               semvals (kern \<sigma>) (esem d) = Some (if a = 5 then 1 else 0)))"

lemma pair_ok_set_sem [simp]: "pair_ok d (set_sem s v k) b = pair_ok d k b"
  by (simp add: pair_ok_def)

lemma pair_ok_later: "pair_ok d k b \<Longrightarrow> 0 < b \<Longrightarrow> b < 5 \<Longrightarrow> 0 < b' \<Longrightarrow> b' < 5 \<Longrightarrow> pair_ok d k b'"
  by (simp add: pair_ok_def)

lemma join_calls: "pair_ok d k b \<Longrightarrow> b < 5 \<Longrightarrow> do_syscall (tp d) (Call_Join (ci d)) k = OpP (msem d) k (Join_inc d)"
  by (auto simp: pair_ok_def JoinUpdate_def entry_at_def IncNumWait_def Join_inc_def fun_eq_iff nat_lt_10)

lemma join_incs:
  assumes "pair_ok d k b"
  shows "\<exists>k'. Join_inc d k = OpV (msem d) k' (Join_wait (ci d)) \<and> pair_ok d k' b \<and> semvals k' = semvals k"
proof -
  obtain p where p: "pcbs k (pa d) = Some p" "mutex p = msem d" using assms by (auto simp: pair_ok_def)
  moreover have "pair_ok d (set_pcb (pa d) (p\<lparr>numwait := numwait p + 1\<rparr>) k) b"
    using assms p by (auto simp: pair_ok_def)
  ultimately show ?thesis by (simp add: Join_inc_def)
qed

lemma join_waits: "pair_ok d k b \<Longrightarrow> b < 5 \<Longrightarrow> Join_wait (ci d) k = OpP (jsem d) k (Join_collect (ci d))"
  by (auto simp: pair_ok_def Join_wait_def entry_at_def JoinWait_def nat_lt_10)

lemma pair_ok_child:
  assumes "pair_ok d k b" "b < 5"
  obtains p th where "pcbs k (ca d) = Some p" "joinsem p = jsem d" "exitsem p = esem d" "thread p = Some (tc d)"
    "mutex p \<notin> {msem d, jsem d, esem d}" "0 < b \<longrightarrow> exitcode p = ec d" "parentID p = int (slot_p d)"
    "pthreads k (tc d) = Some th" "pt_processID th = ci d" "0 < ci d" "ci d < int (length (pcb k))"
    "pcb k ! nat (ci d) = Some (ca d)"
  using assms unfolding pair_ok_def by auto

lemma join_collects:
  assumes "pair_ok d k b" "0 < b" "b < 5"
  shows "\<exists>c. Join_collect (ci d) k = OpV (esem d) k c \<and> (\<forall>k. c k = Ret (ec d) k)"
proof -
  obtain p where p: "pcbs k (ca d) = Some p" "exitsem p = esem d" "exitcode p = ec d" "0 < ci d"
    "ci d < int (length (pcb k))" "pcb k ! nat (ci d) = Some (ca d)"
    by (rule pair_ok_child [OF assms(1,3)]) (use assms(2) in blast)
  then have "aget (pcb k) (ci d) = Inr (Some (ca d))" "deref (pcbs k) (Some (ca d)) = Inr p" by simp_all
  then have "Join_collect (ci d) k = OpV (esem d) k (Ret (ec d))"
    by (simp only: Join_collect_def entry_at_def ExitRelease_def needE_simps option.case p)
  then show ?thesis by blast
qed

lemma exit_calls:
  assumes "pair_ok d k 0"
  shows "\<exists>k'. do_syscall (tc d) (Call_Exit (ec d)) k = OpP (msem d) k' (Exit_dec d) \<and> pair_ok d k' 1 \<and> semvals k' = semvals k"
proof -
  obtain p where p: "pcbs k (ca d) = Some p" "joinsem p = jsem d" "exitsem p = esem d" "parentID p = int (slot_p d)"
    "thread p = Some (tc d)" using assms by (auto simp: pair_ok_def)
  let ?k = "set_pcb (ca d) (p\<lparr>exitcode := ec d\<rparr>) k"
  have ok: "pair_ok d ?k 1" using assms p by (auto simp: pair_ok_def)
  then have "DecNumWait (pa d) ?k (Exit_release (tc d) (ci d)) = OpP (msem d) ?k (Exit_dec d)"
    by (auto simp: pair_ok_def DecNumWait_def Exit_dec_def fun_eq_iff)
  moreover have "do_syscall (tc d) (Call_Exit (ec d)) k = DecNumWait (pa d) ?k (Exit_release (tc d) (ci d))"
  proof -
    obtain th where th: "pthreads k (tc d) = Some th" "pt_processID th = ci d" using assms by (auto simp: pair_ok_def)
    have i: "0 < ci d" "ci d < int (length (pcb k))" "pcb k ! nat (ci d) = Some (ca d)" "slot_p d < length (pcb k)"
      "pcb k ! slot_p d = Some (pa d)" using assms by (auto simp: pair_ok_def)
    show ?thesis using i th p by (simp add: ExitUpdate_def Let_def entry_at_def SetExitCode_def)
  qed
  ultimately show ?thesis using ok by simp
qed

lemma exit_decs:
  assumes "pair_ok d k b"
  shows "\<exists>k'. Exit_dec d k = OpV (msem d) k' (Exit_release (tc d) (ci d)) \<and> pair_ok d k' b \<and> semvals k' = semvals k"
proof -
  obtain p where p: "pcbs k (pa d) = Some p" "mutex p = msem d" using assms by (auto simp: pair_ok_def)
  moreover have "pair_ok d (set_pcb (pa d) (p\<lparr>numwait := numwait p - 1\<rparr>) k) b"
    using assms p by (auto simp: pair_ok_def)
  ultimately show ?thesis using assms by (simp add: Exit_dec_def)
qed

lemma exit_releases: "pair_ok d k b \<Longrightarrow> b < 5 \<Longrightarrow> Exit_release (tc d) (ci d) k = OpV (jsem d) k (Exit_wait (tc d) (ci d))"
  by (auto simp: pair_ok_def Exit_release_def entry_at_def JoinRelease_def nat_lt_10)

lemma exit_waits: "pair_ok d k b \<Longrightarrow> b < 5 \<Longrightarrow> Exit_wait (tc d) (ci d) k = OpP (esem d) k (Exit_remove (tc d) (ci d))"
  by (auto simp: pair_ok_def Exit_wait_def entry_at_def ExitWait_def nat_lt_10)

lemma exit_removes:
  assumes "pair_ok d k 4"
  shows "\<exists>k'. Exit_remove (tc d) (ci d) k = Finished k' \<and>
    pair_ok d (k'\<lparr>pthreads := (pthreads k')(tc d := None)\<rparr>) 5 \<and> semvals k' (msem d) = semvals k (msem d)"
proof -
  obtain p th where p: "pcbs k (ca d) = Some p" "joinsem p = jsem d" "exitsem p = esem d" "thread p = Some (tc d)"
    "mutex p \<notin> {msem d, jsem d, esem d}" "pthreads k (tc d) = Some th"
    and i: "0 < ci d" "ci d < int (length (pcb k))" "pcb k ! nat (ci d) = Some (ca d)"
    by (rule pair_ok_child [OF assms]) (simp, blast)
  let ?k = "FreeSpace (tc d) th (delete_semaphore (mutex p) (delete_semaphore (exitsem p) (delete_semaphore (joinsem p)
      (k\<lparr>pcb := (pcb k)[nat (ci d) := None]\<rparr>))))"
  have r: "Exit_remove (tc d) (ci d) k = Finished ?k"
    using i p by (simp add: Exit_remove_def Remove_def PCB_delete_def Let_def delete_semaphore_def)
  have f: "pcb ?k = (pcb k)[nat (ci d) := None]" "psize ?k = psize k" "pcbs ?k = pcbs k"
    "pthreads ?k = (pthreads k)(tc d := Some (th\<lparr>pt_space := False\<rparr>))"
    "semvals ?k = (semvals k)(jsem d := None, esem d := None, mutex p := None)"
    using p by (simp_all add: FreeSpace_def delete_semaphore_def)
  obtain u pp where u: "length (pcb k) = 10" "psize k = 10" "slot_p d < 10" "0 < ci d" "ci d < 10" "int (slot_p d) \<noteq> ci d"
     "tp d \<noteq> tc d" "pa d \<noteq> ca d" "distinct [msem d, jsem d, esem d]" "pcb k ! slot_p d = Some (pa d)"
     "pcbs k (pa d) = Some pp" "mutex pp = msem d" "pthreads k (tp d) = Some u" "pt_processID u = int (slot_p d)"
    using assms unfolding pair_ok_def by blast
  have s: "slot_p d \<noteq> nat (ci d)" "nat (ci d) < 10" using u by auto
  have "pair_ok d (?k\<lparr>pthreads := (pthreads ?k)(tc d := None)\<rparr>) 5"
    using u s unfolding pair_ok_def by (simp add: f)
  moreover have "semvals ?k (msem d) = semvals k (msem d)" using p(5) u(9) by (auto simp: f)
  ultimately show ?thesis using r by blast
qed

lemma advance_simps [simp]:
  "stopped (advance t \<sigma> (Ret v k)) = stopped \<sigma>" "kern (advance t \<sigma> (Ret v k)) = k"
  "stopped (advance t \<sigma> (OpP s k c)) = stopped \<sigma>" "kern (advance t \<sigma> (OpP s k c)) = k"
  "stopped (advance t \<sigma> (OpV s k c)) = stopped \<sigma>" "kern (advance t \<sigma> (OpV s k c)) = k"
  by simp_all

lemma pstep_OpP:
  assumes "pstep space t \<sigma> \<sigma>'" "run \<sigma> t = Some (InKernel (OpP s k0 c))"
  obtains v where "semvals (kern \<sigma>) s = Some v" "v \<noteq> 0" "\<sigma>' = advance t \<sigma> (c (set_sem s (v - 1) (kern \<sigma>)))"
  using assms by cases auto

lemma pstep_OpV:
  assumes "pstep space t \<sigma> \<sigma>'" "run \<sigma> t = Some (InKernel (OpV s k0 c))"
  obtains v where "semvals (kern \<sigma>) s = Some v" "\<sigma>' = advance t \<sigma> (c (set_sem s (v + 1) (kern \<sigma>)))"
  using assms by cases auto

lemma parent_step:
  assumes m: "meet_at d a b (\<sigma>, j, e, n)" and st: "pstep space (tp d) \<sigma> \<sigma>'" "run \<sigma> (tp d) = Some (InKernel c)"
  shows "meet_at d (Suc a) b (\<sigma>', j, e, n + 1)"
proof -
  let ?k = "kern \<sigma>"
  have ok: "pair_ok d ?k b" using m by (simp add: meet_at_def)
  then have ne: "tp d \<noteq> tc d" "distinct [msem d, jsem d, esem d]" unfolding pair_ok_def by blast+
  have "at_join d a (run \<sigma> (tp d))" using m by (simp add: meet_at_def)
  then consider k where "a = 1" "run \<sigma> (tp d) = Some (InKernel (OpP (msem d) k (Join_inc d)))"
    | k where "a = 2" "run \<sigma> (tp d) = Some (InKernel (OpV (msem d) k (Join_wait (ci d))))"
    | k where "a = 3" "run \<sigma> (tp d) = Some (InKernel (OpP (jsem d) k (Join_collect (ci d))))"
    | k c' where "a = 4" "run \<sigma> (tp d) = Some (InKernel (OpV (esem d) k c'))" "\<And>k. c' k = Ret (ec d) k"
    using st(2) unfolding at_join_def by (elim disjE conjE exE) (simp_all, blast+)
  then show ?thesis
  proof cases
    case 1
    obtain v where v: "semvals ?k (msem d) = Some v" "v \<noteq> 0" "\<sigma>' = advance (tp d) \<sigma> (Join_inc d (set_sem (msem d) (v - 1) ?k))"
      by (rule pstep_OpP [OF st(1) 1(2)])
    obtain k' where k': "Join_inc d (set_sem (msem d) (v - 1) ?k) = OpV (msem d) k' (Join_wait (ci d))" "pair_ok d k' b"
      "semvals k' = (semvals ?k)(msem d := Some (v - 1))"
      using join_incs [of d "set_sem (msem d) (v - 1) ?k" b] ok by auto
    show ?thesis using m 1 v k' ne by (auto simp: meet_at_def at_join_def)
  next
    case 2
    obtain v where v: "semvals ?k (msem d) = Some v" "\<sigma>' = advance (tp d) \<sigma> (Join_wait (ci d) (set_sem (msem d) (v + 1) ?k))"
      by (rule pstep_OpV [OF st(1) 2(2)])
    have "Join_wait (ci d) (set_sem (msem d) (v + 1) ?k) = OpP (jsem d) (set_sem (msem d) (v + 1) ?k) (Join_collect (ci d))"
      by (rule join_waits [of d _ b]) (use m 2 in \<open>auto simp: meet_at_def at_exit_def\<close>)
    with m 2 v ne show ?thesis by (auto simp: meet_at_def at_join_def)
  next
    case 3
    obtain v where v: "semvals ?k (jsem d) = Some v" "v \<noteq> 0" "\<sigma>' = advance (tp d) \<sigma> (Join_collect (ci d) (set_sem (jsem d) (v - 1) ?k))"
      by (rule pstep_OpP [OF st(1) 3(2)])
    have b: "b = 4" using m 3 v by (auto simp: meet_at_def at_exit_def split: if_splits)
    then obtain c' where "Join_collect (ci d) (set_sem (jsem d) (v - 1) ?k) = OpV (esem d) (set_sem (jsem d) (v - 1) ?k) c'"
      "\<And>k. c' k = Ret (ec d) k"
      using join_collects [of d "set_sem (jsem d) (v - 1) ?k" b] ok by auto
    with m 3 v ne b show ?thesis by (auto simp: meet_at_def at_join_def)
  next
    case 4
    obtain v where v: "semvals ?k (esem d) = Some v" "\<sigma>' = advance (tp d) \<sigma> (c' (set_sem (esem d) (v + 1) ?k))"
      by (rule pstep_OpV [OF st(1) 4(2)])
    with m 4 ne show ?thesis by (auto simp: meet_at_def at_join_def)
  qed
qed

lemma child_step:
  assumes m: "meet_at d a b (\<sigma>, j, e, n)" and st: "pstep space (tc d) \<sigma> \<sigma>'" "run \<sigma> (tc d) = Some (InKernel c)"
  shows "meet_at d a (Suc b) (\<sigma>', j, e, n + 1)"
proof -
  let ?k = "kern \<sigma>"
  have ok: "pair_ok d ?k b" using m by (simp add: meet_at_def)
  then have ne: "tp d \<noteq> tc d" "distinct [msem d, jsem d, esem d]" unfolding pair_ok_def by blast+
  have "at_exit d b (run \<sigma> (tc d))" using m by (simp add: meet_at_def)
  then consider k where "b = 1" "run \<sigma> (tc d) = Some (InKernel (OpP (msem d) k (Exit_dec d)))"
    | k where "b = 2" "run \<sigma> (tc d) = Some (InKernel (OpV (msem d) k (Exit_release (tc d) (ci d))))"
    | k where "b = 3" "run \<sigma> (tc d) = Some (InKernel (OpV (jsem d) k (Exit_wait (tc d) (ci d))))"
    | k where "b = 4" "run \<sigma> (tc d) = Some (InKernel (OpP (esem d) k (Exit_remove (tc d) (ci d))))"
    using st(2) unfolding at_exit_def by (elim disjE conjE exE) (simp_all, blast+)
  then show ?thesis
  proof cases
    case 1
    obtain v where v: "semvals ?k (msem d) = Some v" "v \<noteq> 0" "\<sigma>' = advance (tc d) \<sigma> (Exit_dec d (set_sem (msem d) (v - 1) ?k))"
      by (rule pstep_OpP [OF st(1) 1(2)])
    obtain k' where k': "Exit_dec d (set_sem (msem d) (v - 1) ?k) = OpV (msem d) k' (Exit_release (tc d) (ci d))" "pair_ok d k' b"
      "semvals k' = (semvals ?k)(msem d := Some (v - 1))"
      using exit_decs [of d "set_sem (msem d) (v - 1) ?k" b] ok by auto
    have "pair_ok d k' (Suc b)" by (rule pair_ok_later [OF k'(2)]) (use 1 in auto)
    with m 1 v k' ne show ?thesis by (auto simp: meet_at_def at_exit_def)
  next
    case 2
    obtain v where v: "semvals ?k (msem d) = Some v" "\<sigma>' = advance (tc d) \<sigma> (Exit_release (tc d) (ci d) (set_sem (msem d) (v + 1) ?k))"
      by (rule pstep_OpV [OF st(1) 2(2)])
    have e: "Exit_release (tc d) (ci d) (set_sem (msem d) (v + 1) ?k) =
        OpV (jsem d) (set_sem (msem d) (v + 1) ?k) (Exit_wait (tc d) (ci d))"
      by (rule exit_releases [of d _ b]) (use ok 2 in auto)
    have "pair_ok d ?k (Suc b)" by (rule pair_ok_later [OF ok]) (use 2 in auto)
    with m 2 v ne e show ?thesis by (auto simp: meet_at_def at_exit_def)
  next
    case 3
    obtain v where v: "semvals ?k (jsem d) = Some v" "\<sigma>' = advance (tc d) \<sigma> (Exit_wait (tc d) (ci d) (set_sem (jsem d) (v + 1) ?k))"
      by (rule pstep_OpV [OF st(1) 3(2)])
    have e: "Exit_wait (tc d) (ci d) (set_sem (jsem d) (v + 1) ?k) =
        OpP (esem d) (set_sem (jsem d) (v + 1) ?k) (Exit_remove (tc d) (ci d))"
      by (rule exit_waits [of d _ b]) (use ok 3 in auto)
    have "pair_ok d ?k (Suc b)" by (rule pair_ok_later [OF ok]) (use 3 in auto)
    with m 3 v ne e show ?thesis by (auto simp: meet_at_def at_exit_def)
  next
    case 4
    obtain v where v: "semvals ?k (esem d) = Some v" "v \<noteq> 0" "\<sigma>' = advance (tc d) \<sigma> (Exit_remove (tc d) (ci d) (set_sem (esem d) (v - 1) ?k))"
      by (rule pstep_OpP [OF st(1) 4(2)])
    obtain k' where k': "Exit_remove (tc d) (ci d) (set_sem (esem d) (v - 1) ?k) = Finished k'"
      "pair_ok d (k'\<lparr>pthreads := (pthreads k')(tc d := None)\<rparr>) 5" "semvals k' (msem d) = semvals ?k (msem d)"
      using exit_removes [of d "set_sem (esem d) (v - 1) ?k"] ok 4 ne by auto
    have "a = 5" using m v 4 by (auto simp: meet_at_def split: if_splits)
    with m 4 v ne k' show ?thesis by (auto simp: meet_at_def at_exit_def)
  qed
qed

lemma meeting_at:
  assumes "meeting d X Y" "meet_at d a b X"
  shows "\<exists>a' b'. meet_at d a' b' Y"
  using assms(1)
proof cases
  case (join \<sigma> v e n)
  have a: "a = 0" and b: "b < 5" and ok: "pair_ok d (kern \<sigma>) b" using assms(2) join
    by (auto simp: meet_at_def at_exit_def)
  have "meet_at d 1 b Y" using assms(2) join a join_calls [OF ok b] ok
    by (auto simp: meet_at_def at_join_def pair_ok_def)
  then show ?thesis by blast
next
  case (exit \<sigma> v j n)
  have b: "b = 0" using assms(2) exit by (auto simp: meet_at_def)
  then have ok: "pair_ok d (kern \<sigma>) 0" and ne: "tp d \<noteq> tc d" using assms(2) exit by (simp_all add: meet_at_def pair_ok_def)
  obtain k' where k': "do_syscall (tc d) (Call_Exit (ec d)) (kern \<sigma>) = OpP (msem d) k' (Exit_dec d)" "pair_ok d k' 1"
    "semvals k' = semvals (kern \<sigma>)" using exit_calls [OF ok] by blast
  have "meet_at d a 1 Y" using assms(2) exit b k' ne by (auto simp: meet_at_def at_exit_def)
  then show ?thesis by blast
next
  case (go t \<sigma> c space \<sigma>' j e n)
  then show ?thesis using parent_step [of d a b \<sigma> j e n space \<sigma>' c] child_step [of d a b \<sigma> j e n space \<sigma>' c] assms(2) by blast
next
  case (others \<sigma> \<sigma>' j e n)
  have "pair_ok d (kern \<sigma>) b" using assms(2) others by (simp add: meet_at_def)
  moreover have q: "length (pcb (kern \<sigma>')) = length (pcb (kern \<sigma>))" "psize (kern \<sigma>') = psize (kern \<sigma>)"
    "pcb (kern \<sigma>') ! slot_p d = pcb (kern \<sigma>) ! slot_p d" "pcb (kern \<sigma>') ! nat (ci d) = pcb (kern \<sigma>) ! nat (ci d)"
    "pcbs (kern \<sigma>') (pa d) = pcbs (kern \<sigma>) (pa d)" "pcbs (kern \<sigma>') (ca d) = pcbs (kern \<sigma>) (ca d)"
    "pthreads (kern \<sigma>') (tp d) = pthreads (kern \<sigma>) (tp d)" "pthreads (kern \<sigma>') (tc d) = pthreads (kern \<sigma>) (tc d)"
    using others(3) unfolding undisturbed_def Let_def by blast+
  ultimately have "pair_ok d (kern \<sigma>') b" unfolding pair_ok_def q by blast
  then have "meet_at d a b Y" using assms(2) others by (simp add: meet_at_def undisturbed_def Let_def)
  then show ?thesis by blast
qed

text \<open>The two threads are never both stuck before they are done.\<close>

lemma meeting_P:
  "\<lbrakk>t = tp d \<or> t = tc d; run \<sigma> t = Some (InKernel (OpP s k c)); stopped \<sigma> = None; semvals (kern \<sigma>) s = Some v; v \<noteq> 0\<rbrakk>
    \<Longrightarrow> \<exists>\<sigma>'. meeting d (\<sigma>, j, e, n) (\<sigma>', j, e, n + 1)"
  using meeting.go [of t d \<sigma> _ "\<lambda>_. None"] pstep.P_done by blast

lemma meeting_V:
  "\<lbrakk>t = tp d \<or> t = tc d; run \<sigma> t = Some (InKernel (OpV s k c)); stopped \<sigma> = None; semvals (kern \<sigma>) s = Some v\<rbrakk>
    \<Longrightarrow> \<exists>\<sigma>'. meeting d (\<sigma>, j, e, n) (\<sigma>', j, e, n + 1)"
  using meeting.go [of t d \<sigma> _ "\<lambda>_. None"] pstep.V_done by blast

lemma parent_can_go:
  assumes "meet_at d a b (\<sigma>, j, e, n)" "a = 1 \<and> b \<noteq> 2 \<or> a = 2 \<or> a = 3 \<and> b = 4 \<or> a = 4"
  shows "\<exists>\<sigma>'. meeting d (\<sigma>, j, e, n) (\<sigma>', j, e, n + 1)"
proof -
  have m: "stopped \<sigma> = None" "at_join d a (run \<sigma> (tp d))" "semvals (kern \<sigma>) (msem d) = Some (if a = 2 \<or> b = 2 then 0 else 1)"
    "b < 5 \<Longrightarrow> semvals (kern \<sigma>) (jsem d) = Some (if b = 4 \<and> a < 4 then 1 else 0)"
    "b < 5 \<Longrightarrow> semvals (kern \<sigma>) (esem d) = Some (if a = 5 then 1 else 0)" "b = 5 \<Longrightarrow> a = 5" "b \<le> 5"
    using assms(1) by (auto simp: meet_at_def at_exit_def)
  consider "a = 1" "b \<noteq> 2" | "a = 2" | "a = 3" "b = 4" | "a = 4" "b < 5" using assms(2) m(6,7) by linarith
  then show ?thesis
  proof cases
    case 1
    then obtain k where "run \<sigma> (tp d) = Some (InKernel (OpP (msem d) k (Join_inc d)))" using m(2) unfolding at_join_def by auto
    with meeting_P [of "tp d" d] m 1 show ?thesis by auto
  next
    case 2
    then obtain k where "run \<sigma> (tp d) = Some (InKernel (OpV (msem d) k (Join_wait (ci d))))" using m(2) unfolding at_join_def by auto
    with meeting_V [of "tp d" d] m show ?thesis by blast
  next
    case 3
    then obtain k where "run \<sigma> (tp d) = Some (InKernel (OpP (jsem d) k (Join_collect (ci d))))" using m(2) unfolding at_join_def by auto
    with meeting_P [of "tp d" d] m 3 show ?thesis by auto
  next
    case 4
    then obtain k c where "run \<sigma> (tp d) = Some (InKernel (OpV (esem d) k c))" using m(2) unfolding at_join_def by auto
    with meeting_V [of "tp d" d] m 4 show ?thesis by blast
  qed
qed

lemma child_can_go:
  assumes "meet_at d a b (\<sigma>, j, e, n)" "b = 1 \<and> a \<noteq> 2 \<or> b = 2 \<or> b = 3 \<or> a = 5 \<and> b = 4"
  shows "\<exists>\<sigma>'. meeting d (\<sigma>, j, e, n) (\<sigma>', j, e, n + 1)"
proof -
  have m: "stopped \<sigma> = None" "at_exit d b (run \<sigma> (tc d))" "semvals (kern \<sigma>) (msem d) = Some (if a = 2 \<or> b = 2 then 0 else 1)"
    "b < 5 \<Longrightarrow> semvals (kern \<sigma>) (jsem d) = Some (if b = 4 \<and> a < 4 then 1 else 0)"
    "b < 5 \<Longrightarrow> semvals (kern \<sigma>) (esem d) = Some (if a = 5 then 1 else 0)"
    using assms(1) by (auto simp: meet_at_def)
  consider "b = 1" "a \<noteq> 2" | "b = 2" | "b = 3" | "b = 4" "a = 5" using assms(2) by blast
  then show ?thesis
  proof cases
    case 1
    then obtain k where "run \<sigma> (tc d) = Some (InKernel (OpP (msem d) k (Exit_dec d)))" using m(2) unfolding at_exit_def by auto
    with meeting_P [of "tc d" d] m 1 show ?thesis by auto
  next
    case 2
    then obtain k where "run \<sigma> (tc d) = Some (InKernel (OpV (msem d) k (Exit_release (tc d) (ci d))))" using m(2) unfolding at_exit_def by auto
    with meeting_V [of "tc d" d] m show ?thesis by blast
  next
    case 3
    then obtain k where r: "run \<sigma> (tc d) = Some (InKernel (OpV (jsem d) k (Exit_wait (tc d) (ci d))))" using m(2) unfolding at_exit_def by auto
    have "b < 5" using 3 by simp
    from meeting_V [OF _ r m(1) m(4) [OF this]] show ?thesis by blast
  next
    case 4
    then obtain k where "run \<sigma> (tc d) = Some (InKernel (OpP (esem d) k (Exit_remove (tc d) (ci d))))" using m(2) unfolding at_exit_def by auto
    with meeting_P [of "tc d" d] m 4 show ?thesis by auto
  qed
qed

lemma meet_at_facts:
  assumes "meet_at d a b (\<sigma>, j, e, n)"
  shows "stopped \<sigma> = None" "n = a + b" "a \<le> 5" "b \<le> 5" "at_join d a (run \<sigma> (tp d))" "at_exit d b (run \<sigma> (tc d))"
    "pair_ok d (kern \<sigma>) b" "4 \<le> a \<Longrightarrow> 4 \<le> b" "b = 5 \<Longrightarrow> a = 5" "j = (0 < a)" "e = (0 < b)"
proof -
  note m = assms [unfolded meet_at_def prod.case]
  from m show s: "stopped \<sigma> = None" "n = a + b" "at_join d a (run \<sigma> (tp d))" "at_exit d b (run \<sigma> (tc d))"
    "pair_ok d (kern \<sigma>) b" "4 \<le> a \<Longrightarrow> 4 \<le> b" "b = 5 \<Longrightarrow> a = 5" "j = (0 < a)" "e = (0 < b)" by blast+
  show "a \<le> 5" using s(3) unfolding at_join_def by (elim disjE conjE) simp_all
  show "b \<le> 5" using s(4) unfolding at_exit_def by (elim disjE conjE) simp_all
qed

lemma meeting_progress:
  assumes m: "meet_at d a b (\<sigma>, j, e, n)" and "n < 10"
  shows "\<exists>\<sigma>' j' e'. meeting d (\<sigma>, j, e, n) (\<sigma>', j', e', n + 1)"
proof -
  note f = meet_at_facts [OF m]
  consider "a = 0" | "b = 0" | "0 < a" "0 < b" by linarith
  then show ?thesis
  proof cases
    case 1
    then obtain v where "run \<sigma> (tp d) = Some (User v)" "j = False" using f(5,10) by (auto simp: at_join_def)
    with meeting.join [OF f(1), of d v e n] show ?thesis by blast
  next
    case 2
    then obtain v where "run \<sigma> (tc d) = Some (User v)" "e = False" using f(6,11) by (auto simp: at_exit_def)
    with meeting.exit [OF f(1), of d v j n] show ?thesis by blast
  next
    case 3
    then have "(a = 1 \<and> b \<noteq> 2 \<or> a = 2 \<or> a = 3 \<and> b = 4 \<or> a = 4) \<or> (b = 1 \<and> a \<noteq> 2 \<or> b = 2 \<or> b = 3 \<or> a = 5 \<and> b = 4)"
      using f(2-4,8,9) \<open>n < 10\<close> by linarith
    then show ?thesis using parent_can_go [OF m] child_can_go [OF m] by blast
  qed
qed

section \<open>Properties\<close>


definition demo_pair :: pair where
  "demo_pair = \<lparr>tp = 0, tc = 10, ci = 1, ec = 42, slot_p = 0, pa = 2, ca = 6, msem = 5, jsem = 7, esem = 8\<rparr>"

definition demo_sys :: Sys where
  \<comment> \<open>the main process and its child in slot 1\<close>
  "demo_sys = (let k = (case boot_procs [97] raw0 of Inr k \<Rightarrow> k) in
     \<lparr>kern = k\<lparr>pcb := Some 2 # Some 6 # replicate 8 None, next_free := 11,
        pcbs := (pcbs k)(6 := Some (raw0\<lparr>pcb_processID := 1, joinsem := 7, exitsem := 8, mutex := 9, thread := Some 10, parentID := 0\<rparr>)),
        semvals := (semvals k)(7 := Some 0, 8 := Some 0, 9 := Some 1),
        pthreads := (pthreads k)(10 := Some \<lparr>pt_name = [98], pt_processID = 1, pt_space = True, pt_entry = None\<rparr>)\<rparr>,
      run = (\<lambda>_. None)(0 := Some (User 0), 10 := Some (User 0)), stopped = None\<rparr>)"

lemma demo_ok: "pair_ok demo_pair (kern demo_sys) 0"
  by (simp add: pair_ok_def demo_pair_def demo_sys_def boot_procs_eq raw0_def)


end
