(* ===== verification/Semaphore_Table.thy ===== *)
theory Semaphore_Table
  imports Process_Table
begin

text \<open>
  The table of named semaphores (userprog/STable.cc) refines a finite map from names to values.
\<close>

section \<open>Named semaphores as a map\<close>

definition sem_map :: "Procs \<Rightarrow> byte list \<Rightarrow> int option" where
  \<comment> \<open>what a user program can know of the table: the value of the semaphore with a given name\<close>
  "sem_map k name =
     (case List.find (\<lambda>e. case e of None \<Rightarrow> False | Some a \<Rightarrow> map_option sem_name (psems k a) = Some name) (semTab k) of
        Some (Some a) \<Rightarrow> (case psems k a of None \<Rightarrow> None | Some s \<Rightarrow> semvals k (sem s))
      | _ \<Rightarrow> None)"

definition sem_at :: "Procs \<Rightarrow> byte list \<Rightarrow> nat \<Rightarrow> Sem \<Rightarrow> bool" where
  "sem_at k name i s \<longleftrightarrow> i < 10 \<and> (\<exists>a. semTab k ! i = Some a \<and> psems k a = Some s \<and> sem s = a + 1) \<and> sem_name s = name"

lemma sem_names_inj:
  "\<lbrakk>table_ok k; i < 10; j < 10; semTab k ! i = Some a; semTab k ! j = Some b;
    map_option sem_name (psems k a) = map_option sem_name (psems k b)\<rbrakk> \<Longrightarrow> i = j"
  unfolding table_ok_def by blast

lemma sem_at_inj:
  assumes "table_ok k" "sem_at k name i s" "sem_at k name j s'"
  shows "i = j \<and> s = s'"
proof -
  obtain a b where a: "i < 10" "j < 10" "semTab k ! i = Some a" "semTab k ! j = Some b" "psems k a = Some s" "psems k b = Some s'"
    "sem_name s = name" "sem_name s' = name" using assms(2,3) unfolding sem_at_def by blast
  then have "i = j" by (intro sem_names_inj [OF assms(1) a(1-4)]) simp
  with a show ?thesis by simp
qed

lemma sem_map_cases:
  assumes "table_ok k"
  obtains (absent) "sem_map k name = None" "\<And>i s. \<not> sem_at k name i s" |
    (present) i s v where "sem_at k name i s" "semvals k (sem s) = Some v" "sem_map k name = Some v"
proof (cases "\<exists>i s. sem_at k name i s")
  case True
  then obtain i s a where s: "i < 10" "semTab k ! i = Some a" "psems k a = Some s" "sem s = a + 1" "sem_name s = name"
    by (auto simp: sem_at_def)
  let ?P = "\<lambda>e. case e of None \<Rightarrow> False | Some a \<Rightarrow> map_option sem_name (psems k a) = Some name"
  have "sem_ok k a" using assms s unfolding table_ok_def by blast
  then obtain v where v: "semvals k (sem s) = Some v" using s by (auto simp: sem_ok_def)
  have "List.find ?P (semTab k) = Some (Some a)"
    unfolding find_Some_iff
  proof (intro exI [of _ i] conjI allI impI)
    show "i < length (semTab k)" "?P (semTab k ! i)" "Some a = semTab k ! i" using assms s by (auto simp: table_ok_def)
    fix j assume "j < i"
    show "\<not> ?P (semTab k ! j)"
    proof (cases "semTab k ! j")
      case (Some b)
      then have "map_option sem_name (psems k b) \<noteq> map_option sem_name (psems k a)"
        using sem_names_inj [OF assms _ s(1) Some s(2)] \<open>j < i\<close> s(1) by (metis less_trans nat_neq_iff)
      with Some s show ?thesis by simp
    qed simp
  qed
  with s v have "sem_map k name = Some v" by (simp add: sem_map_def)
  then show thesis using s v by (intro present [of i s v]) (auto simp: sem_at_def)
next
  case False
  have l: "length (semTab k) = 10" using assms by (simp add: table_ok_def)
  have "List.find (\<lambda>e. case e of None \<Rightarrow> False | Some a \<Rightarrow> map_option sem_name (psems k a) = Some name) (semTab k) = None"
    unfolding find_None_iff
  proof
    assume "\<exists>x. x \<in> set (semTab k) \<and> (case x of None \<Rightarrow> False | Some a \<Rightarrow> map_option sem_name (psems k a) = Some name)"
    then obtain i a where "i < 10" "semTab k ! i = Some a" "map_option sem_name (psems k a) = Some name"
      using l by (auto simp: in_set_conv_nth split: option.splits)
    moreover from this have "sem_ok k a" using assms unfolding table_ok_def by blast
    ultimately show False using False by (auto simp: sem_at_def sem_ok_def)
  qed
  then show thesis using False by (intro absent) (auto simp: sem_map_def)
qed

lemma sem_map_eq:
  assumes "table_ok k"
  shows "sem_map k name = Some v \<longleftrightarrow> (\<exists>i s. sem_at k name i s \<and> semvals k (sem s) = Some v)"
  using assms
proof (cases rule: sem_map_cases [where name = name])
  case (present i s w)
  have "s' = s" if "sem_at k name i' s'" for i' s'
    using sem_at_inj [OF assms that present(1)] by blast
  then have "semvals k (sem s') = Some v \<longleftrightarrow> w = v" if "sem_at k name i' s'" for i' s'
    using that present(2) by simp
  then show ?thesis unfolding present(3) option.inject using present(1) by blast
qed auto

lemma sem_map_eqI:
  assumes "table_ok k" "\<And>name v. m name = Some v \<longleftrightarrow> (\<exists>i s. sem_at k name i s \<and> semvals k (sem s) = Some v)"
  shows "sem_map k = m"
proof
  fix name show "sem_map k name = m name"
    using assms(2) [of name] sem_map_eq [OF assms(1), of name] by (metis not_None_eq)
qed

lemma sem_at_unique:
  assumes "table_ok k" "sem_at k n1 i1 s1" "sem_at k n2 i2 s2" "sem s1 = sem s2"
  shows "n1 = n2"
  using assms unfolding sem_at_def by auto

lemma sem_map_set_sem:
  assumes "table_ok k" "sem_at k name i s"
  shows "sem_map (set_sem (sem s) w k) = (sem_map k)(name := Some w)"
proof (rule sem_map_eqI [OF table_ok_set_sem [OF assms(1)]])
  fix n v
  have at: "sem_at (set_sem (sem s) w k) m j u = sem_at k m j u" for m j u by (simp add: sem_at_def)
  show "((sem_map k)(name := Some w)) n = Some v \<longleftrightarrow>
      (\<exists>i s'. sem_at (set_sem (sem s) w k) n i s' \<and> semvals (set_sem (sem s) w k) (sem s') = Some v)"
  proof (cases "n = name")
    case True
    have "sem s' = sem s" if "sem_at k name j s'" for j s'
      using sem_at_inj [OF assms(1) that assms(2)] by blast
    then have "semvals (set_sem (sem s) w k) (sem s') = Some v \<longleftrightarrow> w = v" if "sem_at k name j s'" for j s' using that by simp
    then show ?thesis unfolding at True fun_upd_same option.inject using assms(2) by blast
  next
    case False
    then have "sem s' \<noteq> sem s" if "sem_at k n j s'" for j s' using sem_at_unique [OF assms(1) that assms(2)] by blast
    then have "semvals (set_sem (sem s) w k) (sem s') = semvals k (sem s')" if "sem_at k n j s'" for j s' using that by simp
    then show ?thesis unfolding at fun_upd_other [OF False] sem_map_eq [OF assms(1)] by metis
  qed
qed

lemma STable_find_eq:
  assumes "table_ok k"
  shows "(\<forall>i s. \<not> sem_at k name i s) \<longrightarrow> STable_find name k = Inr None" "sem_at k name i s \<Longrightarrow> STable_find name k = Inr (Some s)"
proof -
  let ?q = "\<lambda>i. \<exists>a s. semTab k ! nat i = Some a \<and> psems k a = Some s \<and> sem_name s = name"
  have at: "?q (int j) \<longleftrightarrow> (\<exists>s. sem_at k name j s)" if "j < 10" for j
  proof -
    have "sem_ok k a" if "semTab k ! j = Some a" for a using assms that \<open>j < 10\<close> unfolding table_ok_def by blast
    then show ?thesis using that by (auto simp: sem_at_def sem_ok_def)
  qed
  have l: "length (semTab k) = 10" using assms by (simp add: table_ok_def)
  note S = searchE_pure [of 0 10 "Sem_named k name" ?q, OF Sem_named_eq [OF assms]]
  show "(\<forall>i s. \<not> sem_at k name i s) \<longrightarrow> STable_find name k = Inr None"
  proof
    assume n: "\<forall>i s. \<not> sem_at k name i s"
    have "\<not> ?q i" if "0 \<le> i" "i < 10" for i using at [of "nat i"] n that by auto
    with S have "searchE (Sem_named k name) 0 10 = Inr (-1)" by blast
    then show "STable_find name k = Inr None" by (simp add: STable_find_def)
  qed
  assume s: "sem_at k name i s"
  then have "?q (int i)" "i < 10" by (auto simp: sem_at_def)
  then have "\<not> (\<forall>j. 0 \<le> j \<and> j < 10 \<longrightarrow> \<not> ?q j)" by (intro notI) (auto dest!: spec [of _ "int i"])
  with S obtain j where j: "searchE (Sem_named k name) 0 10 = Inr j" "0 \<le> j" "j < 10" "?q j" by blast
  then obtain s' where "sem_at k name (nat j) s'" using at [OF nat_lt_10 [OF j(3)]] by auto
  then have "nat j = i" using sem_at_inj [OF assms _ s] by blast
  with j s l show "STable_find name k = Inr (Some s)" by (auto simp: STable_find_def sem_at_def)
qed

lemma sem_map_Create:
  assumes t: "table_ok k" and i: "i < 10" "semTab k ! i = None"
    and n: "\<And>j a s. j < 10 \<Longrightarrow> semTab k ! j = Some a \<Longrightarrow> psems k a = Some s \<Longrightarrow> sem_name s \<noteq> name"
    and e: "k' = k\<lparr>next_free := next_free k + 2, semvals := (semvals k)(next_free k + 1 := Some v),
         psems := (psems k)(next_free k := Some \<lparr>sem = next_free k + 1, sem_name = name\<rparr>),
         semTab := (semTab k)[i := Some (next_free k)]\<rparr>"
  shows "sem_map k' = (sem_map k)(name := Some v)"
proof (rule sem_map_eqI)
  let ?a = "next_free k" and ?new = "\<lparr>sem = next_free k + 1, sem_name = name\<rparr>"
  show t': "table_ok k'" by (rule table_ok_new_sem [OF t i n refl e])
  have l: "length (semTab k) = 10" using t by (simp add: table_ok_def)
  have new: "sem_at k' name i ?new" using i l by (simp add: sem_at_def e)
  have below: "a < ?a" if "j < 10" "semTab k ! j = Some a" for j a
    using span_bound [OF t sem_span [OF t that]] by simp
  have old: "sem_at k' m j s \<longleftrightarrow> sem_at k m j s" if "j \<noteq> i" for m j s
    using that below [of j] by (cases "semTab k ! j") (auto simp: sem_at_def e)
  have noold: "\<not> sem_at k m i s" for m s using i by (simp add: sem_at_def)
  fix m w
  show "((sem_map k)(name := Some v)) m = Some w \<longleftrightarrow> (\<exists>i s. sem_at k' m i s \<and> semvals k' (sem s) = Some w)"
  proof (cases "m = name")
    case True
    have "semvals k' (sem s) = Some w \<longleftrightarrow> v = w" if "sem_at k' name j s" for j s
      using sem_at_inj [OF t' that new] by (simp add: e)
    then show ?thesis unfolding True fun_upd_same option.inject using new by blast
  next
    case False
    then have ni: "j \<noteq> i" if "sem_at k' m j s" for j s using that l i by (auto simp: sem_at_def e)
    have "semvals k' (sem s) = semvals k (sem s)" if "sem_at k m j s" for j s
      using that below [of j] by (auto simp: sem_at_def e)
    then show ?thesis unfolding fun_upd_other [OF False] sem_map_eq [OF t] using ni noold old by metis
  qed
qed

text \<open>
  C20. The semaphore table is a map from names to semaphores. From a well-formed table, for a name
  that fits: Create of a name that exists, or with ten semaphores in the table, returns -1 and
  changes nothing; otherwise it returns 0 and the map gains exactly this name with the initial
  value. Wait and Signal of an unknown name return -1 and change nothing; on a known name they are
  \<open>P\<close> and \<open>V\<close> of a semaphore that holds the name's value and whose change changes the map at this
  name and nowhere else.
\<close>

theorem semaphore_table_refines_map:
  assumes "table_ok k" and "length name < 50"
  shows "(sem_map k name \<noteq> None \<or> None \<notin> set (semTab k) \<longrightarrow> STable_Create name v k = Ret (-1) k) \<and>
    (sem_map k name = None \<and> None \<in> set (semTab k) \<longrightarrow>
      (\<exists>k'. STable_Create name v k = Ret 0 k' \<and> sem_map k' = (sem_map k)(name := Some v) \<and> table_ok k')) \<and>
    (sem_map k name = None \<longrightarrow> STable_Wait name k = Ret (-1) k \<and> STable_Signal name k = Ret (-1) k) \<and>
    (\<forall>x. sem_map k name = Some x \<longrightarrow> (\<exists>s. STable_Wait name k = OpP s k (Ret 0) \<and> STable_Signal name k = OpV s k (Ret 0) \<and>
      semvals k s = Some x \<and> (\<forall>w. sem_map (set_sem s w k) = (sem_map k)(name := Some w))))"
proof -
  have free: "None \<in> set (semTab k) \<longleftrightarrow> (\<exists>i < 10. semTab k ! i = None)"
    using assms(1) by (auto simp: table_ok_def in_set_conv_nth)
  have sm: "sem_map k name \<noteq> None \<longleftrightarrow> (\<exists>i s. sem_at k name i s)"
    using assms(1) by (cases rule: sem_map_cases [where name = name]) auto
  have found: "sem_at k name j s" if "j < 10" "semTab k ! j = Some a" "psems k a = Some s" "sem_name s = name" for j a s
  proof -
    have "sem_ok k a" using assms(1) that unfolding table_ok_def by blast
    with that show ?thesis by (auto simp: sem_at_def sem_ok_def)
  qed
  have C: "(sem_map k name \<noteq> None \<or> None \<notin> set (semTab k) \<longrightarrow> STable_Create name v k = Ret (-1) k) \<and>
    (sem_map k name = None \<and> None \<in> set (semTab k) \<longrightarrow>
      (\<exists>k'. STable_Create name v k = Ret 0 k' \<and> sem_map k' = (sem_map k)(name := Some v) \<and> table_ok k'))"
    using assms(1)
  proof (cases rule: Create_cases [where name = name and v = v])
    case (dup i a s)
    then have "sem_map k name \<noteq> None" unfolding sm using found by blast
    with dup(1) show ?thesis by simp
  next
    case full
    then have "None \<notin> set (semTab k)" unfolding free by blast
    with full(1) show ?thesis by simp
  next
    case long
    with assms(2) show ?thesis by simp
  next
    case (ok i)
    have "sem_map k name = None" using sm ok(4) unfolding sem_at_def by blast
    moreover have "None \<in> set (semTab k)" unfolding free using ok(2,3) by blast
    moreover obtain k' where k': "STable_Create name v k = Ret 0 k'" "k' = k\<lparr>next_free := next_free k + 2,
        semvals := (semvals k)(next_free k + 1 := Some v), psems := (psems k)(next_free k := Some \<lparr>sem = next_free k + 1, sem_name = name\<rparr>),
        semTab := (semTab k)[i := Some (next_free k)]\<rparr>" using ok(5) by blast
    moreover have "sem_map k' = (sem_map k)(name := Some v)" by (rule sem_map_Create [OF assms(1) ok(2,3) _ k'(2)]) (rule ok(4))
    moreover have "table_ok k'" by (rule table_ok_new_sem [OF assms(1) ok(2,3) _ refl k'(2)]) (rule ok(4))
    ultimately show ?thesis by blast
  qed
  have W: "(sem_map k name = None \<longrightarrow> STable_Wait name k = Ret (-1) k \<and> STable_Signal name k = Ret (-1) k) \<and>
    (\<forall>x. sem_map k name = Some x \<longrightarrow> (\<exists>s. STable_Wait name k = OpP s k (Ret 0) \<and> STable_Signal name k = OpV s k (Ret 0) \<and>
      semvals k s = Some x \<and> (\<forall>w. sem_map (set_sem s w k) = (sem_map k)(name := Some w))))"
    using assms(1)
  proof (cases rule: sem_map_cases [where name = name])
    case absent
    then have "STable_find name k = Inr None" using STable_find_eq(1) [OF assms(1)] by blast
    with absent show ?thesis by (simp add: STable_Wait_def STable_Signal_def)
  next
    case (present i s x)
    have "STable_find name k = Inr (Some s)" by (rule STable_find_eq(2) [OF assms(1) present(1)])
    then have "STable_Wait name k = OpP (sem s) k (Ret 0)" "STable_Signal name k = OpV (sem s) k (Ret 0)"
      unfolding STable_Wait_def STable_Signal_def by (simp_all only: needE_simps option.case)
    with present show ?thesis using sem_map_set_sem [OF assms(1) present(1)] by (metis option.distinct(1) option.inject)
  qed
  from C W show ?thesis by blast
qed

theorem semaphore_table_refines_map_witness:
  "\<exists>k. boot_procs [97] raw0 = Inr k \<and> (\<exists>k'. STable_Create [115] 3 k = Ret 0 k' \<and> sem_map k' [115] = Some 3 \<and> table_ok k')"
proof -
  obtain k where k: "boot_procs [97] raw0 = Inr k" by (simp add: boot_procs_eq)
  have t: "table_ok k" using boot_ok [OF k] by (simp add: sys_ok_def sys0_def)
  have s: "semTab k = replicate 10 None" using k by (auto simp: boot_procs_eq)
  then have "sem_map k [115] = None" "None \<in> set (semTab k)" by (simp_all add: sem_map_def eval_nat_numeral)
  with conjunct1 [OF conjunct2 [OF semaphore_table_refines_map [OF t, of "[115]" 3]]] obtain k' where
    "STable_Create [115] 3 k = Ret 0 k'" "sem_map k' = (sem_map k)([115] := Some 3)" "table_ok k'" by auto
  with k show ?thesis by auto
qed

end
