(* ===== verification/Lists.thy ===== *)
theory Lists
  imports Prelude "HOL-Library.Multiset"
begin

text \<open>
  Singly linked lists: lib/list.h and lib/list.cc.

  The elements are cells of a heap; \<open>new\<close> takes the next free address and \<open>delete\<close> empties a cell,
  so that following a freed pointer is a fault. A loop over the pointers ends only if the list is
  not circular: a routine returns an \<open>lres\<close>, in which \<open>None\<close> says that it does not return.
  \<open>holds h l xs\<close> relates a heap and a list head to the items \<open>xs\<close>; every routine is shown to end and
  to do on the items what its name says.
\<close>

section \<open>Results\<close>

type_synonym 'a lres = "('a result) option"

definition bindL :: "'a lres \<Rightarrow> ('a \<Rightarrow> 'b lres) \<Rightarrow> 'b lres" where
  "bindL m f = (case m of None \<Rightarrow> None | Some (Inl e) \<Rightarrow> Some (Inl e) | Some (Inr x) \<Rightarrow> f x)"

definition retL :: "'a \<Rightarrow> 'a lres" where
  "retL x = Some (Inr x)"

definition assertL :: "bool \<Rightarrow> 'a lres \<Rightarrow> 'a lres" where
  "assertL c k = (if c then k else Some (Inl AssertFailed))"

lemma bindL_simps [simp]: "bindL (Some (Inr x)) f = f x" "bindL (retL x) f = f x" "bindL (Some (Inl e)) f = Some (Inl e)" "bindL None f = None"
  by (simp_all add: bindL_def retL_def)

lemma assertL_simps [simp]: "c \<Longrightarrow> assertL c k = k" "\<not> c \<Longrightarrow> assertL c k = Some (Inl AssertFailed)"
  by (simp_all add: assertL_def)

lemma bindL_eq_Inr: "bindL m f = Some (Inr y) \<longleftrightarrow> (\<exists>x. m = Some (Inr x) \<and> f x = Some (Inr y))"
  by (simp add: bindL_def split: option.split sum.split)

lemma assertL_eq_Inr: "assertL c k = Some (Inr y) \<longleftrightarrow> c \<and> k = Some (Inr y)"
  by (simp add: assertL_def)

lemma retL_eq_Inr: "retL x = Some (Inr y) \<longleftrightarrow> x = y"
  by (simp add: retL_def)

lemmas lres_iffs = bindL_eq_Inr assertL_eq_Inr retL_eq_Inr

lemma bindL_bind: "bindL m f = Option.bind m (\<lambda>r. case r of Inl e \<Rightarrow> Some (Inl e) | Inr x \<Rightarrow> f x)"
  by (simp add: bindL_def split: option.split sum.split)

lemma bindL_mono [partial_function_mono]:
  assumes "mono_option B" and "\<And>y. mono_option (\<lambda>f. C y f)"
  shows "mono_option (\<lambda>f. bindL (B f) (\<lambda>y. C y f))"
proof -
  have "mono_option (\<lambda>f. case r of Inl e \<Rightarrow> Some (Inl e) | Inr x \<Rightarrow> C x f)" for r
    using assms(2) by (cases r) (simp_all add: monotone_def flat_ord_def fun_ord_def)
  then show ?thesis unfolding bindL_bind by (rule bind_mono [OF assms(1)])
qed

section \<open>Data\<close>

record 'a ListElement =
  item :: 'a
  next_elem :: "nat option"      \<comment> \<open>\<open>next\<close>\<close>

record 'a LHeap =
  cells :: "nat \<Rightarrow> 'a ListElement option"
  l_free :: nat

record ListHead =
  l_first :: "nat option"
  l_last :: "nat option"
  numInList :: int

definition cell :: "'a LHeap \<Rightarrow> nat option \<Rightarrow> ('a ListElement) lres" where
  "cell h p = Some (case p of None \<Rightarrow> Inl BadAccess | Some a \<Rightarrow> (case cells h a of None \<Rightarrow> Inl BadAccess | Some e \<Rightarrow> Inr e))"

definition set_cell :: "nat \<Rightarrow> 'a ListElement \<Rightarrow> 'a LHeap \<Rightarrow> 'a LHeap" where
  "set_cell a e h = h\<lparr>cells := (cells h)(a \<mapsto> e)\<rparr>"

definition free_cell :: "nat \<Rightarrow> 'a LHeap \<Rightarrow> 'a LHeap" where
  "free_cell a h = h\<lparr>cells := (cells h)(a := None)\<rparr>"

definition ListElement_new :: "'a \<Rightarrow> 'a LHeap \<Rightarrow> nat \<times> 'a LHeap" where
  "ListElement_new x h = (l_free h, h\<lparr>cells := (cells h)(l_free h \<mapsto> \<lparr>item = x, next_elem = None\<rparr>), l_free := l_free h + 1\<rparr>)"

definition set_next :: "nat option \<Rightarrow> nat option \<Rightarrow> 'a LHeap \<Rightarrow> ('a LHeap) lres" where
  \<comment> \<open>\<open>p->next = q\<close>\<close>
  "set_next p q h = bindL (cell h p) (\<lambda>e. retL (set_cell (the p) (e\<lparr>next_elem := q\<rparr>) h))"

section \<open>List\<close>

definition List_new :: ListHead where
  "List_new = \<lparr>l_first = None, l_last = None, numInList = 0\<rparr>"

definition IsEmpty :: "ListHead \<Rightarrow> bool" where
  "IsEmpty l = (numInList l = 0)"

partial_function (option) in_loop :: "'a \<Rightarrow> nat option \<Rightarrow> 'a LHeap \<Rightarrow> bool lres" where
  "in_loop x p h = (case p of None \<Rightarrow> Some (Inr False)
     | Some a \<Rightarrow> (case cells h a of None \<Rightarrow> Some (Inl BadAccess)
         | Some e \<Rightarrow> if x = item e then Some (Inr True) else in_loop x (next_elem e) h))"

definition IsInList :: "'a \<Rightarrow> 'a LHeap \<Rightarrow> ListHead \<Rightarrow> bool lres" where
  "IsInList x h l = in_loop x (l_first l) h"

definition assert_in :: "bool \<Rightarrow> 'a \<Rightarrow> 'a LHeap \<Rightarrow> ListHead \<Rightarrow> 'b lres \<Rightarrow> 'b lres" where
  \<comment> \<open>\<open>ASSERT(IsInList(x))\<close> and \<open>ASSERT(!IsInList(x))\<close>\<close>
  "assert_in b x h l k = bindL (IsInList x h l) (\<lambda>c. assertL (c = b) k)"

definition Front :: "'a LHeap \<Rightarrow> ListHead \<Rightarrow> 'a lres" where
  "Front h l = bindL (cell h (l_first l)) (\<lambda>e. retL (item e))"

definition Append :: "'a \<Rightarrow> 'a LHeap \<Rightarrow> ListHead \<Rightarrow> ('a LHeap \<times> ListHead) lres" where
  "Append x h0 l = (let (element, h) = ListElement_new x h0 in
     assert_in False x h l
       (bindL (if IsEmpty l then retL (h, l\<lparr>l_first := Some element, l_last := Some element\<rparr>)
               else bindL (set_next (l_last l) (Some element) h) (\<lambda>h1. retL (h1, l\<lparr>l_last := Some element\<rparr>)))
         (\<lambda>(h1, l1). let l2 = l1\<lparr>numInList := numInList l1 + 1\<rparr> in assert_in True x h1 l2 (retL (h1, l2)))))"

definition Prepend :: "'a \<Rightarrow> 'a LHeap \<Rightarrow> ListHead \<Rightarrow> ('a LHeap \<times> ListHead) lres" where
  "Prepend x h0 l = (let (element, h) = ListElement_new x h0 in
     assert_in False x h l
       (bindL (if IsEmpty l then retL (h, l\<lparr>l_first := Some element, l_last := Some element\<rparr>)
               else bindL (set_next (Some element) (l_first l) h) (\<lambda>h1. retL (h1, l\<lparr>l_first := Some element\<rparr>)))
         (\<lambda>(h1, l1). let l2 = l1\<lparr>numInList := numInList l1 + 1\<rparr> in assert_in True x h1 l2 (retL (h1, l2)))))"

definition RemoveFront :: "'a LHeap \<Rightarrow> ListHead \<Rightarrow> ('a \<times> 'a LHeap \<times> ListHead) lres" where
  "RemoveFront h l = assertL (\<not> IsEmpty l)
     (bindL (cell h (l_first l)) (\<lambda>e.
        let l1 = (if l_first l = l_last l then l\<lparr>l_first := None, l_last := None\<rparr> else l\<lparr>l_first := next_elem e\<rparr>)
        in retL (item e, free_cell (the (l_first l)) h, l1\<lparr>numInList := numInList l1 - 1\<rparr>)))"

partial_function (option) remove_loop :: "'a \<Rightarrow> nat option \<Rightarrow> nat option \<Rightarrow> 'a LHeap \<Rightarrow> ListHead \<Rightarrow> ('a LHeap \<times> ListHead) lres" where
  \<comment> \<open>the loop of \<open>Remove\<close> with its assertion that the item is found\<close>
  "remove_loop x prev ptr h l = (case ptr of None \<Rightarrow> Some (Inl AssertFailed)
     | Some a \<Rightarrow> (case cells h a of None \<Rightarrow> Some (Inl BadAccess)
         | Some e \<Rightarrow>
             if x = item e
             then bindL (set_next prev (next_elem e) h) (\<lambda>h1.
                    retL (free_cell a h1, l\<lparr>l_last := if next_elem e = None then prev else l_last l, numInList := numInList l - 1\<rparr>))
             else remove_loop x ptr (next_elem e) h l))"

definition Remove_item :: "'a \<Rightarrow> 'a LHeap \<Rightarrow> ListHead \<Rightarrow> ('a LHeap \<times> ListHead) lres" where
  \<comment> \<open>\<open>List<T>::Remove\<close>\<close>
  "Remove_item x h l = assert_in True x h l
     (bindL (cell h (l_first l)) (\<lambda>e.
      bindL (if x = item e then bindL (RemoveFront h l) (\<lambda>(y, h1, l1). assertL (x = y) (retL (h1, l1)))
             else remove_loop x (l_first l) (next_elem e) h l) (\<lambda>(h1, l1).
      assert_in False x h1 l1 (retL (h1, l1)))))"

partial_function (option) apply_loop :: "('a \<Rightarrow> 's \<Rightarrow> 's) \<Rightarrow> nat option \<Rightarrow> 'a LHeap \<Rightarrow> 's \<Rightarrow> 's lres" where
  "apply_loop f p h s = (case p of None \<Rightarrow> Some (Inr s)
     | Some a \<Rightarrow> (case cells h a of None \<Rightarrow> Some (Inl BadAccess)
         | Some e \<Rightarrow> apply_loop f (next_elem e) h (f (item e) s)))"

definition Apply :: "('a \<Rightarrow> 's \<Rightarrow> 's) \<Rightarrow> 'a LHeap \<Rightarrow> ListHead \<Rightarrow> 's \<Rightarrow> 's lres" where
  \<comment> \<open>with the state that the function works on\<close>
  "Apply f h l s = apply_loop f (l_first l) h s"

partial_function (option) sanity_loop :: "int \<Rightarrow> nat option \<Rightarrow> 'a LHeap \<Rightarrow> ListHead \<Rightarrow> int lres" where
  "sanity_loop numFound ptr h l =
     (if ptr = l_last l then Some (Inr numFound)
      else if numFound + 1 \<le> numInList l
      then (case ptr of None \<Rightarrow> Some (Inl BadAccess)
        | Some a \<Rightarrow> (case cells h a of None \<Rightarrow> Some (Inl BadAccess)
            | Some e \<Rightarrow> sanity_loop (numFound + 1) (next_elem e) h l))
      else Some (Inl AssertFailed))"

definition List_SanityCheck :: "'a LHeap \<Rightarrow> ListHead \<Rightarrow> unit lres" where
  "List_SanityCheck h l =
     (if l_first l = None then assertL (numInList l = 0 \<and> l_last l = None) (retL ())
      else if l_first l = l_last l
      then bindL (cell h (l_last l)) (\<lambda>e. assertL (numInList l = 1 \<and> next_elem e = None) (retL ()))
      else bindL (sanity_loop 1 (l_first l) h l) (\<lambda>n. assertL (n = numInList l)
             (bindL (cell h (l_last l)) (\<lambda>e. assertL (next_elem e = None) (retL ())))))"

section \<open>SortedList\<close>

partial_function (option) insert_loop ::
  "('a \<Rightarrow> 'a \<Rightarrow> int) \<Rightarrow> 'a \<Rightarrow> nat \<Rightarrow> nat option \<Rightarrow> 'a LHeap \<Rightarrow> (('a LHeap) option) lres" where
  \<comment> \<open>\<open>Some h\<close>: the element has been linked in; \<open>None\<close>: the end of the list was reached\<close>
  "insert_loop compare x element ptr h = (case ptr of None \<Rightarrow> Some (Inl BadAccess)
     | Some a \<Rightarrow> (case cells h a of None \<Rightarrow> Some (Inl BadAccess)
         | Some e \<Rightarrow> (case next_elem e of None \<Rightarrow> Some (Inr None)
             | Some b \<Rightarrow> (case cells h b of None \<Rightarrow> Some (Inl BadAccess)
                 | Some f \<Rightarrow>
                     if compare x (item f) < 0
                     then bindL (set_next (Some element) (Some b) h) (\<lambda>h1. bindL (set_next (Some a) (Some element) h1) (\<lambda>h2. retL (Some h2)))
                     else insert_loop compare x element (Some b) h))))"

definition Insert :: "('a \<Rightarrow> 'a \<Rightarrow> int) \<Rightarrow> 'a \<Rightarrow> 'a LHeap \<Rightarrow> ListHead \<Rightarrow> ('a LHeap \<times> ListHead) lres" where
  "Insert compare x h0 l = (let (element, h) = ListElement_new x h0;
        counted = (\<lambda>h1 l1. let l2 = l1\<lparr>numInList := numInList l1 + 1\<rparr> in assert_in True x h1 l2 (retL (h1, l2))) in
     assert_in False x h l
       (if IsEmpty l then counted h (l\<lparr>l_first := Some element, l_last := Some element\<rparr>)
        else bindL (cell h (l_first l)) (\<lambda>e.
          if compare x (item e) < 0
          then bindL (set_next (Some element) (l_first l) h) (\<lambda>h1. counted h1 (l\<lparr>l_first := Some element\<rparr>))
          else bindL (insert_loop compare x element (l_first l) h) (\<lambda>r.
            case r of
              Some h1 \<Rightarrow> retL (h1, l\<lparr>numInList := numInList l + 1\<rparr>)
            | None \<Rightarrow> bindL (set_next (l_last l) (Some element) h) (\<lambda>h1. counted h1 (l\<lparr>l_last := Some element\<rparr>))))))"

partial_function (option) sorted_loop :: "('a \<Rightarrow> 'a \<Rightarrow> int) \<Rightarrow> 'a \<Rightarrow> nat option \<Rightarrow> 'a LHeap \<Rightarrow> unit lres" where
  "sorted_loop compare prev ptr h = (case ptr of None \<Rightarrow> Some (Inr ())
     | Some a \<Rightarrow> (case cells h a of None \<Rightarrow> Some (Inl BadAccess)
         | Some e \<Rightarrow> if compare prev (item e) \<le> 0 then sorted_loop compare (item e) (next_elem e) h else Some (Inl AssertFailed)))"

definition SortedList_SanityCheck :: "('a \<Rightarrow> 'a \<Rightarrow> int) \<Rightarrow> 'a LHeap \<Rightarrow> ListHead \<Rightarrow> unit lres" where
  "SortedList_SanityCheck compare h l = bindL (List_SanityCheck h l) (\<lambda>_.
     if l_first l \<noteq> l_last l
     then bindL (cell h (l_first l)) (\<lambda>e. sorted_loop compare (item e) (next_elem e) h)
     else retL ())"

section \<open>Iterators and self tests\<close>

definition ListIterator_new :: "ListHead \<Rightarrow> nat option" where
  "ListIterator_new l = l_first l"

definition Iterator_IsDone :: "nat option \<Rightarrow> bool" where
  "Iterator_IsDone current \<longleftrightarrow> current = None"

definition Iterator_Item :: "'a LHeap \<Rightarrow> nat option \<Rightarrow> 'a lres" where
  "Iterator_Item h current = assertL (\<not> Iterator_IsDone current) (bindL (cell h current) (\<lambda>e. retL (item e)))"

definition Iterator_Next :: "'a LHeap \<Rightarrow> nat option \<Rightarrow> (nat option) lres" where
  "Iterator_Next h current = bindL (cell h current) (\<lambda>e. retL (next_elem e))"

fun fill :: "('a \<Rightarrow> 'a LHeap \<Rightarrow> ListHead \<Rightarrow> ('a LHeap \<times> ListHead) lres) \<Rightarrow> ('a LHeap \<Rightarrow> ListHead \<Rightarrow> bool) \<Rightarrow> 'a list \<Rightarrow> 'a LHeap \<Rightarrow> ListHead
    \<Rightarrow> ('a LHeap \<times> ListHead) lres" where
  \<comment> \<open>the loops that add every entry and assert that it is there and that \<open>and_then\<close> holds\<close>
  "fill add and_then [] h l = retL (h, l)"
| "fill add and_then (x # xs) h l = bindL (add x h l) (\<lambda>(h1, l1).
     assert_in True x h1 l1 (assertL (and_then h1 l1) (fill add and_then xs h1 l1)))"

fun remove_all :: "'a list \<Rightarrow> 'a LHeap \<Rightarrow> ListHead \<Rightarrow> ('a LHeap \<times> ListHead) lres" where
  "remove_all [] h l = retL (h, l)"
| "remove_all (x # xs) h l = bindL (Remove_item x h l) (\<lambda>(h1, l1). assert_in False x h1 l1 (remove_all xs h1 l1))"

definition List_SelfTest :: "('a \<Rightarrow> 'a LHeap \<Rightarrow> ListHead \<Rightarrow> ('a LHeap \<times> ListHead) lres) \<Rightarrow> ('a LHeap \<Rightarrow> ListHead \<Rightarrow> unit lres)
    \<Rightarrow> 'a list \<Rightarrow> 'a LHeap \<Rightarrow> ListHead \<Rightarrow> ('a LHeap \<times> ListHead) lres" where
  \<comment> \<open>with the virtual \<open>Append\<close> and \<open>SanityCheck\<close>\<close>
  "List_SelfTest add check p h l = (let iter = ListIterator_new l in
     bindL (check h l) (\<lambda>_.
     assertL (IsEmpty l \<and> l_first l = None) (assertL (Iterator_IsDone iter)
     (bindL (fill add (\<lambda>h l. \<not> IsEmpty l) p h l) (\<lambda>(h1, l1).
     bindL (check h1 l1) (\<lambda>_.
     bindL (remove_all p h1 l1) (\<lambda>(h2, l2).
     assertL (IsEmpty l2) (bindL (check h2 l2) (\<lambda>_. retL (h2, l2))))))))))"

fun take_out :: "nat \<Rightarrow> 'a LHeap \<Rightarrow> ListHead \<Rightarrow> ('a list \<times> 'a LHeap \<times> ListHead) lres" where
  \<comment> \<open>the loop that fills \<open>q\<close>\<close>
  "take_out 0 h l = retL ([], h, l)"
| "take_out (Suc n) h l = bindL (RemoveFront h l) (\<lambda>(x, h1, l1).
     assert_in False x h1 l1 (bindL (take_out n h1 l1) (\<lambda>(q, h2, l2). retL (x # q, h2, l2))))"

definition SortedList_SelfTest :: "('a \<Rightarrow> 'a \<Rightarrow> int) \<Rightarrow> 'a list \<Rightarrow> 'a LHeap \<Rightarrow> ListHead \<Rightarrow> ('a list \<times> 'a LHeap \<times> ListHead) lres" where
  "SortedList_SelfTest compare p h l =
     bindL (List_SelfTest (Insert compare) (SortedList_SanityCheck compare) p h l) (\<lambda>(h1, l1).
     bindL (fill (Insert compare) (\<lambda>_ _. True) p h1 l1) (\<lambda>(h2, l2).
     bindL (SortedList_SanityCheck compare h2 l2) (\<lambda>_.
     bindL (take_out (length p) h2 l2) (\<lambda>(q, h3, l3).
     assertL (IsEmpty l3)
       (assertL (\<forall>i < length p - 1. compare (q ! i) (q ! (i + 1)) \<le> 0)
         (bindL (SortedList_SanityCheck compare h3 l3) (\<lambda>_. retL (q, h3, l3))))))))"

definition IntCompare :: "int \<Rightarrow> int \<Rightarrow> int" where
  "IntCompare x y = (if x < y then - 1 else if x = y then 0 else 1)"

definition listTestVector :: "int list" where
  "listTestVector = [9, 5, 7]"

section \<open>The items of a list\<close>

fun lseg :: "(nat \<Rightarrow> 'a ListElement option) \<Rightarrow> nat option \<Rightarrow> (nat \<times> 'a) list \<Rightarrow> nat option \<Rightarrow> bool" where
  \<comment> \<open>the cells from \<open>p\<close> to \<open>q\<close>, with their items\<close>
  "lseg c p [] q = (p = q)"
| "lseg c p ((a, x) # axs) q = (p = Some a \<and> (\<exists>n. c a = Some \<lparr>item = x, next_elem = n\<rparr> \<and> lseg c n axs q))"

definition linked :: "'a LHeap \<Rightarrow> ListHead \<Rightarrow> (nat \<times> 'a) list \<Rightarrow> bool" where
  "linked h l axs \<longleftrightarrow> lseg (cells h) (l_first l) axs None \<and> distinct (map fst axs) \<and>
     l_last l = (if axs = [] then None else Some (fst (last axs))) \<and> numInList l = int (length axs) \<and>
     (\<forall>a \<in> fst ` set axs. a < l_free h)"

definition holds :: "'a LHeap \<Rightarrow> ListHead \<Rightarrow> 'a list \<Rightarrow> bool" where
  "holds h l xs \<longleftrightarrow> distinct xs \<and> (\<exists>axs. linked h l axs \<and> map snd axs = xs)"

lemma lseg_append: "lseg c p (axs @ bxs) q \<longleftrightarrow> (\<exists>r. lseg c p axs r \<and> lseg c r bxs q)"
  by (induction axs arbitrary: p) fastforce+

lemma lseg_upd: "a \<notin> fst ` set axs \<Longrightarrow> lseg (c(a := v)) p axs q = lseg c p axs q"
  by (induction axs arbitrary: p) auto

lemma lseg_head: "lseg c p axs None \<Longrightarrow> p = (case axs of [] \<Rightarrow> None | (a, x) # _ \<Rightarrow> Some a)"
  by (cases axs) auto

lemma lseg_in_loop: "lseg (cells h) p axs None \<Longrightarrow> in_loop x p h = Some (Inr (x \<in> snd ` set axs))"
  by (induction axs arbitrary: p) (subst in_loop.simps, auto)+

lemma linked_IsInList: "linked h l axs \<Longrightarrow> IsInList x h l = Some (Inr (x \<in> snd ` set axs))"
  by (simp add: IsInList_def linked_def lseg_in_loop)

lemma linked_IsEmpty: "linked h l axs \<Longrightarrow> IsEmpty l \<longleftrightarrow> axs = []"
  by (simp add: IsEmpty_def linked_def)

lemma linked_assert_in: "linked h l axs \<Longrightarrow> assert_in b x h l k = assertL ((x \<in> snd ` set axs) = b) k"
  by (simp add: assert_in_def linked_IsInList)

lemma linked_new: "linked h List_new []"
  by (simp add: linked_def List_new_def)

lemma linked_fresh:
  assumes "linked h l axs" and "ListElement_new x h = (a, h')"
  shows "linked h' l axs" "a \<notin> fst ` set axs" "cells h' a = Some \<lparr>item = x, next_elem = None\<rparr>" "l_free h' = Suc a"
proof -
  have a: "a = l_free h" "h' = h\<lparr>cells := (cells h)(a \<mapsto> \<lparr>item = x, next_elem = None\<rparr>), l_free := Suc a\<rparr>"
    using assms(2) by (auto simp: ListElement_new_def)
  then show new: "a \<notin> fst ` set axs" using assms(1) by (auto simp: linked_def)
  show "linked h' l axs" using assms(1) a lseg_upd [OF new] by (auto simp: linked_def)
  show "cells h' a = Some \<lparr>item = x, next_elem = None\<rparr>" "l_free h' = Suc a" using a by simp_all
qed

lemma cell_Some [simp]: "cells h a = Some e \<Longrightarrow> cell h (Some a) = Some (Inr e)"
  by (simp add: cell_def)

lemma set_next_Some [simp]: "cells h a = Some e \<Longrightarrow> set_next (Some a) q h = Some (Inr (set_cell a (e\<lparr>next_elem := q\<rparr>) h))"
  by (simp add: set_next_def retL_def)

lemma set_cell_simps [simp]: "cells (set_cell a e h) = (cells h)(a \<mapsto> e)" "l_free (set_cell a e h) = l_free h"
  by (simp_all add: set_cell_def)

lemma free_cell_simps [simp]: "cells (free_cell a h) = (cells h)(a := None)" "l_free (free_cell a h) = l_free h"
  by (simp_all add: free_cell_def)

lemma linked_snoc:
  assumes "linked h l (axs @ [(b, y)])" and "cells h a = Some \<lparr>item = x, next_elem = None\<rparr>"
    and "a \<notin> fst ` set (axs @ [(b, y)])" and "a < l_free h"
  shows "set_next (l_last l) (Some a) h = Some (Inr (set_cell b \<lparr>item = y, next_elem = Some a\<rparr> h))"
    "linked (set_cell b \<lparr>item = y, next_elem = Some a\<rparr> h) (l\<lparr>l_last := Some a, numInList := numInList l + 1\<rparr>) (axs @ [(b, y), (a, x)])"
  using assms by (auto simp: linked_def lseg_append lseg_upd)

section \<open>What the routines do\<close>

lemma Append_linked:
  assumes "linked h l axs" and "x \<notin> snd ` set axs"
  shows "\<exists>h' l'. Append x h l = Some (Inr (h', l')) \<and> linked h' l' (axs @ [(l_free h, x)])"
proof -
  obtain h1 where n: "ListElement_new x h = (l_free h, h1)" by (simp add: ListElement_new_def)
  note f = linked_fresh [OF assms(1) n]
  show ?thesis
  proof (cases axs rule: rev_cases)
    case Nil
    let ?l = "l\<lparr>l_first := Some (l_free h), l_last := Some (l_free h), numInList := numInList l + 1\<rparr>"
    have "linked h1 ?l [(l_free h, x)]" using f assms(1) Nil by (simp add: linked_def)
    then show ?thesis
      using f(1) n assms linked_IsEmpty [OF f(1)] Nil
      by (simp add: Append_def linked_assert_in) (simp add: retL_def)
  next
    case (snoc bxs z)
    obtain b y where z: "z = (b, y)" by (cases z)
    let ?h = "set_cell b \<lparr>item = y, next_elem = Some (l_free h)\<rparr> h1"
    let ?l = "l\<lparr>l_last := Some (l_free h), numInList := numInList l + 1\<rparr>"
    have s: "set_next (l_last l) (Some (l_free h)) h1 = Some (Inr ?h)" "linked ?h ?l (axs @ [(l_free h, x)])"
      using linked_snoc [OF f(1) [unfolded snoc z] f(3)] f(2,4) by (simp_all add: snoc z)
    then show ?thesis
      using f(1) n assms linked_IsEmpty [OF f(1)] snoc
      by (simp add: Append_def linked_assert_in) (simp add: retL_def)
  qed
qed

lemma linked_cons:
  assumes "linked h l axs" and "cells h a = Some \<lparr>item = x, next_elem = n\<rparr>"
    and "a \<notin> fst ` set axs" and "a < l_free h" and "axs \<noteq> []"
  shows "linked (set_cell a \<lparr>item = x, next_elem = l_first l\<rparr> h) (l\<lparr>l_first := Some a, numInList := numInList l + 1\<rparr>) ((a, x) # axs)"
  using assms by (auto simp: linked_def lseg_upd)

lemma Prepend_linked:
  assumes "linked h l axs" and "x \<notin> snd ` set axs"
  shows "\<exists>h' l'. Prepend x h l = Some (Inr (h', l')) \<and> linked h' l' ((l_free h, x) # axs)"
proof -
  obtain h1 where n: "ListElement_new x h = (l_free h, h1)" by (simp add: ListElement_new_def)
  note f = linked_fresh [OF assms(1) n]
  show ?thesis
  proof (cases "axs = []")
    case True
    let ?l = "l\<lparr>l_first := Some (l_free h), l_last := Some (l_free h), numInList := numInList l + 1\<rparr>"
    have "linked h1 ?l [(l_free h, x)]" using f assms(1) True by (simp add: linked_def)
    then show ?thesis
      using f(1) n assms linked_IsEmpty [OF f(1)] True
      by (simp add: Prepend_def linked_assert_in) (simp add: retL_def)
  next
    case False
    note c = linked_cons [OF f(1,3,2) _ False]
    show ?thesis
      using c f n assms linked_IsEmpty [OF f(1)] False
      by (simp add: Prepend_def linked_assert_in) (simp add: retL_def)
  qed
qed

lemma RemoveFront_linked:
  assumes "linked h l ((a, x) # axs)"
  shows "\<exists>h' l'. RemoveFront h l = Some (Inr (x, h', l')) \<and> linked h' l' axs"
proof -
  obtain n where c: "l_first l = Some a" "cells h a = Some \<lparr>item = x, next_elem = n\<rparr>" "lseg (cells h) n axs None"
    using assms by (auto simp: linked_def)
  have new: "a \<notin> fst ` set axs" using assms by (auto simp: linked_def)
  have one: "l_first l = l_last l \<longleftrightarrow> axs = []" using assms new c(1) by (auto simp: linked_def)
  have "n = None" if "axs = []" using c(3) that by simp
  then show ?thesis
    using assms c one new lseg_upd [OF new, of "cells h" None n None]
    by (cases "axs = []") (auto simp: RemoveFront_def IsEmpty_def linked_def retL_def Let_def)
qed

lemma remove_loop_linked:
  assumes "lseg c (Some p) ((p, y) # bxs @ (a, x) # cxs) None" and "cells h = c" and "x \<notin> snd ` set bxs"
  shows "remove_loop x (Some p) (next_elem (the (c p))) h l = (let e = the (c a); q = fst (last ((p, y) # bxs)) in
     Some (Inr (free_cell a (set_cell q \<lparr>item = snd (last ((p, y) # bxs)), next_elem = next_elem e\<rparr> h),
       l\<lparr>l_last := if cxs = [] then Some q else l_last l, numInList := numInList l - 1\<rparr>)))"
  using assms
proof (induction bxs arbitrary: p y)
  case Nil
  then obtain n where e: "c p = Some \<lparr>item = y, next_elem = Some a\<rparr>" "c a = Some \<lparr>item = x, next_elem = n\<rparr>" "lseg c n cxs None"
    by auto
  have "n = None \<longleftrightarrow> cxs = []" using lseg_head [OF e(3)] by (cases cxs) auto
  then show ?case using e Nil.prems(2) by (subst remove_loop.simps) (simp add: retL_def)
next
  case (Cons bz bxs)
  obtain b z where bz: "bz = (b, z)" by (cases bz)
  from Cons.prems(1) bz have e: "c p = Some \<lparr>item = y, next_elem = Some b\<rparr>" and s: "lseg c (Some b) ((b, z) # bxs @ (a, x) # cxs) None"
    by auto
  then obtain n where n: "c b = Some \<lparr>item = z, next_elem = n\<rparr>" by auto
  have "remove_loop x (Some p) (next_elem (the (c p))) h l = remove_loop x (Some b) (next_elem (the (c b))) h l"
    using e n Cons.prems(2,3) bz by (subst remove_loop.simps) simp
  then show ?case using Cons.IH [OF s Cons.prems(2)] Cons.prems(3) bz by simp
qed

lemma linked_cut:
  assumes "linked h l (bxs @ (a, x) # cxs)" and "bxs \<noteq> []" and "last bxs = (q, y)" and "cells h a = Some e"
  shows "linked (free_cell a (set_cell q \<lparr>item = y, next_elem = next_elem e\<rparr> h))
     (l\<lparr>l_last := if cxs = [] then Some q else l_last l, numInList := numInList l - 1\<rparr>) (bxs @ cxs)"
proof -
  obtain dxs where b: "bxs = dxs @ [(q, y)]" using assms(2,3) by (metis append_butlast_last_id)
  have d: "a \<notin> fst ` set cxs" "a \<notin> fst ` set dxs" "a \<noteq> q" "q \<notin> fst ` set cxs" "q \<notin> fst ` set dxs"
    using assms(1) b by (auto simp: linked_def)
  have s: "lseg (cells h) (l_first l) dxs (Some q)" "lseg (cells h) (next_elem e) cxs None"
    using assms(1,4) b by (auto simp: linked_def lseg_append)
  show ?thesis
    using assms(1) b d s by (auto simp: linked_def lseg_append lseg_upd)
qed

lemma Remove_linked:
  assumes "linked h l (bxs @ (a, x) # cxs)" and "distinct (map snd (bxs @ (a, x) # cxs))"
  shows "\<exists>h' l'. Remove_item x h l = Some (Inr (h', l')) \<and> linked h' l' (bxs @ cxs)"
proof (cases bxs)
  case Nil
  then obtain h' l' where r: "RemoveFront h l = Some (Inr (x, h', l'))" "linked h' l' cxs"
    using RemoveFront_linked assms(1) by force
  obtain n where "l_first l = Some a" "cells h a = Some \<lparr>item = x, next_elem = n\<rparr>" using assms(1) Nil by (auto simp: linked_def)
  moreover have "x \<notin> snd ` set cxs" using assms(2) Nil by (auto simp: image_iff)
  moreover have "x \<in> snd ` set (bxs @ (a, x) # cxs)" by force
  ultimately show ?thesis
    using r Nil by (simp add: Remove_item_def retL_def linked_assert_in [OF assms(1)] linked_assert_in [OF r(2)])
next
  case (Cons py dxs)
  obtain p y where py: "py = (p, y)" by (cases py)
  obtain n e where c: "l_first l = Some p" "cells h p = Some \<lparr>item = y, next_elem = n\<rparr>" and e: "cells h a = Some e"
    using assms(1) Cons py by (auto simp: linked_def lseg_append)
  obtain q z where qz: "last bxs = (q, z)" by (cases "last bxs")
  have s: "lseg (cells h) (Some p) ((p, y) # dxs @ (a, x) # cxs) None" using assms(1) c(1) Cons py by (simp add: linked_def)
  have nx: "x \<notin> snd ` set dxs" "x \<noteq> y" using assms(2) Cons py by (auto simp: image_iff)
  let ?h = "free_cell a (set_cell q \<lparr>item = z, next_elem = next_elem e\<rparr> h)"
  let ?l = "l\<lparr>l_last := if cxs = [] then Some q else l_last l, numInList := numInList l - 1\<rparr>"
  have "remove_loop x (Some p) n h l = Some (Inr (?h, ?l))"
    using remove_loop_linked [OF s refl nx(1), of l] c e qz Cons py by (simp add: Let_def)
  moreover have k: "linked ?h ?l (bxs @ cxs)" using linked_cut [OF assms(1) _ qz e] Cons by simp
  moreover have "x \<in> snd ` set (bxs @ (a, x) # cxs)" by force
  moreover have "x \<notin> snd ` set (bxs @ cxs)" using assms(2) by (auto simp: image_iff)
  ultimately show ?thesis
    using c nx(2) by (simp add: Remove_item_def retL_def linked_assert_in [OF assms(1)] linked_assert_in [OF k])
qed

lemma lseg_apply_loop: "lseg (cells h) p axs None \<Longrightarrow> apply_loop f p h s = Some (Inr (fold f (map snd axs) s))"
  by (induction axs arbitrary: p s) (subst apply_loop.simps, auto)+

lemma sanity_loop_linked:
  assumes "lseg (cells h) p (axs @ [(b, y)]) None" and "l_last l = Some b" and "b \<notin> fst ` set axs"
    and "n + int (length axs) \<le> numInList l"
  shows "sanity_loop n p h l = Some (Inr (n + int (length axs)))"
  using assms
proof (induction axs arbitrary: p n)
  case (Cons cz axs)
  then show ?case by (cases cz) (subst sanity_loop.simps, auto)
qed (subst sanity_loop.simps, auto)

lemma List_SanityCheck_linked:
  assumes "linked h l axs"
  shows "List_SanityCheck h l = Some (Inr ())"
proof (cases axs rule: rev_cases)
  case Nil
  then show ?thesis using assms by (simp add: List_SanityCheck_def linked_def retL_def)
next
  case (snoc bxs z)
  obtain b y where z: "z = (b, y)" by (cases z)
  have f: "lseg (cells h) (l_first l) (bxs @ [(b, y)]) None" "l_last l = Some b" "b \<notin> fst ` set bxs"
    "numInList l = 1 + int (length bxs)" "cells h b = Some \<lparr>item = y, next_elem = None\<rparr>"
    using assms snoc z by (auto simp: linked_def lseg_append)
  have "l_first l \<noteq> None" using f(1) by (cases bxs) auto
  moreover
  have "l_first l = l_last l \<longleftrightarrow> bxs = []"
    using f(1-3) by (cases bxs) auto
  ultimately show ?thesis
    using f sanity_loop_linked [OF f(1-3), of 1] by (auto simp: List_SanityCheck_def retL_def)
qed

section \<open>Sorted lists\<close>

definition place :: "('a \<Rightarrow> 'a \<Rightarrow> int) \<Rightarrow> 'a \<Rightarrow> 'a list \<Rightarrow> 'a list" where
  \<comment> \<open>before the first element that is larger\<close>
  "place compare x xs = takeWhile (\<lambda>y. \<not> compare x y < 0) xs @ x # dropWhile (\<lambda>y. \<not> compare x y < 0) xs"

lemma insert_loop_linked:
  assumes "lseg (cells h) p ((a, y) # axs) None" and "p = Some a" and "cells h el = Some \<lparr>item = x, next_elem = m\<rparr>"
    and "el \<notin> fst ` set ((a, y) # axs)"
  shows "insert_loop compare x el p h =
     (if \<forall>z \<in> snd ` set axs. \<not> compare x z < 0 then Some (Inr None)
      else let bxs = (a, y) # takeWhile (\<lambda>z. \<not> compare x (snd z) < 0) axs; c = hd (dropWhile (\<lambda>z. \<not> compare x (snd z) < 0) axs);
               q = last bxs
           in Some (Inr (Some (set_cell (fst q) \<lparr>item = snd q, next_elem = Some el\<rparr>
                (set_cell el \<lparr>item = x, next_elem = Some (fst c)\<rparr> h)))))"
  using assms
proof (induction axs arbitrary: p a y)
  case Nil
  then show ?case by (subst insert_loop.simps) auto
next
  case (Cons bz axs)
  obtain b z where bz: "bz = (b, z)" by (cases bz)
  from Cons.prems bz obtain n where e: "cells h a = Some \<lparr>item = y, next_elem = Some b\<rparr>"
    and b: "cells h b = Some \<lparr>item = z, next_elem = n\<rparr>" and s: "lseg (cells h) (Some b) ((b, z) # axs) None" by auto
  show ?case
  proof (cases "compare x z < 0")
    case True
    then show ?thesis using e b Cons.prems bz
      by (subst insert_loop.simps) (auto simp: retL_def)
  next
    case False
    then have "insert_loop compare x el p h = insert_loop compare x el (Some b) h"
      using e b Cons.prems(2) by (subst insert_loop.simps) simp
    also note Cons.IH [OF s refl Cons.prems(3)]
    finally show ?thesis using False Cons.prems(4) bz by (simp add: Let_def)
  qed
qed

lemma linked_between:
  assumes "linked h l (bxs @ cxs)" and "bxs \<noteq> []" and "cxs \<noteq> []" and "cells h el = Some \<lparr>item = x, next_elem = m\<rparr>"
    and "el \<notin> fst ` set (bxs @ cxs)" and "el < l_free h"
  shows "linked (set_cell (fst (last bxs)) \<lparr>item = snd (last bxs), next_elem = Some el\<rparr>
       (set_cell el \<lparr>item = x, next_elem = Some (fst (hd cxs))\<rparr> h))
     (l\<lparr>numInList := numInList l + 1\<rparr>) (bxs @ (el, x) # cxs)"
proof -
  obtain dxs q y where b: "bxs = dxs @ [(q, y)]" using assms(2) by (metis append_butlast_last_id surj_pair)
  obtain c z exs where c: "cxs = (c, z) # exs" using assms(3) by (metis list.exhaust surj_pair)
  have d: "q \<notin> fst ` set dxs" "q \<notin> fst ` set cxs" "q \<noteq> el" "el \<notin> fst ` set dxs" "el \<notin> fst ` set cxs"
    using assms(1,5) b by (auto simp: linked_def)
  have s: "lseg (cells h) (l_first l) dxs (Some q)" "lseg (cells h) (Some c) cxs None"
    using assms(1) b c by (auto simp: linked_def lseg_append)
  show ?thesis
    using assms(1,6) b c d s by (auto simp: linked_def lseg_append lseg_upd)
qed

definition place_at :: "('a \<Rightarrow> 'a \<Rightarrow> int) \<Rightarrow> nat \<times> 'a \<Rightarrow> (nat \<times> 'a) list \<Rightarrow> (nat \<times> 'a) list" where
  "place_at compare e axs = takeWhile (\<lambda>z. \<not> compare (snd e) (snd z) < 0) axs @ e # dropWhile (\<lambda>z. \<not> compare (snd e) (snd z) < 0) axs"

lemma place_at_items: "map snd (place_at compare (a, x) axs) = place compare x (map snd axs)"
  by (simp add: place_at_def place_def takeWhile_map dropWhile_map o_def)

lemma place_at_end: "\<forall>z \<in> snd ` set axs. \<not> compare x z < 0 \<Longrightarrow> place_at compare (a, x) axs = axs @ [(a, x)]"
  by (simp add: place_at_def)

lemma Insert_linked_walk:
  assumes "linked h l ((a, y) # ays)" and x: "x \<notin> snd ` set ((a, y) # ays)"
  shows "\<exists>h' l'. Insert compare x h l = Some (Inr (h', l')) \<and> linked h' l' (place_at compare (l_free h, x) ((a, y) # ays))"
proof -
  obtain h1 where n: "ListElement_new x h = (l_free h, h1)" by (simp add: ListElement_new_def)
  note f = linked_fresh [OF assms(1) n]
  obtain m where c: "l_first l = Some a" "cells h1 a = Some \<lparr>item = y, next_elem = m\<rparr>" using f(1) by (auto simp: linked_def)
  have lt: "l_free h < l_free h1" using f(4) by simp
  have s: "lseg (cells h1) (l_first l) ((a, y) # ays) None" using f(1) by (simp add: linked_def)
  note loop = insert_loop_linked [OF s c(1) f(3,2), of compare, unfolded c(1)]
  note start = n x linked_IsEmpty [OF f(1)] c
  consider "compare x y < 0" | "\<not> compare x y < 0" "\<forall>z \<in> snd ` set ays. \<not> compare x z < 0"
    | "\<not> compare x y < 0" "\<not> (\<forall>z \<in> snd ` set ays. \<not> compare x z < 0)" by blast
  then show ?thesis
  proof cases
    case 1
    note k = linked_cons [OF f(1,3,2) lt list.discI [OF refl]]
    then show ?thesis
      using 1 start f(3) c(1)
      by (simp add: Insert_def Let_def place_at_def linked_assert_in [OF f(1)] linked_assert_in [OF k [unfolded c(1)]]) (simp add: retL_def)
  next
    case 2
    obtain bxs b z where bz: "(a, y) # ays = bxs @ [(b, z)]" by (metis append_butlast_last_id list.discI surj_pair)
    note k = linked_snoc [OF f(1) [unfolded bz] f(3) f(2) [unfolded bz] lt]
    have q: "\<forall>z \<in> snd ` set ((a, y) # ays). \<not> compare x z < 0" using 2 by simp
    have p: "place_at compare (l_free h, x) ((a, y) # ays) = bxs @ [(b, z), (l_free h, x)]"
      using place_at_end [where axs = "(a, y) # ays" and compare = compare and x = x, OF q, of "l_free h"] bz by simp
    then show ?thesis
      unfolding p using 2 start loop k
      by (simp add: Insert_def Let_def linked_assert_in [OF f(1)] linked_assert_in [OF k(2)]) (simp add: retL_def)
  next
    case 3
    let ?P = "\<lambda>z. \<not> compare x (snd z) < 0"
    have split: "linked h1 l (((a, y) # takeWhile ?P ays) @ dropWhile ?P ays)" using f(1) by simp
    have "dropWhile ?P ays \<noteq> []" using 3(2) by auto
    note k = linked_between [OF split _ this f(3) _ lt]
    show ?thesis
      using 3(1) start loop [unfolded if_not_P [OF 3(2)] Let_def] k f(2)
      by (simp add: Insert_def Let_def place_at_def linked_assert_in [OF f(1)] retL_def)
  qed
qed

lemma Insert_linked:
  assumes "linked h l axs" and "x \<notin> snd ` set axs"
  shows "\<exists>h' l'. Insert compare x h l = Some (Inr (h', l')) \<and> linked h' l' (place_at compare (l_free h, x) axs)"
proof (cases axs)
  case Nil
  obtain h1 where n: "ListElement_new x h = (l_free h, h1)" by (simp add: ListElement_new_def)
  note f = linked_fresh [OF assms(1) n]
  let ?l = "l\<lparr>l_first := Some (l_free h), l_last := Some (l_free h), numInList := numInList l + 1\<rparr>"
  have k: "linked h1 ?l [(l_free h, x)]" using f assms(1) Nil by (simp add: linked_def)
  then show ?thesis
    using n assms linked_IsEmpty [OF f(1)] Nil
    by (simp add: Insert_def Let_def place_at_def linked_assert_in [OF f(1)] linked_assert_in [OF k]) (simp add: retL_def)
next
  case (Cons ay ays)
  then show ?thesis using Insert_linked_walk [of h l "fst ay" "snd ay" ays x compare] assms by simp
qed

lemma lseg_sorted_loop:
  assumes "lseg (cells h) p axs None"
  shows "sorted_loop compare y p h = (if successively (\<lambda>u v. compare u v \<le> 0) (y # map snd axs) then Some (Inr ()) else Some (Inl AssertFailed))"
  using assms
proof (induction axs arbitrary: p y)
  case (Cons z axs)
  then show ?case by (cases z) (subst sorted_loop.simps, auto)
qed (subst sorted_loop.simps, simp)

lemma SortedList_SanityCheck_linked:
  assumes "linked h l axs"
  shows "SortedList_SanityCheck compare h l =
     (if successively (\<lambda>u v. compare u v \<le> 0) (map snd axs) then Some (Inr ()) else Some (Inl AssertFailed))"
proof (cases axs)
  case Nil
  then show ?thesis using assms List_SanityCheck_linked [OF assms] by (simp add: SortedList_SanityCheck_def linked_def retL_def)
next
  case (Cons z bxs)
  obtain a y where z: "z = (a, y)" by (cases z)
  obtain n where c: "l_first l = Some a" "cells h a = Some \<lparr>item = y, next_elem = n\<rparr>" "lseg (cells h) n bxs None"
    using assms Cons z by (auto simp: linked_def)
  have "l_first l = l_last l \<longleftrightarrow> bxs = []" using assms Cons z c(1) by (auto simp: linked_def)
  then show ?thesis
    using Cons z c List_SanityCheck_linked [OF assms] lseg_sorted_loop [OF c(3), of compare y]
    by (auto simp: SortedList_SanityCheck_def retL_def)
qed

section \<open>The routines on the items\<close>

fun yields :: "('a LHeap \<times> ListHead) lres \<Rightarrow> 'a list option \<Rightarrow> bool" where
  \<comment> \<open>the list that a routine leaves, or \<open>None\<close> for a failed assertion\<close>
  "yields r None = (r = Some (Inl AssertFailed))"
| "yields r (Some xs) = (\<exists>h l. r = Some (Inr (h, l)) \<and> holds h l xs)"

lemma holdsE:
  assumes "holds h l xs"
  obtains axs where "linked h l axs" "map snd axs = xs" "distinct xs" "snd ` set axs = set xs"
  using assms by (auto simp: holds_def)

lemma holds_new: "holds h List_new []"
  by (auto simp: holds_def linked_new)

lemma holds_IsInList: "holds h l xs \<Longrightarrow> IsInList x h l = Some (Inr (x \<in> set xs))"
  by (erule holdsE) (simp add: linked_IsInList)

lemma holds_IsEmpty: "holds h l xs \<Longrightarrow> IsEmpty l \<longleftrightarrow> xs = []"
  by (erule holdsE) (auto simp: linked_IsEmpty)

lemma holds_first: "holds h l xs \<Longrightarrow> l_first l = None \<longleftrightarrow> xs = []"
  by (erule holdsE) (auto simp: linked_def split: list.splits dest!: lseg_head)

lemma holds_assert_in: "holds h l xs \<Longrightarrow> assert_in b x h l k = assertL ((x \<in> set xs) = b) k"
  by (simp add: assert_in_def holds_IsInList)

lemma holds_duplicate:
  assumes "holds h l xs" and "x \<in> set xs"
  shows "Append x h l = Some (Inl AssertFailed)" "Prepend x h l = Some (Inl AssertFailed)" "Insert compare x h l = Some (Inl AssertFailed)"
proof -
  obtain axs where a: "linked h l axs" "snd ` set axs = set xs" using assms(1) by (rule holdsE)
  obtain h1 where n: "ListElement_new x h = (l_free h, h1)" by (simp add: ListElement_new_def)
  show "Append x h l = Some (Inl AssertFailed)" "Prepend x h l = Some (Inl AssertFailed)" "Insert compare x h l = Some (Inl AssertFailed)"
    using assms(2) a(2) n
    by (simp_all add: Append_def Prepend_def Insert_def Let_def linked_assert_in [OF linked_fresh(1) [OF a(1) n]])
qed

lemma yields_added:
  assumes "holds h l xs" and "x \<in> set xs \<Longrightarrow> r = Some (Inl AssertFailed)"
    and "\<And>axs. linked h l axs \<Longrightarrow> x \<notin> snd ` set axs \<Longrightarrow> \<exists>h' l'. r = Some (Inr (h', l')) \<and> linked h' l' (f axs)"
    and "\<And>axs. map snd (f axs) = g (map snd axs)" and "x \<notin> set xs \<Longrightarrow> distinct xs \<Longrightarrow> distinct (g xs)"
  shows "yields r (if x \<in> set xs then None else Some (g xs))"
proof (cases "x \<in> set xs")
  case False
  obtain axs where a: "linked h l axs" "map snd axs = xs" "distinct xs" "snd ` set axs = set xs" using assms(1) by (rule holdsE)
  then obtain h' l' where "r = Some (Inr (h', l'))" "linked h' l' (f axs)" using assms(3) [of axs] False by auto
  then show ?thesis using False a assms(4,5) by (auto simp: holds_def)
qed (simp add: assms(2))

lemma Append_holds: "holds h l xs \<Longrightarrow> yields (Append x h l) (if x \<in> set xs then None else Some (xs @ [x]))"
  by (rule yields_added [OF _ _ Append_linked, where g = "\<lambda>xs. xs @ [x]"]) (simp_all add: holds_duplicate)

lemma Prepend_holds: "holds h l xs \<Longrightarrow> yields (Prepend x h l) (if x \<in> set xs then None else Some (x # xs))"
  by (rule yields_added [OF _ _ Prepend_linked]) (simp_all add: holds_duplicate)

lemma mset_place: "mset (place compare x xs) = mset (x # xs)"
  unfolding place_def by (simp, simp flip: mset_append)

lemma set_place: "set (place compare x xs) = insert x (set xs)"
  using arg_cong [OF mset_place, of set_mset] by simp

lemma distinct_place: "distinct (place compare x xs) \<longleftrightarrow> x \<notin> set xs \<and> distinct xs"
  using mset_eq_imp_distinct_iff [OF mset_place] by simp

lemma Insert_holds: "holds h l xs \<Longrightarrow> yields (Insert compare x h l) (if x \<in> set xs then None else Some (place compare x xs))"
  by (rule yields_added [OF _ _ Insert_linked]) (simp_all add: holds_duplicate place_at_items distinct_place)

lemma Remove_holds:
  assumes "holds h l xs"
  shows "yields (Remove_item x h l) (if x \<in> set xs then Some (remove1 x xs) else None)"
proof -
  obtain axs where a: "linked h l axs" "map snd axs = xs" "distinct xs" "snd ` set axs = set xs" using assms by (rule holdsE)
  show ?thesis
  proof (cases "x \<in> set xs")
    case True
    then obtain bxs b cxs where s: "axs = bxs @ (b, x) # cxs" using a(4) by (metis imageE split_list prod.collapse)
    then have r: "remove1 x xs = map snd (bxs @ cxs)" using a(2,3) by (auto simp: remove1_append)
    obtain h' l' where "Remove_item x h l = Some (Inr (h', l'))" "linked h' l' (bxs @ cxs)"
      using Remove_linked [of h l bxs b x cxs] a(1-3) s by auto
    moreover have "distinct (map snd (bxs @ cxs))" using a(3) r by (metis distinct_remove1)
    ultimately show ?thesis unfolding r using True by (auto simp: holds_def simp del: map_append)
  qed (simp add: Remove_item_def holds_assert_in [OF assms])
qed

lemma RemoveFront_holds:
  assumes "holds h l xs"
  shows "xs = [] \<Longrightarrow> RemoveFront h l = Some (Inl AssertFailed)"
    "xs = y # ys \<Longrightarrow> Front h l = Some (Inr y) \<and> (\<exists>h' l'. RemoveFront h l = Some (Inr (y, h', l')) \<and> holds h' l' ys)"
proof -
  obtain axs where a: "linked h l axs" "map snd axs = xs" "distinct xs" using assms by (rule holdsE)
  show "RemoveFront h l = Some (Inl AssertFailed)" if "xs = []" using that assms by (simp add: RemoveFront_def holds_IsEmpty)
  show "Front h l = Some (Inr y) \<and> (\<exists>h' l'. RemoveFront h l = Some (Inr (y, h', l')) \<and> holds h' l' ys)" if c: "xs = y # ys"
  proof -
    obtain b bxs where s: "axs = (b, y) # bxs" "map snd bxs = ys" using a(2) c by auto
    then have "Front h l = Some (Inr y)" using a(1) by (auto simp: Front_def linked_def retL_def)
    then show ?thesis using RemoveFront_linked [of h l b y bxs] a c s by (auto simp: holds_def)
  qed
qed

lemma holds_SanityCheck: "holds h l xs \<Longrightarrow> List_SanityCheck h l = Some (Inr ())"
  by (erule holdsE) (rule List_SanityCheck_linked)

lemma holds_Apply: "holds h l xs \<Longrightarrow> Apply f h l s = Some (Inr (fold f xs s))"
  by (erule holdsE) (auto simp: Apply_def linked_def lseg_apply_loop)

lemma holds_sorted:
  "holds h l xs \<Longrightarrow> SortedList_SanityCheck compare h l =
     (if successively (\<lambda>u v. compare u v \<le> 0) xs then Some (Inr ()) else Some (Inl AssertFailed))"
  by (erule holdsE) (auto simp: SortedList_SanityCheck_linked)

section \<open>What a kind of list promises\<close>

text \<open>
  The two kinds of list differ in \<open>Append\<close> and in \<open>SanityCheck\<close>, which are virtual; what the self test
  relies on is the same for both.
\<close>

locale list_kind =
  fixes add :: "'a \<Rightarrow> 'a LHeap \<Rightarrow> ListHead \<Rightarrow> ('a LHeap \<times> ListHead) lres"
    and check :: "'a LHeap \<Rightarrow> ListHead \<Rightarrow> unit lres"
    and put :: "'a \<Rightarrow> 'a list \<Rightarrow> 'a list"
    and good :: "'a list \<Rightarrow> bool"
  assumes add: "holds h l xs \<Longrightarrow> x \<notin> set xs \<Longrightarrow> yields (add x h l) (Some (put x xs))"
    and set_put: "set (put x xs) = insert x (set xs)"
    and good_put: "good xs \<Longrightarrow> good (put x xs)"
    and good_Nil: "good []"
    and good_remove: "good xs \<Longrightarrow> good (remove1 x xs)"
    and check: "holds h l xs \<Longrightarrow> good xs \<Longrightarrow> check h l = Some (Inr ())"
begin

lemma fill_holds:
  assumes "holds h l xs" "good xs" "distinct p" "set p \<inter> set xs = {}"
    and "\<And>h l ys. holds h l ys \<Longrightarrow> ys \<noteq> [] \<Longrightarrow> extra h l"
  shows "\<exists>h' l' ys. fill add extra p h l = Some (Inr (h', l')) \<and> holds h' l' ys \<and> good ys \<and> set ys = set p \<union> set xs"
  using assms(1-4)
proof (induction p arbitrary: h l xs)
  case Nil
  then show ?case by (auto simp: retL_def)
next
  case (Cons x p)
  obtain h1 l1 where a: "add x h l = Some (Inr (h1, l1))" "holds h1 l1 (put x xs)" using add [OF Cons.prems(1), of x] Cons.prems(4) by auto
  have "extra h1 l1" using assms(5) [OF a(2)] set_put [of x xs] by fastforce
  moreover obtain h' l' ys where "fill add extra p h1 l1 = Some (Inr (h', l'))" "holds h' l' ys" "good ys" "set ys = set p \<union> set (put x xs)"
    using Cons.IH [OF a(2) good_put [OF Cons.prems(2)]] Cons.prems(3,4) by (auto simp: set_put)
  ultimately show ?case using a by (auto simp: set_put holds_assert_in)
qed

lemma remove_all_holds:
  assumes "holds h l xs" "good xs" "distinct p" "set p = set xs"
  shows "\<exists>h' l'. remove_all p h l = Some (Inr (h', l')) \<and> holds h' l' []"
  using assms
proof (induction p arbitrary: h l xs)
  case Nil
  then show ?case by (auto simp: retL_def)
next
  case (Cons x p)
  have d: "distinct xs" using Cons.prems(1) by (simp add: holds_def)
  obtain h1 l1 where a: "Remove_item x h l = Some (Inr (h1, l1))" "holds h1 l1 (remove1 x xs)"
    using Remove_holds [OF Cons.prems(1), of x] by (auto simp flip: Cons.prems(4))
  then show ?case
    using Cons.IH [OF a(2) good_remove [OF Cons.prems(2)]] Cons.prems(3,4) d by (auto simp: holds_assert_in)
qed

lemma List_SelfTest_holds:
  assumes "holds h l []" "distinct p"
  shows "\<exists>h' l'. List_SelfTest add check p h l = Some (Inr (h', l')) \<and> holds h' l' []"
proof -
  have e: "IsEmpty l" "l_first l = None" using holds_IsEmpty [OF assms(1)] holds_first [OF assms(1)] by simp_all
  obtain h1 l1 ys where f: "fill add (\<lambda>h l. \<not> IsEmpty l) p h l = Some (Inr (h1, l1))" "holds h1 l1 ys" "good ys" "set ys = set p"
    using fill_holds [OF assms(1) good_Nil assms(2), of "\<lambda>h l. \<not> IsEmpty l"] by (auto simp: holds_IsEmpty)
  obtain h2 l2 where r: "remove_all p h1 l1 = Some (Inr (h2, l2))" "holds h2 l2 []"
    using remove_all_holds [OF f(2,3) assms(2)] f(4) by auto
  show ?thesis
    using assms e f r check [OF assms(1) good_Nil] check [OF f(2,3)] check [OF r(2) good_Nil] holds_IsEmpty [OF r(2)]
    by (simp add: List_SelfTest_def Let_def ListIterator_new_def Iterator_IsDone_def retL_def)
qed

end

interpretation plain_list: list_kind Append List_SanityCheck "\<lambda>x xs. xs @ [x]" "\<lambda>_. True"
proof
  show "yields (Append x h l) (Some (xs @ [x]))" if "holds h l xs" "x \<notin> set xs" for h l and xs :: "'a list" and x
    using Append_holds [OF that(1), of x] that(2) by simp
qed (auto simp: holds_SanityCheck)

definition ordered :: "('a \<Rightarrow> 'a \<Rightarrow> int) \<Rightarrow> 'a list \<Rightarrow> bool" where
  "ordered compare = sorted_wrt (\<lambda>x y. compare x y \<le> 0)"

lemma ordered_Nil [simp]: "ordered compare []"
  by (simp add: ordered_def)

lemma ordered_remove1: "ordered compare xs \<Longrightarrow> ordered compare (remove1 x xs)"
  by (induction xs) (auto simp: ordered_def dest: in_set_remove1 notin_set_remove1 set_mp [OF set_remove1_subset])

text \<open>A comparison function as list.h asks for.\<close>

locale ordering_function =
  fixes compare :: "'a \<Rightarrow> 'a \<Rightarrow> int"
  assumes antisym: "\<not> compare x y < 0 \<longleftrightarrow> compare y x \<le> 0"
    and trans: "compare x y \<le> 0 \<Longrightarrow> compare y z \<le> 0 \<Longrightarrow> compare x z \<le> 0"
begin

lemma ordered_place: "ordered compare xs \<Longrightarrow> ordered compare (place compare x xs)"
proof (induction xs)
  case (Cons y xs)
  show ?case
  proof (cases "compare x y < 0")
    case True
    then show ?thesis using Cons.prems trans by (auto simp: place_def ordered_def intro: less_imp_le)
  next
    case False
    then have "place compare x (y # xs) = y # place compare x xs" by (simp add: place_def)
    then show ?thesis using Cons False by (auto simp: ordered_def set_place antisym)
  qed
qed (simp add: place_def ordered_def)

lemma ordered_check: "holds h l xs \<Longrightarrow> ordered compare xs \<Longrightarrow> SortedList_SanityCheck compare h l = Some (Inr ())"
  by (simp add: holds_sorted ordered_def sorted_wrt_iff_nth_less successively_conv_nth)

end

sublocale ordering_function \<subseteq> sorted_list: list_kind "Insert compare" "SortedList_SanityCheck compare" "place compare" "ordered compare"
proof
  show "yields (Insert compare x h l) (Some (place compare x xs))" if "holds h l xs" "x \<notin> set xs" for h l xs x
    using Insert_holds [OF that(1), of compare x] that(2) by simp
qed (auto simp: set_place ordered_place ordered_check ordered_remove1)

context ordering_function
begin

lemma take_out_holds:
  assumes "holds h l xs"
  shows "\<exists>h' l'. take_out (length xs) h l = Some (Inr (xs, h', l')) \<and> holds h' l' []"
  using assms
proof (induction xs arbitrary: h l)
  case Nil
  then show ?case by (auto simp: retL_def)
next
  case (Cons x xs)
  obtain h1 l1 where r: "RemoveFront h l = Some (Inr (x, h1, l1))" "holds h1 l1 xs" using RemoveFront_holds(2) [OF Cons.prems refl] by auto
  moreover have "x \<notin> set xs" using Cons.prems by (simp add: holds_def)
  ultimately show ?case using Cons.IH [OF r(2)] by (auto simp: holds_assert_in retL_def)
qed

lemma SortedList_SelfTest_sorts:
  assumes "holds h l []" "distinct p"
  shows "\<exists>q h' l'. SortedList_SelfTest compare p h l = Some (Inr (q, h', l')) \<and> mset q = mset p \<and> ordered compare q \<and> holds h' l' []"
proof -
  obtain h1 l1 where s: "List_SelfTest (Insert compare) (SortedList_SanityCheck compare) p h l = Some (Inr (h1, l1))" "holds h1 l1 []"
    using sorted_list.List_SelfTest_holds [OF assms] by auto
  obtain h2 l2 q where f: "fill (Insert compare) (\<lambda>_ _. True) p h1 l1 = Some (Inr (h2, l2))" "holds h2 l2 q" "ordered compare q" "set q = set p"
    using sorted_list.fill_holds [OF s(2) sorted_list.good_Nil assms(2), of "\<lambda>_ _. True"] by auto
  have m: "mset q = mset p" using f(2,4) assms(2) by (simp add: set_eq_iff_mset_eq_distinct holds_def)
  then have len: "length q = length p" by (rule mset_eq_length)
  obtain h3 l3 where t: "take_out (length q) h2 l2 = Some (Inr (q, h3, l3))" "holds h3 l3 []" using take_out_holds [OF f(2)] by auto
  have "\<forall>i < length p - 1. compare (q ! i) (q ! (i + 1)) \<le> 0" using f(3) len by (simp add: ordered_def sorted_wrt_iff_nth_less)
  then show ?thesis
    using s f m t len ordered_check [OF f(2,3)] ordered_check [OF t(2) sorted_list.good_Nil] holds_IsEmpty [OF t(2)]
    by (simp add: SortedList_SelfTest_def retL_def)
qed

end

interpretation int_order: ordering_function IntCompare
  by unfold_locales (auto simp: IntCompare_def split: if_splits)

section \<open>Properties\<close>

text \<open>C33. The linked list of lib/list.cc implements a list of distinct items. From any state whose cells hold
  the items \<open>xs\<close>, every routine returns (the loops over the pointers end), touches no freed cell, and leaves
  cells that hold what the operation on \<open>xs\<close> gives: \<open>Append\<close> and \<open>Prepend\<close> put the item at the end and at the
  front, \<open>Insert\<close> before the first larger item, \<open>Remove\<close> takes the item out wherever it is, \<open>RemoveFront\<close>
  gives the first item, \<open>Apply\<close> visits the items in order, and \<open>SanityCheck\<close> finds nothing wrong. Adding an
  item twice, removing one that is not there and removing from the empty list are failed assertions.\<close>
theorem list_refines:
  assumes "holds h l xs"
  shows "IsInList x h l = Some (Inr (x \<in> set xs)) \<and> IsEmpty l = (xs = []) \<and> List_SanityCheck h l = Some (Inr ()) \<and>
    yields (Append x h l) (if x \<in> set xs then None else Some (xs @ [x])) \<and>
    yields (Prepend x h l) (if x \<in> set xs then None else Some (x # xs)) \<and>
    yields (Insert compare x h l) (if x \<in> set xs then None else Some (place compare x xs)) \<and>
    yields (Remove_item x h l) (if x \<in> set xs then Some (remove1 x xs) else None) \<and>
    (case xs of [] \<Rightarrow> RemoveFront h l = Some (Inl AssertFailed)
     | y # ys \<Rightarrow> Front h l = Some (Inr y) \<and> (\<exists>h' l'. RemoveFront h l = Some (Inr (y, h', l')) \<and> holds h' l' ys)) \<and>
    Apply f h l s = Some (Inr (fold f xs s))"
proof (intro conjI)
  show "case xs of [] \<Rightarrow> RemoveFront h l = Some (Inl AssertFailed)
     | y # ys \<Rightarrow> Front h l = Some (Inr y) \<and> (\<exists>h' l'. RemoveFront h l = Some (Inr (y, h', l')) \<and> holds h' l' ys)"
    using RemoveFront_holds [OF assms] by (simp split: list.split)
qed (rule holds_IsInList [OF assms] holds_IsEmpty [OF assms] holds_SanityCheck [OF assms] Append_holds [OF assms]
    Prepend_holds [OF assms] Insert_holds [OF assms] Remove_holds [OF assms] holds_Apply [OF assms])+

definition heap0 :: "int LHeap" where
  "heap0 = \<lparr>cells = (\<lambda>_. None)(0 \<mapsto> \<lparr>item = 9, next_elem = Some 2\<rparr>, 2 \<mapsto> \<lparr>item = 5, next_elem = None\<rparr>), l_free = 3\<rparr>"

definition list0 :: ListHead where
  "list0 = \<lparr>l_first = Some 0, l_last = Some 2, numInList = 2\<rparr>"

theorem list_refines_witness:
  "yields (Append 7 heap0 list0) (Some [9, 5, 7]) \<and> yields (Remove_item 5 heap0 list0) (Some [9]) \<and>
   yields (Insert IntCompare 9 heap0 list0) None \<and> yields (Insert IntCompare 1 heap0 list0) (Some [1, 9, 5])"
proof -
  have "linked heap0 list0 [(0, 9), (2, 5)]" by (simp add: linked_def heap0_def list0_def)
  then have h: "holds heap0 list0 [9, 5]" unfolding holds_def by (intro conjI exI [of _ "[(0, 9), (2, 5)]"]) simp_all
  note r = list_refines [OF h, where compare = IntCompare and f = "\<lambda>_ s. s" and s = "()"]
  show ?thesis using r [of 7] r [of 5] r [of 9] r [of 1] by (simp add: place_def IntCompare_def del: yields.simps)
qed

text \<open>C34. A sorted list sorts. For every comparison function that orders the items totally as list.h asks,
  and every vector of distinct entries, the self test of lib/list.cc passes all its assertions and its
  sanity checks, and the array \<open>q\<close> that it fills by inserting the entries and taking them off the front has
  the same entries in increasing order; the list is empty afterwards, so the test can be run again.\<close>
theorem sorted_list_sorts:
  assumes "ordering_function compare" and "holds h l []" and "distinct p"
  shows "\<exists>q h' l'. SortedList_SelfTest compare p h l = Some (Inr (q, h', l')) \<and> mset q = mset p \<and>
    sorted_wrt (\<lambda>x y. compare x y \<le> 0) q \<and> holds h' l' []"
  using ordering_function.SortedList_SelfTest_sorts [OF assms] by (simp add: ordered_def)

theorem sorted_list_sorts_witness:
  "\<exists>q h' l'. SortedList_SelfTest IntCompare listTestVector heap0 List_new = Some (Inr (q, h', l')) \<and>
     mset q = {#9, 5, 7#} \<and> sorted_wrt (\<lambda>x y. IntCompare x y \<le> 0) q \<and> holds h' l' []"
  using sorted_list_sorts [OF int_order.ordering_function_axioms holds_new, of listTestVector heap0] by (simp add: listTestVector_def)

end
