(* ===== verification/Interrupts.thy ===== *)
theory Interrupts
  imports Complex_Main Lists Threads FileSys
begin

text \<open>
  The simulation of hardware interrupts, machine/interrupt.cc and machine/stats.cc: the state of the
  machine with its devices, simulated time, and the queue of pending interrupts.

  The queue is the sorted list of \<open>Lists\<close>, cells and pointers included. A \<open>PendingInterrupt\<close> carries the
  address of its object, because the list compares pointers for equality. The devices that can be
  called back are the ones \<^verbatim>\<open>Kernel::Initialize\<close> creates; their state is here too, their code in
  \<open>Devices\<close>, and the routines that fire interrupts in \<open>Ticks\<close>. UNIX is again a parameter, the record \<open>env\<close> of
  functions on a host state.

  The counters of \<open>Statistics\<close> are mathematical integers: a run of less than 2147483648 ticks.
\<close>

section \<open>Statistics\<close>

record Statistics =
  totalTicks :: int
  idleTicks :: int
  systemTicks :: int
  userTicks :: int
  numDiskReads :: int
  numDiskWrites :: int
  numConsoleCharsRead :: int
  numConsoleCharsWritten :: int
  numPageFaults :: int
  numPacketsSent :: int
  numPacketsRecvd :: int

definition Statistics_new :: Statistics where
  "Statistics_new = \<lparr>totalTicks = 0, idleTicks = 0, systemTicks = 0, userTicks = 0, numDiskReads = 0, numDiskWrites = 0,
     numConsoleCharsRead = 0, numConsoleCharsWritten = 0, numPageFaults = 0, numPacketsSent = 0, numPacketsRecvd = 0\<rparr>"

abbreviation UserTick :: int where "UserTick \<equiv> 1"
abbreviation SystemTick :: int where "SystemTick \<equiv> 10"
abbreviation RotationTime :: int where "RotationTime \<equiv> 500"
abbreviation SeekTime :: int where "SeekTime \<equiv> 500"
abbreviation ConsoleTime :: int where "ConsoleTime \<equiv> 100"
abbreviation NetworkTime :: int where "NetworkTime \<equiv> 100"
abbreviation TimerTicks :: int where "TimerTicks \<equiv> 100"

section \<open>Pending interrupts\<close>

datatype IntType = TimerInt | DiskInt | ConsoleWriteInt | ConsoleReadInt | NetworkSendInt | NetworkRecvInt

datatype Callee = TimerObj | ConsoleInObj | ConsoleOutObj | DiskObj | NetInObj | NetOutObj
  \<comment> \<open>the \<open>CallBackObj\<close> of a device\<close>

record PendingInterrupt =
  p_addr :: nat
  callOnInterrupt :: Callee
  when_due :: int             \<comment> \<open>\<open>when\<close>\<close>
  p_type :: IntType

definition PendingInterrupt_new :: "nat \<Rightarrow> Callee \<Rightarrow> int \<Rightarrow> IntType \<Rightarrow> PendingInterrupt" where
  "PendingInterrupt_new a callOnInt time kind = \<lparr>p_addr = a, callOnInterrupt = callOnInt, when_due = time, p_type = kind\<rparr>"

definition PendingCompare :: "PendingInterrupt \<Rightarrow> PendingInterrupt \<Rightarrow> int" where
  "PendingCompare x y = (if when_due x < when_due y then - 1 else if when_due x > when_due y then 1 else 0)"

interpretation pending_order: ordering_function PendingCompare
  by unfold_locales (auto simp: PendingCompare_def split: if_splits)

section \<open>The machine with its devices\<close>

record 'h DevUnix = "'h Unix" +
  u_select :: "int \<Rightarrow> 'h \<Rightarrow> int \<times> 'h"                     \<comment> \<open>\<open>select\<close> on one descriptor, without waiting\<close>
  u_recvfrom :: "int \<Rightarrow> int \<Rightarrow> 'h \<Rightarrow> (int \<times> byte list) \<times> 'h"
  u_sendto :: "int \<Rightarrow> byte list \<Rightarrow> int \<Rightarrow> int \<Rightarrow> 'h \<Rightarrow> int \<times> 'h"   \<comment> \<open>socket, buffer, size, the number in the name of the peer\<close>
  u_dgram :: "'h \<Rightarrow> int \<times> 'h"                            \<comment> \<open>\<open>socket(AF_UNIX, SOCK_DGRAM, 0)\<close>\<close>
  u_bind :: "int \<Rightarrow> int \<Rightarrow> 'h \<Rightarrow> int \<times> 'h"                \<comment> \<open>\<open>unlink\<close> and \<open>bind\<close> to the name with this number\<close>
  u_rand :: "'h \<Rightarrow> cint \<times> 'h"

record Timer =
  randomize :: bool
  disable :: bool

record ConsoleInput =
  readFileNo :: int
  incoming :: byte

record ConsoleOutput =
  writeFileNo :: int
  putBusy :: bool

record Disk =
  d_fileno :: int
  active :: bool
  lastSector :: int
  bufferInit :: int

record PacketHeader =
  pk_to :: cint
  pk_from :: cint
  pk_length :: cint

record NetworkInput =
  in_sock :: int
  inHdr :: PacketHeader
  inbox :: "byte list"

record NetworkOutput =
  out_sock :: int
  chanceToWork :: rat
  sendBusy :: bool

record 'h Sys =
  kern :: Kernel
  stats :: Statistics
  p_heap :: "PendingInterrupt LHeap"
  pending :: ListHead
  p_new :: nat                  \<comment> \<open>the next address that \<open>new PendingInterrupt\<close> gives\<close>
  inHandler :: bool
  yieldOnReturn :: bool
  i_status :: MachineStatus
  timer :: Timer
  consoleInput :: ConsoleInput
  in_waitFor :: nat             \<comment> \<open>the semaphore \<open>waitFor\<close> of \<open>SynchConsoleInput\<close>\<close>
  consoleOutput :: ConsoleOutput
  out_waitFor :: nat
  disk :: Disk
  disk_semaphore :: nat
  netIn :: NetworkInput
  messageAvailable :: nat
  netOut :: NetworkOutput
  messageSent :: nat
  hostName :: cint
  env :: "'h DevUnix"
  dev_host :: 'h

section \<open>Interrupt\<close>

definition liftL :: "'a result \<Rightarrow> 'a lres" where
  "liftL r = Some r"

definition Interrupt_new :: "'h Sys \<Rightarrow> 'h Sys" where
  "Interrupt_new s = s\<lparr>kern := (kern s)\<lparr>level := IntOff\<rparr>, pending := List_new, inHandler := False, yieldOnReturn := False, i_status := SystemMode\<rparr>"

definition ChangeLevel :: "IntStatus \<Rightarrow> IntStatus \<Rightarrow> 'h Sys \<Rightarrow> 'h Sys" where
  "ChangeLevel old now s = s\<lparr>kern := (kern s)\<lparr>level := now\<rparr>\<rparr>"

definition YieldOnReturn :: "'h Sys \<Rightarrow> ('h Sys) lres" where
  "YieldOnReturn s = assertL (inHandler s) (retL (s\<lparr>yieldOnReturn := True\<rparr>))"

definition Schedule :: "Callee \<Rightarrow> int \<Rightarrow> IntType \<Rightarrow> 'h Sys \<Rightarrow> ('h Sys) lres" where
  "Schedule toCall fromNow kind s =
     (let toOccur = PendingInterrupt_new (p_new s) toCall (totalTicks (stats s) + fromNow) kind;
          s1 = s\<lparr>p_new := p_new s + 1\<rparr> in
      assertL (fromNow > 0)
        (bindL (Insert PendingCompare toOccur (p_heap s1) (pending s1)) (\<lambda>(h, l).
          retL (s1\<lparr>p_heap := h, pending := l\<rparr>))))"

partial_function (option) drain :: "'h Sys \<Rightarrow> ('h Sys) lres" where
  \<comment> \<open>the loop of the destructor\<close>
  "drain s = (if IsEmpty (pending s) then Some (Inr s)
     else bindL (RemoveFront (p_heap s) (pending s)) (\<lambda>(p, h, l). drain (s\<lparr>p_heap := h, pending := l\<rparr>)))"

definition Interrupt_delete :: "'h Sys \<Rightarrow> ('h Sys) lres" where
  "Interrupt_delete s = drain s"

section \<open>The queue\<close>

definition queue_ok :: "'h Sys \<Rightarrow> PendingInterrupt list \<Rightarrow> bool" where
  \<comment> \<open>the queue holds \<open>ps\<close>, the earliest first\<close>
  "queue_ok s ps \<longleftrightarrow> holds (p_heap s) (pending s) ps \<and> ordered PendingCompare ps \<and> (\<forall>p \<in> set ps. p_addr p < p_new s)"

lemma queue_okD:
  assumes "queue_ok s ps"
  shows "IsEmpty (pending s) \<longleftrightarrow> ps = []" "sorted (map when_due ps)"
  using assms by (auto simp: queue_ok_def holds_IsEmpty ordered_def PendingCompare_def sorted_wrt_map
      elim!: sorted_wrt_mono_rel [rotated] split: if_splits)

lemma Schedule_queue:
  assumes "queue_ok s ps" and "fromNow > 0"
  shows "\<exists>h l. let p = PendingInterrupt_new (p_new s) c (totalTicks (stats s) + fromNow) kind;
        s' = s\<lparr>p_new := p_new s + 1, p_heap := h, pending := l\<rparr> in
     Schedule c fromNow kind s = Some (Inr s') \<and> queue_ok s' (place PendingCompare p ps)"
proof -
  let ?p = "PendingInterrupt_new (p_new s) c (totalTicks (stats s) + fromNow) kind"
  have new: "?p \<notin> set ps" using assms(1) by (auto simp: queue_ok_def PendingInterrupt_new_def)
  have "yields (Insert PendingCompare ?p (p_heap s) (pending s)) (Some (place PendingCompare ?p ps))"
    using Insert_holds [of "p_heap s" "pending s" ps PendingCompare ?p] assms(1) new by (simp add: queue_ok_def del: yields.simps)
  then obtain h l where "Insert PendingCompare ?p (p_heap s) (pending s) = Some (Inr (h, l))" "holds h l (place PendingCompare ?p ps)"
    by auto
  then show ?thesis
    using assms pending_order.ordered_place [of ps ?p]
    by (auto simp: Schedule_def Let_def retL_def queue_ok_def set_place PendingInterrupt_new_def less_Suc_eq)
qed

lemma pop_queue:
  assumes "queue_ok s (p # ps)"
  shows "Front (p_heap s) (pending s) = Some (Inr p)"
    "\<exists>h l. RemoveFront (p_heap s) (pending s) = Some (Inr (p, h, l)) \<and> queue_ok (s\<lparr>p_heap := h, pending := l\<rparr>) ps"
  using RemoveFront_holds(2) [of "p_heap s" "pending s" "p # ps" p ps] assms
  by (auto simp: queue_ok_def ordered_def)

lemma drain_ends:
  assumes "queue_ok s ps"
  shows "\<exists>s'. Interrupt_delete s = Some (Inr s') \<and> queue_ok s' []"
proof -
  have "\<exists>s'. drain s = Some (Inr s') \<and> queue_ok s' []"
    using assms
  proof (induction ps arbitrary: s)
    case Nil
    then show ?case by (subst drain.simps) (simp add: queue_okD)
  next
    case (Cons p ps)
    then show ?case using pop_queue(2) [OF Cons.prems] queue_okD(1) [OF Cons.prems] by (subst drain.simps) auto
  qed
  then show ?thesis by (simp add: Interrupt_delete_def)
qed

end
