(* ===== verification/Devices.thy ===== *)
theory Devices
  imports Interrupts
begin

text \<open>
  The simulated devices and the objects they call back: machine/timer.cc and threads/alarm.cc,
  machine/console.cc with the callbacks of userprog/synchconsole.cc, machine/disk.cc with filesys/synchdisk.cc,
  machine/network.cc with network/post.cc.

  \<open>call_back\<close> is the virtual \<open>CallBack\<close> of the object in a pending interrupt. A device reaches the host by the
  wrappers of lib/sysdep.cc, and the rest of the kernel by \<open>V\<close> on the semaphore of the routine that waits
  for it.
\<close>

section \<open>The wrappers of sysdep.cc that devices use\<close>

definition hostL :: "('h \<Rightarrow> 'a \<times> 'h) \<Rightarrow> 'h Sys \<Rightarrow> 'a \<times> 'h Sys" where
  "hostL f s = (case f (dev_host s) of (x, h) \<Rightarrow> (x, s\<lparr>dev_host := h\<rparr>))"

definition RandomNumber :: "'h Sys \<Rightarrow> cint \<times> 'h Sys" where
  "RandomNumber s = hostL (u_rand (env s)) s"

definition PollFile :: "int \<Rightarrow> 'h Sys \<Rightarrow> (bool \<times> 'h Sys) lres" where
  "PollFile fd s = (let (retVal, s1) = hostL (u_select (env s) fd) s in
     assertL (retVal = 0 \<or> retVal = 1) (retL (retVal \<noteq> 0, s1)))"

definition dev_OpenForWrite :: "byte list \<Rightarrow> 'h Sys \<Rightarrow> (int \<times> 'h Sys) lres" where
  "dev_OpenForWrite name s = (let (fd, s1) = hostL (u_creat (env s) name) s in assertL (fd \<ge> 0) (retL (fd, s1)))"

definition dev_OpenForReadWrite :: "byte list \<Rightarrow> bool \<Rightarrow> 'h Sys \<Rightarrow> (int \<times> 'h Sys) lres" where
  "dev_OpenForReadWrite name crashOnError s =
     (let (fd, s1) = hostL (u_open (env s) name) s in assertL (\<not> crashOnError \<or> fd \<ge> 0) (retL (fd, s1)))"

definition dev_Read :: "int \<Rightarrow> int \<Rightarrow> 'h Sys \<Rightarrow> (byte list \<times> 'h Sys) lres" where
  "dev_Read fd nBytes s = (let ((retVal, bs), s1) = hostL (u_read (env s) fd nBytes) s in assertL (retVal = nBytes) (retL (bs, s1)))"

definition dev_WriteFile :: "int \<Rightarrow> byte list \<Rightarrow> int \<Rightarrow> 'h Sys \<Rightarrow> ('h Sys) lres" where
  "dev_WriteFile fd buffer nBytes s = (let (retVal, s1) = hostL (u_write (env s) fd buffer nBytes) s in assertL (retVal = nBytes) (retL s1))"

definition dev_Lseek :: "int \<Rightarrow> int \<Rightarrow> int \<Rightarrow> 'h Sys \<Rightarrow> ('h Sys) lres" where
  "dev_Lseek fd offset whence s = (let (retVal, s1) = hostL (u_lseek (env s) fd offset whence) s in assertL (retVal \<ge> 0) (retL s1))"

definition OpenSocket :: "'h Sys \<Rightarrow> (int \<times> 'h Sys) lres" where
  "OpenSocket s = (let (sockID, s1) = hostL (u_dgram (env s)) s in assertL (sockID \<ge> 0) (retL (sockID, s1)))"

definition AssignNameToSocket :: "cint \<Rightarrow> int \<Rightarrow> 'h Sys \<Rightarrow> ('h Sys) lres" where
  "AssignNameToSocket num sockID s = (let (retVal, s1) = hostL (u_bind (env s) sockID (sint num)) s in assertL (retVal \<ge> 0) (retL s1))"

definition ReadFromSocket :: "int \<Rightarrow> int \<Rightarrow> 'h Sys \<Rightarrow> (byte list \<times> 'h Sys) lres" where
  "ReadFromSocket sockID packetSize s =
     (let ((retVal, bs), s1) = hostL (u_recvfrom (env s) sockID packetSize) s in assertL (retVal = packetSize) (retL (bs, s1)))"

fun send_tries :: "nat \<Rightarrow> int \<Rightarrow> byte list \<Rightarrow> int \<Rightarrow> cint \<Rightarrow> 'h Sys \<Rightarrow> ('h Sys) lres" where
  "send_tries 0 sockID buffer packetSize num s = retL s"
| "send_tries (Suc n) sockID buffer packetSize num s =
     (let (retVal, s1) = hostL (u_sendto (env s) sockID buffer packetSize (sint num)) s in
      if retVal = packetSize then retL s1 else assertL (retVal < 0) (send_tries n sockID buffer packetSize num s1))"

definition SendToSocket :: "int \<Rightarrow> byte list \<Rightarrow> int \<Rightarrow> cint \<Rightarrow> 'h Sys \<Rightarrow> ('h Sys) lres" where
  \<comment> \<open>ten tries, to the socket whose name ends in \<open>num\<close>\<close>
  "SendToSocket sockID buffer packetSize num s = send_tries 10 sockID buffer packetSize num s"

definition semV :: "nat \<Rightarrow> 'h Sys \<Rightarrow> ('h Sys) lres" where
  \<comment> \<open>\<open>V\<close> from an interrupt handler, where interrupts are off and stay off\<close>
  "semV sem s = bindL (liftL (Semaphore_V (kern s) sem)) (\<lambda>k. retL (s\<lparr>kern := k\<rparr>))"

section \<open>Timer and alarm\<close>

definition SetInterrupt :: "'h Sys \<Rightarrow> ('h Sys) lres" where
  "SetInterrupt s =
     (if disable (timer s) then retL s
      else let (delay, s1) = (if randomize (timer s)
                then let (r, s0) = RandomNumber s in (1 + uint (r mod 200), s0) else (TimerTicks, s))
           in Schedule TimerObj delay TimerInt s1)"

definition Timer_new :: "bool \<Rightarrow> 'h Sys \<Rightarrow> ('h Sys) lres" where
  "Timer_new doRandom s = SetInterrupt (s\<lparr>timer := \<lparr>randomize = doRandom, disable = False\<rparr>\<rparr>)"

definition Timer_Disable :: "'h Sys \<Rightarrow> 'h Sys" where
  "Timer_Disable s = s\<lparr>timer := (timer s)\<lparr>disable := True\<rparr>\<rparr>"

definition Alarm_CallBack :: "'h Sys \<Rightarrow> ('h Sys) lres" where
  "Alarm_CallBack s = (if i_status s \<noteq> IdleMode then YieldOnReturn s else retL s)"

definition Timer_CallBack :: "'h Sys \<Rightarrow> ('h Sys) lres" where
  "Timer_CallBack s = bindL (Alarm_CallBack s) SetInterrupt"

definition Alarm_new :: "bool \<Rightarrow> 'h Sys \<Rightarrow> ('h Sys) lres" where
  "Alarm_new doRandom s = Timer_new doRandom s"

section \<open>Console\<close>

abbreviation EOFc :: byte where "EOFc \<equiv> - 1"     \<comment> \<open>\<open>EOF\<close> as a \<open>char\<close>\<close>

definition ConsoleInput_new :: "byte list option \<Rightarrow> 'h Sys \<Rightarrow> ('h Sys) lres" where
  "ConsoleInput_new readFile s =
     bindL (case readFile of None \<Rightarrow> retL (0, s) | Some name \<Rightarrow> dev_OpenForReadWrite name True s) (\<lambda>(fd, s1).
       Schedule ConsoleInObj ConsoleTime ConsoleReadInt (s1\<lparr>consoleInput := \<lparr>readFileNo = fd, incoming = EOFc\<rparr>\<rparr>))"

definition ConsoleInput_CallBack :: "'h Sys \<Rightarrow> ('h Sys) lres" where
  "ConsoleInput_CallBack s = assertL (incoming (consoleInput s) = EOFc)
     (bindL (PollFile (readFileNo (consoleInput s)) s) (\<lambda>(ready, s1).
       if \<not> ready then Schedule ConsoleInObj ConsoleTime ConsoleReadInt s1
       else let ((readCount, bs), s2) = hostL (u_read (env s1) (readFileNo (consoleInput s1)) 1) s1 in
         bindL (if readCount = 0 then retL s2
                else assertL (readCount = 1)
                  (retL (s2\<lparr>consoleInput := (consoleInput s2)\<lparr>incoming := bs ! 0\<rparr>,
                     stats := (stats s2)\<lparr>numConsoleCharsRead := numConsoleCharsRead (stats s2) + 1\<rparr>\<rparr>)))
           (\<lambda>s3. semV (in_waitFor s3) s3)))"

definition ConsoleInput_GetChar :: "'h Sys \<Rightarrow> (byte \<times> 'h Sys) lres" where
  "ConsoleInput_GetChar s = (let ch = incoming (consoleInput s) in
     bindL (if ch \<noteq> EOFc then Schedule ConsoleInObj ConsoleTime ConsoleReadInt s else retL s) (\<lambda>s1.
       retL (ch, s1\<lparr>consoleInput := (consoleInput s1)\<lparr>incoming := EOFc\<rparr>\<rparr>)))"

definition ConsoleOutput_new :: "byte list option \<Rightarrow> 'h Sys \<Rightarrow> ('h Sys) lres" where
  "ConsoleOutput_new writeFile s =
     bindL (case writeFile of None \<Rightarrow> retL (1, s) | Some name \<Rightarrow> dev_OpenForWrite name s) (\<lambda>(fd, s1).
       retL (s1\<lparr>consoleOutput := \<lparr>writeFileNo = fd, putBusy = False\<rparr>\<rparr>))"

definition ConsoleOutput_CallBack :: "'h Sys \<Rightarrow> ('h Sys) lres" where
  "ConsoleOutput_CallBack s =
     (let s1 = s\<lparr>consoleOutput := (consoleOutput s)\<lparr>putBusy := False\<rparr>,
                 stats := (stats s)\<lparr>numConsoleCharsWritten := numConsoleCharsWritten (stats s) + 1\<rparr>\<rparr>
      in semV (out_waitFor s1) s1)"

definition ConsoleOutput_PutChar :: "byte \<Rightarrow> 'h Sys \<Rightarrow> ('h Sys) lres" where
  "ConsoleOutput_PutChar ch s = assertL (\<not> putBusy (consoleOutput s))
     (bindL (dev_WriteFile (writeFileNo (consoleOutput s)) [ch] 1 s) (\<lambda>s1.
       Schedule ConsoleOutObj ConsoleTime ConsoleWriteInt (s1\<lparr>consoleOutput := (consoleOutput s1)\<lparr>putBusy := True\<rparr>\<rparr>)))"

section \<open>Disk\<close>

abbreviation SectorSize :: int where "SectorSize \<equiv> 128"
abbreviation SectorsPerTrack :: int where "SectorsPerTrack \<equiv> 32"
abbreviation NumTracks :: int where "NumTracks \<equiv> 32"
abbreviation NumSectors :: int where "NumSectors \<equiv> 1024"
abbreviation MagicNumber :: cint where "MagicNumber \<equiv> 0x456789ab"
abbreviation MagicSize :: int where "MagicSize \<equiv> 4"
abbreviation DiskSize :: int where "DiskSize \<equiv> MagicSize + NumSectors * SectorSize"

definition word_bytes :: "cint \<Rightarrow> byte list" where
  "word_bytes w = map (store_word (\<lambda>_. 0) 0 w) [0..<4]"

definition bytes_word :: "byte list \<Rightarrow> nat \<Rightarrow> cint" where
  \<comment> \<open>\<open>*(int * )(buffer + i)\<close>\<close>
  "bytes_word bs i = load_word (\<lambda>j. bs ! j) i"

definition Disk_new :: "byte list \<Rightarrow> 'h Sys \<Rightarrow> ('h Sys) lres" where
  \<comment> \<open>\<open>diskname\<close> is the string \<open>DISK_\<close> with the number of the machine\<close>
  "Disk_new diskname s = bindL (dev_OpenForReadWrite diskname False s) (\<lambda>(fd, s1).
     bindL (if fd \<ge> 0
            then bindL (dev_Read fd MagicSize s1) (\<lambda>(bs, s2). assertL (bytes_word bs 0 = MagicNumber) (retL (fd, s2)))
            else bindL (dev_OpenForWrite diskname s1) (\<lambda>(fd, s2).
                 bindL (dev_WriteFile fd (word_bytes MagicNumber) MagicSize s2) (\<lambda>s3.
                 bindL (dev_Lseek fd (DiskSize - 4) 0 s3) (\<lambda>s4.
                 bindL (dev_WriteFile fd (word_bytes 0) 4 s4) (\<lambda>s5. retL (fd, s5))))))
       (\<lambda>(fd, s6). retL (s6\<lparr>disk := \<lparr>d_fileno = fd, active = False, lastSector = 0, bufferInit = 0\<rparr>\<rparr>)))"

definition TimeToSeek :: "int \<Rightarrow> 'h Sys \<Rightarrow> int \<times> int" where
  \<comment> \<open>the seek time and \<open>*rotation\<close>\<close>
  "TimeToSeek newSector s =
     (let newTrack = newSector sdiv SectorsPerTrack;
          oldTrack = lastSector (disk s) sdiv SectorsPerTrack;
          seek = \<bar>newTrack - oldTrack\<bar> * SeekTime;
          over = (totalTicks (stats s) + seek) smod RotationTime
      in (seek, if over > 0 then RotationTime - over else 0))"

definition ModuloDiff :: "int \<Rightarrow> int \<Rightarrow> int" where
  "ModuloDiff to from =
     (let toOffset = to smod SectorsPerTrack; fromOffset = from smod SectorsPerTrack
      in ((toOffset - fromOffset) + SectorsPerTrack) smod SectorsPerTrack)"

definition ComputeLatency :: "int \<Rightarrow> bool \<Rightarrow> 'h Sys \<Rightarrow> int" where
  "ComputeLatency newSector writing s =
     (let (seek, rotation) = TimeToSeek newSector s;
          timeAfter = totalTicks (stats s) + seek + rotation in
      if writing = False \<and> seek = 0 \<and>
         (timeAfter - bufferInit (disk s)) sdiv RotationTime > ModuloDiff newSector (bufferInit (disk s) sdiv RotationTime)
      then RotationTime
      else let rotation1 = rotation + ModuloDiff newSector (timeAfter sdiv RotationTime) * RotationTime
           in seek + rotation1 + RotationTime)"

definition UpdateLast :: "int \<Rightarrow> 'h Sys \<Rightarrow> 'h Sys" where
  "UpdateLast newSector s =
     (let (seek, rotate) = TimeToSeek newSector s;
          s1 = (if seek \<noteq> 0 then s\<lparr>disk := (disk s)\<lparr>bufferInit := totalTicks (stats s) + seek + rotate\<rparr>\<rparr> else s)
      in s1\<lparr>disk := (disk s1)\<lparr>lastSector := newSector\<rparr>\<rparr>)"

definition request_start :: "int \<Rightarrow> 'h Sys \<Rightarrow> ('h Sys) lres" where
  \<comment> \<open>what both requests do before the transfer\<close>
  "request_start sectorNumber s = assertL (\<not> active (disk s)) (assertL (0 \<le> sectorNumber \<and> sectorNumber < NumSectors)
     (dev_Lseek (d_fileno (disk s)) (SectorSize * sectorNumber + MagicSize) 0 s))"

definition ReadRequest :: "int \<Rightarrow> 'h Sys \<Rightarrow> (byte list \<times> 'h Sys) lres" where
  \<comment> \<open>with the bytes that it stores at \<open>data\<close>\<close>
  "ReadRequest sectorNumber s = (let ticks = ComputeLatency sectorNumber False s in
     bindL (request_start sectorNumber s) (\<lambda>s1.
     bindL (dev_Read (d_fileno (disk s1)) SectorSize s1) (\<lambda>(data, s2).
       let s3 = UpdateLast sectorNumber (s2\<lparr>disk := (disk s2)\<lparr>active := True\<rparr>\<rparr>);
           s4 = s3\<lparr>stats := (stats s3)\<lparr>numDiskReads := numDiskReads (stats s3) + 1\<rparr>\<rparr>
       in bindL (Schedule DiskObj ticks DiskInt s4) (\<lambda>s5. retL (data, s5)))))"

definition WriteRequest :: "int \<Rightarrow> byte list \<Rightarrow> 'h Sys \<Rightarrow> ('h Sys) lres" where
  "WriteRequest sectorNumber data s = (let ticks = ComputeLatency sectorNumber True s in
     bindL (request_start sectorNumber s) (\<lambda>s1.
     bindL (dev_WriteFile (d_fileno (disk s1)) data SectorSize s1) (\<lambda>s2.
       let s3 = UpdateLast sectorNumber (s2\<lparr>disk := (disk s2)\<lparr>active := True\<rparr>\<rparr>);
           s4 = s3\<lparr>stats := (stats s3)\<lparr>numDiskWrites := numDiskWrites (stats s3) + 1\<rparr>\<rparr>
       in Schedule DiskObj ticks DiskInt s4)))"

definition Disk_CallBack :: "'h Sys \<Rightarrow> ('h Sys) lres" where
  "Disk_CallBack s = (let s1 = s\<lparr>disk := (disk s)\<lparr>active := False\<rparr>\<rparr> in semV (disk_semaphore s1) s1)"

section \<open>Network\<close>

abbreviation MaxWireSize :: int where "MaxWireSize \<equiv> 64"
abbreviation MaxPacketSize :: int where "MaxPacketSize \<equiv> 52"

definition wire_header :: "byte list \<Rightarrow> PacketHeader" where
  \<comment> \<open>\<open>*(PacketHeader * )buffer\<close>\<close>
  "wire_header bs = \<lparr>pk_to = bytes_word bs 0, pk_from = bytes_word bs 4, pk_length = bytes_word bs 8\<rparr>"

definition wire_packet :: "byte list \<Rightarrow> PacketHeader \<Rightarrow> byte list \<Rightarrow> byte list" where
  \<comment> \<open>header and data copied over the start of \<open>buffer\<close>, which holds what the memory held\<close>
  "wire_packet buffer hdr data = (let msg = word_bytes (pk_to hdr) @ word_bytes (pk_from hdr) @ word_bytes (pk_length hdr)
       @ take (unat (pk_length hdr)) data in msg @ drop (length msg) buffer)"

definition NetworkInput_new :: "NetworkInput \<Rightarrow> 'h Sys \<Rightarrow> ('h Sys) lres" where
  "NetworkInput_new raw s = bindL (OpenSocket s) (\<lambda>(sock, s1).
     bindL (AssignNameToSocket (hostName s1) sock s1) (\<lambda>s2.
       Schedule NetInObj NetworkTime NetworkRecvInt (s2\<lparr>netIn := raw\<lparr>in_sock := sock, inHdr := (inHdr raw)\<lparr>pk_length := 0\<rparr>\<rparr>\<rparr>)))"

definition NetworkInput_CallBack :: "'h Sys \<Rightarrow> ('h Sys) lres" where
  "NetworkInput_CallBack s = bindL (Schedule NetInObj NetworkTime NetworkRecvInt s) (\<lambda>s1.
     if pk_length (inHdr (netIn s1)) \<noteq> 0 then retL s1
     else bindL (PollFile (in_sock (netIn s1)) s1) (\<lambda>(ready, s2).
       if \<not> ready then retL s2
       else bindL (ReadFromSocket (in_sock (netIn s2)) MaxWireSize s2) (\<lambda>(buffer, s3).
         let hdr = wire_header buffer; s4 = s3\<lparr>netIn := (netIn s3)\<lparr>inHdr := hdr\<rparr>\<rparr> in
         assertL (pk_to hdr = hostName s4 \<and> uint (pk_length hdr) \<le> MaxPacketSize)
           (let data = take (unat (pk_length hdr)) (drop 12 buffer);
                s5 = s4\<lparr>netIn := (netIn s4)\<lparr>inbox := data @ drop (unat (pk_length hdr)) (inbox (netIn s4))\<rparr>,
                        stats := (stats s4)\<lparr>numPacketsRecvd := numPacketsRecvd (stats s4) + 1\<rparr>\<rparr>
            in semV (messageAvailable s5) s5))))"

definition NetworkInput_Receive :: "'h Sys \<Rightarrow> (PacketHeader \<times> byte list) \<times> 'h Sys" where
  "NetworkInput_Receive s = (let hdr = inHdr (netIn s) in
     ((hdr, take (unat (pk_length hdr)) (inbox (netIn s))), s\<lparr>netIn := (netIn s)\<lparr>inHdr := hdr\<lparr>pk_length := 0\<rparr>\<rparr>\<rparr>))"

definition NetworkOutput_new :: "rat \<Rightarrow> 'h Sys \<Rightarrow> ('h Sys) lres" where
  "NetworkOutput_new reliability s = bindL (OpenSocket s) (\<lambda>(sock, s1).
     retL (s1\<lparr>netOut := \<lparr>out_sock = sock, chanceToWork = (if reliability < 0 then 0 else if reliability > 1 then 1 else reliability),
       sendBusy = False\<rparr>\<rparr>))"

definition NetworkOutput_CallBack :: "'h Sys \<Rightarrow> ('h Sys) lres" where
  "NetworkOutput_CallBack s =
     (let s1 = s\<lparr>netOut := (netOut s)\<lparr>sendBusy := False\<rparr>, stats := (stats s)\<lparr>numPacketsSent := numPacketsSent (stats s) + 1\<rparr>\<rparr>
      in semV (messageSent s1) s1)"

definition NetworkOutput_Send :: "byte list \<Rightarrow> PacketHeader \<Rightarrow> byte list \<Rightarrow> 'h Sys \<Rightarrow> ('h Sys) lres" where
  "NetworkOutput_Send raw hdr data s =
     assertL (\<not> sendBusy (netOut s) \<and> uint (pk_length hdr) > 0 \<and> uint (pk_length hdr) \<le> MaxPacketSize \<and> pk_from hdr = hostName s)
       (bindL (Schedule NetOutObj NetworkTime NetworkSendInt s) (\<lambda>s1.
         let (r, s2) = RandomNumber s1 in
         if of_int (uint (r mod 100)) \<ge> chanceToWork (netOut s2) * 100 then retL s2
         else SendToSocket (out_sock (netOut s2)) (wire_packet raw hdr data) MaxWireSize (pk_to hdr) s2))"

section \<open>Call backs\<close>

fun call_back :: "Callee \<Rightarrow> 'h Sys \<Rightarrow> ('h Sys) lres" where
  "call_back TimerObj s = Timer_CallBack s"
| "call_back ConsoleInObj s = ConsoleInput_CallBack s"
| "call_back ConsoleOutObj s = ConsoleOutput_CallBack s"
| "call_back DiskObj s = Disk_CallBack s"
| "call_back NetInObj s = NetworkInput_CallBack s"
| "call_back NetOutObj s = NetworkOutput_CallBack s"

end
