(* ===== verification/Handlers.thy ===== *)
theory Handlers
  imports Devices
begin

text \<open>
  What an interrupt handler promises. \<open>sys_ok\<close> relates the state of the devices to the interrupts that are
  pending for them: a device is busy exactly while its interrupt is pending, the timer is always set. Every
  call back of \<open>Devices\<close> keeps it, faults in no way, and schedules only interrupts that lie in the future.
\<close>

section \<open>Invariants\<close>

definition waiters_exist :: "Kernel \<Rightarrow> bool" where
  "waiters_exist k \<longleftrightarrow> (\<forall>x sem. sems k x = Some sem \<longrightarrow> (\<forall>t \<in> set (s_queue sem). threads k t \<noteq> None))"

definition device_sems :: "'h Sys \<Rightarrow> nat set" where
  "device_sems s = {in_waitFor s, out_waitFor s, disk_semaphore s, messageAvailable s, messageSent s}"

definition kernel_ready :: "'h Sys \<Rightarrow> bool" where
  "kernel_ready s \<longleftrightarrow> unat (registers (machine (kern s)) LoadReg) < NumGPRegs \<and>
     device_sems s \<subseteq> dom (sems (kern s)) \<and> waiters_exist (kern s)"

definition wire_ok :: "cint \<Rightarrow> int \<times> byte list \<Rightarrow> bool" where
  "wire_ok me r \<longleftrightarrow> fst r = MaxWireSize \<and> pk_to (wire_header (snd r)) = me \<and> uint (pk_length (wire_header (snd r))) \<le> MaxPacketSize"

definition host_ok :: "'h Sys \<Rightarrow> bool" where
  \<comment> \<open>a poll says yes or no, a read of one character gives one or none, and the packets that arrive come
     from another Nachos that addressed this one\<close>
  "host_ok s \<longleftrightarrow> (\<forall>fd h. fst (u_select (env s) fd h) \<in> {0, 1}) \<and> (\<forall>fd h. fst (fst (u_read (env s) fd 1 h)) \<in> {0, 1}) \<and>
     (\<forall>h. wire_ok (hostName s) (fst (u_recvfrom (env s) (in_sock (netIn s)) MaxWireSize h)))"

definition clock_ok :: "Statistics \<Rightarrow> bool" where
  "clock_ok st \<longleftrightarrow> totalTicks st = idleTicks st + systemTicks st + userTicks st \<and> 0 \<le> idleTicks st \<and> 0 \<le> systemTicks st \<and> 0 \<le> userTicks st"

abbreviation now :: "'h Sys \<Rightarrow> int" where "now s \<equiv> totalTicks (stats s)"

definition scheduled :: "Callee \<Rightarrow> PendingInterrupt list \<Rightarrow> nat" where
  "scheduled c ps = length (filter (\<lambda>p. callOnInterrupt p = c) ps)"

definition time_slice :: "'h Sys \<Rightarrow> int" where
  "time_slice s = (if randomize (timer s) then 2 * TimerTicks else TimerTicks)"

definition timer_ok :: "bool \<Rightarrow> int \<Rightarrow> PendingInterrupt list \<Rightarrow> bool" where
  \<comment> \<open>the timer is set, unless it has been switched off, and will fire no later than \<open>t\<close>\<close>
  "timer_ok off t ps \<longleftrightarrow> scheduled TimerObj ps \<le> 1 \<and> (\<not> off \<longrightarrow> scheduled TimerObj ps = 1) \<and>
     (\<forall>p \<in> set ps. callOnInterrupt p = TimerObj \<longrightarrow> when_due p \<le> t)"

definition keys_ok :: "byte \<Rightarrow> PendingInterrupt list \<Rightarrow> bool" where
  \<comment> \<open>the keyboard is polled only while no character is waiting\<close>
  "keys_ok c ps \<longleftrightarrow> scheduled ConsoleInObj ps \<le> 1 \<and> (scheduled ConsoleInObj ps = 1 \<longrightarrow> c = EOFc)"

definition busy_iff :: "Callee \<Rightarrow> bool \<Rightarrow> PendingInterrupt list \<Rightarrow> bool" where
  "busy_iff c b ps \<longleftrightarrow> scheduled c ps = of_bool b"

definition devices_ok :: "'h Sys \<Rightarrow> PendingInterrupt list \<Rightarrow> bool" where
  "devices_ok s ps \<longleftrightarrow> timer_ok (disable (timer s)) (now s + time_slice s) ps \<and> keys_ok (incoming (consoleInput s)) ps \<and>
     busy_iff ConsoleOutObj (putBusy (consoleOutput s)) ps \<and> busy_iff DiskObj (active (disk s)) ps \<and>
     busy_iff NetInObj True ps \<and> \<not> sendBusy (netOut s)"

definition sys_ok :: "'h Sys \<Rightarrow> PendingInterrupt list \<Rightarrow> bool" where
  "sys_ok s ps \<longleftrightarrow> devices_ok s ps \<and> kernel_ready s \<and> host_ok s \<and> clock_ok (stats s)"

definition kept :: "'h Sys \<Rightarrow> 'h Sys \<Rightarrow> bool" where
  \<comment> \<open>what a handler leaves alone: the clock, the processor, the interrupt state\<close>
  "kept s s' \<longleftrightarrow> totalTicks (stats s') = totalTicks (stats s) \<and> idleTicks (stats s') = idleTicks (stats s) \<and>
     systemTicks (stats s') = systemTicks (stats s) \<and> userTicks (stats s') = userTicks (stats s) \<and>
     inHandler s' = inHandler s \<and> i_status s' = i_status s \<and> level (kern s') = level (kern s) \<and>
     machine (kern s') = machine (kern s) \<and> timer s' = timer s \<and> (yieldOnReturn s \<longrightarrow> yieldOnReturn s')"

definition later :: "int \<Rightarrow> PendingInterrupt list \<Rightarrow> PendingInterrupt list \<Rightarrow> bool" where
  \<comment> \<open>\<open>ps'\<close> has the interrupts of \<open>ps\<close> and others after time \<open>t\<close>\<close>
  "later t ps ps' \<longleftrightarrow> (\<exists>qs. mset ps' = mset ps + mset qs \<and> (\<forall>q \<in> set qs. t < when_due q))"

definition handled :: "'h Sys \<Rightarrow> PendingInterrupt list \<Rightarrow> ('h Sys) lres \<Rightarrow> bool" where
  "handled s ps r \<longleftrightarrow> (\<exists>s' ps'. r = Some (Inr s') \<and> queue_ok s' ps' \<and> sys_ok s' ps' \<and> kept s s' \<and> later (now s) ps ps')"

section \<open>Lemmas\<close>

lemma scheduled_simps [simp]:
  "scheduled c [] = 0" "scheduled c (p # ps) = (if callOnInterrupt p = c then Suc (scheduled c ps) else scheduled c ps)"
  "scheduled c (place PendingCompare p ps) = (if callOnInterrupt p = c then Suc (scheduled c ps) else scheduled c ps)"
proof -
  have "scheduled c xs = size (filter_mset (\<lambda>p. callOnInterrupt p = c) (mset xs))" for xs
    by (simp add: scheduled_def flip: mset_filter)
  then show "scheduled c (place PendingCompare p ps) = (if callOnInterrupt p = c then Suc (scheduled c ps) else scheduled c ps)"
    by (simp add: mset_place)
qed (simp_all add: scheduled_def)

lemma device_preds_place [simp]:
  "timer_ok off t (place PendingCompare p ps) = timer_ok off t (p # ps)" "keys_ok c (place PendingCompare p ps) = keys_ok c (p # ps)"
  "busy_iff d b (place PendingCompare p ps) = busy_iff d b (p # ps)"
  by (simp_all add: timer_ok_def keys_ok_def busy_iff_def set_place)

lemma device_preds_other [simp]:
  "callOnInterrupt p \<noteq> TimerObj \<Longrightarrow> timer_ok off t (p # ps) = timer_ok off t ps"
  "callOnInterrupt p \<noteq> ConsoleInObj \<Longrightarrow> keys_ok c (p # ps) = keys_ok c ps"
  "callOnInterrupt p \<noteq> d \<Longrightarrow> busy_iff d b (p # ps) = busy_iff d b ps"
  by (auto simp: timer_ok_def keys_ok_def busy_iff_def)

lemma busy_iff_same [simp]: "callOnInterrupt p = d \<Longrightarrow> busy_iff d b (p # ps) \<longleftrightarrow> b \<and> busy_iff d False ps"
  by (auto simp: busy_iff_def)

lemma keys_ok_same [simp]: "callOnInterrupt p = ConsoleInObj \<Longrightarrow> keys_ok c (p # ps) \<longleftrightarrow> c = EOFc \<and> busy_iff ConsoleInObj False ps"
  by (auto simp: keys_ok_def busy_iff_def)

lemma keys_ok_idle: "busy_iff ConsoleInObj False ps \<Longrightarrow> keys_ok c ps"
  by (simp add: keys_ok_def busy_iff_def)

lemma timer_ok_same [simp]:
  "callOnInterrupt p = TimerObj \<Longrightarrow> timer_ok off t (p # ps) \<longleftrightarrow> when_due p \<le> t \<and> busy_iff TimerObj False ps"
  by (auto simp: timer_ok_def busy_iff_def scheduled_def filter_empty_conv)

lemma timer_ok_off: "busy_iff TimerObj False ps \<Longrightarrow> timer_ok True t ps"
  by (auto simp: timer_ok_def busy_iff_def scheduled_def filter_empty_conv)

lemma device_sems_update [simp]:
  "device_sems (s\<lparr>kern := x1\<rparr>) = device_sems s"
  "device_sems (s\<lparr>stats := x2\<rparr>) = device_sems s"
  "device_sems (s\<lparr>p_heap := x3\<rparr>) = device_sems s"
  "device_sems (s\<lparr>pending := x4\<rparr>) = device_sems s"
  "device_sems (s\<lparr>p_new := x5\<rparr>) = device_sems s"
  "device_sems (s\<lparr>inHandler := x6\<rparr>) = device_sems s"
  "device_sems (s\<lparr>yieldOnReturn := x7\<rparr>) = device_sems s"
  "device_sems (s\<lparr>i_status := x8\<rparr>) = device_sems s"
  "device_sems (s\<lparr>timer := x9\<rparr>) = device_sems s"
  "device_sems (s\<lparr>consoleInput := x10\<rparr>) = device_sems s"
  "device_sems (s\<lparr>consoleOutput := x11\<rparr>) = device_sems s"
  "device_sems (s\<lparr>disk := x12\<rparr>) = device_sems s"
  "device_sems (s\<lparr>netIn := x13\<rparr>) = device_sems s"
  "device_sems (s\<lparr>netOut := x14\<rparr>) = device_sems s"
  "device_sems (s\<lparr>dev_host := x15\<rparr>) = device_sems s"
  by (simp_all add: device_sems_def)

lemma kernel_ready_update [simp]:
  "kernel_ready (s\<lparr>stats := x16\<rparr>) = kernel_ready s"
  "kernel_ready (s\<lparr>p_heap := x17\<rparr>) = kernel_ready s"
  "kernel_ready (s\<lparr>pending := x18\<rparr>) = kernel_ready s"
  "kernel_ready (s\<lparr>p_new := x19\<rparr>) = kernel_ready s"
  "kernel_ready (s\<lparr>inHandler := x20\<rparr>) = kernel_ready s"
  "kernel_ready (s\<lparr>yieldOnReturn := x21\<rparr>) = kernel_ready s"
  "kernel_ready (s\<lparr>i_status := x22\<rparr>) = kernel_ready s"
  "kernel_ready (s\<lparr>timer := x23\<rparr>) = kernel_ready s"
  "kernel_ready (s\<lparr>consoleInput := x24\<rparr>) = kernel_ready s"
  "kernel_ready (s\<lparr>consoleOutput := x25\<rparr>) = kernel_ready s"
  "kernel_ready (s\<lparr>disk := x26\<rparr>) = kernel_ready s"
  "kernel_ready (s\<lparr>netIn := x27\<rparr>) = kernel_ready s"
  "kernel_ready (s\<lparr>netOut := x28\<rparr>) = kernel_ready s"
  "kernel_ready (s\<lparr>dev_host := x29\<rparr>) = kernel_ready s"
  by (simp_all add: kernel_ready_def)

lemma host_ok_update [simp]:
  "host_ok (s\<lparr>kern := x30\<rparr>) = host_ok s"
  "host_ok (s\<lparr>stats := x31\<rparr>) = host_ok s"
  "host_ok (s\<lparr>p_heap := x32\<rparr>) = host_ok s"
  "host_ok (s\<lparr>pending := x33\<rparr>) = host_ok s"
  "host_ok (s\<lparr>p_new := x34\<rparr>) = host_ok s"
  "host_ok (s\<lparr>inHandler := x35\<rparr>) = host_ok s"
  "host_ok (s\<lparr>yieldOnReturn := x36\<rparr>) = host_ok s"
  "host_ok (s\<lparr>i_status := x37\<rparr>) = host_ok s"
  "host_ok (s\<lparr>timer := x38\<rparr>) = host_ok s"
  "host_ok (s\<lparr>consoleInput := x39\<rparr>) = host_ok s"
  "host_ok (s\<lparr>consoleOutput := x40\<rparr>) = host_ok s"
  "host_ok (s\<lparr>disk := x41\<rparr>) = host_ok s"
  "host_ok (s\<lparr>netOut := x42\<rparr>) = host_ok s"
  "host_ok (s\<lparr>dev_host := x43\<rparr>) = host_ok s"
  by (simp_all add: host_ok_def)

lemma queue_ok_update [simp]:
  "queue_ok (s\<lparr>kern := x44\<rparr>) ps = queue_ok s ps"
  "queue_ok (s\<lparr>stats := x45\<rparr>) ps = queue_ok s ps"
  "queue_ok (s\<lparr>inHandler := x46\<rparr>) ps = queue_ok s ps"
  "queue_ok (s\<lparr>yieldOnReturn := x47\<rparr>) ps = queue_ok s ps"
  "queue_ok (s\<lparr>i_status := x48\<rparr>) ps = queue_ok s ps"
  "queue_ok (s\<lparr>timer := x49\<rparr>) ps = queue_ok s ps"
  "queue_ok (s\<lparr>consoleInput := x50\<rparr>) ps = queue_ok s ps"
  "queue_ok (s\<lparr>consoleOutput := x51\<rparr>) ps = queue_ok s ps"
  "queue_ok (s\<lparr>disk := x52\<rparr>) ps = queue_ok s ps"
  "queue_ok (s\<lparr>netIn := x53\<rparr>) ps = queue_ok s ps"
  "queue_ok (s\<lparr>netOut := x54\<rparr>) ps = queue_ok s ps"
  "queue_ok (s\<lparr>dev_host := x55\<rparr>) ps = queue_ok s ps"
  by (simp_all add: queue_ok_def)

lemma time_slice_update [simp]:
  "time_slice (s\<lparr>kern := x56\<rparr>) = time_slice s"
  "time_slice (s\<lparr>stats := x57\<rparr>) = time_slice s"
  "time_slice (s\<lparr>p_heap := x58\<rparr>) = time_slice s"
  "time_slice (s\<lparr>pending := x59\<rparr>) = time_slice s"
  "time_slice (s\<lparr>p_new := x60\<rparr>) = time_slice s"
  "time_slice (s\<lparr>inHandler := x61\<rparr>) = time_slice s"
  "time_slice (s\<lparr>yieldOnReturn := x62\<rparr>) = time_slice s"
  "time_slice (s\<lparr>i_status := x63\<rparr>) = time_slice s"
  "time_slice (s\<lparr>consoleInput := x64\<rparr>) = time_slice s"
  "time_slice (s\<lparr>consoleOutput := x65\<rparr>) = time_slice s"
  "time_slice (s\<lparr>disk := x66\<rparr>) = time_slice s"
  "time_slice (s\<lparr>netIn := x67\<rparr>) = time_slice s"
  "time_slice (s\<lparr>netOut := x68\<rparr>) = time_slice s"
  "time_slice (s\<lparr>dev_host := x69\<rparr>) = time_slice s"
  by (simp_all add: time_slice_def)

lemma clock_ok_update [simp]:
  "clock_ok (st\<lparr>numDiskReads := x70\<rparr>) = clock_ok st"
  "clock_ok (st\<lparr>numDiskWrites := x71\<rparr>) = clock_ok st"
  "clock_ok (st\<lparr>numConsoleCharsRead := x72\<rparr>) = clock_ok st"
  "clock_ok (st\<lparr>numConsoleCharsWritten := x73\<rparr>) = clock_ok st"
  "clock_ok (st\<lparr>numPacketsSent := x74\<rparr>) = clock_ok st"
  "clock_ok (st\<lparr>numPacketsRecvd := x75\<rparr>) = clock_ok st"
  by (simp_all add: clock_ok_def)

lemma later_refl [simp]: "later t ps ps"
  unfolding later_def by (rule exI [of _ "[]"]) simp

lemma later_place: "t < when_due p \<Longrightarrow> later t ps (place PendingCompare p ps)"
  unfolding later_def by (rule exI [of _ "[p]"]) (simp add: mset_place)

lemma PendingInterrupt_new_simps [simp]:
  "callOnInterrupt (PendingInterrupt_new a c t k) = c" "when_due (PendingInterrupt_new a c t k) = t" "p_addr (PendingInterrupt_new a c t k) = a"
  by (simp_all add: PendingInterrupt_new_def)

lemma V_ok:
  assumes "waiters_exist k" and "sems k x = Some sem"
  shows "\<exists>k'. Semaphore_V k x = Inr k' \<and> level k' = level k \<and> machine k' = machine k \<and> dom (sems k') = dom (sems k) \<and> waiters_exist k'"
proof (cases "s_queue sem")
  case Nil
  then show ?thesis using assms by (auto simp: Semaphore_V_def Let_def waiters_exist_def)
next
  case (Cons t ts)
  then obtain th where "threads k t = Some th" using assms by (fastforce simp: waiters_exist_def)
  then show ?thesis
    using assms Cons by (auto simp: Semaphore_V_def Let_def ReadyToRun_def with_thread_def waiters_exist_def set_thread_def split: if_splits)
qed

lemma semV_ok:
  assumes "kernel_ready s" and "x \<in> device_sems s"
  shows "\<exists>k. semV x s = Some (Inr (s\<lparr>kern := k\<rparr>)) \<and> kernel_ready (s\<lparr>kern := k\<rparr>) \<and> level k = level (kern s) \<and> machine k = machine (kern s)"
proof -
  obtain sem where "sems (kern s) x = Some sem" using assms by (auto simp: kernel_ready_def)
  then obtain k where k: "Semaphore_V (kern s) x = Inr k" "level k = level (kern s)" "machine k = machine (kern s)"
    "dom (sems k) = dom (sems (kern s))" "waiters_exist k"
    using V_ok [of "kern s" x sem] assms(1) by (auto simp: kernel_ready_def)
  have "kernel_ready (s\<lparr>kern := k\<rparr>)" using assms(1) k by (simp add: kernel_ready_def)
  then show ?thesis using k(1-3) by (auto simp: semV_def liftL_def retL_def)
qed

lemma semV_handled:
  assumes "queue_ok s ps" and "sys_ok s ps" and "x \<in> device_sems s" and "kept s0 s" and "later (now s0) ps0 ps"
  shows "handled s0 ps0 (semV x s)"
proof -
  obtain k where k: "semV x s = Some (Inr (s\<lparr>kern := k\<rparr>))" "kernel_ready (s\<lparr>kern := k\<rparr>)" "level k = level (kern s)" "machine k = machine (kern s)"
    using semV_ok [of s x] assms(2,3) by (auto simp: sys_ok_def)
  have "queue_ok (s\<lparr>kern := k\<rparr>) ps" using assms(1) by simp
  moreover have "sys_ok (s\<lparr>kern := k\<rparr>) ps" using assms(2) k(2) by (simp add: sys_ok_def devices_ok_def)
  moreover have "kept s0 (s\<lparr>kern := k\<rparr>)" using assms(4) k(3,4) by (simp add: kept_def)
  ultimately show ?thesis using k(1) assms(5) by (auto simp: handled_def)
qed

lemma Schedule_ok:
  assumes "queue_ok s ps" and "fromNow > 0"
  obtains h l a where "Schedule c fromNow kind s = Some (Inr (s\<lparr>p_new := a, p_heap := h, pending := l\<rparr>))"
    "queue_ok (s\<lparr>p_new := a, p_heap := h, pending := l\<rparr>) (place PendingCompare (PendingInterrupt_new (p_new s) c (now s + fromNow) kind) ps)"
  using Schedule_queue [OF assms, of c kind] by (auto simp: Let_def)

lemma Schedule_handled:
  assumes "queue_ok s ps" and "fromNow > 0" and "kept s0 s"
    and "sys_ok s (PendingInterrupt_new (p_new s) c (now s + fromNow) kind # ps)"
  shows "handled s0 ps (Schedule c fromNow kind s)"
proof -
  let ?p = "PendingInterrupt_new (p_new s) c (now s + fromNow) kind"
  obtain h l a where r: "Schedule c fromNow kind s = Some (Inr (s\<lparr>p_new := a, p_heap := h, pending := l\<rparr>))"
    "queue_ok (s\<lparr>p_new := a, p_heap := h, pending := l\<rparr>) (place PendingCompare ?p ps)"
    by (rule Schedule_ok [OF assms(1,2)])
  let ?s = "s\<lparr>p_new := a, p_heap := h, pending := l\<rparr>"
  have "sys_ok ?s (place PendingCompare ?p ps)"
    using assms(4) by (simp add: sys_ok_def devices_ok_def set_place)
  moreover have "kept s0 ?s" using assms(3) by (simp add: kept_def)
  moreover have "now s0 = now s" using assms(3) by (simp add: kept_def)
  ultimately show ?thesis using r assms(2) by (auto simp: handled_def intro!: later_place)
qed

lemma kept_refl [simp]: "kept s s"
  by (simp add: kept_def)

lemma kept_trans: "kept s s' \<Longrightarrow> kept s' s'' \<Longrightarrow> kept s s''"
  by (simp add: kept_def)

lemmas sys_defs = sys_ok_def devices_ok_def

lemma hostL_eq: "hostL f s = (fst (f (dev_host s)), s\<lparr>dev_host := snd (f (dev_host s))\<rparr>)"
  by (simp add: hostL_def split: prod.split)

lemma Poll_ok:
  assumes "host_ok s"
  shows "\<exists>b h. PollFile fd s = Some (Inr (b, s\<lparr>dev_host := h\<rparr>))"
  using assms by (auto simp: PollFile_def hostL_eq host_ok_def retL_def Let_def assertL_def)

section \<open>The handlers\<close>

lemma SetInterrupt_handled:
  assumes "queue_ok s ps" and "kept s0 s" and "sys_ok s (p # ps)" and "callOnInterrupt p = TimerObj"
  shows "handled s0 ps (SetInterrupt s)"
proof (cases "disable (timer s)")
  case True
  have "sys_ok s ps" using assms(3,4) True by (simp add: sys_defs timer_ok_off)
  then show ?thesis using True assms(1,2) by (auto simp: SetInterrupt_def handled_def retL_def)
next
  case False
  let ?r = "u_rand (env s) (dev_host s)"
  let ?s = "if randomize (timer s) then s\<lparr>dev_host := snd ?r\<rparr> else s"
  let ?d = "if randomize (timer s) then 1 + uint (fst ?r mod 200) else TimerTicks"
  have "uint (fst ?r mod 200) < 200" by (simp add: uint_mod_distrib)
  then have d: "0 < ?d" "?d \<le> time_slice s" by (auto simp: time_slice_def add_pos_nonneg)
  have "SetInterrupt s = Schedule TimerObj ?d TimerInt ?s"
    using False by (simp add: SetInterrupt_def RandomNumber_def hostL_eq Let_def)
  moreover have "handled s0 ps (Schedule TimerObj ?d TimerInt ?s)"
  proof (rule Schedule_handled)
    show "queue_ok ?s ps" using assms(1) by simp
    show "kept s0 ?s" using assms(2) by (simp add: kept_def)
    show "sys_ok ?s (PendingInterrupt_new (p_new ?s) TimerObj (now ?s + ?d) TimerInt # ps)"
      using assms(3,4) d by (auto simp: sys_defs)
  qed (use d in simp)
  ultimately show ?thesis by simp
qed

lemma Timer_handled:
  assumes "queue_ok s ps" and "sys_ok s (p # ps)" and "callOnInterrupt p = TimerObj" and "inHandler s"
  shows "handled s ps (Timer_CallBack s)"
proof -
  obtain s1 where a: "Alarm_CallBack s = Some (Inr s1)" "s1 = s \<or> s1 = s\<lparr>yieldOnReturn := True\<rparr>"
    using assms(4) by (cases "i_status s = IdleMode") (auto simp: Alarm_CallBack_def YieldOnReturn_def retL_def)
  have "queue_ok s1 ps" "kept s s1" "sys_ok s1 (p # ps)" using a(2) assms(1,2) by (auto simp: kept_def sys_defs)
  then show ?thesis using SetInterrupt_handled assms(3) a(1) by (simp add: Timer_CallBack_def)
qed

lemma Timer_asks: "Timer_CallBack s = Some (Inr s') \<Longrightarrow> i_status s \<noteq> IdleMode \<Longrightarrow> yieldOnReturn s'"
  by (auto simp: Timer_CallBack_def Alarm_CallBack_def YieldOnReturn_def SetInterrupt_def Schedule_def RandomNumber_def hostL_eq Let_def
      lres_iffs split: if_splits)

lemma ConsoleOutput_handled:
  assumes "queue_ok s ps" and "sys_ok s (p # ps)" and "callOnInterrupt p = ConsoleOutObj"
  shows "handled s ps (ConsoleOutput_CallBack s)"
  unfolding ConsoleOutput_CallBack_def Let_def
  using assms by (intro semV_handled [where ps = ps]) (simp_all add: sys_defs kept_def device_sems_def keys_ok_idle)

lemma Disk_handled:
  assumes "queue_ok s ps" and "sys_ok s (p # ps)" and "callOnInterrupt p = DiskObj"
  shows "handled s ps (Disk_CallBack s)"
  unfolding Disk_CallBack_def Let_def
  using assms by (intro semV_handled [where ps = ps]) (simp_all add: sys_defs kept_def device_sems_def keys_ok_idle)

lemma NetworkOutput_handled:
  assumes "queue_ok s ps" and "sys_ok s (p # ps)" and "callOnInterrupt p = NetOutObj"
  shows "handled s ps (NetworkOutput_CallBack s)"
  unfolding NetworkOutput_CallBack_def Let_def
  using assms by (intro semV_handled [where ps = ps]) (simp_all add: sys_defs kept_def device_sems_def keys_ok_idle)

lemma ConsoleInput_handled:
  assumes "queue_ok s ps" and "sys_ok s (p # ps)" and "callOnInterrupt p = ConsoleInObj"
  shows "handled s ps (ConsoleInput_CallBack s)"
proof -
  have eof: "incoming (consoleInput s) = EOFc" using assms(2,3) by (simp add: sys_defs)
  obtain b h where p: "PollFile (readFileNo (consoleInput s)) s = Some (Inr (b, s\<lparr>dev_host := h\<rparr>))"
    using Poll_ok [of s "readFileNo (consoleInput s)"] assms(2) by (auto simp: sys_ok_def)
  let ?r = "u_read (env s) (readFileNo (consoleInput s)) 1 h"
  have r: "fst (fst ?r) = 0 \<or> fst (fst ?r) = 1" using assms(2) by (simp add: sys_ok_def host_ok_def)
  show ?thesis
  proof (cases b)
    case False
    then show ?thesis
      using assms eof p by (simp add: ConsoleInput_CallBack_def) (rule Schedule_handled; simp add: sys_defs kept_def)
  next
    case True
    let ?s = "s\<lparr>dev_host := snd ?r\<rparr>"
    let ?t = "if fst (fst ?r) = 0 then ?s
      else ?s\<lparr>consoleInput := (consoleInput s)\<lparr>incoming := snd (fst ?r) ! 0\<rparr>, stats := (stats s)\<lparr>numConsoleCharsRead := numConsoleCharsRead (stats s) + 1\<rparr>\<rparr>"
    have "ConsoleInput_CallBack s = semV (in_waitFor s) ?t"
      using True eof p r by (auto simp: ConsoleInput_CallBack_def hostL_eq Let_def retL_def split: prod.split)
    moreover have "handled s ps (semV (in_waitFor s) ?t)"
      using assms by (intro semV_handled [where ps = ps]) (simp_all add: sys_defs kept_def device_sems_def keys_ok_idle)
    ultimately show ?thesis by simp
  qed
qed

definition arrived :: "byte list \<Rightarrow> 'h Sys \<Rightarrow> 'h Sys" where
  \<comment> \<open>the packet in \<open>buffer\<close> has been taken in\<close>
  "arrived buffer s = (let hdr = wire_header buffer in
     s\<lparr>netIn := (netIn s)\<lparr>inHdr := hdr,
         inbox := take (unat (pk_length hdr)) (drop 12 buffer) @ drop (unat (pk_length hdr)) (inbox (netIn s))\<rparr>,
       stats := (stats s)\<lparr>numPacketsRecvd := numPacketsRecvd (stats s) + 1\<rparr>\<rparr>)"

lemma NetworkInput_arrives:
  assumes "Schedule NetInObj NetworkTime NetworkRecvInt s = Some (Inr (s\<lparr>p_new := a, p_heap := h, pending := l\<rparr>))"
    and "pk_length (inHdr (netIn s)) = 0"
    and "PollFile (in_sock (netIn s)) (s\<lparr>p_new := a, p_heap := h, pending := l\<rparr>) = Some (Inr (True, s\<lparr>p_new := a, p_heap := h, pending := l, dev_host := h1\<rparr>))"
    and "u_recvfrom (env s) (in_sock (netIn s)) MaxWireSize h1 = ((n, buffer), h2)" and "wire_ok (hostName s) (n, buffer)"
  shows "NetworkInput_CallBack s = semV (messageAvailable s) (arrived buffer (s\<lparr>p_new := a, p_heap := h, pending := l, dev_host := h2\<rparr>))"
  using assms by (simp add: NetworkInput_CallBack_def ReadFromSocket_def hostL_def Let_def wire_ok_def retL_def arrived_def)

lemma NetworkInput_handled:
  assumes "queue_ok s ps" and "sys_ok s (p # ps)" and "callOnInterrupt p = NetInObj"
  shows "handled s ps (NetworkInput_CallBack s)"
proof -
  let ?q = "PendingInterrupt_new (p_new s) NetInObj (now s + NetworkTime) NetworkRecvInt"
  obtain h l a where r: "Schedule NetInObj NetworkTime NetworkRecvInt s = Some (Inr (s\<lparr>p_new := a, p_heap := h, pending := l\<rparr>))"
    "queue_ok (s\<lparr>p_new := a, p_heap := h, pending := l\<rparr>) (place PendingCompare ?q ps)"
    by (rule Schedule_ok [OF assms(1), of NetworkTime NetInObj NetworkRecvInt]) simp
  let ?s = "s\<lparr>p_new := a, p_heap := h, pending := l\<rparr>" and ?ps = "place PendingCompare ?q ps"
  have ok: "sys_ok ?s ?ps" "later (now s) ps ?ps" using assms(2,3) by (simp_all add: sys_defs later_place)
  have still: "handled s ps (retL (?s\<lparr>dev_host := h\<rparr>))" "handled s ps (retL ?s)" for h
    using r(2) ok by (auto simp: handled_def retL_def kept_def sys_defs intro!: exI [of _ ?ps])
  show ?thesis
  proof (cases "pk_length (inHdr (netIn s)) = 0")
    case False
    then show ?thesis using r(1) still by (simp add: NetworkInput_CallBack_def)
  next
    case True
    obtain b h1 where p: "PollFile (in_sock (netIn s)) ?s = Some (Inr (b, ?s\<lparr>dev_host := h1\<rparr>))"
      using Poll_ok [of ?s "in_sock (netIn s)"] ok(1) by (auto simp: sys_ok_def)
    obtain n buffer h2 where rc: "u_recvfrom (env s) (in_sock (netIn s)) MaxWireSize h1 = ((n, buffer), h2)" by (metis surj_pair)
    have w: "wire_ok (hostName s) (n, buffer)" using ok(1) rc by (metis fst_conv host_ok_def sys_ok_def host_ok_update)
    show ?thesis
    proof (cases b)
      case False
      then show ?thesis using r(1) p True still by (simp add: NetworkInput_CallBack_def)
    next
      case b: True
      let ?t = "arrived buffer (?s\<lparr>dev_host := h2\<rparr>)"
      have "NetworkInput_CallBack s = semV (messageAvailable s) ?t"
        using NetworkInput_arrives [OF r(1) True _ rc w] p b by simp
      moreover have "handled s ps (semV (messageAvailable s) ?t)"
      proof (rule semV_handled)
        show "sys_ok ?t ?ps" using ok(1) by (simp add: sys_defs host_ok_def arrived_def Let_def)
      qed (use r(2) ok(2) in \<open>simp_all add: kept_def device_sems_def arrived_def Let_def\<close>)
      ultimately show ?thesis by simp
    qed
  qed
qed

lemma call_back_handled:
  assumes "queue_ok s ps" and "sys_ok s (p # ps)" and "inHandler s"
  shows "handled s ps (call_back (callOnInterrupt p) s)"
  using assms by (cases "callOnInterrupt p")
    (simp_all add: Timer_handled ConsoleInput_handled ConsoleOutput_handled Disk_handled NetworkInput_handled NetworkOutput_handled)

section \<open>Handlers in general\<close>

text \<open>
  All that the loop that fires interrupts relies on: a handler returns with the invariant restored, keeps
  the clock and adds only later interrupts.
\<close>

locale interrupt_handlers =
  fixes call :: "Callee \<Rightarrow> 'h Sys \<Rightarrow> ('h Sys) lres"
    and ok :: "'h Sys \<Rightarrow> PendingInterrupt list \<Rightarrow> bool"
  assumes call_ok: "queue_ok s ps \<Longrightarrow> ok s (p # ps) \<Longrightarrow> inHandler s \<Longrightarrow>
      \<exists>s' ps'. call (callOnInterrupt p) s = Some (Inr s') \<and> queue_ok s' ps' \<and> ok s' ps' \<and> kept s s' \<and> later (now s) ps ps' \<and>
        (callOnInterrupt p = TimerObj \<and> i_status s \<noteq> IdleMode \<longrightarrow> yieldOnReturn s')"
    and ok_queue: "ok (s\<lparr>p_heap := h, pending := l\<rparr>) ps = ok s ps"

interpretation devices: interrupt_handlers call_back sys_ok
proof
  show "\<exists>s' ps'. call_back (callOnInterrupt p) s = Some (Inr s') \<and> queue_ok s' ps' \<and> sys_ok s' ps' \<and> kept s s' \<and> later (now s) ps ps' \<and>
      (callOnInterrupt p = TimerObj \<and> i_status s \<noteq> IdleMode \<longrightarrow> yieldOnReturn s')"
    if "queue_ok s ps" "sys_ok s (p # ps)" "inHandler s" for s :: "'h Sys" and ps p
    using call_back_handled [OF that] Timer_asks [of s] by (force simp: handled_def)
qed (simp add: sys_defs)

section \<open>A machine for examples\<close>

definition host0 :: "unit DevUnix" where
  \<comment> \<open>a host on which every call succeeds and nothing is ever typed or received\<close>
  "host0 = \<lparr>u_creat = \<lambda>_ h. (7, h), u_open = \<lambda>_ h. (7, h), u_close = \<lambda>_ h. (0, h), u_read = \<lambda>_ n h. ((1, [0]), h),
     u_write = \<lambda>_ _ n h. (n, h), u_lseek = \<lambda>_ o1 _ h. (o1, h), u_unlink = \<lambda>_ h. (0, h), u_socket = \<lambda>h. (8, h), u_connect = \<lambda>_ _ _ h. (0, h),
     u_select = \<lambda>_ h. (0, h), u_recvfrom = \<lambda>_ n h. ((n, replicate 64 0), h), u_sendto = \<lambda>_ _ n _ h. (n, h), u_dgram = \<lambda>h. (8, h),
     u_bind = \<lambda>_ _ h. (0, h), u_rand = \<lambda>h. (0, h)\<rparr>"

definition timer0 :: PendingInterrupt where
  "timer0 = \<lparr>p_addr = 0, callOnInterrupt = TimerObj, when_due = 100, p_type = TimerInt\<rparr>"

definition poll0 :: PendingInterrupt where
  "poll0 = \<lparr>p_addr = 1, callOnInterrupt = NetInObj, when_due = 100, p_type = NetworkRecvInt\<rparr>"

definition sys0 :: "unit Sys" where
  \<comment> \<open>a user program is running, the timer and the network are set for time 100\<close>
  "sys0 = \<lparr>kern = boot0\<lparr>sems := \<lambda>_. Some (Semaphore_new 0)\<rparr>, stats = Statistics_new,
     p_heap = \<lparr>cells = (\<lambda>_. None)(0 \<mapsto> \<lparr>item = timer0, next_elem = Some 1\<rparr>, 1 \<mapsto> \<lparr>item = poll0, next_elem = None\<rparr>), l_free = 2\<rparr>,
     pending = \<lparr>l_first = Some 0, l_last = Some 1, numInList = 2\<rparr>, p_new = 2, inHandler = False, yieldOnReturn = False, i_status = UserMode,
     timer = \<lparr>randomize = False, disable = False\<rparr>, consoleInput = \<lparr>readFileNo = 0, incoming = EOFc\<rparr>, in_waitFor = 0,
     consoleOutput = \<lparr>writeFileNo = 1, putBusy = False\<rparr>, out_waitFor = 1,
     disk = \<lparr>d_fileno = 7, active = False, lastSector = 0, bufferInit = 0\<rparr>, disk_semaphore = 2,
     netIn = \<lparr>in_sock = 8, inHdr = \<lparr>pk_to = 0, pk_from = 0, pk_length = 0\<rparr>, inbox = replicate 52 0\<rparr>, messageAvailable = 3,
     netOut = \<lparr>out_sock = 8, chanceToWork = 1, sendBusy = False\<rparr>, messageSent = 4, hostName = 0, env = host0, dev_host = ()\<rparr>"

lemma queue_sys0: "queue_ok sys0 [timer0, poll0]"
proof -
  have "linked (p_heap sys0) (pending sys0) [(0, timer0), (1, poll0)]" by (simp add: linked_def sys0_def)
  moreover have "timer0 \<noteq> poll0" by (simp add: timer0_def poll0_def)
  ultimately have "holds (p_heap sys0) (pending sys0) [timer0, poll0]" unfolding holds_def by (intro conjI exI [of _ "[(0, timer0), (1, poll0)]"]) simp_all
  then show ?thesis by (simp add: queue_ok_def ordered_def PendingCompare_def timer0_def poll0_def sys0_def)
qed

lemma sys_ok_sys0: "sys_ok sys0 [timer0, poll0]"
proof -
  have "wire_ok 0 (64, replicate 64 0)"
    by (simp add: wire_ok_def wire_header_def bytes_word_def load_word_def load_half_def)
  then have "host_ok sys0" by (simp add: host_ok_def sys0_def host0_def)
  moreover have "kernel_ready sys0"
    by (simp add: kernel_ready_def sys0_def boot0_def boot_def Machine_init_def waiters_exist_def Semaphore_new_def device_sems_def dom_def)
  moreover have "devices_ok sys0 [timer0, poll0]"
    by (simp add: devices_ok_def sys0_def timer0_def poll0_def timer_ok_def keys_ok_def busy_iff_def time_slice_def Statistics_new_def)
  ultimately show ?thesis by (simp add: sys_ok_def clock_ok_def sys0_def Statistics_new_def)
qed

end
