(* ===== verification/Disk_Timing.thy ===== *)
theory Disk_Timing
  imports Handlers
begin

text \<open>
  How long a disk request takes: \<^verbatim>\<open>Disk::ComputeLatency\<close> of machine/disk.cc, with its seek time, rotational
  delay and track buffer.
\<close>


lemma ModuloDiff_mod: "0 \<le> a \<Longrightarrow> 0 \<le> b \<Longrightarrow> ModuloDiff a b = (a - b) mod 32"
proof -
  assume "0 \<le> a" "0 \<le> b"
  then have "ModuloDiff a b = (a mod 32 - b mod 32 + 32) mod 32"
    using pos_mod_bound [of 32 b] by (simp add: ModuloDiff_def Let_def smod_nonneg)
  also have "\<dots> = (a - b) mod 32" by (simp add: mod_simps)
  finally show ?thesis .
qed

lemma round_up:
  fixes a :: int
  assumes "0 \<le> a"
  obtains k where "a + (if a mod 500 > 0 then 500 - a mod 500 else 0) = 500 * k" "0 \<le> k"
proof (cases "a mod 500 > 0")
  case True
  have "a - a mod 500 = 500 * (a div 500)" by (rule minus_mod_eq_mult_div)
  then show ?thesis using that [of "a div 500 + 1"] True assms by (simp add: pos_imp_zdiv_nonneg_iff)
next
  case False
  moreover have "0 \<le> a mod 500" by simp
  ultimately have "a mod 500 = 0" by linarith
  then show ?thesis using that [of "a div 500"] assms by (auto simp: pos_imp_zdiv_nonneg_iff)
qed

lemma seek_facts:
  assumes "0 \<le> now s" and "0 \<le> lastSector (disk s)" "lastSector (disk s) < NumSectors" and "0 \<le> x" "x < NumSectors"
  obtains seek rotation k where "TimeToSeek x s = (seek, rotation)" "seek = \<bar>x div 32 - lastSector (disk s) div 32\<bar> * 500" "0 \<le> seek" "seek \<le> 31 * 500"
    "0 \<le> rotation" "rotation < 500" "now s + seek + rotation = 500 * k" "0 \<le> k"
proof -
  let ?seek = "\<bar>x div 32 - lastSector (disk s) div 32\<bar> * 500"
  let ?over = "(now s + ?seek) mod 500"
  let ?rot = "if ?over > 0 then 500 - ?over else 0"
  have b: "0 \<le> x div 32" "x div 32 < 32" "0 \<le> lastSector (disk s) div 32" "lastSector (disk s) div 32 < 32"
    using assms by (simp_all add: div_less_iff_less_mult)
  have s: "0 \<le> ?seek" "?seek \<le> 31 * 500" using b by auto
  have o: "0 \<le> ?over" "?over < 500" by simp_all
  have "TimeToSeek x s = (?seek, ?rot)"
    using assms s(1) by (simp add: TimeToSeek_def Let_def sdiv_nonneg smod_nonneg)
  moreover obtain k where "now s + ?seek + ?rot = 500 * k" "0 \<le> k" using round_up [of "now s + ?seek"] assms(1) s(1) by auto
  moreover have "0 \<le> ?rot" "?rot < 500" using o by auto
  ultimately show ?thesis using that s by blast
qed


definition disk_ready :: "'h Sys \<Rightarrow> bool" where
  "disk_ready s \<longleftrightarrow> 0 \<le> now s \<and> 0 \<le> lastSector (disk s) \<and> lastSector (disk s) < NumSectors \<and> 0 \<le> bufferInit (disk s)"

lemma latency_cases:
  assumes "disk_ready s" and "0 \<le> x" "x < NumSectors"
  obtains "ComputeLatency x writing s = 500" "\<not> writing" "x div 32 = lastSector (disk s) div 32"
  | seek rotation k j where "ComputeLatency x writing s = seek + rotation + 500 * j + 500" "0 \<le> seek" "seek \<le> 31 * 500" "0 \<le> rotation" "rotation < 500"
      "now s + seek + rotation = 500 * k" "0 \<le> k" "j = (x - k) mod 32"
proof -
  obtain seek rotation k where f: "TimeToSeek x s = (seek, rotation)" "seek = \<bar>x div 32 - lastSector (disk s) div 32\<bar> * 500" "0 \<le> seek" "seek \<le> 31 * 500"
    "0 \<le> rotation" "rotation < 500" "now s + seek + rotation = 500 * k" "0 \<le> k"
    using seek_facts [of s x] assms by (auto simp: disk_ready_def)
  have k: "(500 * k) sdiv 500 = k" using f(8) by (simp add: sdiv_nonneg)
  show ?thesis
  proof (cases "\<not> writing \<and> seek = 0 \<and> (500 * k - bufferInit (disk s)) sdiv 500 > ModuloDiff x (bufferInit (disk s) sdiv 500)")
    case True
    then have "ComputeLatency x writing s = 500" using f(1,7) by (simp add: ComputeLatency_def)
    then show ?thesis using that(1) True f(2) by auto
  next
    case False
    then have "ComputeLatency x writing s = seek + rotation + 500 * ((x - k) mod 32) + 500"
      using f(1,7) k ModuloDiff_mod [OF assms(2) f(8)] by (auto simp: ComputeLatency_def Let_def)
    then show ?thesis using that(2) f(3-8) by blast
  qed
qed

lemma UpdateLast_ready:
  assumes "disk_ready s" and "0 \<le> x" and "x < NumSectors"
  shows "disk_ready (UpdateLast x s)"
proof -
  obtain seek rotation where "TimeToSeek x s = (seek, rotation)" "0 \<le> seek" "0 \<le> rotation"
    by (rule seek_facts [of s x]) (use assms in \<open>simp_all add: disk_ready_def\<close>)
  then show ?thesis using assms by (simp add: disk_ready_def UpdateLast_def)
qed




end
