(* ===== verification/Ticks.thy ===== *)
theory Ticks
  imports Handlers
begin

text \<open>
  Simulated time, machine/interrupt.cc: \<open>OneTick\<close> advances the clock and fires what is due, \<open>Idle\<close> moves the
  clock to the next interrupt, \<open>SetLevel\<close> turns interrupts on and off.

  \<open>OneTick\<close> ends in one of two ways: it has \<open>Ticked\<close>, or a handler has asked for a context switch and the
  interrupted thread \<open>Yields\<close>, in the state in which \<open>Thread::Yield\<close> is called. The mode it puts back when the
  thread runs again is kept with it; \<open>OneTick_return\<close> is that last assignment.
\<close>

section \<open>Definitions\<close>

partial_function (option) fire_loop :: "(Callee \<Rightarrow> 'h Sys \<Rightarrow> ('h Sys) lres) \<Rightarrow> 'h Sys \<Rightarrow> ('h Sys) lres" where
  \<comment> \<open>the \<open>do ... while\<close> of \<open>CheckIfDue\<close>, with the virtual \<open>CallBack\<close>\<close>
  "fire_loop call s = bindL (RemoveFront (p_heap s) (pending s)) (\<lambda>(p, h, l).
     bindL (call (callOnInterrupt p) (s\<lparr>p_heap := h, pending := l\<rparr>)) (\<lambda>s1.
       if IsEmpty (pending s1) then retL s1
       else bindL (Front (p_heap s1) (pending s1)) (\<lambda>q.
         if when_due q \<le> totalTicks (stats s1) then fire_loop call s1 else retL s1)))"

definition fire_due :: "'h Sys \<Rightarrow> ('h Sys) lres" where
  \<comment> \<open>\<open>CheckIfDue\<close> once it is known that an interrupt is due\<close>
  "fire_due s = bindL (liftL (DelayedLoad (machine (kern s)) 0 0)) (\<lambda>m.
     bindL (fire_loop call_back (s\<lparr>kern := (kern s)\<lparr>machine := m\<rparr>, inHandler := True\<rparr>)) (\<lambda>s1. retL (s1\<lparr>inHandler := False\<rparr>)))"

definition CheckIfDue :: "bool \<Rightarrow> 'h Sys \<Rightarrow> (bool \<times> 'h Sys) lres" where
  "CheckIfDue advanceClock s = assertL (level (kern s) = IntOff)
     (if IsEmpty (pending s) then retL (False, s)
      else bindL (Front (p_heap s) (pending s)) (\<lambda>nxt.
        if when_due nxt > totalTicks (stats s) \<and> \<not> advanceClock then retL (False, s)
        else let s1 = (if when_due nxt > totalTicks (stats s)
               then s\<lparr>stats := (stats s)\<lparr>idleTicks := idleTicks (stats s) + (when_due nxt - totalTicks (stats s)), totalTicks := when_due nxt\<rparr>\<rparr>
               else s)
             in bindL (fire_due s1) (\<lambda>s2. retL (True, s2))))"

datatype 's tick = Ticked 's | Yields MachineStatus 's

definition OneTick :: "'h Sys \<Rightarrow> (('h Sys) tick) lres" where
  "OneTick s =
     (let oldStatus = i_status s;
          st = stats s;
          s1 = (if i_status s = SystemMode
                then s\<lparr>stats := st\<lparr>totalTicks := totalTicks st + SystemTick, systemTicks := systemTicks st + SystemTick\<rparr>\<rparr>
                else s\<lparr>stats := st\<lparr>totalTicks := totalTicks st + UserTick, userTicks := userTicks st + UserTick\<rparr>\<rparr>)
      in bindL (CheckIfDue False (ChangeLevel IntOn IntOff s1)) (\<lambda>(_, s2).
           let s3 = ChangeLevel IntOff IntOn s2 in
           if yieldOnReturn s3
           then retL (Yields oldStatus (s3\<lparr>yieldOnReturn := False, i_status := SystemMode\<rparr>))
           else retL (Ticked s3)))"

definition OneTick_return :: "MachineStatus \<Rightarrow> 'h Sys \<Rightarrow> 'h Sys" where
  "OneTick_return oldStatus s = s\<lparr>i_status := oldStatus\<rparr>"

definition SetLevel :: "IntStatus \<Rightarrow> 'h Sys \<Rightarrow> (IntStatus \<times> ('h Sys) tick) lres" where
  "SetLevel new_level s = (let old = level (kern s) in
     assertL (new_level = IntOff \<or> inHandler s = False)
       (let s1 = ChangeLevel old new_level s in
        bindL (if new_level = IntOn \<and> old = IntOff then OneTick s1 else retL (Ticked s1)) (\<lambda>t. retL (old, t))))"

datatype 's idle = Resumes 's | Halts 's

definition Idle :: "'h Sys \<Rightarrow> (('h Sys) idle) lres" where
  "Idle s = bindL (CheckIfDue True (s\<lparr>i_status := IdleMode\<rparr>)) (\<lambda>(fired, s1).
     retL (if fired then Resumes (s1\<lparr>i_status := SystemMode\<rparr>) else Halts s1))"

section \<open>Firing interrupts\<close>

definition due :: "'h Sys \<Rightarrow> PendingInterrupt list \<Rightarrow> nat" where
  "due s ps = length (filter (\<lambda>p. when_due p \<le> now s) ps)"

lemma due_none: "queue_ok s (p # ps) \<Longrightarrow> now s < when_due p \<Longrightarrow> due s (p # ps) = 0"
  using queue_okD(2) [of s "p # ps"] by (auto simp: due_def filter_empty_conv)

lemma filter_later:
  assumes "\<forall>q \<in> set qs. t < when_due q"
  shows "filter (\<lambda>q. when_due q \<le> t) qs = []" "filter (\<lambda>q. t < when_due q) qs = qs"
  using assms by (auto simp: filter_empty_conv filter_id_conv)

lemma due_later:
  assumes "later (now s) ps ps'" and "now s' = now s"
  shows "due s' ps' = due s ps"
proof -
  obtain qs where q: "mset ps' = mset ps + mset qs" "\<forall>q \<in> set qs. now s < when_due q" using assms(1) by (auto simp: later_def)
  then have "mset (filter (\<lambda>q. when_due q \<le> now s) ps') = mset (filter (\<lambda>q. when_due q \<le> now s) (ps @ qs))" by simp
  from mset_eq_length [OF this] show ?thesis using assms(2) filter_later(1) [OF q(2)] by (simp add: due_def)
qed

definition fired :: "('h Sys \<Rightarrow> PendingInterrupt list \<Rightarrow> bool) \<Rightarrow> 'h Sys \<Rightarrow> PendingInterrupt list \<Rightarrow> 'h Sys \<Rightarrow> PendingInterrupt list \<Rightarrow> bool" where
  \<comment> \<open>all that was due has been handled, the rest is still pending\<close>
  "fired ok s ps s' ps' \<longleftrightarrow> queue_ok s' ps' \<and> ok s' ps' \<and> kept s s' \<and> due s' ps' = 0 \<and>
     later (now s) (filter (\<lambda>q. now s < when_due q) ps) ps' \<and>
     ((\<exists>q \<in> set ps. callOnInterrupt q = TimerObj \<and> when_due q \<le> now s) \<and> i_status s \<noteq> IdleMode \<longrightarrow> yieldOnReturn s')"

lemma later_set: "later t ps ps' \<Longrightarrow> set ps \<subseteq> set ps'"
  by (metis later_def le_add1 mset_subset_eqD set_mset_mset subsetI mset_subset_eq_add_left)

lemma later_filter:
  assumes "later t ps ps'"
  shows "later t (filter (\<lambda>q. t < when_due q) ps) (filter (\<lambda>q. t < when_due q) ps')"
proof -
  obtain qs where q: "mset ps' = mset (ps @ qs)" "\<forall>q \<in> set qs. t < when_due q" using assms by (auto simp: later_def)
  have "mset (filter (\<lambda>q. t < when_due q) ps') = mset (filter (\<lambda>q. t < when_due q) (ps @ qs))" using q(1) by (metis mset_filter)
  then show ?thesis using filter_later(2) [OF q(2)] q(2) by (auto simp: later_def)
qed

lemma later_trans: "later t ps ps' \<Longrightarrow> later t ps' ps'' \<Longrightarrow> later t ps ps''"
  unfolding later_def by (metis (no_types, lifting) Un_iff add.assoc mset_append set_append)

context interrupt_handlers
begin

lemma one_call:
  assumes "queue_ok s (p # ps)" and "ok s (p # ps)" and "inHandler s"
  obtains h l s' ps' where "RemoveFront (p_heap s) (pending s) = Some (Inr (p, h, l))"
    "call (callOnInterrupt p) (s\<lparr>p_heap := h, pending := l\<rparr>) = Some (Inr s')" "queue_ok s' ps'" "ok s' ps'" "kept s s'"
    "later (now s) ps ps'" "callOnInterrupt p = TimerObj \<and> i_status s \<noteq> IdleMode \<longrightarrow> yieldOnReturn s'"
proof -
  obtain h l where r: "RemoveFront (p_heap s) (pending s) = Some (Inr (p, h, l))" "queue_ok (s\<lparr>p_heap := h, pending := l\<rparr>) ps"
    using pop_queue(2) [OF assms(1)] by auto
  let ?s = "s\<lparr>p_heap := h, pending := l\<rparr>"
  have "kept ?s s' \<longleftrightarrow> kept s s'" for s' by (simp add: kept_def)
  moreover obtain s' ps' where "call (callOnInterrupt p) ?s = Some (Inr s')" "queue_ok s' ps'" "ok s' ps'" "kept ?s s'" "later (now s) ps ps'"
    "callOnInterrupt p = TimerObj \<and> i_status s \<noteq> IdleMode \<longrightarrow> yieldOnReturn s'"
    using call_ok [OF r(2), of p] assms(2,3) by (auto simp: ok_queue)
  ultimately show ?thesis using that r(1) by blast
qed

lemma fire_loop_ok:
  assumes "queue_ok s (p # ps)" and "ok s (p # ps)" and "inHandler s" and "when_due p \<le> now s"
  shows "\<exists>s' ps'. fire_loop call s = Some (Inr s') \<and> fired ok s (p # ps) s' ps'"
  using assms
proof (induction "due s (p # ps)" arbitrary: s p ps rule: less_induct)
  case less
  obtain h l s1 ps1 where c: "RemoveFront (p_heap s) (pending s) = Some (Inr (p, h, l))"
    "call (callOnInterrupt p) (s\<lparr>p_heap := h, pending := l\<rparr>) = Some (Inr s1)" "queue_ok s1 ps1" "ok s1 ps1" "kept s s1"
    "later (now s) ps ps1" "callOnInterrupt p = TimerObj \<and> i_status s \<noteq> IdleMode \<longrightarrow> yieldOnReturn s1"
    by (rule one_call [OF less.prems(1-3)])
  have n: "now s1 = now s" "inHandler s1" "i_status s1 = i_status s" using c(5) less.prems(3) by (auto simp: kept_def)
  have d: "due s1 ps1 = due s ps" using due_later [OF c(6)] n(1) by blast
  have sub: "set ps \<subseteq> set ps1" using later_set [OF c(6)] .
  have rest: "later (now s) (filter (\<lambda>q. now s < when_due q) (p # ps)) (filter (\<lambda>q. now s < when_due q) ps1)"
    using later_filter [OF c(6)] less.prems(4) by simp
  show ?case
  proof (cases "due s1 ps1 = 0")
    case True
    then have "filter (\<lambda>q. now s < when_due q) ps1 = ps1" "\<forall>q \<in> set ps1. now s < when_due q" using n(1)
      by (auto simp: due_def filter_id_conv filter_empty_conv)
    then have "fired ok s (p # ps) s1 ps1" using c(3-7) True rest sub by (fastforce simp: fired_def)
    moreover have "fire_loop call s = Some (Inr s1)"
      using c(1-3) queue_okD(1) [OF c(3)] True pop_queue(1) [of s1]
      by (subst fire_loop.simps, cases ps1) (auto simp: retL_def due_def split: if_splits)
    ultimately show ?thesis by blast
  next
    case False
    then obtain q qs where q: "ps1 = q # qs" by (cases ps1) (auto simp: due_def)
    have due: "when_due q \<le> now s1" using due_none [of s1 q qs] c(3) q False by force
    have "due s1 (q # qs) < due s (p # ps)" using d q less.prems(4) by (simp add: due_def)
    then obtain s' ps' where i: "fire_loop call s1 = Some (Inr s')" "fired ok s1 (q # qs) s' ps'"
      using less.hyps [of s1 q qs] c(3,4) n(2) q due by auto
    have "fire_loop call s = Some (Inr s')"
      using c(1,2) queue_okD(1) [OF c(3)] q pop_queue(1) [of s1 q qs] c(3) due i(1) by (subst fire_loop.simps) simp
    moreover have "fired ok s (p # ps) s' ps'"
      using i(2) c(5,7) n rest sub q later_trans [OF rest, of ps'] by (auto simp: fired_def kept_def)
    ultimately show ?thesis by blast
  qed
qed

end

section \<open>CheckIfDue\<close>

definition quiet :: "'h Sys \<Rightarrow> 'h Sys \<Rightarrow> bool" where
  \<comment> \<open>no time has passed\<close>
  "quiet s s' \<longleftrightarrow> totalTicks (stats s') = totalTicks (stats s) \<and> idleTicks (stats s') = idleTicks (stats s) \<and>
     systemTicks (stats s') = systemTicks (stats s) \<and> userTicks (stats s') = userTicks (stats s) \<and> i_status s' = i_status s \<and>
     level (kern s') = level (kern s) \<and> timer s' = timer s \<and> (yieldOnReturn s \<longrightarrow> yieldOnReturn s')"

lemma sys_ok_update [simp]:
  "sys_ok (s\<lparr>inHandler := b\<rparr>) ps = sys_ok s ps" "sys_ok (s\<lparr>i_status := st\<rparr>) ps = sys_ok s ps" "sys_ok (s\<lparr>yieldOnReturn := b\<rparr>) ps = sys_ok s ps"
  "sys_ok (s\<lparr>kern := (kern s)\<lparr>level := lv\<rparr>\<rparr>) ps = sys_ok s ps"
  by (simp_all add: sys_defs kernel_ready_def waiters_exist_def)

lemma sys_ok_machine:
  assumes "sys_ok s ps"
  shows "\<exists>m. DelayedLoad (machine (kern s)) 0 0 = Inr m \<and> sys_ok (s\<lparr>kern := (kern s)\<lparr>machine := m\<rparr>\<rparr>) ps"
  using DelayedLoad_ok [of "machine (kern s)" 0 0] assms by (auto simp: sys_defs kernel_ready_def waiters_exist_def)

lemma sys_ok_clock:
  assumes "sys_ok s ps" and "clock_ok st" and "totalTicks (stats s) \<le> totalTicks st"
  shows "sys_ok (s\<lparr>stats := st\<rparr>) ps"
  using assms by (auto simp: sys_defs timer_ok_def)

lemma fire_due_ok:
  assumes "queue_ok s ps" and "sys_ok s ps" and "ps \<noteq> []" and "when_due (hd ps) \<le> now s"
  shows "\<exists>s' ps'. fire_due s = Some (Inr s') \<and> queue_ok s' ps' \<and> sys_ok s' ps' \<and> quiet s s' \<and> \<not> inHandler s' \<and>
     (\<forall>p \<in> set ps'. now s < when_due p) \<and> later (now s) (filter (\<lambda>q. now s < when_due q) ps) ps' \<and>
     ((\<exists>q \<in> set ps. callOnInterrupt q = TimerObj \<and> when_due q \<le> now s) \<and> i_status s \<noteq> IdleMode \<longrightarrow> yieldOnReturn s')"
proof -
  obtain p qs where ps: "ps = p # qs" using assms(3) by (cases ps) auto
  obtain m where m: "DelayedLoad (machine (kern s)) 0 0 = Inr m" "sys_ok (s\<lparr>kern := (kern s)\<lparr>machine := m\<rparr>\<rparr>) ps"
    using sys_ok_machine [OF assms(2)] by blast
  let ?s = "s\<lparr>kern := (kern s)\<lparr>machine := m\<rparr>, inHandler := True\<rparr>"
  obtain s' ps' where f: "fire_loop call_back ?s = Some (Inr s')" "fired sys_ok ?s ps s' ps'"
    using devices.fire_loop_ok [of ?s p qs] assms(1,4) m(2) ps by auto
  have "fire_due s = Some (Inr (s'\<lparr>inHandler := False\<rparr>))" using m(1) f(1) by (simp add: fire_due_def liftL_def retL_def)
  moreover have "queue_ok (s'\<lparr>inHandler := False\<rparr>) ps'" "sys_ok (s'\<lparr>inHandler := False\<rparr>) ps'" using f(2) by (simp_all add: fired_def)
  moreover have "quiet s (s'\<lparr>inHandler := False\<rparr>)"
    "\<forall>p \<in> set ps'. now s < when_due p" "later (now s) (filter (\<lambda>q. now s < when_due q) ps) ps'"
    "(\<exists>q \<in> set ps. callOnInterrupt q = TimerObj \<and> when_due q \<le> now s) \<and> i_status s \<noteq> IdleMode \<longrightarrow> yieldOnReturn s'"
    using f(2) by (auto simp: fired_def kept_def quiet_def due_def filter_empty_conv)
  ultimately show ?thesis by (intro exI [of _ "s'\<lparr>inHandler := False\<rparr>"] exI [of _ ps']) simp
qed

definition clock_target :: "bool \<Rightarrow> 'h Sys \<Rightarrow> PendingInterrupt list \<Rightarrow> int" where
  \<comment> \<open>the time at which \<open>CheckIfDue\<close> fires\<close>
  "clock_target adv s ps = (if adv \<and> ps \<noteq> [] then max (now s) (when_due (hd ps)) else now s)"

definition idle_until :: "int \<Rightarrow> 'h Sys \<Rightarrow> 'h Sys" where
  "idle_until t s = s\<lparr>stats := (stats s)\<lparr>idleTicks := idleTicks (stats s) + (t - now s), totalTicks := t\<rparr>\<rparr>"

lemma CheckIfDue_ok:
  fixes adv :: bool
  assumes "queue_ok s ps" and "sys_ok s ps" and "level (kern s) = IntOff"
  defines "t \<equiv> clock_target adv s ps"
  defines "s0 \<equiv> idle_until t s"
  shows "\<exists>s' ps'. CheckIfDue adv s = Some (Inr (ps \<noteq> [] \<and> when_due (hd ps) \<le> t, s')) \<and> queue_ok s' ps' \<and> sys_ok s' ps' \<and> quiet s0 s' \<and>
     (inHandler s' \<longrightarrow> inHandler s) \<and> (\<forall>p \<in> set ps'. t < when_due p) \<and> later t (filter (\<lambda>q. t < when_due q) ps) ps' \<and>
     ((\<exists>q \<in> set ps. callOnInterrupt q = TimerObj \<and> when_due q \<le> t) \<and> i_status s \<noteq> IdleMode \<longrightarrow> yieldOnReturn s')"
proof -
  have ok0: "queue_ok s0 ps" "sys_ok s0 ps" "now s0 = t" "level (kern s0) = IntOff" "i_status s0 = i_status s"
    using assms(1-3) sys_ok_clock [OF assms(2), of "stats s0"] by (auto simp: s0_def idle_until_def t_def clock_target_def sys_ok_def clock_ok_def)
  show ?thesis
  proof (cases "ps \<noteq> [] \<and> when_due (hd ps) \<le> t")
    case False
    have "\<forall>p \<in> set ps. t < when_due p"
    proof (cases ps)
      case (Cons p qs)
      then show ?thesis using False queue_okD(2) [OF assms(1)] by auto
    qed simp
    moreover have "t = now s" using False by (auto simp: t_def clock_target_def split: if_splits)
    moreover have "CheckIfDue adv s = Some (Inr (False, s))"
      using False assms(3) queue_okD(1) [OF assms(1)] pop_queue(1) [of s] assms(1)
      by (cases ps) (auto simp: CheckIfDue_def retL_def t_def clock_target_def split: if_splits)
    ultimately show ?thesis using False assms(1,2) by (auto simp: s0_def idle_until_def quiet_def clock_target_def filter_id_conv intro!: exI [of _ ps])
  next
    case True
    then obtain p qs where ps: "ps = p # qs" by (cases ps) auto
    obtain s' ps' where f: "fire_due s0 = Some (Inr s')" "queue_ok s' ps'" "sys_ok s' ps'" "quiet s0 s'" "\<not> inHandler s'"
      "\<forall>p \<in> set ps'. t < when_due p" "later t (filter (\<lambda>q. t < when_due q) ps) ps'"
      "(\<exists>q \<in> set ps. callOnInterrupt q = TimerObj \<and> when_due q \<le> t) \<and> i_status s \<noteq> IdleMode \<longrightarrow> yieldOnReturn s'"
      using fire_due_ok [of s0 ps] ok0 True by auto
    have "s0 = (if when_due p > now s then s\<lparr>stats := (stats s)\<lparr>idleTicks := idleTicks (stats s) + (when_due p - now s), totalTicks := when_due p\<rparr>\<rparr> else s)"
      using True ps by (auto simp: s0_def idle_until_def t_def clock_target_def)
    then have "CheckIfDue adv s = Some (Inr (True, s'))"
      using assms(3) queue_okD(1) [OF assms(1)] ps pop_queue(1) [of s p qs] assms(1) f(1) True
      by (auto simp: CheckIfDue_def retL_def Let_def clock_target_def t_def clock_target_def split: if_splits)
    then show ?thesis using f True by auto
  qed
qed

section \<open>Ticks\<close>

definition ticked :: "'h Sys \<Rightarrow> 'h Sys" where
  \<comment> \<open>the clock after one tick, in the mode of the machine\<close>
  "ticked s = (if i_status s = SystemMode
     then s\<lparr>stats := (stats s)\<lparr>totalTicks := now s + SystemTick, systemTicks := systemTicks (stats s) + SystemTick\<rparr>\<rparr>
     else s\<lparr>stats := (stats s)\<lparr>totalTicks := now s + UserTick, userTicks := userTicks (stats s) + UserTick\<rparr>\<rparr>)"

lemma ticked_ok:
  assumes "queue_ok s ps" and "sys_ok s ps"
  shows "queue_ok (ticked s) ps" "sys_ok (ticked s) ps"
  using assms sys_ok_clock [OF assms(2)] by (auto simp: ticked_def sys_ok_def clock_ok_def)

lemma OneTick_ok:
  assumes "queue_ok s ps" and "sys_ok s ps"
  shows "\<exists>s' ps'. queue_ok s' ps' \<and> sys_ok s' ps' \<and> (\<forall>p \<in> set ps'. now s' < when_due p) \<and>
     later (now s') (filter (\<lambda>q. now s' < when_due q) ps) ps' \<and>
     quiet (ticked s\<lparr>kern := (kern s)\<lparr>level := IntOn\<rparr>\<rparr>) s' \<and> (inHandler s' \<longrightarrow> inHandler s) \<and>
     ((\<exists>q \<in> set ps. callOnInterrupt q = TimerObj \<and> when_due q \<le> now s') \<and> i_status s \<noteq> IdleMode \<longrightarrow> yieldOnReturn s') \<and>
     OneTick s = Some (Inr (if yieldOnReturn s' then Yields (i_status s) (s'\<lparr>yieldOnReturn := False, i_status := SystemMode\<rparr>) else Ticked s'))"
proof -
  let ?s = "ChangeLevel IntOn IntOff (ticked s)"
  have k: "kern (ticked s) = kern s" "i_status (ticked s) = i_status s" "inHandler (ticked s) = inHandler s" by (simp_all add: ticked_def)
  have ok: "queue_ok ?s ps" "sys_ok ?s ps" "level (kern ?s) = IntOff" using ticked_ok [OF assms] by (simp_all add: ChangeLevel_def)
  obtain s1 ps' b where c: "CheckIfDue False ?s = Some (Inr (b, s1))" "queue_ok s1 ps'" "sys_ok s1 ps'" "quiet ?s s1" "inHandler s1 \<longrightarrow> inHandler s"
    "\<forall>p \<in> set ps'. now (ticked s) < when_due p" "later (now (ticked s)) (filter (\<lambda>q. now (ticked s) < when_due q) ps) ps'"
    "(\<exists>q \<in> set ps. callOnInterrupt q = TimerObj \<and> when_due q \<le> now (ticked s)) \<and> i_status s \<noteq> IdleMode \<longrightarrow> yieldOnReturn s1"
    using CheckIfDue_ok [OF ok, of False] k by (auto simp: clock_target_def idle_until_def ChangeLevel_def)
  let ?t = "ChangeLevel IntOff IntOn s1"
  have q: "quiet (ticked s\<lparr>kern := (kern s)\<lparr>level := IntOn\<rparr>\<rparr>) ?t" using c(4) by (simp add: quiet_def ChangeLevel_def)
  have n: "now ?t = now (ticked s)" "queue_ok ?t ps'" "sys_ok ?t ps'" using c(2-4) by (simp_all add: quiet_def ChangeLevel_def)
  have "OneTick s = Some (Inr (if yieldOnReturn ?t then Yields (i_status s) (?t\<lparr>yieldOnReturn := False, i_status := SystemMode\<rparr>) else Ticked ?t))"
    using c(1) by (simp add: OneTick_def Let_def retL_def ticked_def split: if_splits)
  then show ?thesis using c(5-8) q n by (intro exI [of _ ?t] exI [of _ ps']) (simp add: ChangeLevel_def)
qed

lemma Idle_ok:
  assumes "queue_ok s ps" and "sys_ok s ps" and "level (kern s) = IntOff"
  shows "\<exists>s' ps'. Idle s = Some (Inr (Resumes s')) \<and> queue_ok s' ps' \<and> sys_ok s' ps' \<and> i_status s' = SystemMode \<and>
     now s' = max (now s) (when_due (hd ps)) \<and> (\<forall>p \<in> set ps'. now s' < when_due p) \<and> level (kern s') = IntOff \<and>
     timer s' = timer s \<and> (yieldOnReturn s \<longrightarrow> yieldOnReturn s')"
proof -
  have ne: "ps \<noteq> []" using assms(2) by (auto simp: sys_defs busy_iff_def)
  let ?s = "s\<lparr>i_status := IdleMode\<rparr>"
  obtain s1 ps' where c: "CheckIfDue True ?s = Some (Inr (True, s1))" "queue_ok s1 ps'" "sys_ok s1 ps'"
    "quiet (idle_until (max (now s) (when_due (hd ps))) ?s) s1" "\<forall>p \<in> set ps'. max (now s) (when_due (hd ps)) < when_due p"
    using CheckIfDue_ok [of ?s ps True] assms ne by (auto simp: clock_target_def)
  then show ?thesis using assms(3)
    by (auto simp: Idle_def retL_def quiet_def idle_until_def intro!: exI [of _ ps'])
qed

section \<open>Time slices\<close>

lemma timer_pending:
  assumes "sys_ok s ps" and "\<not> disable (timer s)"
  obtains q where "q \<in> set ps" "callOnInterrupt q = TimerObj" "when_due q \<le> now s + time_slice s"
proof -
  have "scheduled TimerObj ps = 1" using assms by (simp add: sys_defs timer_ok_def)
  then obtain q where q: "q \<in> set ps" "callOnInterrupt q = TimerObj"
    by (metis (mono_tags, lifting) filter_empty_conv list.size(3) scheduled_def zero_neq_one)
  moreover from q have "when_due q \<le> now s + time_slice s" using assms by (simp add: sys_defs timer_ok_def)
  ultimately show ?thesis by (rule that)
qed

end
