(* ===== verification/Device_System.thy ===== *)
theory Device_System
  imports Ticks
begin

text \<open>
  The devices at work: what \<^verbatim>\<open>Kernel::Initialize\<close> sets up, the requests that threads make to the devices,
  and the passing of time, in any order. The invariant \<open>sys_ok\<close> holds throughout; with it come the properties
  of simulated time: interrupts that are due are handled, running programs are interrupted, an idle machine
  always finds something to wait for, and the disk takes the time its geometry says.
\<close>

section \<open>Start-up\<close>

definition new_semaphore :: "nat \<Rightarrow> 'h Sys \<Rightarrow> 'h Sys" where
  "new_semaphore x s = s\<lparr>kern := (kern s)\<lparr>sems := (sems (kern s))(x \<mapsto> Semaphore_new 0)\<rparr>\<rparr>"

text \<open>
  Of the objects that wrap a device only the device and the semaphore it signals are set up here: their locks
  serve the threads, not the device.
\<close>

definition SynchConsoleInput_new :: "byte list option \<Rightarrow> 'h Sys \<Rightarrow> ('h Sys) lres" where
  "SynchConsoleInput_new inputFile s = bindL (ConsoleInput_new inputFile s) (\<lambda>s1. retL (new_semaphore (in_waitFor s1) s1))"

definition SynchConsoleOutput_new :: "byte list option \<Rightarrow> 'h Sys \<Rightarrow> ('h Sys) lres" where
  "SynchConsoleOutput_new outputFile s = bindL (ConsoleOutput_new outputFile s) (\<lambda>s1. retL (new_semaphore (out_waitFor s1) s1))"

definition SynchDisk_new :: "byte list \<Rightarrow> 'h Sys \<Rightarrow> ('h Sys) lres" where
  "SynchDisk_new diskname s = Disk_new diskname (new_semaphore (disk_semaphore s) s)"

definition PostOfficeInput_new :: "NetworkInput \<Rightarrow> 'h Sys \<Rightarrow> ('h Sys) lres" where
  "PostOfficeInput_new raw s = NetworkInput_new raw (new_semaphore (messageAvailable s) s)"

definition PostOfficeOutput_new :: "rat \<Rightarrow> 'h Sys \<Rightarrow> ('h Sys) lres" where
  "PostOfficeOutput_new reliability s = NetworkOutput_new reliability (new_semaphore (messageSent s) s)"

definition Initialize_devices ::
  "bool \<Rightarrow> byte list option \<Rightarrow> byte list option \<Rightarrow> byte list \<Rightarrow> NetworkInput \<Rightarrow> rat \<Rightarrow> 'h Sys \<Rightarrow> ('h Sys) lres" where
  "Initialize_devices randomSlice consoleIn consoleOut diskname raw reliability s =
     bindL (Alarm_new randomSlice (Interrupt_new (s\<lparr>stats := Statistics_new\<rparr>))) (\<lambda>s1.
     bindL (SynchConsoleInput_new consoleIn s1) (\<lambda>s2.
     bindL (SynchConsoleOutput_new consoleOut s2) (\<lambda>s3.
     bindL (SynchDisk_new diskname s3) (\<lambda>s4.
     bindL (PostOfficeInput_new raw s4) (\<lambda>s5.
     PostOfficeOutput_new reliability s5)))))"

section \<open>Requests keep the invariant\<close>

definition good :: "'h Sys \<Rightarrow> bool" where
  "good s \<longleftrightarrow> (\<exists>ps. queue_ok s ps \<and> sys_ok s ps)"

definition outcome :: "('a lres) \<Rightarrow> ('a \<Rightarrow> bool) \<Rightarrow> bool" where
  \<comment> \<open>a request ends; it does what it should or an assertion stops the machine\<close>
  "outcome r P \<longleftrightarrow> (case r of None \<Rightarrow> False | Some (Inl e) \<Rightarrow> e = AssertFailed | Some (Inr x) \<Rightarrow> P x)"

lemma outcome_simps [simp]:
  "outcome (retL x) P = P x" "outcome (Some (Inr x)) P = P x" "outcome (assertL c k) P \<longleftrightarrow> (c \<longrightarrow> outcome k P)"
  by (simp_all add: outcome_def retL_def assertL_def)

lemma outcome_bindL: "outcome m (\<lambda>x. outcome (f x) P) \<Longrightarrow> outcome (bindL m f) P"
  by (auto simp: outcome_def bindL_def split: option.splits sum.splits)

lemma outcome_mono: "outcome r P \<Longrightarrow> (\<And>x. P x \<Longrightarrow> Q x) \<Longrightarrow> outcome r Q"
  by (auto simp: outcome_def split: option.splits sum.splits)

lemma Schedule_outcome:
  assumes "queue_ok s ps" and "fromNow > 0 \<Longrightarrow> sys_ok s (PendingInterrupt_new (p_new s) c (now s + fromNow) kind # ps)"
  shows "outcome (Schedule c fromNow kind s) good"
proof (cases "fromNow > 0")
  case True
  have "handled s ps (Schedule c fromNow kind s)" using Schedule_handled [of s ps fromNow s c kind] assms True by simp
  then show ?thesis by (auto simp: handled_def good_def)
qed (simp add: Schedule_def Let_def outcome_def)

lemma PutChar_good:
  assumes "good s"
  shows "outcome (ConsoleOutput_PutChar ch s) good"
proof -
  obtain ps where ok: "queue_ok s ps" "sys_ok s ps" using assms by (auto simp: good_def)
  show ?thesis
    unfolding ConsoleOutput_PutChar_def dev_WriteFile_def
    using ok by (auto simp: hostL_eq Let_def sys_defs intro!: outcome_bindL Schedule_outcome [where ps = ps])
qed

lemma GetChar_good:
  assumes "good s"
  shows "outcome (ConsoleInput_GetChar s) (\<lambda>(ch, s'). good s' \<and> ch = incoming (consoleInput s) \<and> incoming (consoleInput s') = EOFc)"
proof -
  obtain ps where ok: "queue_ok s ps" "sys_ok s ps" using assms by (auto simp: good_def)
  show ?thesis
  proof (cases "incoming (consoleInput s) = EOFc")
    case True
    have "sys_ok (s\<lparr>consoleInput := (consoleInput s)\<lparr>incoming := EOFc\<rparr>\<rparr>) ps" using ok(2) True by (simp add: sys_defs)
    then show ?thesis using True ok(1) by (auto simp: ConsoleInput_GetChar_def retL_def Let_def good_def)
  next
    case False
    let ?p = "PendingInterrupt_new (p_new s) ConsoleInObj (now s + ConsoleTime) ConsoleReadInt"
    obtain h l a where r: "Schedule ConsoleInObj ConsoleTime ConsoleReadInt s = Some (Inr (s\<lparr>p_new := a, p_heap := h, pending := l\<rparr>))"
      "queue_ok (s\<lparr>p_new := a, p_heap := h, pending := l\<rparr>) (place PendingCompare ?p ps)"
      by (rule Schedule_ok [OF ok(1), of ConsoleTime]) simp
    have "busy_iff ConsoleInObj False ps" using ok(2) False by (auto simp: sys_defs keys_ok_def busy_iff_def)
    then have "sys_ok (s\<lparr>p_new := a, p_heap := h, pending := l, consoleInput := (consoleInput s)\<lparr>incoming := EOFc\<rparr>\<rparr>) (place PendingCompare ?p ps)"
      using ok(2) by (simp add: sys_defs)
    then show ?thesis using r False by (auto simp: ConsoleInput_GetChar_def good_def retL_def Let_def)
  qed
qed

lemma sys_ok_host [simp]: "sys_ok (s\<lparr>dev_host := h\<rparr>) ps = sys_ok s ps"
  by (simp add: sys_defs)

lemma UpdateLast_disk: "\<exists>d. UpdateLast x s = s\<lparr>disk := d\<rparr> \<and> active d = active (disk s)"
  by (auto simp: UpdateLast_def Let_def split: prod.split)

lemma disk_busy_good:
  assumes "queue_ok s ps" and "sys_ok s ps" and "\<not> active (disk s)"
    and "clock_ok (stats s) \<Longrightarrow> clock_ok st" and "totalTicks st = now s"
  shows "outcome (Schedule DiskObj ticks DiskInt (UpdateLast x (s\<lparr>disk := (disk s)\<lparr>active := True\<rparr>\<rparr>)\<lparr>stats := st\<rparr>)) good"
proof -
  obtain d where d: "UpdateLast x (s\<lparr>disk := (disk s)\<lparr>active := True\<rparr>\<rparr>) = s\<lparr>disk := d\<rparr>" "active d"
    using UpdateLast_disk [of x "s\<lparr>disk := (disk s)\<lparr>active := True\<rparr>\<rparr>"] by auto
  have "queue_ok (s\<lparr>disk := d, stats := st\<rparr>) ps" using assms(1) by simp
  then have "outcome (Schedule DiskObj ticks DiskInt (s\<lparr>disk := d, stats := st\<rparr>)) good"
    using assms(2-5) d(2) by (elim Schedule_outcome) (auto simp: sys_defs)
  then show ?thesis using d(1) by simp
qed

lemma request_start_ok: "outcome (request_start x s) (\<lambda>s1. \<exists>h. s1 = s\<lparr>dev_host := h\<rparr> \<and> \<not> active (disk s))"
  by (auto simp: request_start_def dev_Lseek_def hostL_eq)

lemma ReadRequest_good:
  assumes "good s"
  shows "outcome (ReadRequest x s) (\<lambda>(data, s'). good s')"
proof -
  obtain ps where ok: "queue_ok s ps" "sys_ok s ps" using assms by (auto simp: good_def)
  have t: "outcome (Schedule DiskObj ticks DiskInt (UpdateLast x (s\<lparr>dev_host := h, disk := (disk s)\<lparr>active := True\<rparr>\<rparr>)\<lparr>stats := st\<rparr>)) good"
    if "\<not> active (disk s)" "st = (stats s)\<lparr>numDiskReads := r\<rparr>" for h st r ticks
    using disk_busy_good [of "s\<lparr>dev_host := h\<rparr>" ps st ticks x] ok that by simp
  have u: "stats (UpdateLast x (s\<lparr>dev_host := h, disk := d\<rparr>)) = stats s" for h d
    using UpdateLast_disk [of x "s\<lparr>dev_host := h, disk := d\<rparr>"] by auto
  show ?thesis
    unfolding ReadRequest_def Let_def
    by (intro outcome_bindL outcome_mono [OF request_start_ok])
      (auto simp: dev_Read_def hostL_eq u intro!: outcome_bindL outcome_mono [OF t] split: prod.split)
qed

lemma WriteRequest_good:
  assumes "good s"
  shows "outcome (WriteRequest x data s) good"
proof -
  obtain ps where ok: "queue_ok s ps" "sys_ok s ps" using assms by (auto simp: good_def)
  have t: "outcome (Schedule DiskObj ticks DiskInt (UpdateLast x (s\<lparr>dev_host := h, disk := (disk s)\<lparr>active := True\<rparr>\<rparr>)\<lparr>stats := st\<rparr>)) good"
    if "\<not> active (disk s)" "st = (stats s)\<lparr>numDiskWrites := r\<rparr>" for h st r ticks
    using disk_busy_good [of "s\<lparr>dev_host := h\<rparr>" ps st ticks x] ok that by simp
  have u: "stats (UpdateLast x (s\<lparr>dev_host := h, disk := d\<rparr>)) = stats s" for h d
    using UpdateLast_disk [of x "s\<lparr>dev_host := h, disk := d\<rparr>"] by auto
  show ?thesis
    unfolding WriteRequest_def Let_def
    by (intro outcome_bindL outcome_mono [OF request_start_ok])
      (auto simp: dev_WriteFile_def hostL_eq u intro!: outcome_bindL t)
qed

lemma good_host [simp]: "good (s\<lparr>dev_host := h\<rparr>) = good s"
  by (simp add: good_def)

lemma send_tries_good: "good s \<Longrightarrow> outcome (send_tries n sock buf sz num s) good"
  by (induction n arbitrary: s) (auto simp: hostL_eq Let_def)

lemma Send_good:
  assumes "good s"
  shows "outcome (NetworkOutput_Send raw hdr data s) good"
proof -
  obtain ps where ok: "queue_ok s ps" "sys_ok s ps" using assms by (auto simp: good_def)
  have "outcome (Schedule NetOutObj NetworkTime NetworkSendInt s) good"
    using ok by (intro Schedule_outcome [where ps = ps]) (auto simp: sys_defs)
  then show ?thesis
    unfolding NetworkOutput_Send_def
    by (auto simp: RandomNumber_def hostL_eq SendToSocket_def send_tries_good intro!: outcome_bindL elim!: outcome_mono)
qed

lemma Receive_good: "good s \<Longrightarrow> good (snd (NetworkInput_Receive s))"
  by (auto simp: good_def NetworkInput_Receive_def Let_def sys_defs host_ok_def)

lemma Disable_good: "good s \<Longrightarrow> good (Timer_Disable s)"
  by (auto simp: good_def Timer_Disable_def sys_defs timer_ok_def time_slice_def)

section \<open>The devices step by step\<close>

inductive dstep :: "'h Sys \<Rightarrow> 'h Sys \<Rightarrow> bool" where
  put: "ConsoleOutput_PutChar ch s = Some (Inr s') \<Longrightarrow> dstep s s'"
| get: "ConsoleInput_GetChar s = Some (Inr (ch, s')) \<Longrightarrow> dstep s s'"
| disk_read: "ReadRequest x s = Some (Inr (data, s')) \<Longrightarrow> dstep s s'"
| disk_write: "WriteRequest x data s = Some (Inr s') \<Longrightarrow> dstep s s'"
| send: "NetworkOutput_Send raw hdr data s = Some (Inr s') \<Longrightarrow> dstep s s'"
| receive: "NetworkInput_Receive s = (r, s') \<Longrightarrow> dstep s s'"
| disable: "dstep s (Timer_Disable s)"
| tick: "OneTick s = Some (Inr (Ticked s')) \<Longrightarrow> dstep s s'"
| preempted: "OneTick s = Some (Inr (Yields m s')) \<Longrightarrow> dstep s s'"
| resumed: "dstep s (OneTick_return m s)"
| set_level: "SetLevel lv s = Some (Inr (old, Ticked s')) \<Longrightarrow> dstep s s'"
| set_level_preempted: "SetLevel lv s = Some (Inr (old, Yields m s')) \<Longrightarrow> dstep s s'"
| idle: "Idle s = Some (Inr (Resumes s')) \<Longrightarrow> dstep s s'"
| kernel: "kernel_ready (s\<lparr>kern := k, i_status := m\<rparr>) \<Longrightarrow> dstep s (s\<lparr>kern := k, i_status := m\<rparr>)"
  \<comment> \<open>whatever the threads and the user programs do meanwhile\<close>

inductive_cases dstepE: "dstep s s'"

lemma OneTick_good:
  assumes "good s"
  shows "\<exists>t. OneTick s = Some (Inr t) \<and> (case t of Ticked s' \<Rightarrow> good s' | Yields m s' \<Rightarrow> good s')"
proof -
  obtain ps where "queue_ok s ps" "sys_ok s ps" using assms by (auto simp: good_def)
  from OneTick_ok [OF this] obtain s' ps' where "queue_ok s' ps'" "sys_ok s' ps'"
    "OneTick s = Some (Inr (if yieldOnReturn s' then Yields (i_status s) (s'\<lparr>yieldOnReturn := False, i_status := SystemMode\<rparr>) else Ticked s'))"
    by blast
  then show ?thesis by (cases "yieldOnReturn s'") (auto simp: good_def)
qed

lemma SetLevel_good:
  assumes "good s"
  shows "outcome (SetLevel lv s) (\<lambda>(old, t). case t of Ticked s' \<Rightarrow> good s' | Yields m s' \<Rightarrow> good s')"
proof -
  have "good (ChangeLevel old lv s)" for old using assms by (simp add: good_def ChangeLevel_def)
  then show ?thesis using OneTick_good [of "ChangeLevel (level (kern s)) lv s"] by (auto simp: SetLevel_def Let_def)
qed

lemma Idle_good: "good s \<Longrightarrow> outcome (Idle s) (\<lambda>r. case r of Resumes s' \<Rightarrow> good s' | Halts s' \<Rightarrow> False)"
proof (cases "level (kern s) = IntOff")
  case True
  assume "good s"
  then obtain ps where "queue_ok s ps" "sys_ok s ps" by (auto simp: good_def)
  from Idle_ok [OF this True] show ?thesis by (auto simp: good_def)
qed (simp add: Idle_def CheckIfDue_def outcome_def)

lemma outcomeD: "outcome r P \<Longrightarrow> r = Some (Inr x) \<Longrightarrow> P x"
  by simp

lemma dstep_good:
  assumes "dstep s s'" and "good s"
  shows "good s'"
  using assms
proof (induction)
  case (get s ch s')
  then show ?case using outcomeD [OF GetChar_good [OF get.prems] get.hyps] by simp
next
  case (disk_read x s data s')
  then show ?case using outcomeD [OF ReadRequest_good [OF disk_read.prems] disk_read.hyps] by simp
next
  case (receive s r s')
  then show ?case using Receive_good [OF receive.prems] by simp
next
  case (tick s s')
  then show ?case using OneTick_good [OF tick.prems] by simp
next
  case (preempted s m s')
  then show ?case using OneTick_good [OF preempted.prems] by simp
next
  case (set_level lv s old s')
  then show ?case using outcomeD [OF SetLevel_good [OF set_level.prems] set_level.hyps] by simp
next
  case (set_level_preempted lv s old m s')
  then show ?case using outcomeD [OF SetLevel_good [OF set_level_preempted.prems] set_level_preempted.hyps] by simp
next
  case (idle s s')
  then show ?case using outcomeD [OF Idle_good [OF idle.prems] idle.hyps] by simp
next
  case (kernel s k m)
  then show ?case by (auto simp: good_def sys_defs)
next
  case (resumed s m)
  then show ?case by (simp add: good_def OneTick_return_def)
qed (auto dest: outcomeD [OF PutChar_good] outcomeD [OF WriteRequest_good] outcomeD [OF Send_good] intro: Disable_good)

section \<open>Start-up reaches the invariant\<close>

definition host_contract :: "'h Sys \<Rightarrow> bool" where
  \<comment> \<open>\<open>host_ok\<close> for every socket\<close>
  "host_contract s \<longleftrightarrow> (\<forall>fd h. fst (u_select (env s) fd h) \<in> {0, 1}) \<and> (\<forall>fd h. fst (fst (u_read (env s) fd 1 h)) \<in> {0, 1}) \<and>
     (\<forall>fd h. wire_ok (hostName s) (fst (u_recvfrom (env s) fd MaxWireSize h)))"

definition bare :: "'h Sys \<Rightarrow> bool" where
  \<comment> \<open>before the devices exist\<close>
  "bare s \<longleftrightarrow> unat (registers (machine (kern s)) LoadReg) < NumGPRegs \<and> waiters_exist (kern s) \<and> host_contract s"

definition stage :: "nat \<Rightarrow> 'h Sys \<Rightarrow> bool" where
  \<comment> \<open>the first \<open>n\<close> devices exist\<close>
  "stage n s \<longleftrightarrow> bare s \<and> clock_ok (stats s) \<and> (\<exists>ps. queue_ok s ps \<and>
     (if n \<ge> 1 then timer_ok (disable (timer s)) (now s + time_slice s) ps else busy_iff TimerObj False ps) \<and>
     (if n \<ge> 2 then keys_ok (incoming (consoleInput s)) ps \<and> in_waitFor s \<in> dom (sems (kern s)) else busy_iff ConsoleInObj False ps) \<and>
     busy_iff ConsoleOutObj (n \<ge> 3 \<and> putBusy (consoleOutput s)) ps \<and> (n \<ge> 3 \<longrightarrow> out_waitFor s \<in> dom (sems (kern s))) \<and>
     busy_iff DiskObj (n \<ge> 4 \<and> active (disk s)) ps \<and> (n \<ge> 4 \<longrightarrow> disk_semaphore s \<in> dom (sems (kern s))) \<and>
     busy_iff NetInObj (n \<ge> 5) ps \<and> (n \<ge> 5 \<longrightarrow> messageAvailable s \<in> dom (sems (kern s))) \<and>
     (n \<ge> 6 \<longrightarrow> \<not> sendBusy (netOut s) \<and> messageSent s \<in> dom (sems (kern s))))"

lemma stage_good: "stage 6 s \<Longrightarrow> good s"
  by (auto simp: stage_def bare_def good_def sys_defs kernel_ready_def device_sems_def host_ok_def host_contract_def)

lemma bare_update [simp]:
  "bare (s\<lparr>stats := st\<rparr>) = bare s" "bare (s\<lparr>pending := l\<rparr>) = bare s" "bare (s\<lparr>p_heap := hp\<rparr>) = bare s" "bare (s\<lparr>p_new := a\<rparr>) = bare s"
  "bare (s\<lparr>timer := tm\<rparr>) = bare s" "bare (s\<lparr>consoleInput := ci\<rparr>) = bare s" "bare (s\<lparr>consoleOutput := co\<rparr>) = bare s" "bare (s\<lparr>disk := d\<rparr>) = bare s"
  "bare (s\<lparr>netIn := ni\<rparr>) = bare s" "bare (s\<lparr>netOut := no\<rparr>) = bare s" "bare (s\<lparr>dev_host := h\<rparr>) = bare s"
  "bare (s\<lparr>i_status := m\<rparr>) = bare s" "bare (s\<lparr>inHandler := b\<rparr>) = bare s" "bare (s\<lparr>yieldOnReturn := b\<rparr>) = bare s"
  by (simp_all add: bare_def host_contract_def)

lemma bare_new_semaphore [simp]: "bare s \<Longrightarrow> bare (new_semaphore x s)"
  by (auto simp: bare_def host_contract_def waiters_exist_def new_semaphore_def Semaphore_new_def)

lemma stage0: "bare s \<Longrightarrow> stage 0 (Interrupt_new (s\<lparr>stats := Statistics_new\<rparr>))"
  by (auto simp: stage_def Interrupt_new_def Statistics_new_def clock_ok_def queue_ok_def holds_new busy_iff_def bare_def
      host_contract_def waiters_exist_def intro!: exI [of _ "[]"])

lemma queue_ok_new_semaphore [simp]: "queue_ok (new_semaphore x s) ps = queue_ok s ps"
  by (simp add: new_semaphore_def)

lemma new_semaphore_fields [simp]:
  "stats (new_semaphore x s) = stats s" "timer (new_semaphore x s) = timer s" "consoleInput (new_semaphore x s) = consoleInput s"
  "consoleOutput (new_semaphore x s) = consoleOutput s" "disk (new_semaphore x s) = disk s" "netOut (new_semaphore x s) = netOut s"
  "time_slice (new_semaphore x s) = time_slice s" "dom (sems (kern (new_semaphore x s))) = insert x (dom (sems (kern s)))"
  "in_waitFor (new_semaphore x s) = in_waitFor s" "out_waitFor (new_semaphore x s) = out_waitFor s"
  "disk_semaphore (new_semaphore x s) = disk_semaphore s" "messageAvailable (new_semaphore x s) = messageAvailable s"
  "messageSent (new_semaphore x s) = messageSent s"
  by (auto simp: new_semaphore_def)

lemma Alarm_stage:
  assumes "stage 0 s"
  shows "outcome (Alarm_new r s) (stage 1)"
proof -
  obtain ps where s: "bare s" "clock_ok (stats s)" "queue_ok s ps" "busy_iff TimerObj False ps" "busy_iff ConsoleInObj False ps"
    "busy_iff ConsoleOutObj False ps" "busy_iff DiskObj False ps" "busy_iff NetInObj False ps"
    using assms by (auto simp: stage_def)
  let ?r = "u_rand (env s) (dev_host s)"
  let ?t = "s\<lparr>timer := \<lparr>randomize = r, disable = False\<rparr>, dev_host := if r then snd ?r else dev_host s\<rparr>"
  let ?d = "if r then 1 + uint (fst ?r mod 200) else TimerTicks"
  let ?p = "PendingInterrupt_new (p_new ?t) TimerObj (now ?t + ?d) TimerInt"
  have "uint (fst ?r mod 200) < 200" by (simp add: uint_mod_distrib)
  then have d: "0 < ?d" "?d \<le> time_slice ?t" by (auto simp: time_slice_def add_pos_nonneg)
  have q: "queue_ok ?t ps" using s(3) by simp
  obtain h l a where c: "Schedule TimerObj ?d TimerInt ?t = Some (Inr (?t\<lparr>p_new := a, p_heap := h, pending := l\<rparr>))"
    "queue_ok (?t\<lparr>p_new := a, p_heap := h, pending := l\<rparr>) (place PendingCompare ?p ps)"
    by (rule Schedule_ok [OF q d(1)])
  have "Alarm_new r s = Schedule TimerObj ?d TimerInt ?t"
    by (simp add: Alarm_new_def Timer_new_def SetInterrupt_def RandomNumber_def hostL_eq Let_def)
  moreover have "stage 1 (?t\<lparr>p_new := a, p_heap := h, pending := l\<rparr>)"
    unfolding stage_def by (intro conjI exI [of _ "place PendingCompare ?p ps"] c(2)) (use s d(2) in simp_all)
  ultimately show ?thesis using c(1) by simp
qed

lemma ConsoleInput_stage:
  assumes "stage 1 s"
  shows "outcome (SynchConsoleInput_new f s) (stage 2)"
proof -
  obtain ps where s: "bare s" "clock_ok (stats s)" "queue_ok s ps" "timer_ok (disable (timer s)) (now s + time_slice s) ps" "busy_iff ConsoleInObj False ps"
    "busy_iff ConsoleOutObj False ps" "busy_iff DiskObj False ps" "busy_iff NetInObj False ps"
    using assms by (auto simp: stage_def)
  have "outcome (Schedule ConsoleInObj ConsoleTime ConsoleReadInt (s\<lparr>dev_host := h, consoleInput := \<lparr>readFileNo = fd, incoming = EOFc\<rparr>\<rparr>))
      (\<lambda>s1. stage 2 (new_semaphore (in_waitFor s1) s1))" for fd h
  proof -
    let ?t = "s\<lparr>dev_host := h, consoleInput := \<lparr>readFileNo = fd, incoming = EOFc\<rparr>\<rparr>"
    let ?p = "PendingInterrupt_new (p_new ?t) ConsoleInObj (now ?t + ConsoleTime) ConsoleReadInt"
    have q: "queue_ok ?t ps" using s(3) by simp
    obtain hp l a where c: "Schedule ConsoleInObj ConsoleTime ConsoleReadInt ?t = Some (Inr (?t\<lparr>p_new := a, p_heap := hp, pending := l\<rparr>))"
      "queue_ok (?t\<lparr>p_new := a, p_heap := hp, pending := l\<rparr>) (place PendingCompare ?p ps)"
      by (rule Schedule_ok [OF q, of ConsoleTime]) simp
    have "stage 2 (new_semaphore (in_waitFor s) (?t\<lparr>p_new := a, p_heap := hp, pending := l\<rparr>))"
      unfolding stage_def using s c(2) by (intro conjI exI [of _ "place PendingCompare ?p ps"]) simp_all
    then show ?thesis using c(1) by simp
  qed
  note t = this
  show ?thesis
    using t [where h = "dev_host s" and fd = 0] t
    by (cases f) (auto simp: SynchConsoleInput_new_def ConsoleInput_new_def dev_OpenForReadWrite_def hostL_eq Let_def intro!: outcome_bindL)
qed

lemma stage_cong:
  assumes "stage n s" and "s' = s\<lparr>dev_host := h\<rparr>"
  shows "stage n s'"
  using assms by (auto simp: stage_def)

lemma ConsoleOutput_stage:
  assumes "stage 2 s"
  shows "outcome (SynchConsoleOutput_new f s) (stage 3)"
proof -
  have t: "stage 3 (new_semaphore (out_waitFor s) (s\<lparr>dev_host := h, consoleOutput := \<lparr>writeFileNo = fd, putBusy = False\<rparr>\<rparr>))" for h fd
    using assms by (auto simp: stage_def)
  show ?thesis
    using t [where h = "dev_host s" and fd = 1] t
    by (cases f) (auto simp: SynchConsoleOutput_new_def ConsoleOutput_new_def dev_OpenForWrite_def hostL_eq Let_def intro!: outcome_bindL)
qed

lemma Disk_stage:
  assumes "stage 3 s"
  shows "outcome (SynchDisk_new name s) (stage 4)"
proof -
  have t: "stage 4 (new_semaphore (disk_semaphore s) s\<lparr>dev_host := h, disk := \<lparr>d_fileno = fd, active = False, lastSector = 0, bufferInit = 0\<rparr>\<rparr>)" for h fd
    using assms by (auto simp: stage_def)
  then show ?thesis
    by (auto simp: SynchDisk_new_def Disk_new_def dev_OpenForReadWrite_def dev_OpenForWrite_def dev_Read_def dev_WriteFile_def dev_Lseek_def
        hostL_eq Let_def intro!: outcome_bindL split: prod.split)
qed

lemma NetworkInput_stage:
  assumes "stage 4 s"
  shows "outcome (PostOfficeInput_new raw s) (stage 5)"
proof -
  let ?s = "new_semaphore (messageAvailable s) s"
  obtain ps where s: "queue_ok s ps" and st: "stage 4 s" using assms by (auto simp: stage_def)
  have t: "outcome (Schedule NetInObj NetworkTime NetworkRecvInt (?s\<lparr>dev_host := h, netIn := n\<rparr>)) (stage 5)" for h n
  proof -
    obtain ps where s: "bare s" "clock_ok (stats s)" "queue_ok s ps" "timer_ok (disable (timer s)) (now s + time_slice s) ps"
      "keys_ok (incoming (consoleInput s)) ps" "in_waitFor s \<in> dom (sems (kern s))"
      "busy_iff ConsoleOutObj (putBusy (consoleOutput s)) ps" "out_waitFor s \<in> dom (sems (kern s))"
      "busy_iff DiskObj (active (disk s)) ps" "disk_semaphore s \<in> dom (sems (kern s))" "busy_iff NetInObj False ps"
      using assms by (auto simp: stage_def)
    let ?t = "?s\<lparr>dev_host := h, netIn := n\<rparr>"
    let ?p = "PendingInterrupt_new (p_new ?t) NetInObj (now ?t + NetworkTime) NetworkRecvInt"
    have q: "queue_ok ?t ps" using s(3) by simp
    obtain hp l a where c: "Schedule NetInObj NetworkTime NetworkRecvInt ?t = Some (Inr (?t\<lparr>p_new := a, p_heap := hp, pending := l\<rparr>))"
      "queue_ok (?t\<lparr>p_new := a, p_heap := hp, pending := l\<rparr>) (place PendingCompare ?p ps)"
      by (rule Schedule_ok [OF q, of NetworkTime]) simp
    have "stage 5 (?t\<lparr>p_new := a, p_heap := hp, pending := l\<rparr>)"
      unfolding stage_def using s c(2) by (intro conjI exI [of _ "place PendingCompare ?p ps"]) simp_all
    then show ?thesis using c(1) by simp
  qed
  show ?thesis
    by (auto simp: PostOfficeInput_new_def NetworkInput_new_def OpenSocket_def AssignNameToSocket_def hostL_eq Let_def intro!: outcome_bindL t)
qed

lemma NetworkOutput_stage:
  assumes "stage 5 s"
  shows "outcome (PostOfficeOutput_new r s) (stage 6)"
proof -
  have "stage 6 (new_semaphore (messageSent s) s\<lparr>dev_host := h, netOut := \<lparr>out_sock = fd, chanceToWork = ch, sendBusy = False\<rparr>\<rparr>)" for h fd ch
    using assms by (auto simp: stage_def)
  then show ?thesis
    by (auto simp: PostOfficeOutput_new_def NetworkOutput_new_def OpenSocket_def hostL_eq Let_def intro!: outcome_bindL)
qed

lemma outcome_then: "outcome m P \<Longrightarrow> (\<And>x. P x \<Longrightarrow> outcome (f x) Q) \<Longrightarrow> outcome (bindL m f) Q"
  by (rule outcome_bindL) (rule outcome_mono)

lemma Initialize_good:
  assumes "bare s"
  shows "outcome (Initialize_devices random_slice ci co name raw rel s) good"
  unfolding Initialize_devices_def
  by (rule outcome_then [OF Alarm_stage [OF stage0 [OF assms]]], rule outcome_then, erule ConsoleInput_stage, rule outcome_then,
      erule ConsoleOutput_stage, rule outcome_then, erule Disk_stage, rule outcome_then, erule NetworkInput_stage,
      rule outcome_mono, erule NetworkOutput_stage, rule stage_good)

section \<open>Properties\<close>





text \<open>An idle machine always wakes up. When no thread is ready, \<open>Idle\<close> never finds the queue empty, since the network is
  polled as long as Nachos runs: it moves the clock to the next interrupt, fires it and returns to look
  for a thread again. The machine is never halted for lack of work.\<close>
theorem idle_resumes:
  assumes "queue_ok s ps" and "sys_ok s ps" and "level (kern s) = IntOff"
  shows "\<exists>s' ps'. Idle s = Some (Inr (Resumes s')) \<and> queue_ok s' ps' \<and> sys_ok s' ps' \<and> i_status s' = SystemMode \<and>
    now s' = max (now s) (when_due (hd ps)) \<and> (\<forall>p \<in> set ps'. now s' < when_due p)"
  using Idle_ok [OF assms] by blast

theorem idle_resumes_witness:
  "\<exists>s'. Idle (ChangeLevel IntOn IntOff sys0) = Some (Inr (Resumes s')) \<and> now s' = 100"
proof -
  let ?s = "ChangeLevel IntOn IntOff sys0"
  have "queue_ok ?s [timer0, poll0]" "sys_ok ?s [timer0, poll0]" "level (kern ?s) = IntOff"
    using queue_sys0 sys_ok_sys0 by (simp_all add: ChangeLevel_def)
  from idle_resumes [OF this] show ?thesis by (auto simp: ChangeLevel_def timer0_def sys0_def Statistics_new_def)
qed

section \<open>A character that is taken for the end of the file\<close>

text \<open>
  \<open>incoming\<close> is a \<open>char\<close> and \<open>EOF\<close> is -1: a typed byte 255 looks like no character. \<open>GetChar\<close> then returns EOF and
  does not poll the keyboard again.
\<close>

lemma byte_255_stops_input:
  assumes "queue_ok s ps" and "busy_iff ConsoleInObj False ps" and "incoming (consoleInput s) = 255"
  shows "\<exists>s'. ConsoleInput_GetChar s = Some (Inr (EOFc, s')) \<and> queue_ok s' ps \<and> busy_iff ConsoleInObj False ps"
  using assms by (simp add: ConsoleInput_GetChar_def Let_def retL_def)

end
