(* ===== verification/Disk_Wait.thy ===== *)
theory Disk_Wait
  imports Device_System
begin

text \<open>
  Threads that wait for the disk. The loop of \<^verbatim>\<open>Thread::Sleep\<close> in threads/thread.cc idles the machine until a thread is ready; the
  theorem shows that it ends when a thread waits for a disk request, at the latest when the disk interrupt is due,
  although timer and network interrupts keep coming.
\<close>

section \<open>The loop of Sleep\<close>

datatype 's sleep_end = Wakes nat 's | Stops 's

partial_function (option) sleep_loop :: "'h Sys \<Rightarrow> (('h Sys) sleep_end) lres" where
  \<comment> \<open>\<open>while ((nextThread = FindNextToRun()) == NULL) Idle();\<close> \<open>Stops\<close> when \<open>Idle\<close> halts the machine\<close>
  "sleep_loop s = bindL (liftL (FindNextToRun (kern s))) (\<lambda>(nxt, k).
     case nxt of
       Some t \<Rightarrow> retL (Wakes t (s\<lparr>kern := k\<rparr>))
     | None \<Rightarrow> bindL (Idle (s\<lparr>kern := k\<rparr>)) (\<lambda>r. case r of Resumes s1 \<Rightarrow> sleep_loop s1 | Halts s1 \<Rightarrow> retL (Stops s1)))"

section \<open>What handlers do to the scheduler\<close>

definition wakes_only :: "Kernel \<Rightarrow> Kernel \<Rightarrow> bool" where
  \<comment> \<open>some thread is ready, or nothing happened to ready list and queues\<close>
  "wakes_only k k' \<longleftrightarrow> readyList k' \<noteq> [] \<or> readyList k' = readyList k \<and> (\<forall>x. map_option s_queue (sems k' x) = map_option s_queue (sems k x))"

lemma wakes_only_refl [simp]: "wakes_only k k"
  by (simp add: wakes_only_def)

lemma V_wakes:
  assumes "Semaphore_V k x = Inr k'"
  shows "wakes_only k k'" "readyList k \<noteq> [] \<Longrightarrow> readyList k' \<noteq> []" "map_option s_queue (sems k x) \<noteq> Some [] \<Longrightarrow> readyList k' \<noteq> []"
  using assms
  by (auto simp: Semaphore_V_def wakes_only_def ReadyToRun_def with_thread_def set_thread_def Let_def bindE_eq_Inr assertE_eq_Inr
      split: option.splits list.splits)

definition waiting :: "'h Sys \<Rightarrow> bool" where
  \<comment> \<open>a thread queues for the disk\<close>
  "waiting s \<longleftrightarrow> (\<exists>sem. sems (kern s) (disk_semaphore s) = Some sem \<and> s_queue sem \<noteq> [])"

definition disk_wait_ok :: "int \<Rightarrow> 'h Sys \<Rightarrow> PendingInterrupt list \<Rightarrow> bool" where
  \<comment> \<open>a thread is ready, or one waits for a disk interrupt that is due no later than \<open>t\<close>\<close>
  "disk_wait_ok t s ps \<longleftrightarrow> sys_ok s ps \<and> (readyList (kern s) \<noteq> [] \<or>
     waiting s \<and> (\<exists>p \<in> set ps. callOnInterrupt p = DiskObj \<and> when_due p \<le> t))"

definition calm :: "'h Sys \<Rightarrow> 'h Sys \<Rightarrow> bool" where
  "calm s s' \<longleftrightarrow> wakes_only (kern s) (kern s') \<and> (readyList (kern s) \<noteq> [] \<longrightarrow> readyList (kern s') \<noteq> []) \<and> disk_semaphore s' = disk_semaphore s"

definition returns :: "'a lres \<Rightarrow> ('a \<Rightarrow> bool) \<Rightarrow> bool" where
  "returns r P \<longleftrightarrow> (\<forall>x. r = Some (Inr x) \<longrightarrow> P x)"

lemma returns_simps [simp]:
  "returns (retL x) P = P x" "returns (assertL c k) P \<longleftrightarrow> (c \<longrightarrow> returns k P)"
  by (auto simp: returns_def lres_iffs)

lemma returns_bindL: "returns m (\<lambda>x. returns (f x) P) \<Longrightarrow> returns (bindL m f) P"
  by (auto simp: returns_def lres_iffs)

lemma semV_calm: "kern s = kern s0 \<Longrightarrow> disk_semaphore s = disk_semaphore s0 \<Longrightarrow> returns (semV x s) (calm s0)"
  using V_wakes [of "kern s0" x] by (auto simp: returns_def calm_def semV_def liftL_def retL_def lres_iffs)

lemma Schedule_returns:
  "(\<And>s'. kern s' = kern s \<Longrightarrow> disk_semaphore s' = disk_semaphore s \<Longrightarrow> P s') \<Longrightarrow> returns (Schedule c n ty s) P"
  by (auto simp: returns_def Schedule_def Let_def lres_iffs)

lemma calm_same: "kern s' = kern s \<Longrightarrow> disk_semaphore s' = disk_semaphore s \<Longrightarrow> calm s s'"
  by (simp add: calm_def)

lemma call_back_returns: "returns (call_back c s) (calm s)"
proof (cases c)
  case TimerObj
  have "returns (SetInterrupt s1) (calm s)" if "kern s1 = kern s" "disk_semaphore s1 = disk_semaphore s" for s1
    using that by (auto simp: SetInterrupt_def RandomNumber_def hostL_eq Let_def calm_same intro!: Schedule_returns)
  then show ?thesis using TimerObj by (auto simp: Timer_CallBack_def Alarm_CallBack_def YieldOnReturn_def intro!: returns_bindL)
next
  case ConsoleInObj
  then show ?thesis
    by (auto simp: ConsoleInput_CallBack_def PollFile_def hostL_eq Let_def calm_same intro!: returns_bindL Schedule_returns semV_calm split: prod.split)
next
  case NetInObj
  then show ?thesis
    by (auto simp: NetworkInput_CallBack_def PollFile_def ReadFromSocket_def hostL_eq Let_def calm_same
        intro!: returns_bindL Schedule_returns semV_calm split: prod.split)
qed (simp_all add: ConsoleOutput_CallBack_def Disk_CallBack_def NetworkOutput_CallBack_def Let_def semV_calm)

lemma call_back_calm: "call_back c s = Some (Inr s') \<Longrightarrow> calm s s'"
  using call_back_returns [of c s] by (simp add: returns_def)

lemma disk_call_back: "call_back DiskObj s = Some (Inr s') \<Longrightarrow> waiting s \<Longrightarrow> readyList (kern s') \<noteq> []"
  using V_wakes(3) [of "kern s" "disk_semaphore s"] by (auto simp: Disk_CallBack_def Let_def waiting_def semV_def liftL_def retL_def lres_iffs)

interpretation disk_waiters: interrupt_handlers call_back "disk_wait_ok t" for t
proof
  fix s :: "'h Sys" and ps p
  assume a: "queue_ok s ps" "disk_wait_ok t s (p # ps)" "inHandler s"
  obtain s' ps' where c: "call_back (callOnInterrupt p) s = Some (Inr s')" "queue_ok s' ps'" "sys_ok s' ps'" "kept s s'" "later (now s) ps ps'"
    "callOnInterrupt p = TimerObj \<and> i_status s \<noteq> IdleMode \<longrightarrow> yieldOnReturn s'"
    using devices.call_ok [of s ps p] a by (auto simp: disk_wait_ok_def)
  have calm: "calm s s'" by (rule call_back_calm [OF c(1)])
  have "disk_wait_ok t s' ps'"
  proof (cases "readyList (kern s') = []")
    case True
    then have w: "waiting s" "\<exists>q \<in> set (p # ps). callOnInterrupt q = DiskObj \<and> when_due q \<le> t" using a(2) calm by (auto simp: disk_wait_ok_def calm_def)
    have "callOnInterrupt p \<noteq> DiskObj" using disk_call_back [of s s'] c(1) w(1) True by auto
    then have "\<exists>q \<in> set ps'. callOnInterrupt q = DiskObj \<and> when_due q \<le> t" using w(2) later_set [OF c(5)] by auto
    moreover have "map_option s_queue (sems (kern s') (disk_semaphore s)) = map_option s_queue (sems (kern s) (disk_semaphore s))"
      "disk_semaphore s' = disk_semaphore s" using calm True by (auto simp: calm_def wakes_only_def)
    then have "waiting s'" using w(1) by (auto simp: waiting_def map_option_eq_Some)
    ultimately show ?thesis using c(3) by (simp add: disk_wait_ok_def)
  qed (use c(3) in \<open>simp add: disk_wait_ok_def\<close>)
  then show "\<exists>s' ps'. call_back (callOnInterrupt p) s = Some (Inr s') \<and> queue_ok s' ps' \<and> disk_wait_ok t s' ps' \<and> kept s s' \<and> later (now s) ps ps' \<and>
      (callOnInterrupt p = TimerObj \<and> i_status s \<noteq> IdleMode \<longrightarrow> yieldOnReturn s')" using c by blast
qed (simp add: disk_wait_ok_def waiting_def sys_defs)

section \<open>The loop ends\<close>

lemma disk_wait_ok_cong:
  assumes "disk_wait_ok t s ps" and "sys_ok s' ps" and "readyList (kern s') = readyList (kern s)" "sems (kern s') = sems (kern s)"
    "disk_semaphore s' = disk_semaphore s"
  shows "disk_wait_ok t s' ps"
  using assms by (simp add: disk_wait_ok_def waiting_def)

lemma Idle_waits:
  assumes "queue_ok s ps" and "disk_wait_ok t s ps" and "level (kern s) = IntOff"
  shows "\<exists>s' ps'. Idle s = Some (Inr (Resumes s')) \<and> queue_ok s' ps' \<and> disk_wait_ok t s' ps' \<and> level (kern s') = IntOff \<and>
    now s' = max (now s) (when_due (hd ps)) \<and> (\<forall>p \<in> set ps'. now s' < when_due p)"
proof -
  have ok: "sys_ok s ps" using assms(2) by (simp add: disk_wait_ok_def)
  obtain p qs where ps: "ps = p # qs" using ok by (cases ps) (auto simp: sys_defs busy_iff_def)
  let ?t = "max (now s) (when_due p)"
  let ?s = "idle_until ?t (s\<lparr>i_status := IdleMode\<rparr>)"
  have c: "clock_ok (stats ?s)" using ok by (auto simp: idle_until_def sys_ok_def clock_ok_def)
  have "sys_ok ((s\<lparr>i_status := IdleMode\<rparr>)\<lparr>stats := stats ?s\<rparr>) ps"
    by (rule sys_ok_clock [OF _ c]) (use ok in \<open>simp_all add: idle_until_def\<close>)
  then have s: "queue_ok ?s ps" "sys_ok ?s ps" "now ?s = ?t" "level (kern ?s) = IntOff" "kern ?s = kern s" "disk_semaphore ?s = disk_semaphore s"
    using assms(1,3) by (simp_all add: idle_until_def)
  obtain m where m: "DelayedLoad (machine (kern ?s)) 0 0 = Inr m" "sys_ok (?s\<lparr>kern := (kern ?s)\<lparr>machine := m\<rparr>\<rparr>) ps"
    using sys_ok_machine [OF s(2)] by blast
  let ?s1 = "?s\<lparr>kern := (kern ?s)\<lparr>machine := m\<rparr>, inHandler := True\<rparr>"
  have "disk_wait_ok t ?s1 ps" by (rule disk_wait_ok_cong [OF assms(2)]) (use m(2) s(5,6) in simp_all)
  then obtain s' ps' where f: "fire_loop call_back ?s1 = Some (Inr s')" "fired (disk_wait_ok t) ?s1 ps s' ps'"
    using disk_waiters.fire_loop_ok [of ?s1 p qs t] s(1,3) ps by auto
  let ?r = "s'\<lparr>inHandler := False, i_status := SystemMode\<rparr>"
  have fire: "fire_due ?s = Some (Inr (s'\<lparr>inHandler := False\<rparr>))" using m(1) f(1) by (simp add: fire_due_def liftL_def retL_def)
  have eq: "?s = (if when_due p > now s then s\<lparr>i_status := IdleMode, stats := (stats s)\<lparr>idleTicks := idleTicks (stats s) + (when_due p - now s), totalTicks := when_due p\<rparr>\<rparr>
      else s\<lparr>i_status := IdleMode\<rparr>)" by (auto simp: idle_until_def)
  have front: "Front (p_heap s) (pending s) = Some (Inr p)" "\<not> IsEmpty (pending s)"
    using pop_queue(1) [of s p qs] queue_okD(1) [OF assms(1)] assms(1) ps by simp_all
  have "CheckIfDue True (s\<lparr>i_status := IdleMode\<rparr>) = Some (Inr (True, s'\<lparr>inHandler := False\<rparr>))"
  proof (cases "when_due p > now s")
    case True
    then show ?thesis using fire [unfolded eq if_P [OF True]] assms(3) front by (simp add: CheckIfDue_def retL_def)
  next
    case False
    then show ?thesis using fire [unfolded eq if_not_P [OF False]] assms(3) front by (simp add: CheckIfDue_def retL_def)
  qed
  then have "Idle s = Some (Inr (Resumes ?r))" by (simp add: Idle_def retL_def)
  moreover have "queue_ok ?r ps'" "now ?r = ?t" "level (kern ?r) = IntOff" "\<forall>p \<in> set ps'. now ?r < when_due p"
    using f(2) s(3,4) by (auto simp: fired_def kept_def due_def filter_empty_conv)
  moreover have "disk_wait_ok t ?r ps'"
  proof (rule disk_wait_ok_cong)
    show w: "disk_wait_ok t s' ps'" using f(2) by (simp add: fired_def)
    then show "sys_ok ?r ps'" by (simp add: disk_wait_ok_def)
  qed simp_all
  ultimately show ?thesis using ps by (intro exI [of _ ?r] exI [of _ ps']) simp
qed

lemma sleep_loop_ends:
  assumes "queue_ok s ps" and "disk_wait_ok t s ps" and "level (kern s) = IntOff" and "now s \<le> t" and "\<forall>p \<in> set ps. now s < when_due p"
  shows "\<exists>n s'. sleep_loop s = Some (Inr (Wakes n s')) \<and> now s' \<le> t \<and> good s' \<and> level (kern s') = IntOff"
  using assms
proof (induction "nat (t - now s)" arbitrary: s ps rule: less_induct)
  case less
  show ?case
  proof (cases "readyList (kern s)")
    case (Cons n ns)
    let ?s = "s\<lparr>kern := (kern s)\<lparr>readyList := ns\<rparr>\<rparr>"
    have "sleep_loop s = Some (Inr (Wakes n ?s))"
      using Cons less.prems(3) by (subst sleep_loop.simps) (simp add: FindNextToRun_def liftL_def retL_def)
    moreover have "sys_ok ?s ps" using less.prems(2) by (simp add: disk_wait_ok_def sys_defs kernel_ready_def waiters_exist_def device_sems_def)
    then have "good ?s" using less.prems(1) by (auto simp: good_def)
    ultimately show ?thesis using less.prems(3,4) by auto
  next
    case Nil
    obtain s1 ps1 where i: "Idle s = Some (Inr (Resumes s1))" "queue_ok s1 ps1" "disk_wait_ok t s1 ps1" "level (kern s1) = IntOff"
      "now s1 = max (now s) (when_due (hd ps))" "\<forall>p \<in> set ps1. now s1 < when_due p"
      using Idle_waits [OF less.prems(1-3)] by blast
    obtain p where p: "p \<in> set ps" "when_due p \<le> t" using less.prems(2) Nil by (auto simp: disk_wait_ok_def)
    then obtain q qs where ps: "ps = q # qs" by (cases ps) auto
    have "when_due q \<le> when_due p" using queue_okD(2) [OF less.prems(1)] ps p(1) by auto
    then have "now s < now s1" "now s1 \<le> t" using i(5) ps p(2) less.prems(4,5) by auto
    then have "nat (t - now s1) < nat (t - now s)" by simp
    then obtain n s' where "sleep_loop s1 = Some (Inr (Wakes n s'))" "now s' \<le> t" "good s'" "level (kern s') = IntOff"
      using less.hyps [OF _ i(2-4) \<open>now s1 \<le> t\<close> i(6)] by blast
    moreover have "sleep_loop s = sleep_loop s1"
      using Nil less.prems(3) i(1) by (subst sleep_loop.simps) (simp add: FindNextToRun_def liftL_def)
    ultimately show ?thesis by auto
  qed
qed

lemma sleep_until_disk:
  assumes "queue_ok s ps" and "sys_ok s ps" and "level (kern s) = IntOff" and "waiting s" and "p \<in> set ps" and "callOnInterrupt p = DiskObj"
  shows "\<exists>n s'. sleep_loop s = Some (Inr (Wakes n s')) \<and> now s' \<le> max (now s) (when_due p) \<and> good s' \<and> level (kern s') = IntOff"
proof (cases "readyList (kern s)")
  case (Cons n ns)
  let ?s = "s\<lparr>kern := (kern s)\<lparr>readyList := ns\<rparr>\<rparr>"
  have "sleep_loop s = Some (Inr (Wakes n ?s))"
    using Cons assms(3) by (subst sleep_loop.simps) (simp add: FindNextToRun_def liftL_def retL_def)
  moreover have "sys_ok ?s ps" using assms(2) by (simp add: sys_defs kernel_ready_def waiters_exist_def)
  ultimately show ?thesis using assms(1,3) by (auto simp: good_def intro!: exI [of _ ps])
next
  case Nil
  let ?t = "max (now s) (when_due p)"
  have "disk_wait_ok ?t s ps" using assms by (auto simp: disk_wait_ok_def)
  then obtain s1 ps1 where i: "Idle s = Some (Inr (Resumes s1))" "queue_ok s1 ps1" "disk_wait_ok ?t s1 ps1" "level (kern s1) = IntOff"
    "now s1 = max (now s) (when_due (hd ps))" "\<forall>p \<in> set ps1. now s1 < when_due p"
    using Idle_waits [OF assms(1) _ assms(3)] by blast
  obtain q qs where ps: "ps = q # qs" using assms(5) by (cases ps) auto
  have "when_due q \<le> when_due p" using queue_okD(2) [OF assms(1)] ps assms(5) by auto
  then have "now s1 \<le> ?t" using i(5) ps by simp
  moreover have "sleep_loop s = sleep_loop s1"
    using Nil assms(3) i(1) by (subst sleep_loop.simps) (simp add: FindNextToRun_def liftL_def)
  ultimately show ?thesis using sleep_loop_ends [OF i(2-4) _ i(6)] by auto
qed


definition disk_request0 :: PendingInterrupt where
  "disk_request0 = \<lparr>p_addr = 2, callOnInterrupt = DiskObj, when_due = 700, p_type = DiskInt\<rparr>"

definition sys_disk0 :: "unit Sys" where
  \<comment> \<open>the machine of the examples with a disk request due at time 700 and thread 0 asleep until then\<close>
  "sys_disk0 = sys0\<lparr>kern := (kern sys0)\<lparr>level := IntOff, readyList := [], sems := (sems (kern sys0))(2 := Some \<lparr>s_value = 0, s_queue = [0]\<rparr>)\<rparr>,
     p_heap := \<lparr>cells = (\<lambda>_. None)(0 \<mapsto> \<lparr>item = timer0, next_elem = Some 1\<rparr>, 1 \<mapsto> \<lparr>item = poll0, next_elem = Some 2\<rparr>,
       2 \<mapsto> \<lparr>item = disk_request0, next_elem = None\<rparr>), l_free = 3\<rparr>,
     pending := \<lparr>l_first = Some 0, l_last = Some 2, numInList = 3\<rparr>, p_new := 3, disk := (disk sys0)\<lparr>active := True\<rparr>\<rparr>"

lemma queue_sys_disk0: "queue_ok sys_disk0 [timer0, poll0, disk_request0]"
proof -
  have "linked (p_heap sys_disk0) (pending sys_disk0) [(0, timer0), (1, poll0), (2, disk_request0)]" by (simp add: linked_def sys_disk0_def)
  moreover have "distinct [timer0, poll0, disk_request0]" by (simp add: timer0_def poll0_def disk_request0_def)
  ultimately have "holds (p_heap sys_disk0) (pending sys_disk0) [timer0, poll0, disk_request0]"
    unfolding holds_def by (intro conjI exI [of _ "[(0, timer0), (1, poll0), (2, disk_request0)]"]) simp_all
  then show ?thesis by (simp add: queue_ok_def ordered_def PendingCompare_def timer0_def poll0_def disk_request0_def sys_disk0_def)
qed

lemma sys_ok_disk0: "sys_ok sys_disk0 [timer0, poll0, disk_request0]"
proof -
  have "host_ok sys_disk0" using sys_ok_sys0 by (simp add: sys_ok_def host_ok_def sys_disk0_def)
  moreover have "kernel_ready sys_disk0"
    by (auto simp: kernel_ready_def sys_disk0_def sys0_def boot0_def boot_def Machine_init_def waiters_exist_def Semaphore_new_def device_sems_def dom_def)
  moreover have "devices_ok sys_disk0 [timer0, poll0, disk_request0]"
    by (simp add: devices_ok_def sys_disk0_def sys0_def timer0_def poll0_def disk_request0_def timer_ok_def keys_ok_def busy_iff_def time_slice_def Statistics_new_def)
  ultimately show ?thesis by (simp add: sys_ok_def clock_ok_def sys_disk0_def sys0_def Statistics_new_def)
qed


end
