(* ===== verification/Byte_Layout.thy ===== *)
theory Byte_Layout
  imports Devices
begin

text \<open>
  Raw memory as the disk and the network see it: integers as four bytes, an array of objects of the same
  size as their bytes one after the other, and \<^verbatim>\<open>bcopy\<close> out of and into a buffer with checked bounds. The lemmas
  about equal blocks turn a loop over sectors or table entries into one statement about lists.
\<close>

section \<open>Copying\<close>

definition copy_out :: "byte list \<Rightarrow> int \<Rightarrow> int \<Rightarrow> (byte list) result" where
  \<comment> \<open>\<open>bcopy(&buf[off], into, n)\<close>: the bytes that are copied\<close>
  "copy_out buf off n = (if 0 \<le> off \<and> 0 \<le> n \<and> off + n \<le> int (length buf)
     then Inr (take (nat n) (drop (nat off) buf)) else Inl BadAccess)"

definition over :: "'a list \<Rightarrow> nat \<Rightarrow> 'a list \<Rightarrow> 'a list" where
  \<comment> \<open>\<open>buf\<close> with \<open>data\<close> in place of what was at \<open>off\<close>\<close>
  "over buf off data = take off buf @ data @ drop (off + length data) buf"

definition copy_into :: "byte list \<Rightarrow> int \<Rightarrow> byte list \<Rightarrow> (byte list) result" where
  \<comment> \<open>\<open>bcopy(data, &buf[off], n)\<close>: the buffer afterwards\<close>
  "copy_into buf off data = (if 0 \<le> off \<and> off + int (length data) \<le> int (length buf)
     then Inr (over buf (nat off) data) else Inl BadAccess)"

definition wrap32 :: "int \<Rightarrow> int" where
  \<comment> \<open>the value an \<open>int\<close> keeps of a result\<close>
  "wrap32 x = sint (word_of_int x :: cint)"

lemma wrap32_in: "- (2 ^ 31) \<le> x \<Longrightarrow> x < 2 ^ 31 \<Longrightarrow> wrap32 x = x"
  by (simp add: wrap32_def signed_of_int signed_take_bit_int_eq_self)

lemma over_length [simp]: "off + length data \<le> length buf \<Longrightarrow> length (over buf off data) = length buf"
  by (simp add: over_def)

lemma over_nth:
  assumes "off + length data \<le> length buf" and "i < length buf"
  shows "over buf off data ! i = (if off \<le> i \<and> i < off + length data then data ! (i - off) else buf ! i)"
  using assms by (auto simp: over_def nth_append min_def)

lemma over_Nil [simp]: "over buf off [] = buf"
  by (simp add: over_def)

lemma over_all: "length data = length buf \<Longrightarrow> over buf 0 data = data"
  by (simp add: over_def)

lemma copy_out_in [simp]:
  "off + n \<le> length buf \<Longrightarrow> copy_out buf (int off) (int n) = Inr (take n (drop off buf))"
  by (simp add: copy_out_def)

lemma copy_into_in [simp]:
  "off + length data \<le> length buf \<Longrightarrow> copy_into buf (int off) data = Inr (over buf off data)"
  by (simp add: copy_into_def)

section \<open>Equal blocks\<close>

definition blocks :: "nat \<Rightarrow> 'a list list \<Rightarrow> bool" where
  "blocks k xs \<longleftrightarrow> (\<forall>x \<in> set xs. length x = k)"

definition chunk :: "nat \<Rightarrow> nat \<Rightarrow> 'a list \<Rightarrow> 'a list" where
  "chunk k i xs = take k (drop (k * i) xs)"

lemma blocks_simps [simp]:
  "blocks k []" "blocks k (x # xs) \<longleftrightarrow> length x = k \<and> blocks k xs" "blocks k (xs @ ys) \<longleftrightarrow> blocks k xs \<and> blocks k ys"
  by (auto simp: blocks_def)

lemma blocks_take [intro]: "blocks k xs \<Longrightarrow> blocks k (take n xs)"
  and blocks_drop [intro]: "blocks k xs \<Longrightarrow> blocks k (drop n xs)"
  by (auto simp: blocks_def dest: in_set_takeD in_set_dropD)

lemma blocks_map: "blocks k (map f xs) \<longleftrightarrow> (\<forall>x \<in> set xs. length (f x) = k)"
  by (auto simp: blocks_def)

lemma concat_length: "blocks k xs \<Longrightarrow> length (concat xs) = k * length xs"
  by (induction xs) auto

lemma drop_concat: "blocks k xs \<Longrightarrow> drop (k * i) (concat xs) = concat (drop i xs)"
proof (induction xs arbitrary: i)
  case (Cons x xs)
  then show ?case by (cases i) auto
qed simp

lemma take_concat: "blocks k xs \<Longrightarrow> take (k * i) (concat xs) = concat (take i xs)"
proof (induction xs arbitrary: i)
  case (Cons x xs)
  then show ?case by (cases i) auto
qed simp

lemma chunk_concat: "blocks k xs \<Longrightarrow> i < length xs \<Longrightarrow> chunk k i (concat xs) = xs ! i"
  by (auto simp: chunk_def drop_concat Cons_nth_drop_Suc [symmetric])
    (simp add: blocks_def)

lemma chunk_length [simp]: "k * i + k \<le> length xs \<Longrightarrow> length (chunk k i xs) = k"
  by (simp add: chunk_def)

lemma chunk_nth [simp]: "j < k \<Longrightarrow> k * i + j < length xs \<Longrightarrow> chunk k i xs ! j = xs ! (k * i + j)"
  by (simp add: chunk_def)

lemma concat_nth:
  assumes "blocks k xs" and "i < length xs" and "j < k"
  shows "concat xs ! (k * i + j) = xs ! i ! j"
proof -
  have "k * i + j < length (concat xs)"
    using assms mult_le_mono2 [of "Suc i" "length xs" k] by (simp add: concat_length)
  then show ?thesis using chunk_concat [OF assms(1,2)] assms(3) chunk_nth [of j k i "concat xs"] by simp
qed

lemma concat_chunks: "length ys = k * n \<Longrightarrow> concat (map (\<lambda>i. chunk k i ys) [0..<n]) = ys"
proof (induction n arbitrary: ys)
  case (Suc n)
  have "concat (map (\<lambda>i. chunk k i (take (k * n) ys)) [0..<n]) = take (k * n) ys"
    using Suc.prems by (intro Suc.IH) simp
  moreover have "chunk k i (take (k * n) ys) = chunk k i ys" if "i < n" for i
  proof -
    have "k + k * i \<le> k * n" using mult_le_mono2 [of "Suc i" n k] that by simp
    then show ?thesis by (simp add: chunk_def drop_take min_def)
  qed
  then have "map (\<lambda>i. chunk k i (take (k * n) ys)) [0..<n] = map (\<lambda>i. chunk k i ys) [0..<n]" by simp
  ultimately have "concat (map (\<lambda>i. chunk k i ys) [0..<n]) = take (k * n) ys" by (simp only:)
  moreover have "chunk k n ys = drop (k * n) ys" using Suc.prems by (simp add: chunk_def)
  ultimately show ?case by simp
qed simp

lemma over_concat:
  assumes "blocks k xs" and "i < length xs" and "length x = k"
  shows "over (concat xs) (k * i) x = concat (xs[i := x])"
proof -
  have "over (concat xs) (k * i) x = concat (take i xs) @ x @ concat (drop (Suc i) xs)"
    using assms take_concat [OF assms(1), of i] drop_concat [OF assms(1), of "Suc i"] by (simp add: over_def add.commute)
  then show ?thesis using assms(2) by (simp add: upd_conv_take_nth_drop)
qed

section \<open>Integers in memory\<close>

lemma word_bytes_length [simp]: "length (word_bytes w) = 4"
  by (simp add: word_bytes_def)

lemma bytes_word_word_bytes:
  assumes "length xs = i"
  shows "bytes_word (xs @ word_bytes w @ ys) i = w"
proof -
  have b: "(xs @ word_bytes w @ ys) ! (i + j) = store_word (\<lambda>_. 0) 0 w j" if "j < 4" for j
    using assms that by (simp add: word_bytes_def nth_append)
  have "bytes_word (xs @ word_bytes w @ ys) i = load_word (store_word (\<lambda>_. 0) 0 w) 0"
    using b [of 0] b [of 1] b [of 2] b [of 3] by (simp add: bytes_word_def load_word_def load_half_def eval_nat_numeral)
  also have "\<dots> = w" by (rule load_store_word)
  finally show ?thesis .
qed

definition words_bytes :: "cint list \<Rightarrow> byte list" where
  "words_bytes ws = concat (map word_bytes ws)"

definition bytes_words :: "byte list \<Rightarrow> cint list" where
  "bytes_words bs = map (\<lambda>i. bytes_word (chunk 4 i bs) 0) [0..<length bs div 4]"

lemma words_bytes_length [simp]: "length (words_bytes ws) = 4 * length ws"
  by (simp add: words_bytes_def concat_length [of 4] blocks_map)

lemma bytes_words_length [simp]: "length (bytes_words bs) = length bs div 4"
  by (simp add: bytes_words_def)

lemma bytes_words_words_bytes [simp]: "bytes_words (words_bytes ws) = ws"
proof (rule nth_equalityI)
  fix i assume "i < length (bytes_words (words_bytes ws))"
  then have i: "i < length ws" by simp
  then have "chunk 4 i (words_bytes ws) = word_bytes (ws ! i)"
    unfolding words_bytes_def by (subst chunk_concat) (auto simp: blocks_map)
  then show "bytes_words (words_bytes ws) ! i = ws ! i"
    using i bytes_word_word_bytes [of "[]" 0 "ws ! i" "[]"] by (simp add: bytes_words_def)
qed simp

end
