(* ===== verification/Disk_File.thy ===== *)
theory Disk_File
  imports Byte_Layout
begin

text \<open>
  Files of the Nachos file system: filesys/filehdr.h, filehdr.cc, openfile.h and openfile.cc (the branch
  without \<^verbatim>\<open>FILESYS_STUB\<close>) over the sectors that filesys/synchdisk.cc reads and writes.

  The disk is the list of its sectors. A file is a header, one sector with the length of the file and the
  numbers of its data sectors; \<open>contents\<close> is the list of bytes a reader of the file may see. The theorems show that
  \<open>ReadAt\<close> and \<open>WriteAt\<close>, which work on whole sectors, are reading and replacing a part of that list, and that
  they leave every other sector alone.
\<close>

section \<open>Sectors\<close>

type_synonym sectors = "byte list list"

definition ReadSector :: "int \<Rightarrow> sectors \<Rightarrow> (byte list) result" where
  "ReadSector sectorNumber d = assertE (0 \<le> sectorNumber \<and> sectorNumber < NumSectors) (aget d sectorNumber)"

definition WriteSector :: "int \<Rightarrow> byte list \<Rightarrow> sectors \<Rightarrow> sectors result" where
  "WriteSector sectorNumber data d = assertE (0 \<le> sectorNumber \<and> sectorNumber < NumSectors) (aset d sectorNumber data)"

definition disk_ok :: "sectors \<Rightarrow> bool" where
  "disk_ok d \<longleftrightarrow> length d = 1024 \<and> blocks 128 d"

section \<open>File headers\<close>

abbreviation NumDirect :: nat where "NumDirect \<equiv> 30"
abbreviation MaxFileSize :: int where "MaxFileSize \<equiv> 3840"

record FileHeader =
  numBytes :: int
  numSectors :: int
  dataSectors :: "int list"

definition header_bytes :: "FileHeader \<Rightarrow> byte list" where
  \<comment> \<open>\<open>(char * )this\<close>\<close>
  "header_bytes h = words_bytes (map word_of_int (numBytes h # numSectors h # dataSectors h))"

definition bytes_header :: "byte list \<Rightarrow> FileHeader" where
  "bytes_header bs = (let ws = map sint (bytes_words bs) in
     \<lparr>numBytes = ws ! 0, numSectors = ws ! 1, dataSectors = drop 2 ws\<rparr>)"

definition allocate_step :: "int \<Rightarrow> FileHeader \<times> Bitmap \<Rightarrow> (FileHeader \<times> Bitmap) result" where
  "allocate_step i = (\<lambda>(h, freeMap). bindE (Bitmap_FindAndSet freeMap) (\<lambda>(k, freeMap').
     bindE (aset (dataSectors h) i k) (\<lambda>ds. assertE (k \<ge> 0) (Inr (h\<lparr>dataSectors := ds\<rparr>, freeMap')))))"

definition Allocate :: "FileHeader \<Rightarrow> Bitmap \<Rightarrow> int \<Rightarrow> (bool \<times> FileHeader \<times> Bitmap) result" where
  "Allocate h freeMap fileSize =
     (let h1 = h\<lparr>numBytes := fileSize, numSectors := divRoundUp fileSize SectorSize\<rparr> in
      bindE (Bitmap_NumClear freeMap) (\<lambda>n.
        if n < numSectors h1 then Inr (False, h1, freeMap)
        else bindE (for_loop 0 (numSectors h1) allocate_step (h1, freeMap)) (\<lambda>(h2, freeMap').
          Inr (True, h2, freeMap'))))"

definition Deallocate :: "FileHeader \<Rightarrow> Bitmap \<Rightarrow> Bitmap result" where
  "Deallocate h freeMap =
     for_loop 0 (numSectors h) (\<lambda>i fm. bindE (aget (dataSectors h) i) (\<lambda>s.
       bindE (Bitmap_Test fm s) (\<lambda>t. assertE t (Bitmap_Clear fm s)))) freeMap"

definition FileHeader_FetchFrom :: "int \<Rightarrow> sectors \<Rightarrow> FileHeader result" where
  "FileHeader_FetchFrom s d = bindE (ReadSector s d) (\<lambda>bs. Inr (bytes_header bs))"

definition FileHeader_WriteBack :: "FileHeader \<Rightarrow> int \<Rightarrow> sectors \<Rightarrow> sectors result" where
  "FileHeader_WriteBack h s d = WriteSector s (header_bytes h) d"

definition ByteToSector :: "FileHeader \<Rightarrow> int \<Rightarrow> int result" where
  "ByteToSector h offset = aget (dataSectors h) (offset sdiv SectorSize)"

definition FileLength :: "FileHeader \<Rightarrow> int" where
  "FileLength h = numBytes h"

section \<open>Open files\<close>

record DiskFile =
  hdr :: FileHeader
  seekPosition :: int

definition OpenFile_new :: "int \<Rightarrow> sectors \<Rightarrow> DiskFile result" where
  "OpenFile_new s d = bindE (FileHeader_FetchFrom s d) (\<lambda>h. Inr \<lparr>hdr = h, seekPosition = 0\<rparr>)"

definition new_chars :: "(nat \<Rightarrow> byte) \<Rightarrow> int \<Rightarrow> (byte list) result" where
  \<comment> \<open>\<open>new char[n]\<close> with what the memory holds\<close>
  "new_chars memory n = (if n < 0 then Inl BadAlloc else Inr (map memory [0..<nat n]))"

definition read_sector_into :: "FileHeader \<Rightarrow> sectors \<Rightarrow> int \<Rightarrow> int \<Rightarrow> byte list \<Rightarrow> (byte list) result" where
  "read_sector_into h d firstSector i buf = bindE (ByteToSector h (i * SectorSize)) (\<lambda>s.
     bindE (ReadSector s d) (\<lambda>data. copy_into buf ((i - firstSector) * SectorSize) data))"

definition OpenFile_ReadAt :: "(nat \<Rightarrow> byte) \<Rightarrow> DiskFile \<Rightarrow> int \<Rightarrow> int \<Rightarrow> sectors \<Rightarrow> (int \<times> byte list) result" where
  \<comment> \<open>with the bytes that it stores at \<open>into\<close>\<close>
  "OpenFile_ReadAt memory f numBytes0 position d =
     (let fileLength = FileLength (hdr f) in
      if numBytes0 \<le> 0 \<or> position \<ge> fileLength then Inr (0, [])
      else
        let numBytes = (if wrap32 (position + numBytes0) > fileLength then fileLength - position else numBytes0);
            firstSector = divRoundDown position SectorSize;
            lastSector = divRoundDown (wrap32 (position + numBytes - 1)) SectorSize;
            numSectors = 1 + lastSector - firstSector
        in bindE (new_chars memory (numSectors * SectorSize)) (\<lambda>buf.
           bindE (for_loop firstSector (lastSector + 1) (read_sector_into (hdr f) d firstSector) buf) (\<lambda>buf.
           bindE (copy_out buf (position - firstSector * SectorSize) numBytes) (\<lambda>bs. Inr (numBytes, bs)))))"

definition write_sector_from :: "FileHeader \<Rightarrow> byte list \<Rightarrow> int \<Rightarrow> int \<Rightarrow> sectors \<Rightarrow> sectors result" where
  "write_sector_from h buf firstSector i d = bindE (ByteToSector h (i * SectorSize)) (\<lambda>s.
     bindE (copy_out buf ((i - firstSector) * SectorSize) SectorSize) (\<lambda>data. WriteSector s data d))"

definition read_edge :: "bool \<Rightarrow> (nat \<Rightarrow> byte) \<Rightarrow> DiskFile \<Rightarrow> sectors \<Rightarrow> int \<Rightarrow> int \<Rightarrow> byte list \<Rightarrow> (byte list) result" where
  \<comment> \<open>\<open>if (partly) ReadAt(&buf[off], SectorSize, i * SectorSize)\<close>\<close>
  "read_edge partly memory f d i off buf =
     (if partly then bindE (OpenFile_ReadAt memory f SectorSize (i * SectorSize) d) (\<lambda>(n, bs). copy_into buf off bs) else Inr buf)"

definition OpenFile_WriteAt :: "(nat \<Rightarrow> byte) \<Rightarrow> DiskFile \<Rightarrow> byte list \<Rightarrow> int \<Rightarrow> int \<Rightarrow> sectors \<Rightarrow> (int \<times> sectors) result" where
  "OpenFile_WriteAt memory f from numBytes0 position d =
     (let fileLength = FileLength (hdr f) in
      if numBytes0 \<le> 0 \<or> position \<ge> fileLength then Inr (0, d)
      else
        let numBytes = (if wrap32 (position + numBytes0) > fileLength then fileLength - position else numBytes0);
            firstSector = divRoundDown position SectorSize;
            lastSector = divRoundDown (wrap32 (position + numBytes - 1)) SectorSize;
            numSectors = 1 + lastSector - firstSector;
            firstAligned = (position = firstSector * SectorSize);
            lastAligned = (wrap32 (position + numBytes) = (lastSector + 1) * SectorSize)
        in bindE (new_chars memory (numSectors * SectorSize)) (\<lambda>buf.
           bindE (read_edge (\<not> firstAligned) memory f d firstSector 0 buf) (\<lambda>buf.
           bindE (read_edge (\<not> lastAligned \<and> (firstSector \<noteq> lastSector \<or> firstAligned)) memory f d lastSector
                    ((lastSector - firstSector) * SectorSize) buf) (\<lambda>buf.
           bindE (copy_out from 0 numBytes) (\<lambda>data.
           bindE (copy_into buf (position - firstSector * SectorSize) data) (\<lambda>buf.
           bindE (for_loop firstSector (lastSector + 1) (write_sector_from (hdr f) buf firstSector) d) (\<lambda>d'.
             Inr (numBytes, d'))))))))"

definition OpenFile_Seek :: "int \<Rightarrow> DiskFile \<Rightarrow> DiskFile" where
  "OpenFile_Seek position f = f\<lparr>seekPosition := position\<rparr>"

definition OpenFile_Read :: "(nat \<Rightarrow> byte) \<Rightarrow> DiskFile \<Rightarrow> int \<Rightarrow> sectors \<Rightarrow> (int \<times> byte list \<times> DiskFile) result" where
  "OpenFile_Read memory f size0 d = bindE (OpenFile_ReadAt memory f size0 (seekPosition f) d) (\<lambda>(result, bs).
     Inr (result, bs, f\<lparr>seekPosition := seekPosition f + result\<rparr>))"

definition OpenFile_Write :: "(nat \<Rightarrow> byte) \<Rightarrow> DiskFile \<Rightarrow> byte list \<Rightarrow> int \<Rightarrow> sectors \<Rightarrow> (int \<times> DiskFile \<times> sectors) result" where
  "OpenFile_Write memory f from size0 d = bindE (OpenFile_WriteAt memory f from size0 (seekPosition f) d) (\<lambda>(result, d').
     Inr (result, f\<lparr>seekPosition := seekPosition f + result\<rparr>, d'))"

definition OpenFile_Length :: "DiskFile \<Rightarrow> int" where
  "OpenFile_Length f = FileLength (hdr f)"

section \<open>The bytes of a file\<close>

definition data_of :: "FileHeader \<Rightarrow> int list" where
  \<comment> \<open>the sectors in use\<close>
  "data_of h = take (nat (numSectors h)) (dataSectors h)"

definition header_ok :: "FileHeader \<Rightarrow> bool" where
  "header_ok h \<longleftrightarrow> length (dataSectors h) = NumDirect \<and> 0 \<le> numBytes h \<and> numBytes h \<le> MaxFileSize \<and>
     numSectors h = divRoundUp (numBytes h) SectorSize \<and> distinct (data_of h) \<and> set (data_of h) \<subseteq> {0..<NumSectors}"

definition file_blocks :: "FileHeader \<Rightarrow> sectors \<Rightarrow> byte list list" where
  "file_blocks h d = map (\<lambda>s. d ! nat s) (data_of h)"

definition contents :: "FileHeader \<Rightarrow> sectors \<Rightarrow> byte list" where
  "contents h d = take (nat (numBytes h)) (concat (file_blocks h d))"

lemma ReadSector_ok: "disk_ok d \<Longrightarrow> s \<in> {0..<NumSectors} \<Longrightarrow> ReadSector s d = Inr (d ! nat s)"
  by (simp add: ReadSector_def disk_ok_def)

lemma WriteSector_ok: "disk_ok d \<Longrightarrow> s \<in> {0..<NumSectors} \<Longrightarrow> WriteSector s data d = Inr (d[nat s := data])"
  by (simp add: WriteSector_def disk_ok_def)

lemma disk_ok_update: "disk_ok d \<Longrightarrow> length data = 128 \<Longrightarrow> disk_ok (d[i := data])"
  by (auto simp: disk_ok_def blocks_def dest: set_update_subset_insert [THEN subsetD])

lemma disk_ok_sector: "disk_ok d \<Longrightarrow> s \<in> {0..<NumSectors} \<Longrightarrow> length (d ! nat s) = 128"
  by (auto simp: disk_ok_def blocks_def nat_less_iff)

lemma divRoundUp_sectors:
  assumes "0 \<le> n" and "n \<le> MaxFileSize"
  shows "0 \<le> divRoundUp n 128" "divRoundUp n 128 \<le> 30" "n \<le> 128 * divRoundUp n 128" "128 * divRoundUp n 128 < n + 128"
  using divRoundUp_bounds [of n 128] divRoundUp_nonneg [of n 128] assms by linarith+

lemma header_okD:
  assumes "header_ok h"
  shows "length (data_of h) = nat (numSectors h)" "int (length (data_of h)) = numSectors h" "length (data_of h) \<le> 30"
    "nat (numBytes h) \<le> 128 * length (data_of h)" "128 * length (data_of h) < nat (numBytes h) + 128"
    "i < length (data_of h) \<Longrightarrow> dataSectors h ! i = data_of h ! i"
    "i < length (data_of h) \<Longrightarrow> data_of h ! i \<in> {0..<NumSectors}"
proof -
  note b = divRoundUp_sectors [of "numBytes h"]
  from assms have h: "0 \<le> numBytes h" "numBytes h \<le> 3840" "numSectors h = divRoundUp (numBytes h) 128" "length (dataSectors h) = 30"
    by (simp_all add: header_ok_def)
  show l: "length (data_of h) = nat (numSectors h)" using b h by (simp add: data_of_def)
  show "int (length (data_of h)) = numSectors h" "length (data_of h) \<le> 30"
    "nat (numBytes h) \<le> 128 * length (data_of h)" "128 * length (data_of h) < nat (numBytes h) + 128"
    unfolding l using b h by linarith+
  show "i < length (data_of h) \<Longrightarrow> dataSectors h ! i = data_of h ! i" by (simp add: data_of_def)
  show "i < length (data_of h) \<Longrightarrow> data_of h ! i \<in> {0..<NumSectors}"
    using assms nth_mem [of i "data_of h"] unfolding header_ok_def by blast
qed

lemma file_blocks_ok:
  assumes "header_ok h" and "disk_ok d"
  shows "blocks 128 (file_blocks h d)" "length (file_blocks h d) = length (data_of h)"
    "length (contents h d) = nat (numBytes h)"
proof -
  show b: "blocks 128 (file_blocks h d)"
    using assms disk_ok_sector [OF assms(2)] by (fastforce simp: file_blocks_def blocks_map header_ok_def)
  show l: "length (file_blocks h d) = length (data_of h)" by (simp add: file_blocks_def)
  show "length (contents h d) = nat (numBytes h)"
    using header_okD(4) [OF assms(1)] by (simp add: contents_def concat_length [OF b] l)
qed

lemma ByteToSector_ok:
  assumes "header_ok h" and "i < length (data_of h)"
  shows "ByteToSector h (int i * SectorSize) = Inr (data_of h ! i)"
proof -
  have "int i * 128 sdiv 128 = int i" by (subst sdiv_nonneg) simp_all
  moreover have "i < length (dataSectors h)" using assms by (simp add: data_of_def)
  ultimately show ?thesis using header_okD(6) [OF assms] by (simp add: ByteToSector_def)
qed

section \<open>Reading\<close>

lemma read_loop:
  assumes ok: "header_ok h" "disk_ok d" and ab: "a \<le> b" "b \<le> length (data_of h)" and buf: "length buf = 128 * (b - a)"
  shows "for_loop (int a) (int b) (read_sector_into h d (int a)) buf = Inr (concat (take (b - a) (drop a (file_blocks h d))))"
proof -
  let ?bs = "drop a (file_blocks h d)"
  note bl = file_blocks_ok [OF ok]
  have b1: "blocks 128 (take n ?bs)" for n using bl(1) by blast
  let ?I = "\<lambda>i t. t = concat (take (nat i - a) ?bs) @ drop (128 * (nat i - a)) buf"
  have "\<exists>t. for_loop (int a) (int b) (read_sector_into h d (int a)) buf = Inr t \<and> ?I (int b) t"
  proof (rule for_loop_rule [where I = ?I])
    fix i t assume i: "int a \<le> i" "i < int b" and t: "?I i t"
    obtain c where c: "i = int c" "a \<le> c" "c < b" using i by (metis int_nat_eq nat_int nat_le_iff of_nat_0_le_iff of_nat_less_iff order_trans zle_int)
    let ?x = "file_blocks h d ! c"
    have x: "length ?x = 128" using bl c ab by (simp add: blocks_def)
    have r: "ReadSector (data_of h ! c) d = Inr ?x"
      using c ab header_okD(7) [OF ok(1), of c] by (subst ReadSector_ok [OF ok(2)]) (simp_all add: file_blocks_def)
    have lt: "length (concat (take (c - a) ?bs)) = 128 * (c - a)"
      using c ab bl(2) by (simp add: concat_length [OF b1])
    have off: "(int c - int a) * 128 = int (128 * (c - a))" using c by simp
    have "copy_into t ((i - int a) * 128) ?x = Inr (over t (128 * (c - a)) ?x)"
      unfolding c off using t c buf lt x by (intro copy_into_in) simp
    moreover have "over t (128 * (c - a)) ?x = concat (take (c - a) ?bs) @ ?x @ drop (128 * (c - a) + 128) buf"
      using t c lt x by (simp add: over_def add.commute)
    moreover have "take (Suc c - a) ?bs = take (c - a) ?bs @ [?x]"
      using c ab bl(2) by (simp add: Suc_diff_le take_Suc_conv_app_nth)
    moreover have "128 * (Suc c - a) = 128 * (c - a) + 128" using c by simp
    ultimately show "\<exists>t'. read_sector_into h d (int a) i t = Inr t' \<and> ?I (i + 1) t'"
      using ByteToSector_ok [OF ok(1), of c] c ab r
      by (simp add: read_sector_into_def nat_add_distrib)
  qed (use ab in simp_all)
  then show ?thesis using buf by simp
qed

definition span :: "nat \<Rightarrow> nat \<Rightarrow> FileHeader \<Rightarrow> nat \<Rightarrow> nat \<Rightarrow> bool" where
  \<comment> \<open>the \<open>m\<close> bytes at \<open>p\<close> of a file lie in its sectors \<open>a\<close> to \<open>b - 1\<close>\<close>
  "span p m h a b \<longleftrightarrow> a < b \<and> b \<le> length (data_of h) \<and> 128 * a \<le> p \<and> p < 128 * a + 128 \<and>
     p + m \<le> 128 * b \<and> 128 * b < p + m + 128"

lemma span_exists:
  assumes "header_ok h" and "0 < m" and "p + m \<le> nat (numBytes h)"
  shows "span p m h (p div 128) (Suc ((p + m - 1) div 128))"
proof -
  obtain q where q: "p + m = Suc q" using assms(2) by (cases "p + m") simp_all
  have "p div 128 \<le> q div 128" using assms(2) q by (intro div_le_mono) simp
  moreover have "q < 128 * length (data_of h)" using assms header_okD(4) [OF assms(1)] q by simp
  then have "q div 128 < length (data_of h)" by (simp add: less_mult_imp_div_less mult.commute)
  moreover have "p < 128 * (p div 128) + 128" "q < 128 * (q div 128) + 128" "128 * (q div 128) \<le> q" "128 * (p div 128) \<le> p"
    using dividend_less_times_div [of 128 p] dividend_less_times_div [of 128 q] times_div_less_eq_dividend by simp_all
  ultimately show ?thesis using q by (simp add: span_def)
qed

lemma sector_of: "divRoundDown (int p) 128 = int (p div 128)"
  by (simp add: divRoundDown_def sdiv_nonneg zdiv_int)

text \<open>How both transfers find the sectors they need.\<close>

lemma transfer_span:
  assumes h: "header_ok h" and pos: "0 \<le> position" "position + n < 2 ^ 31" and some: "\<not> (n \<le> 0 \<or> position \<ge> numBytes h)"
  obtains p m a l where "position = int p" "m = min (nat n) (nat (numBytes h) - p)" "0 < m" "p + m \<le> nat (numBytes h)"
    "(if wrap32 (position + n) > numBytes h then numBytes h - position else n) = int m"
    "divRoundDown (int p) 128 = int a" "divRoundDown (wrap32 (int p + int m - 1)) 128 = int l"
    "wrap32 (int p + int m) = int (p + m)" "span p m h a (Suc l)"
proof -
  let ?len = "nat (numBytes h)"
  obtain p where p: "position = int p" using pos(1) by (rule nonneg_eq_int)
  define m where "m = min (nat n) (?len - p)"
  have m: "0 < m" "p + m \<le> ?len" "p < ?len" using some p by (auto simp: m_def)
  have size: "?len \<le> 3840" "numBytes h = int ?len" using h by (auto simp: header_ok_def)
  have w: "wrap32 (position + n) = position + n" using some pos by (intro wrap32_in) auto
  then have cut: "(if wrap32 (position + n) > numBytes h then numBytes h - position else n) = int m"
    using some p m size by (auto simp: m_def)
  have w2: "wrap32 (int p + int m) = int (p + m)" using m size by (subst wrap32_in) auto
  have "wrap32 (int p + int m - 1) = int p + int m - 1" using m size by (intro wrap32_in) auto
  also have "\<dots> = int (p + m - 1)" using m(1) by simp
  finally have last: "divRoundDown (wrap32 (int p + int m - 1)) 128 = int ((p + m - 1) div 128)" by (simp only: sector_of)
  show thesis
    using that [OF p m_def m(1,2) cut sector_of last w2 span_exists [OF h m(1,2)]] .
qed

lemma copy_out_blocks:
  assumes "span p m h a b" and "blocks 128 bs" and "length bs = length (data_of h)"
  shows "copy_out (concat (take (b - a) (drop a bs))) (int p - int a * 128) (int m) = Inr (take m (drop p (concat bs)))"
proof -
  from assms(1) have s: "a < b" "128 * a \<le> p" "p + m \<le> 128 * b" "b \<le> length bs" by (simp_all add: span_def assms(3))
  have "blocks 128 (drop a bs)" using assms(2) by blast
  then have c: "concat (take (b - a) (drop a bs)) = take (128 * (b - a)) (drop (128 * a) (concat bs))"
    using take_concat [of 128 "drop a bs" "b - a"] drop_concat [of 128 bs a] assms(2) by simp
  have le: "p - 128 * a + m \<le> 128 * (b - a)" using s by (simp add: diff_mult_distrib2)
  have off: "int p - int a * 128 = int (p - 128 * a)" using s by (simp add: of_nat_diff)
  have "length (concat (take (b - a) (drop a bs))) = 128 * (b - a)"
    using s assms(2) by (subst concat_length [of 128]) auto
  then have "copy_out (concat (take (b - a) (drop a bs))) (int p - int a * 128) (int m) =
      Inr (take m (drop (p - 128 * a) (concat (take (b - a) (drop a bs)))))"
    unfolding off using le by (intro copy_out_in) simp
  also have "take m (drop (p - 128 * a) (concat (take (b - a) (drop a bs)))) = take m (drop p (concat bs))"
    unfolding c using le s by (simp add: drop_take min_def)
  finally show ?thesis .
qed

definition part :: "int \<Rightarrow> int \<Rightarrow> byte list \<Rightarrow> byte list" where
  \<comment> \<open>what a reader that asks for \<open>n\<close> bytes at \<open>position\<close> gets\<close>
  "part n position c = take (nat n) (drop (nat position) c)"

lemma ReadAt_part:
  assumes ok: "header_ok (hdr f)" "disk_ok d" and pos: "0 \<le> position" "position + n < 2 ^ 31"
  shows "OpenFile_ReadAt memory f n position d =
    Inr (int (length (part n position (contents (hdr f) d))), part n position (contents (hdr f) d))"
proof (cases "n \<le> 0 \<or> position \<ge> numBytes (hdr f)")
  case True
  then show ?thesis
    using file_blocks_ok(3) [OF ok] pos by (auto simp: OpenFile_ReadAt_def FileLength_def part_def nat_mono)
next
  case False
  let ?h = "hdr f" let ?bs = "file_blocks (hdr f) d"
  obtain p m a l where sp: "position = int p" "m = min (nat n) (nat (numBytes ?h) - p)" "0 < m" "p + m \<le> nat (numBytes ?h)"
    "(if wrap32 (position + n) > numBytes ?h then numBytes ?h - position else n) = int m"
    "divRoundDown (int p) 128 = int a" "divRoundDown (wrap32 (int p + int m - 1)) 128 = int l" "span p m ?h a (Suc l)"
    by (rule transfer_span [OF ok(1) pos False])
  have al: "a < Suc l" "Suc l \<le> length (data_of ?h)" using sp(8) by (simp_all add: span_def)
  have buf: "nat ((1 + int l - int a) * 128) = 128 * (Suc l - a)" "\<not> (1 + int l - int a) * 128 < 0" using al by simp_all
  have "for_loop (int a) (int l + 1) (read_sector_into ?h d (int a)) (map memory [0..<128 * (Suc l - a)])
      = Inr (concat (take (Suc l - a) (drop a ?bs)))"
    using read_loop [OF ok, of a "Suc l" "map memory [0..<128 * (Suc l - a)]"] al by (simp add: add.commute)
  moreover have "take m (drop p (concat ?bs)) = part n position (contents ?h d)"
    using sp(1-4) file_blocks_ok(3) [OF ok] by (simp add: part_def contents_def drop_take min_def)
  moreover have "length (part n position (contents ?h d)) = m"
    using sp(1-4) file_blocks_ok(3) [OF ok] by (simp add: part_def min.commute)
  ultimately show ?thesis
    using False copy_out_blocks [OF sp(8) file_blocks_ok(1,2) [OF ok]] buf
    by (simp add: OpenFile_ReadAt_def FileLength_def Let_def sp(5), simp add: sp(1,6,7) new_chars_def del: upt_Suc)
qed

section \<open>Writing\<close>

lemma file_blocks_update:
  assumes "header_ok h" and "disk_ok d" and "c < length (data_of h)"
  shows "file_blocks h (d[nat (data_of h ! c) := x]) = (file_blocks h d)[c := x]"
proof (rule nth_equalityI)
  fix i assume "i < length (file_blocks h (d[nat (data_of h ! c) := x]))"
  then have i: "i < length (data_of h)" by (simp add: file_blocks_def)
  have eq: "nat (data_of h ! i) = nat (data_of h ! c) \<longleftrightarrow> i = c"
    using assms i header_okD(7) [OF assms(1) i] header_okD(7) [OF assms(1,3)]
    by (auto simp: header_ok_def nth_eq_iff_index_eq nat_eq_iff)
  moreover have "nat (data_of h ! c) < length d"
    using header_okD(7) [OF assms(1,3)] assms(2) by (auto simp: disk_ok_def)
  ultimately show "file_blocks h (d[nat (data_of h ! c) := x]) ! i = (file_blocks h d)[c := x] ! i"
    using i assms(3) by (cases "i = c") (auto simp: file_blocks_def nth_list_update)
qed (simp add: file_blocks_def)

definition same_elsewhere :: "FileHeader \<Rightarrow> sectors \<Rightarrow> sectors \<Rightarrow> bool" where
  "same_elsewhere h d d' \<longleftrightarrow> (\<forall>i. i \<notin> nat ` set (data_of h) \<longrightarrow> d' ! i = d ! i)"

lemma write_loop:
  assumes ok: "header_ok h" "disk_ok d" and ab: "a \<le> b" "b \<le> length (data_of h)" and buf: "length buf = 128 * (b - a)"
  shows "\<exists>d'. for_loop (int a) (int b) (write_sector_from h buf (int a)) d = Inr d' \<and> disk_ok d' \<and> same_elsewhere h d d' \<and>
    concat (file_blocks h d') = over (concat (file_blocks h d)) (128 * a) buf"
proof -
  let ?bs = "file_blocks h d" let ?ch = "\<lambda>k. map (\<lambda>j. chunk 128 j buf) [0..<k]"
  note bl = file_blocks_ok [OF ok]
  let ?I = "\<lambda>i t. disk_ok t \<and> same_elsewhere h d t \<and> file_blocks h t = take a ?bs @ ?ch (nat i - a) @ drop (nat i) ?bs"
  have "\<exists>t. for_loop (int a) (int b) (write_sector_from h buf (int a)) d = Inr t \<and> ?I (int b) t"
  proof (rule for_loop_rule [where I = ?I])
    fix i t assume i: "int a \<le> i" "i < int b" and t: "?I i t"
    obtain c where c: "i = int c" using i by (metis nonneg_int_cases of_nat_0_le_iff order_trans)
    then have ac: "a \<le> c" "c < b" "c < length (data_of h)" using i ab by simp_all
    let ?x = "chunk 128 (c - a) buf" let ?s = "nat (data_of h ! c)"
    have fit: "128 * (c - a) + 128 \<le> length buf" using ac buf by simp
    have off: "(int c - int a) * 128 = int (128 * (c - a))" using ac by simp
    have "copy_out buf ((int c - int a) * 128) 128 = Inr ?x"
      unfolding off chunk_def using copy_out_in [OF fit] by simp
    then have step: "write_sector_from h buf (int a) i t = Inr (t[?s := ?x])"
      using ByteToSector_ok [OF ok(1) ac(3)] WriteSector_ok [of t "data_of h ! c"] header_okD(7) [OF ok(1) ac(3)] t c
      by (simp add: write_sector_from_def)
    have "(take a ?bs @ ?ch (c - a) @ drop c ?bs)[c := ?x] = take a ?bs @ ?ch (Suc c - a) @ drop (Suc c) ?bs"
      using ac ab bl(2) by (simp add: list_update_append Suc_diff_le min_def Cons_nth_drop_Suc [symmetric])
    then have "file_blocks h (t[?s := ?x]) = take a ?bs @ ?ch (Suc c - a) @ drop (Suc c) ?bs"
      using file_blocks_update [OF ok(1), of t c] t c ac(3) by simp
    moreover have "same_elsewhere h d (t[?s := ?x])"
      unfolding same_elsewhere_def
    proof (intro allI impI)
      fix k assume "k \<notin> nat ` set (data_of h)"
      moreover have "?s \<in> nat ` set (data_of h)" using ac(3) by simp
      ultimately have "k \<noteq> ?s" "t ! k = d ! k" using t by (auto simp: same_elsewhere_def)
      then show "t[?s := ?x] ! k = d ! k" by simp
    qed
    ultimately show "\<exists>t'. write_sector_from h buf (int a) i t = Inr t' \<and> ?I (i + 1) t'"
      using step t c fit disk_ok_update [of t ?x] by (simp add: nat_add_distrib del: upt_Suc)
  qed (use ab ok in \<open>simp_all add: same_elsewhere_def\<close>)
  then obtain t where t: "for_loop (int a) (int b) (write_sector_from h buf (int a)) d = Inr t" "disk_ok t" "same_elsewhere h d t"
    "file_blocks h t = take a ?bs @ ?ch (b - a) @ drop b ?bs" by auto
  have "concat (file_blocks h t) = take (128 * a) (concat ?bs) @ buf @ drop (128 * b) (concat ?bs)"
    unfolding t(4) using take_concat [OF bl(1)] drop_concat [OF bl(1)] concat_chunks [OF buf] by simp
  moreover have "128 * b = 128 * a + length buf" using ab buf by simp
  ultimately show ?thesis using t by (auto simp: over_def)
qed

text \<open>The first and the last sector are read before they are written, unless they are overwritten entirely; then
  every byte of the file in the buffer that is not to be overwritten is in place.\<close>

lemma part_nth: "j < length (part n position c) \<Longrightarrow> part n position c ! j = c ! (nat position + j)"
  by (auto simp: part_def)

lemma part_le: "length (part n position c) \<le> nat n"
  by (simp add: part_def)

lemma edge_bytes:
  assumes sp: "span p m h a (Suc l)" "p + m \<le> length c" "0 < m" and buf: "length buf = 128 * (Suc l - a)"
    and buf1: "buf1 = (if p \<noteq> 128 * a then over buf 0 (part 128 (int (128 * a)) c) else buf)"
    and buf2: "buf2 = (if p + m \<noteq> 128 * Suc l \<and> (a \<noteq> l \<or> p = 128 * a)
       then over buf1 (128 * (l - a)) (part 128 (int (128 * l)) c) else buf1)"
  shows "length buf1 = length buf" "length buf2 = length buf"
    "128 * a \<le> x \<Longrightarrow> x < 128 * Suc l \<Longrightarrow> x < length c \<Longrightarrow> x < p \<or> p + m \<le> x \<Longrightarrow> buf2 ! (x - 128 * a) = c ! x"
proof -
  have s: "a \<le> l" "128 * a \<le> p" "p < 128 * a + 128" "p + m \<le> 128 * Suc l" "128 * l < p + m"
    using sp(1) by (simp_all add: span_def)
  have p1: "length (part 128 (int (128 * i)) c) = min 128 (length c - 128 * i)" for i by (simp add: part_def min.commute)
  have fit: "128 * (l - a) + 128 = length buf" using buf s by simp
  show l1: "length buf1 = length buf" unfolding buf1 using p1 [of a] fit by simp
  show "length buf2 = length buf" unfolding buf2 using l1 p1 [of l] fit by simp
  assume x: "128 * a \<le> x" "x < 128 * Suc l" "x < length c" "x < p \<or> p + m \<le> x"
  have first: "buf1 ! (x - 128 * a) = c ! x" if "x < 128 * a + 128" "p \<noteq> 128 * a"
    unfolding buf1 using that x p1 [of a] fit by (subst if_P) (auto simp: over_nth part_nth nat_mult_distrib)
  show "buf2 ! (x - 128 * a) = c ! x"
  proof (cases "x < p")
    case True
    then have "buf1 ! (x - 128 * a) = c ! x" using s x by (intro first) simp_all
    moreover have "x - 128 * a < 128 * (l - a)" if "a \<noteq> l" using that s True x by simp
    ultimately show ?thesis
      unfolding buf2 using True s x fit l1 p1 [of l] by (auto simp: over_nth)
  next
    case False
    then have f: "p + m \<noteq> 128 * Suc l" "128 * l \<le> x" using x s by simp_all
    show ?thesis
    proof (cases "a \<noteq> l \<or> p = 128 * a")
      case True
      have eq: "x - 128 * a = 128 * (l - a) + (x - 128 * l)" "x - 128 * l < min 128 (length c - 128 * l)" using f x s by auto
      show ?thesis
        unfolding buf2 eq(1) using True f x s fit l1 p1 [of l] eq(2)
        by (subst if_P) (auto simp: over_nth part_nth nat_mult_distrib)
    next
      case False
      then show ?thesis unfolding buf2 using first f x by simp
    qed
  qed
qed

lemma over_contents:
  assumes "span p m h a b" and "length buf = 128 * (b - a)" and "length flat = 128 * length (data_of h)" and "p + m \<le> len" "len \<le> length flat"
    and data: "length data = m"
    and buf: "\<And>x. 128 * a \<le> x \<Longrightarrow> x < 128 * b \<Longrightarrow> x < len \<Longrightarrow> x < p \<or> p + m \<le> x \<Longrightarrow> buf ! (x - 128 * a) = flat ! x"
  shows "take len (over flat (128 * a) (over buf (p - 128 * a) data)) = over (take len flat) p data"
proof (rule nth_equalityI)
  from assms(1) have s: "a < b" "b \<le> length (data_of h)" "128 * a \<le> p" "p + m \<le> 128 * b" by (simp_all add: span_def)
  have in_buf: "p - 128 * a + length data \<le> length buf" using s assms(2) data by (simp add: diff_mult_distrib2)
  have in_flat: "128 * a + length (over buf (p - 128 * a) data) \<le> length flat"
    using s assms(2,3) in_buf by (simp add: add_mult_distrib2 [symmetric])
  show len: "length (take len (over flat (128 * a) (over buf (p - 128 * a) data))) = length (over (take len flat) p data)"
    using in_flat assms(4,5) data by simp
  fix x assume "x < length (take len (over flat (128 * a) (over buf (p - 128 * a) data)))"
  then have x: "x < len" "x < length flat" using in_flat assms(5) by simp_all
  have end_buf: "128 * a + length (over buf (p - 128 * a) data) = 128 * b"
    using s assms(2) in_buf by (simp add: add_mult_distrib2 [symmetric])
  have l: "take len (over flat (128 * a) (over buf (p - 128 * a) data)) ! x =
      (if 128 * a \<le> x \<and> x < 128 * b then over buf (p - 128 * a) data ! (x - 128 * a) else flat ! x)"
    using x over_nth [OF in_flat x(2)] end_buf by simp
  have r: "over (take len flat) p data ! x = (if p \<le> x \<and> x < p + m then data ! (x - p) else flat ! x)"
    using x assms(4,5) data by (subst over_nth) simp_all
  show "take len (over flat (128 * a) (over buf (p - 128 * a) data)) ! x = over (take len flat) p data ! x"
  proof (cases "128 * a \<le> x \<and> x < 128 * b")
    case True
    then have "x - 128 * a < length buf" using assms(2) s by (simp add: diff_mult_distrib2 diff_less_mono)
    then show ?thesis
      unfolding l r using True over_nth [OF in_buf, of "x - 128 * a"] buf [of x] s x data
      by (auto simp: diff_diff_add)
  next
    case False
    then show ?thesis unfolding l r using s by auto
  qed
qed

lemma WriteAt_over:
  assumes ok: "header_ok (hdr f)" "disk_ok d" and pos: "0 \<le> position" "position + n < 2 ^ 31" and src: "n \<le> int (length src)"
  shows "\<exists>d'. OpenFile_WriteAt memory f src n position d = Inr (int (length (part n position (contents (hdr f) d))), d') \<and>
    disk_ok d' \<and> same_elsewhere (hdr f) d d' \<and> contents (hdr f) d' =
      over (contents (hdr f) d) (nat position) (take (length (part n position (contents (hdr f) d))) src)"
proof (cases "n \<le> 0 \<or> position \<ge> numBytes (hdr f)")
  case True
  then have "part n position (contents (hdr f) d) = []"
    using file_blocks_ok(3) [OF ok] pos by (auto simp: part_def nat_mono)
  then show ?thesis using True ok(2) by (auto simp: OpenFile_WriteAt_def FileLength_def same_elsewhere_def)
next
  case False
  let ?h = "hdr f" let ?c = "contents ?h d" let ?flat = "concat (file_blocks ?h d)" let ?len = "nat (numBytes ?h)"
  obtain p m a l where sp: "position = int p" "m = min (nat n) (nat (numBytes ?h) - p)" "0 < m" "p + m \<le> ?len"
    "(if wrap32 (position + n) > numBytes ?h then numBytes ?h - position else n) = int m"
    "divRoundDown (int p) 128 = int a" "divRoundDown (wrap32 (int p + int m - 1)) 128 = int l"
    "wrap32 (int p + int m) = int (p + m)" "span p m ?h a (Suc l)"
    by (rule transfer_span [OF ok(1) pos False])
  have clen: "length ?c = ?len" by (rule file_blocks_ok(3) [OF ok])
  have al: "a \<le> l" "128 * a \<le> p" "p < 128 * a + 128" "Suc l \<le> length (data_of ?h)" "128 * l < p + m" "p + m \<le> 128 * Suc l" using sp(9) by (simp_all add: span_def)
  define buf where "buf = map memory [0..<128 * (Suc l - a)]"
  define buf1 where "buf1 = (if p \<noteq> 128 * a then over buf 0 (part 128 (int (128 * a)) ?c) else buf)"
  define buf2 where "buf2 = (if p + m \<noteq> 128 * Suc l \<and> (a \<noteq> l \<or> p = 128 * a)
       then over buf1 (128 * (l - a)) (part 128 (int (128 * l)) ?c) else buf1)"
  have lb: "length buf = 128 * (Suc l - a)" by (simp add: buf_def)
  note eb = edge_bytes [OF sp(9) _ sp(3) lb buf1_def buf2_def, unfolded clen, OF sp(4)]
  have small: "int (128 * l) + 128 < 2 ^ 31" "int (128 * a) + 128 < 2 ^ 31"
    using al header_okD(3) [OF ok(1)] by simp_all
  have r0: "new_chars memory ((1 + int l - int a) * 128) = Inr buf"
  proof -
    have "(1 + int l - int a) * 128 = int (128 * (Suc l - a))" using al by (simp add: of_nat_diff)
    then show ?thesis by (simp only: new_chars_def buf_def nat_int if_False of_nat_less_0_iff)
  qed
  have r1: "read_edge (int p \<noteq> int a * 128) memory f d (int a) 0 buf = Inr buf1"
    using ReadAt_part [OF ok, of "int a * 128" 128 memory] small copy_into_in [of 0 "part 128 (int a * 128) ?c" buf] al lb
      part_le [of 128 "int a * 128" ?c] by (auto simp: read_edge_def buf1_def mult.commute)
  have off: "(int l - int a) * 128 = int (128 * (l - a))" using al by (simp add: of_nat_diff)
  have r2: "read_edge (int (p + m) \<noteq> (int l + 1) * 128 \<and> (int a \<noteq> int l \<or> int p = int a * 128)) memory f d (int l) ((int l - int a) * 128) buf1 = Inr buf2"
    using ReadAt_part [OF ok, of "int l * 128" 128 memory] small copy_into_in [of "128 * (l - a)" "part 128 (int l * 128) ?c" buf1] al lb eb(1)
      part_le [of 128 "int l * 128" ?c] unfolding off by (auto simp: read_edge_def buf2_def mult.commute)
  have r3: "copy_out src 0 (int m) = Inr (take m src)" using copy_out_in [of 0 m src] src sp(2) by simp
  have off2: "int p - int a * 128 = int (p - 128 * a)" using al by (simp add: of_nat_diff)
  have lm: "length (take m src) = m" using src sp(2) by simp
  have r4: "copy_into buf2 (int p - int a * 128) (take m src) = Inr (over buf2 (p - 128 * a) (take m src))"
    unfolding off2 using lm eb(2) lb al by (intro copy_into_in) simp
  have lo: "length (over buf2 (p - 128 * a) (take m src)) = 128 * (Suc l - a)" using lm eb(2) lb al by (subst over_length) simp_all
  obtain d' where d': "for_loop (int a) (int l + 1) (write_sector_from ?h (over buf2 (p - 128 * a) (take m src)) (int a)) d = Inr d'"
    "disk_ok d'" "same_elsewhere ?h d d'" "concat (file_blocks ?h d') = over ?flat (128 * a) (over buf2 (p - 128 * a) (take m src))"
    using write_loop [OF ok _ al(4) lo] al(1) by (auto simp: add.commute)
  have "contents ?h d' = over ?c p (take m src)"
    unfolding contents_def d'(4) using sp(4) file_blocks_ok(1,2) [OF ok] header_okD(4) [OF ok(1)] lb eb(2,3) lm
    by (intro over_contents [OF sp(9)]) (auto simp: concat_length contents_def)
  moreover have "length (part n position ?c) = m" using sp(1-4) clen by (simp add: part_def min.commute)
  moreover have "OpenFile_WriteAt memory f src n position d = Inr (int m, d')"
    unfolding OpenFile_WriteAt_def FileLength_def Let_def if_not_P [OF False] sp(5)
    by (simp only: sp(1,6,7,8) r0 r1 r2 r3 r4 d'(1) bindE_Inr)
  ultimately show ?thesis using d' sp(1) by auto
qed

section \<open>Headers on disk, allocation\<close>

abbreviation fits32 :: "int \<Rightarrow> bool" where
  "fits32 x \<equiv> - (2 ^ 31) \<le> x \<and> x < 2 ^ 31"

definition header_fits :: "FileHeader \<Rightarrow> bool" where
  "header_fits h \<longleftrightarrow> fits32 (numBytes h) \<and> fits32 (numSectors h) \<and> length (dataSectors h) = NumDirect \<and> (\<forall>s \<in> set (dataSectors h). fits32 s)"

lemma map_sint: "\<forall>x \<in> set xs. fits32 x \<Longrightarrow> map (\<lambda>x. sint (word_of_int x :: cint)) xs = xs"
  by (induction xs) (simp_all add: wrap32_in [unfolded wrap32_def])

lemma header_round_trip: "header_fits h \<Longrightarrow> bytes_header (header_bytes h) = h"
  using map_sint [of "dataSectors h"]
  by (simp add: header_fits_def header_bytes_def bytes_header_def Let_def comp_def wrap32_in [unfolded wrap32_def])

lemma header_bytes_length: "header_fits h \<Longrightarrow> length (header_bytes h) = 128"
  by (simp add: header_fits_def header_bytes_def)

lemma header_ok_fits: "header_ok h \<Longrightarrow> \<forall>s \<in> set (dataSectors h). fits32 s \<Longrightarrow> header_fits h"
  using divRoundUp_sectors [of "numBytes h"] by (auto simp: header_ok_def header_fits_def)

lemma allocated_fits:
  assumes "header_ok h'" and "header_fits h" and "set (dataSectors h') \<subseteq> set (data_of h') \<union> set (dataSectors h)"
  shows "header_fits h'"
proof (rule header_ok_fits [OF assms(1)], rule ballI)
  fix s assume "s \<in> set (dataSectors h')"
  then consider "s \<in> set (data_of h')" | "s \<in> set (dataSectors h)" using assms(3) by blast
  then show "fits32 s"
  proof cases
    case 1
    then have "s \<in> {0..<NumSectors}" using assms(1) unfolding header_ok_def by blast
    then show ?thesis by simp
  qed (use assms(2) in \<open>simp add: header_fits_def\<close>)
qed

lemma FetchFrom_WriteBack:
  assumes "disk_ok d" and "header_fits h" and "s \<in> {0..<NumSectors}"
  shows "\<exists>d'. FileHeader_WriteBack h s d = Inr d' \<and> disk_ok d' \<and> d' = d[nat s := header_bytes h] \<and> FileHeader_FetchFrom s d' = Inr h"
proof -
  let ?d = "d[nat s := header_bytes h]"
  have "disk_ok ?d" using disk_ok_update [OF assms(1) header_bytes_length [OF assms(2)]] .
  moreover from this have "ReadSector s ?d = Inr (header_bytes h)"
    using assms(1,3) by (subst ReadSector_ok) (auto simp: disk_ok_def nat_less_iff)
  ultimately show ?thesis
    using WriteSector_ok [OF assms(1,3)] header_round_trip [OF assms(2)]
    by (simp add: FileHeader_WriteBack_def FileHeader_FetchFrom_def)
qed

lemma allocate_loop:
  assumes "alloc_loop Bitmap_FindAndSet n fm = Inr (ks, fm')" and "\<forall>k \<in> set ks. 0 \<le> k" and "i + n \<le> length (dataSectors h)"
  shows "for_loop (int i) (int (i + n)) allocate_step (h, fm) = Inr (h\<lparr>dataSectors := over (dataSectors h) i ks\<rparr>, fm') \<and> length ks = n"
  using assms
proof (induction n arbitrary: i fm ks h)
  case (Suc n)
  obtain k fm1 ks1 where f: "Bitmap_FindAndSet fm = Inr (k, fm1)" "alloc_loop Bitmap_FindAndSet n fm1 = Inr (ks1, fm')" "ks = k # ks1"
    using Suc.prems(1) by (auto simp: bindE_eq_Inr)
  let ?h = "h\<lparr>dataSectors := (dataSectors h)[i := k]\<rparr>"
  have "allocate_step (int i) (h, fm) = Inr (?h, fm1)"
    using f Suc.prems by (simp add: allocate_step_def)
  moreover have "for_loop (int (Suc i)) (int (Suc i + n)) allocate_step (?h, fm1) =
      Inr (?h\<lparr>dataSectors := over (dataSectors ?h) (Suc i) ks1\<rparr>, fm') \<and> length ks1 = n"
    using f Suc.prems by (intro Suc.IH) auto
  moreover from this have "over (dataSectors ?h) (Suc i) ks1 = over (dataSectors h) i ks"
    using Suc.prems(3) f(3) by (simp add: over_def take_Suc_conv_app_nth)
  ultimately show ?case using f(3) by (simp add: for_loop_step add.commute)
qed simp

lemma Allocate_ok:
  assumes "wf_Bitmap fm" and "length (dataSectors h) = NumDirect" and "0 \<le> fileSize" "fileSize \<le> MaxFileSize"
    and "numBits fm = NumSectors" and room: "divRoundUp fileSize SectorSize \<le> NumSectors - int (card (marked fm))"
  shows "\<exists>h' fm'. Allocate h fm fileSize = Inr (True, h', fm') \<and> header_ok h' \<and> numBytes h' = fileSize \<and>
    set (data_of h') \<inter> marked fm = {} \<and> set (dataSectors h') \<subseteq> set (data_of h') \<union> set (dataSectors h) \<and>
    wf_Bitmap fm' \<and> numBits fm' = NumSectors \<and> marked fm' = marked fm \<union> set (data_of h')"
proof -
  note r = divRoundUp_sectors [OF assms(3,4)]
  let ?n = "nat (divRoundUp fileSize SectorSize)"
  have nc: "Bitmap_NumClear fm = Inr (NumSectors - int (card (marked fm)))"
    using NumClear_card [OF assms(1)] assms(5) by simp
  have "int ?n \<le> NumSectors - int (card (marked fm))" using room r(1) by simp
  from bitmap_alloc.alloc_loop_ok [OF assms(1) nc this] obtain ks fm' where
    k: "alloc_loop Bitmap_FindAndSet ?n fm = Inr (ks, fm')" "length ks = ?n" "distinct ks" "set ks \<subseteq> {0..<NumSectors} - marked fm"
      "wf_Bitmap fm'" "numBits fm' = NumSectors" "marked fm' = marked fm \<union> set ks" using assms(5) by auto
  let ?h1 = "h\<lparr>numBytes := fileSize, numSectors := divRoundUp fileSize SectorSize\<rparr>"
  let ?h' = "?h1\<lparr>dataSectors := over (dataSectors h) 0 ks\<rparr>"
  have n30: "0 + ?n \<le> length (dataSectors ?h1)" using r assms(2) by simp
  have "for_loop 0 (divRoundUp fileSize SectorSize) allocate_step (?h1, fm) = Inr (?h', fm')"
    using allocate_loop [OF k(1) _ n30] k(4) r(1) by (fastforce simp: subset_iff)
  then have "Allocate h fm fileSize = Inr (True, ?h', fm')"
    using nc room by (simp add: Allocate_def)
  moreover have "data_of ?h' = ks" using k(2) by (simp add: data_of_def over_def)
  moreover have "header_ok ?h'"
    using k(2-4) assms(2-4) r n30 \<open>data_of ?h' = ks\<close> by (auto simp: header_ok_def)
  moreover have "set (dataSectors ?h') \<subseteq> set ks \<union> set (dataSectors h)"
    by (auto simp: over_def dest: in_set_dropD)
  ultimately show ?thesis using k by (intro exI [of _ ?h'] exI [of _ fm']) auto
qed

lemma Allocate_full:
  assumes "wf_Bitmap fm" and "numBits fm = NumSectors" and "NumSectors - int (card (marked fm)) < divRoundUp fileSize SectorSize"
  shows "\<exists>h'. Allocate h fm fileSize = Inr (False, h', fm)"
  using assms NumClear_card [OF assms(1)] by (simp add: Allocate_def Let_def)

lemma for_loop_split:
  "lo \<le> mid \<Longrightarrow> mid \<le> hi \<Longrightarrow> for_loop lo hi body s = bindE (for_loop lo mid body s) (for_loop mid hi body)"
proof (induction lo mid body s rule: for_loop.induct)
  case (1 lo mid body s)
  show ?case
  proof (cases "lo < mid")
    case True
    then have "for_loop (lo + 1) hi body t = bindE (for_loop (lo + 1) mid body t) (for_loop mid hi body)" for t
      using "1.IH" [OF True] "1.prems" by simp
    then have "for_loop (lo + 1) hi body = (\<lambda>t. bindE (for_loop (lo + 1) mid body t) (for_loop mid hi body))" by blast
    then show ?thesis using True "1.prems" by (simp add: for_loop_step bindE_assoc)
  qed (use "1.prems" in auto)
qed

text \<open>\<open>Allocate\<close> does not look at \<open>MaxFileSize\<close>: a larger file is given sectors past the end of \<open>dataSectors\<close>.\<close>

lemma Allocate_overflow:
  assumes "wf_Bitmap fm" and "numBits fm = NumSectors" and "length (dataSectors h) = NumDirect" and "MaxFileSize < fileSize"
    and room: "divRoundUp fileSize SectorSize \<le> NumSectors - int (card (marked fm))"
  shows "Allocate h fm fileSize = Inl BadAccess"
proof -
  let ?n = "divRoundUp fileSize SectorSize"
  have n: "30 < ?n" using divRoundUp_bounds(1) [of fileSize 128] assms(4) by simp
  have nc: "Bitmap_NumClear fm = Inr (NumSectors - int (card (marked fm)))" using NumClear_card [OF assms(1)] assms(2) by simp
  let ?h1 = "h\<lparr>numBytes := fileSize, numSectors := ?n\<rparr>"
  have "int 30 \<le> NumSectors - int (card (marked fm))" using room n by simp
  from bitmap_alloc.alloc_loop_ok [OF assms(1) nc this] obtain ks fm' where
    k: "alloc_loop Bitmap_FindAndSet 30 fm = Inr (ks, fm')" "set ks \<subseteq> {0..<NumSectors}" "wf_Bitmap fm'" "length ks = 30" using assms(2) by auto
  have "for_loop 0 30 allocate_step (?h1, fm) = Inr (?h1\<lparr>dataSectors := over (dataSectors h) 0 ks\<rparr>, fm')"
    using allocate_loop [OF k(1), of 0 ?h1] k(2) assms(3) by (auto simp: subset_iff)
  moreover obtain j fm'' where "Bitmap_FindAndSet fm' = Inr (j, fm'')"
    using FindAndSet_free [OF k(3)] FindAndSet_full [OF k(3)] by blast
  then have "allocate_step 30 (?h1\<lparr>dataSectors := over (dataSectors h) 0 ks\<rparr>, fm') = Inl BadAccess"
    using k(4) assms(3) by (simp add: allocate_step_def aset_def over_def)
  ultimately have "for_loop 0 ?n allocate_step (?h1, fm) = Inl BadAccess"
    using n for_loop_split [of 0 30 ?n allocate_step "(?h1, fm)"] by (simp add: for_loop_step)
  then show ?thesis using nc room by (simp add: Allocate_def Let_def)
qed

lemma Deallocate_ok:
  assumes "wf_Bitmap fm" and "numBits fm = NumSectors" and h: "header_ok h" and m: "set (data_of h) \<subseteq> marked fm"
  shows "\<exists>fm'. Deallocate h fm = Inr fm' \<and> wf_Bitmap fm' \<and> numBits fm' = NumSectors \<and> marked fm' = marked fm - set (data_of h)"
proof -
  let ?I = "\<lambda>i t. wf_Bitmap t \<and> numBits t = NumSectors \<and> marked t = marked fm - set (take (nat i) (data_of h))"
  note hd = header_okD [OF h]
  have "\<exists>t. Deallocate h fm = Inr t \<and> ?I (numSectors h) t"
    unfolding Deallocate_def
  proof (rule for_loop_rule [where I = ?I])
    show "0 \<le> numSectors h" using hd(2) by simp
    fix i t assume "0 \<le> i" "i < numSectors h" and t: "?I i t"
    then obtain c where c: "i = int c" "c < length (data_of h)" using hd(1) by (metis nonneg_int_cases of_nat_less_iff hd(2))
    let ?s = "data_of h ! c"
    have s: "?s \<in> {0..<NumSectors}" "?s \<in> set (data_of h)" using hd(7) [OF c(2)] c(2) by simp_all
    have "?s \<notin> set (take c (data_of h))"
      using h c(2) by (auto simp: header_ok_def in_set_conv_nth nth_eq_iff_index_eq)
    then have "?s \<in> marked t" using t s m c by auto
    then have "Bitmap_Test t ?s = Inr True" using Test_in_range [of t ?s] t s by simp
    moreover obtain t' where t': "Bitmap_Clear t ?s = Inr t'" "wf_Bitmap t'" "numBits t' = NumSectors" "marked t' = marked t - {?s}"
      using Clear_in_range [of t ?s] t s by auto
    moreover have "aget (dataSectors h) i = Inr ?s"
      using c hd(6) [OF c(2)] by (simp add: data_of_def)
    moreover have "marked t' = marked fm - set (take (Suc c) (data_of h))"
      using t t' c by (auto simp: take_Suc_conv_app_nth)
    ultimately show "\<exists>t'. bindE (aget (dataSectors h) i) (\<lambda>s. bindE (Bitmap_Test t s) (\<lambda>u. assertE u (Bitmap_Clear t s))) = Inr t' \<and> ?I (i + 1) t'"
      using c by (simp add: nat_add_distrib)
  qed (use assms in simp_all)
  then show ?thesis using hd(1) by auto
qed

section \<open>The interface of a file of fixed length\<close>

text \<open>
  What the clients of an open file rely on, the bitmap of free sectors and the directory among them: reading is
  a part of a list of bytes, writing replaces a part of it, and nothing else on the disk that \<open>outside\<close> speaks of changes.
\<close>

locale byte_file =
  fixes read_at :: "'f \<Rightarrow> int \<Rightarrow> int \<Rightarrow> 'd \<Rightarrow> (int \<times> byte list) result"
    and write_at :: "'f \<Rightarrow> byte list \<Rightarrow> int \<Rightarrow> int \<Rightarrow> 'd \<Rightarrow> (int \<times> 'd) result"
    and invar :: "'f \<Rightarrow> 'd \<Rightarrow> bool"
    and bytes :: "'f \<Rightarrow> 'd \<Rightarrow> byte list"
    and outside :: "'f \<Rightarrow> 'd \<Rightarrow> 'd \<Rightarrow> bool"
  assumes read_law: "invar f d \<Longrightarrow> 0 \<le> position \<Longrightarrow> position + n < 2 ^ 31 \<Longrightarrow>
      read_at f n position d = Inr (int (length (part n position (bytes f d))), part n position (bytes f d))"
    and write_law: "invar f d \<Longrightarrow> 0 \<le> position \<Longrightarrow> position + n < 2 ^ 31 \<Longrightarrow> n \<le> int (length src) \<Longrightarrow>
      \<exists>d'. write_at f src n position d = Inr (int (length (part n position (bytes f d))), d') \<and> invar f d' \<and> outside f d d' \<and>
        bytes f d' = over (bytes f d) (nat position) (take (length (part n position (bytes f d))) src)"
    and short: "invar f d \<Longrightarrow> int (length (bytes f d)) < 2 ^ 31"
begin

lemma read_whole:
  assumes "invar f d" and "int (length (bytes f d)) = n"
  shows "read_at f n 0 d = Inr (n, bytes f d)"
  using read_law [OF assms(1), of 0 n] short [OF assms(1)] assms(2) by (auto simp: part_def)

lemma write_whole:
  assumes "invar f d" and "length src = length (bytes f d)" and "int (length src) = n"
  shows "\<exists>d'. write_at f src n 0 d = Inr (n, d') \<and> invar f d' \<and> outside f d d' \<and> bytes f d' = src"
proof -
  have "part n 0 (bytes f d) = bytes f d" using assms(2,3) by (auto simp: part_def)
  then show ?thesis
    using write_law [OF assms(1), of 0 n src] short [OF assms(1)] assms(2,3) by (auto simp: over_all)
qed

lemma read_after_write:
  assumes "invar f d" and "0 \<le> position" and "position + int (length src) \<le> int (length (bytes f d))"
  shows "\<exists>d'. write_at f src (int (length src)) position d = Inr (int (length src), d') \<and>
    read_at f (int (length src)) position d' = Inr (int (length src), src)"
proof -
  let ?n = "int (length src)"
  have l: "length (part ?n position (bytes f d)) = length src" using assms(2,3) by (auto simp: part_def)
  have small: "position + ?n < 2 ^ 31" using assms(3) short [OF assms(1)] by simp
  from write_law [OF assms(1,2) small, of src] l obtain d' where
    d': "write_at f src ?n position d = Inr (?n, d')" "invar f d'" "bytes f d' = over (bytes f d) (nat position) src" by auto
  have "part ?n position (bytes f d') = src" using d'(3) assms(2,3) by (simp add: part_def over_def min_def)
  then show ?thesis using d' read_law [OF d'(2) assms(2) small] by simp
qed

end

definition file_ok :: "DiskFile \<Rightarrow> sectors \<Rightarrow> bool" where
  "file_ok f d \<longleftrightarrow> header_ok (hdr f) \<and> disk_ok d"

interpretation disk_file: byte_file "OpenFile_ReadAt memory" "OpenFile_WriteAt memory" file_ok
  "\<lambda>f. contents (hdr f)" "\<lambda>f. same_elsewhere (hdr f)" for memory
proof unfold_locales
  fix f :: DiskFile and d :: sectors and position n :: int and src :: "byte list"
  assume f: "file_ok f d"
  then show "int (length (contents (hdr f) d)) < 2 ^ 31" by (simp add: file_ok_def file_blocks_ok(3), simp add: header_ok_def)
  assume p: "0 \<le> position" "position + n < 2 ^ 31"
  show "OpenFile_ReadAt memory f n position d = Inr (int (length (part n position (contents (hdr f) d))), part n position (contents (hdr f) d))"
    by (rule ReadAt_part) (use f p in \<open>simp_all add: file_ok_def\<close>)
  show "n \<le> int (length src) \<Longrightarrow>
    \<exists>d'. OpenFile_WriteAt memory f src n position d = Inr (int (length (part n position (contents (hdr f) d))), d') \<and>
      file_ok f d' \<and> same_elsewhere (hdr f) d d' \<and>
      contents (hdr f) d' = over (contents (hdr f) d) (nat position) (take (length (part n position (contents (hdr f) d))) src)"
    using WriteAt_over [of f d position n src memory] f p by (auto simp: file_ok_def)
qed

end
