(* ===== verification/Disk_Directory.thy ===== *)
theory Disk_Directory
  imports Disk_File
begin

text \<open>
  The two tables the file system keeps in files: filesys/pbitmap.cc, a bitmap that is read from and
  written to a file, and filesys/directory.h and directory.cc, the table of names. \<open>used\<close> lists the entries in use; the
  lemmas say which entry an operation finds, adds or removes, and that a table that is written back and
  fetched again is the same table. Names count up to their ninth byte (\<open>key\<close>).
\<close>

section \<open>PersistentBitmap\<close>

definition PersistentBitmap_new :: "int \<Rightarrow> Bitmap result" where
  "PersistentBitmap_new numItems = Bitmap_init numItems"

definition PersistentBitmap_FetchFrom :: "(nat \<Rightarrow> byte) \<Rightarrow> DiskFile \<Rightarrow> Bitmap \<Rightarrow> sectors \<Rightarrow> Bitmap result" where
  "PersistentBitmap_FetchFrom memory f b d = bindE (OpenFile_ReadAt memory f (numWords b * 4) 0 d) (\<lambda>(n, bs).
     Inr (b\<lparr>words := bytes_words (over (words_bytes (words b)) 0 bs)\<rparr>))"

definition PersistentBitmap_open :: "(nat \<Rightarrow> byte) \<Rightarrow> DiskFile \<Rightarrow> int \<Rightarrow> sectors \<Rightarrow> Bitmap result" where
  "PersistentBitmap_open memory f numItems d = bindE (Bitmap_init numItems) (\<lambda>b.
     bindE (OpenFile_ReadAt memory f (numWords b * 4) 0 d) (\<lambda>(n, bs).
     Inr (b\<lparr>words := bytes_words (over (words_bytes (words b)) 0 bs)\<rparr>)))"

definition PersistentBitmap_WriteBack :: "(nat \<Rightarrow> byte) \<Rightarrow> DiskFile \<Rightarrow> Bitmap \<Rightarrow> sectors \<Rightarrow> sectors result" where
  "PersistentBitmap_WriteBack memory f b d = bindE (OpenFile_WriteAt memory f (words_bytes (words b)) (numWords b * 4) 0 d) (\<lambda>(n, d').
     Inr d')"

section \<open>Directory\<close>

abbreviation FileNameMaxLen :: nat where "FileNameMaxLen \<equiv> 9"

record DirectoryEntry =
  inUse :: bool
  sector :: int
  entry_name :: "byte list"      \<comment> \<open>the array \<open>name\<close>\<close>
  padding :: "byte list"         \<comment> \<open>the three bytes after \<open>inUse\<close> and the two after \<open>name\<close>\<close>

record Directory =
  tableSize :: int
  table :: "DirectoryEntry list"

definition entry_bytes :: "DirectoryEntry \<Rightarrow> byte list" where
  "entry_bytes e = (if inUse e then 1 else 0) # take 3 (padding e) @ word_bytes (word_of_int (sector e)) @ entry_name e @ drop 3 (padding e)"

definition bytes_entry :: "byte list \<Rightarrow> DirectoryEntry" where
  "bytes_entry bs = \<lparr>inUse = (bs ! 0 \<noteq> 0), sector = sint (bytes_word (chunk 4 1 bs) 0), entry_name = take 10 (drop 8 bs),
     padding = take 3 (drop 1 bs) @ drop 18 bs\<rparr>"

definition table_bytes :: "DirectoryEntry list \<Rightarrow> byte list" where
  "table_bytes t = concat (map entry_bytes t)"

definition bytes_table :: "byte list \<Rightarrow> DirectoryEntry list" where
  "bytes_table bs = map (\<lambda>i. bytes_entry (chunk 20 i bs)) [0..<length bs div 20]"

definition Directory_new :: "(nat \<Rightarrow> DirectoryEntry) \<Rightarrow> int \<Rightarrow> Directory result" where
  \<comment> \<open>\<open>raw\<close>: what the memory of the new table holds\<close>
  "Directory_new raw tsize = (if tsize < 0 then Inl BadAlloc
     else bindE (for_loop 0 tsize (\<lambda>i t. bindE (aget t i) (\<lambda>e. aset t i (e\<lparr>inUse := False\<rparr>))) (map raw [0..<nat tsize])) (\<lambda>t.
       Inr \<lparr>tableSize = tsize, table = t\<rparr>))"

definition Directory_FetchFrom :: "(nat \<Rightarrow> byte) \<Rightarrow> DiskFile \<Rightarrow> Directory \<Rightarrow> sectors \<Rightarrow> Directory result" where
  "Directory_FetchFrom memory f dir d = bindE (OpenFile_ReadAt memory f (tableSize dir * 20) 0 d) (\<lambda>(n, bs).
     Inr (dir\<lparr>table := bytes_table (over (table_bytes (table dir)) 0 bs)\<rparr>))"

definition Directory_WriteBack :: "(nat \<Rightarrow> byte) \<Rightarrow> DiskFile \<Rightarrow> Directory \<Rightarrow> sectors \<Rightarrow> sectors result" where
  "Directory_WriteBack memory f dir d = bindE (OpenFile_WriteAt memory f (table_bytes (table dir)) (tableSize dir * 20) 0 d) (\<lambda>(n, d').
     Inr d')"

text \<open>A C string is the list of its bytes; the byte after the last one is zero.\<close>

definition first_char :: "byte list \<Rightarrow> byte" where
  "first_char s = (case s of [] \<Rightarrow> 0 | c # _ \<Rightarrow> c)"

fun strncmp_eq :: "nat \<Rightarrow> byte list \<Rightarrow> byte list \<Rightarrow> bool" where
  \<comment> \<open>\<open>!strncmp(a, b, n)\<close>\<close>
  "strncmp_eq 0 a b = True"
| "strncmp_eq (Suc n) a b = (first_char a = first_char b \<and> (first_char a = 0 \<or> strncmp_eq n (tl a) (tl b)))"

fun strncpy :: "nat \<Rightarrow> byte list \<Rightarrow> byte list \<Rightarrow> byte list" where
  \<comment> \<open>the destination after \<open>strncpy(dst, src, n)\<close>\<close>
  "strncpy 0 dst src = dst"
| "strncpy (Suc n) dst src = first_char src # strncpy n (tl dst) (if first_char src = 0 then [] else tl src)"

definition FindIndex :: "byte list \<Rightarrow> Directory \<Rightarrow> int result" where
  "FindIndex nm dir = searchE (\<lambda>i. bindE (aget (table dir) i) (\<lambda>e.
     Inr (inUse e \<and> strncmp_eq FileNameMaxLen (entry_name e) nm))) 0 (tableSize dir)"

definition Directory_Find :: "byte list \<Rightarrow> Directory \<Rightarrow> int result" where
  "Directory_Find nm dir = bindE (FindIndex nm dir) (\<lambda>i.
     if i \<noteq> -1 then bindE (aget (table dir) i) (\<lambda>e. Inr (sector e)) else Inr (-1))"

definition Directory_Add :: "byte list \<Rightarrow> int \<Rightarrow> Directory \<Rightarrow> (bool \<times> Directory) result" where
  "Directory_Add nm newSector dir = bindE (FindIndex nm dir) (\<lambda>k.
     if k \<noteq> -1 then Inr (False, dir)
     else bindE (searchE (\<lambda>i. bindE (aget (table dir) i) (\<lambda>e. Inr (\<not> inUse e))) 0 (tableSize dir)) (\<lambda>i.
       if i = -1 then Inr (False, dir)
       else bindE (aget (table dir) i) (\<lambda>e.
            bindE (aset (table dir) i (e\<lparr>inUse := True, entry_name := strncpy FileNameMaxLen (entry_name e) nm, sector := newSector\<rparr>)) (\<lambda>t.
            Inr (True, dir\<lparr>table := t\<rparr>)))))"

definition Directory_Remove :: "byte list \<Rightarrow> Directory \<Rightarrow> (bool \<times> Directory) result" where
  "Directory_Remove nm dir = bindE (FindIndex nm dir) (\<lambda>i.
     if i = -1 then Inr (False, dir)
     else bindE (aget (table dir) i) (\<lambda>e. bindE (aset (table dir) i (e\<lparr>inUse := False\<rparr>)) (\<lambda>t.
       Inr (True, dir\<lparr>table := t\<rparr>))))"

definition print_string :: "byte list \<Rightarrow> (byte list) result" where
  \<comment> \<open>\<open>%s\<close>: from here in memory up to the first zero byte\<close>
  "print_string mem = (if 0 \<in> set mem then Inr (takeWhile (\<lambda>c. c \<noteq> 0) mem) else Inl BadAccess)"

definition Directory_List :: "Directory \<Rightarrow> (byte list) result" where
  \<comment> \<open>what is printed\<close>
  "Directory_List dir = for_loop 0 (tableSize dir) (\<lambda>i out. bindE (aget (table dir) i) (\<lambda>e.
     if inUse e then bindE (print_string (drop (20 * nat i + 8) (table_bytes (table dir)))) (\<lambda>s. Inr (out @ s @ [10]))
     else Inr out)) []"

section \<open>Names\<close>

definition key :: "byte list \<Rightarrow> byte list" where
  "key nm = take FileNameMaxLen (takeWhile (\<lambda>c. c \<noteq> 0) nm)"

lemma strncmp_take: "strncmp_eq n a b \<longleftrightarrow> take n (takeWhile (\<lambda>c. c \<noteq> 0) a) = take n (takeWhile (\<lambda>c. c \<noteq> 0) b)"
proof (induction n arbitrary: a b)
  case (Suc n)
  then show ?case by (cases a; cases b) (auto simp: first_char_def)
qed simp

lemma strncmp_key: "strncmp_eq FileNameMaxLen a b \<longleftrightarrow> key a = key b"
  by (simp only: key_def strncmp_take)

lemma first_char_Cons [simp]: "first_char (c # cs) = c"
  by (simp add: first_char_def)

lemma strncmp_strncpy: "strncmp_eq n (strncpy n dst src) src"
  by (induction n arbitrary: dst src) auto

lemma strncpy_length: "n \<le> length dst \<Longrightarrow> length (strncpy n dst src) = length dst"
  by (induction n arbitrary: dst src) auto

lemma key_strncpy: "key (strncpy FileNameMaxLen dst src) = key src"
  by (simp only: strncmp_key [symmetric] strncmp_strncpy)

section \<open>Tables on disk\<close>

definition entry_ok :: "DirectoryEntry \<Rightarrow> bool" where
  "entry_ok e \<longleftrightarrow> length (entry_name e) = 10 \<and> length (padding e) = 5 \<and> fits32 (sector e)"

lemma entry_bytes_length: "entry_ok e \<Longrightarrow> length (entry_bytes e) = 20"
  by (simp add: entry_ok_def entry_bytes_def)

lemma entry_round_trip:
  assumes "entry_ok e"
  shows "bytes_entry (entry_bytes e) = e"
proof -
  let ?w = "word_of_int (sector e) :: cint" let ?a = "take 3 (padding e)" let ?z = "drop 3 (padding e)"
  let ?u = "if inUse e then 1 else 0 :: byte"
  have eb: "entry_bytes e = ?u # ?a @ word_bytes ?w @ entry_name e @ ?z" by (simp add: entry_bytes_def)
  have l: "length ?a = 3" "length ?z = 2" "length (entry_name e) = 10" using assms by (simp_all add: entry_ok_def)
  have "chunk 4 1 (entry_bytes e) = word_bytes ?w" unfolding eb chunk_def using l by (simp add: drop_Cons' numeral_eq_Suc)
  then have "bytes_word (chunk 4 1 (entry_bytes e)) 0 = ?w" using bytes_word_word_bytes [of "[]" 0 ?w "[]"] by simp
  moreover have "sint ?w = sector e" using assms wrap32_in [of "sector e"] by (simp add: entry_ok_def wrap32_def)
  moreover have "take 10 (drop 8 (entry_bytes e)) = entry_name e" unfolding eb using l by (simp add: drop_Cons')
  moreover have "take 3 (drop 1 (entry_bytes e)) = ?a" "drop 18 (entry_bytes e) = ?z" unfolding eb using l by (simp_all add: drop_Cons')
  moreover have "entry_bytes e ! 0 \<noteq> 0 \<longleftrightarrow> inUse e" unfolding eb by simp
  ultimately show ?thesis by (simp add: bytes_entry_def)
qed

definition table_ok :: "DirectoryEntry list \<Rightarrow> bool" where
  "table_ok t \<longleftrightarrow> (\<forall>e \<in> set t. entry_ok e)"

lemma table_blocks: "table_ok t \<Longrightarrow> blocks 20 (map entry_bytes t)"
  by (simp add: table_ok_def blocks_map entry_bytes_length)

lemma table_bytes_length: "table_ok t \<Longrightarrow> length (table_bytes t) = 20 * length t"
  by (simp add: table_bytes_def concat_length [OF table_blocks])

lemma table_round_trip: "table_ok t \<Longrightarrow> bytes_table (table_bytes t) = t"
  by (rule nth_equalityI)
    (simp_all add: bytes_table_def table_bytes_length, simp add: table_bytes_def chunk_concat table_blocks,
      simp add: table_ok_def entry_round_trip)

lemma bytes_entry_ok: "length bs = 20 \<Longrightarrow> entry_ok (bytes_entry bs)"
  using sint_range_size [of "bytes_word (chunk 4 1 bs) 0"] by (simp add: entry_ok_def bytes_entry_def word_size)

lemma bytes_table_ok: "table_ok (bytes_table bs)"
proof -
  have "20 * i + 20 \<le> length bs" if "i < length bs div 20" for i
    using that mult_le_mono2 [of "Suc i" "length bs div 20" 20] times_div_less_eq_dividend [of 20 "length bs"] by linarith
  then show ?thesis by (auto simp: table_ok_def bytes_table_def intro!: bytes_entry_ok)
qed

lemma bytes_table_length [simp]: "length (bytes_table bs) = length bs div 20"
  by (simp add: bytes_table_def)

section \<open>Operations on the entries in use\<close>

definition used :: "Directory \<Rightarrow> DirectoryEntry list" where
  "used dir = filter inUse (table dir)"

definition keys :: "Directory \<Rightarrow> byte list list" where
  "keys dir = map (\<lambda>e. key (entry_name e)) (used dir)"

definition dir_ok :: "Directory \<Rightarrow> bool" where
  "dir_ok dir \<longleftrightarrow> tableSize dir = int (length (table dir)) \<and> table_ok (table dir) \<and> distinct (keys dir)"

lemma search_table:
  "(\<exists>xs e ys. t = xs @ e # ys \<and> P e \<and> (\<forall>x \<in> set xs. \<not> P x) \<and>
      searchE (\<lambda>i. bindE (aget t i) (\<lambda>e. Inr (P e))) 0 (int (length t)) = Inr (int (length xs)))
   \<or> searchE (\<lambda>i. bindE (aget t i) (\<lambda>e. Inr (P e))) 0 (int (length t)) = Inr (-1) \<and> (\<forall>e \<in> set t. \<not> P e)"
  (is "?F \<or> ?N")
proof -
  let ?s = "searchE (\<lambda>i. bindE (aget t i) (\<lambda>e. Inr (P e))) 0 (int (length t))"
  consider i where "?s = Inr i" "0 \<le> i" "i < int (length t)" "P (t ! nat i)" "\<forall>j. 0 \<le> j \<and> j < i \<longrightarrow> \<not> P (t ! nat j)"
    | "?s = Inr (-1)" "\<forall>j. 0 \<le> j \<and> j < int (length t) \<longrightarrow> \<not> P (t ! nat j)"
    using searchE_pure [of 0 "int (length t)" "\<lambda>i. bindE (aget t i) (\<lambda>e. Inr (P e))" "\<lambda>i. P (t ! nat i)"] by auto
  then show ?thesis
  proof cases
    case (1 i)
    then obtain n where n: "i = int n" "n < length t" by (metis nonneg_int_cases of_nat_less_iff)
    have "\<not> P x" if x: "x \<in> set (take n t)" for x
    proof -
      obtain j where "j < n" "x = t ! j" using x n(2) by (auto simp: in_set_conv_nth)
      then show ?thesis using 1(5) n by (metis nat_int of_nat_0_le_iff of_nat_less_iff)
    qed
    then have ?F using 1 n id_take_nth_drop [OF n(2)]
      by (intro exI [of _ "take n t"] exI [of _ "t ! n"] exI [of _ "drop (Suc n) t"]) auto
    then show ?thesis ..
  next
    case 2
    then have ?N by (metis in_set_conv_nth nat_int of_nat_0_le_iff of_nat_less_iff)
    then show ?thesis ..
  qed
qed

lemma FindIndex_table:
  assumes "tableSize dir = int (length (table dir))"
  shows "(\<exists>xs e ys. table dir = xs @ e # ys \<and> inUse e \<and> key (entry_name e) = key nm \<and> FindIndex nm dir = Inr (int (length xs)))
    \<or> FindIndex nm dir = Inr (-1) \<and> key nm \<notin> set (keys dir)"
  using search_table [of "table dir" "\<lambda>e. inUse e \<and> strncmp_eq FileNameMaxLen (entry_name e) nm"]
  unfolding FindIndex_def assms strncmp_key keys_def used_def by fastforce

lemma Find_absent:
  assumes "dir_ok dir" and "key nm \<notin> set (keys dir)"
  shows "FindIndex nm dir = Inr (-1)" "Directory_Find nm dir = Inr (-1)" "Directory_Remove nm dir = Inr (False, dir)"
proof -
  show "FindIndex nm dir = Inr (-1)"
  proof -
    have "key nm \<in> set (keys dir)" if "table dir = xs @ e # ys" "inUse e" "key (entry_name e) = key nm" for xs e ys
      using that by (simp add: keys_def used_def)
    then show ?thesis using FindIndex_table [of dir nm] assms unfolding dir_ok_def by blast
  qed
  then show "Directory_Find nm dir = Inr (-1)" "Directory_Remove nm dir = Inr (False, dir)"
    by (simp_all add: Directory_Find_def Directory_Remove_def)
qed

lemma Find_present:
  assumes "dir_ok dir" and "key nm \<in> set (keys dir)"
  obtains us e vs dir' where "used dir = us @ e # vs" "key (entry_name e) = key nm" "Directory_Find nm dir = Inr (sector e)"
    "FindIndex nm dir \<noteq> Inr (-1)"
    "Directory_Remove nm dir = Inr (True, dir')" "used dir' = us @ vs" "table_ok (table dir')" "dir_ok dir'" "tableSize dir' = tableSize dir"
proof -
  obtain xs e ys where x: "table dir = xs @ e # ys" "inUse e" "key (entry_name e) = key nm" "FindIndex nm dir = Inr (int (length xs))"
    using FindIndex_table [of dir nm] assms by (auto simp: dir_ok_def)
  let ?dir = "dir\<lparr>table := xs @ e\<lparr>inUse := False\<rparr> # ys\<rparr>"
  have "aget (table dir) (int (length xs)) = Inr e" "\<And>y. aset (table dir) (int (length xs)) y = Inr (xs @ y # ys)"
    using x(1) by (simp_all add: aset_in nth_append)
  then have "Directory_Find nm dir = Inr (sector e)" "Directory_Remove nm dir = Inr (True, ?dir)"
    using x(4) by (simp_all add: Directory_Find_def Directory_Remove_def)
  moreover have "used dir = filter inUse xs @ e # filter inUse ys" "used ?dir = filter inUse xs @ filter inUse ys"
    using x by (simp_all add: used_def)
  moreover have "table_ok (table ?dir)" using assms(1) x(1) by (simp add: dir_ok_def table_ok_def entry_ok_def)
  moreover from this have "dir_ok ?dir"
    using assms(1) x(1) calculation(3,4) by (auto simp: dir_ok_def keys_def)
  ultimately show thesis using that [of "filter inUse xs" e "filter inUse ys" ?dir] x(3,4) by auto
qed

lemma Add_present:
  assumes "dir_ok dir" and "key nm \<in> set (keys dir)"
  shows "Directory_Add nm s dir = Inr (False, dir)"
  using FindIndex_table [of dir nm] assms by (auto simp: dir_ok_def Directory_Add_def)

lemma Add_full:
  assumes "dir_ok dir" and "length (used dir) = length (table dir)"
  shows "Directory_Add nm s dir = Inr (False, dir)"
proof -
  have "\<forall>e \<in> set (table dir). inUse e"
    using assms(2) unfolding used_def by (metis filter_id_conv length_filter_less order_less_irrefl)
  then show ?thesis
    using FindIndex_table [of dir nm] search_table [of "table dir" "\<lambda>e. \<not> inUse e"] assms(1)
    by (auto simp: dir_ok_def Directory_Add_def)
qed

lemma Add_room:
  assumes "dir_ok dir" and "key nm \<notin> set (keys dir)" and "length (used dir) \<noteq> length (table dir)" and "fits32 s"
  obtains us e vs dir' where "Directory_Add nm s dir = Inr (True, dir')" "used dir = us @ vs" "used dir' = us @ e # vs"
    "key (entry_name e) = key nm" "sector e = s" "dir_ok dir'" "tableSize dir' = tableSize dir"
proof -
  have "\<exists>e \<in> set (table dir). \<not> inUse e" using assms(3) unfolding used_def by (metis filter_id_conv)
  then obtain xs e ys where x: "table dir = xs @ e # ys" "\<not> inUse e"
    "searchE (\<lambda>i. bindE (aget (table dir) i) (\<lambda>e. Inr (\<not> inUse e))) 0 (tableSize dir) = Inr (int (length xs))"
    using search_table [of "table dir" "\<lambda>e. \<not> inUse e"] assms(1) by (auto simp: dir_ok_def)
  let ?e = "e\<lparr>inUse := True, entry_name := strncpy FileNameMaxLen (entry_name e) nm, sector := s\<rparr>"
  let ?dir = "dir\<lparr>table := xs @ ?e # ys\<rparr>"
  have e: "entry_ok e" using assms(1) x(1) by (simp add: dir_ok_def table_ok_def)
  have "aget (table dir) (int (length xs)) = Inr e" "aset (table dir) (int (length xs)) ?e = Inr (xs @ ?e # ys)"
    using x(1) by (simp_all add: aset_in nth_append)
  then have "Directory_Add nm s dir = Inr (True, ?dir)"
    using x(3) Find_absent(1) [OF assms(1,2)] by (simp add: Directory_Add_def)
  moreover have u: "used dir = filter inUse xs @ filter inUse ys" "used ?dir = filter inUse xs @ ?e # filter inUse ys"
    using x by (simp_all add: used_def)
  moreover have "table_ok (table ?dir)"
    using assms(1,4) x(1) e by (simp add: dir_ok_def table_ok_def entry_ok_def strncpy_length)
  moreover have "key (entry_name ?e) = key nm" by (simp add: key_strncpy)
  moreover from calculation have "dir_ok ?dir"
    using assms(1,2) x(1) u by (auto simp: dir_ok_def keys_def)
  ultimately show thesis using that [of ?dir "filter inUse xs" "filter inUse ys" ?e] by simp
qed

section \<open>Reading and writing the tables\<close>

lemma Directory_new_ok:
  assumes "0 \<le> n" and "\<And>i. entry_ok (raw i)"
  shows "\<exists>dir. Directory_new raw n = Inr dir \<and> dir_ok dir \<and> tableSize dir = n \<and> used dir = []"
proof -
  let ?I = "\<lambda>i t. int (length t) = n \<and> table_ok t \<and> (\<forall>j < nat i. \<not> inUse (t ! j))"
  let ?body = "\<lambda>i t. bindE (aget t i) (\<lambda>e. aset t i (e\<lparr>inUse := False\<rparr>))"
  have "\<exists>t. for_loop 0 n ?body (map raw [0..<nat n]) = Inr t \<and> ?I n t"
  proof (rule for_loop_rule [where I = ?I])
    fix i t assume i: "0 \<le> i" "i < n" and t: "?I i t"
    then have "?body i t = Inr (t[nat i := (t ! nat i)\<lparr>inUse := False\<rparr>])" by simp
    moreover have "table_ok (t[nat i := (t ! nat i)\<lparr>inUse := False\<rparr>])"
      using t i by (auto simp: table_ok_def entry_ok_def dest!: set_update_subset_insert [THEN subsetD])
    ultimately show "\<exists>t'. ?body i t = Inr t' \<and> ?I (i + 1) t'"
      using i t by (auto simp: nth_list_update nat_add_distrib less_Suc_eq)
  qed (use assms in \<open>auto simp: table_ok_def\<close>)
  then obtain t where "for_loop 0 n ?body (map raw [0..<nat n]) = Inr t" "?I n t" by blast
  moreover from this have "filter inUse t = []" by (auto simp: filter_empty_conv in_set_conv_nth)
  ultimately show ?thesis using assms(1) by (auto simp: Directory_new_def dir_ok_def used_def keys_def)
qed

lemma Directory_FetchFrom_ok:
  assumes "file_ok f d" and "numBytes (hdr f) = tableSize dir * 20" and "int (length (table dir)) = tableSize dir" and "table_ok (table dir)"
  shows "Directory_FetchFrom memory f dir d = Inr (dir\<lparr>table := bytes_table (contents (hdr f) d)\<rparr>)"
proof -
  have l: "int (length (contents (hdr f) d)) = tableSize dir * 20"
    using assms(1-3) by (simp add: file_ok_def file_blocks_ok(3))
  have "length (contents (hdr f) d) = length (table_bytes (table dir))"
    using l assms(3,4) by (simp add: table_bytes_length)
  then show ?thesis
    using disk_file.read_whole [OF assms(1) l] by (simp add: Directory_FetchFrom_def over_all)
qed

lemma Directory_WriteBack_ok:
  assumes "file_ok f d" and "numBytes (hdr f) = tableSize dir * 20" and "dir_ok dir"
  shows "\<exists>d'. Directory_WriteBack memory f dir d = Inr d' \<and> file_ok f d' \<and> same_elsewhere (hdr f) d d' \<and>
    bytes_table (contents (hdr f) d') = table dir"
proof -
  have "length (table_bytes (table dir)) = length (contents (hdr f) d)"
    using assms by (simp add: file_ok_def file_blocks_ok(3) dir_ok_def table_bytes_length)
  moreover have "int (length (table_bytes (table dir))) = tableSize dir * 20"
    using assms(3) by (simp add: dir_ok_def table_bytes_length)
  ultimately obtain d' where "OpenFile_WriteAt memory f (table_bytes (table dir)) (tableSize dir * 20) 0 d = Inr (tableSize dir * 20, d')"
    "file_ok f d'" "same_elsewhere (hdr f) d d'" "contents (hdr f) d' = table_bytes (table dir)"
    using disk_file.write_whole [OF assms(1)] by blast
  then show ?thesis using assms(3) by (auto simp: Directory_WriteBack_def table_round_trip dir_ok_def)
qed

lemma wf_numWords: "wf_Bitmap b \<Longrightarrow> numWords b = int (length (words b))"
  by (simp add: wf_Bitmap_def)

lemma bytes_bitmap:
  assumes "file_ok f d" and "numBytes (hdr f) = numWords b * 4" and "wf_Bitmap b"
  shows "PersistentBitmap_FetchFrom memory f b d = Inr (b\<lparr>words := bytes_words (contents (hdr f) d)\<rparr>)"
proof -
  have l: "int (length (contents (hdr f) d)) = numWords b * 4"
    using assms(1,2) wf_numWords [OF assms(3)] by (simp add: file_ok_def file_blocks_ok(3))
  then have "length (contents (hdr f) d) = length (words_bytes (words b))" using assms(3) by (simp add: wf_Bitmap_def)
  then show ?thesis
    using disk_file.read_whole [OF assms(1) l] by (simp add: PersistentBitmap_FetchFrom_def over_all)
qed

lemma PersistentBitmap_open_ok:
  assumes "file_ok f d" and "numBytes (hdr f) = 128"
  shows "PersistentBitmap_open memory f NumSectors d = Inr \<lparr>numBits = NumSectors, numWords = 32, words = bytes_words (contents (hdr f) d)\<rparr>"
proof -
  obtain b where b: "Bitmap_init NumSectors = Inr b" "wf_Bitmap b" "numBits b = NumSectors" using init_empty [of NumSectors] by auto
  then have n: "numWords b = 32" by (simp add: wf_Bitmap_def divRoundUp_def)
  have "PersistentBitmap_open memory f NumSectors d = PersistentBitmap_FetchFrom memory f b d"
    using b by (simp add: PersistentBitmap_open_def PersistentBitmap_FetchFrom_def)
  also have "\<dots> = Inr (b\<lparr>words := bytes_words (contents (hdr f) d)\<rparr>)"
    using b n assms by (intro bytes_bitmap) simp_all
  finally show ?thesis using b n by simp
qed

lemma PersistentBitmap_WriteBack_ok:
  assumes "file_ok f d" and "numBytes (hdr f) = numWords b * 4" and "wf_Bitmap b"
  shows "\<exists>d'. PersistentBitmap_WriteBack memory f b d = Inr d' \<and> file_ok f d' \<and> same_elsewhere (hdr f) d d' \<and>
    bytes_words (contents (hdr f) d') = words b"
proof -
  have "length (words_bytes (words b)) = length (contents (hdr f) d)"
    using assms(1,2) wf_numWords [OF assms(3)] by (simp add: file_ok_def file_blocks_ok(3))
  moreover have "int (length (words_bytes (words b))) = numWords b * 4"
    using assms(3) by (simp add: wf_Bitmap_def)
  ultimately obtain d' where "OpenFile_WriteAt memory f (words_bytes (words b)) (numWords b * 4) 0 d = Inr (numWords b * 4, d')"
    "file_ok f d'" "same_elsewhere (hdr f) d d'" "contents (hdr f) d' = words_bytes (words b)"
    using disk_file.write_whole [OF assms(1)] by blast
  then show ?thesis by (auto simp: PersistentBitmap_WriteBack_def)
qed

text \<open>\<open>Add\<close> copies nine bytes of the name and never writes the tenth, so a name of nine characters has no terminator unless the
  memory happened to hold one, and \<open>List\<close> prints on.\<close>

lemma list_prints_beyond_name:
  "bindE (Directory_Add (replicate 9 97) 5 \<lparr>tableSize = 1, table = [\<lparr>inUse = False, sector = 7, entry_name = replicate 10 66, padding = [0, 0, 0, 0, 0]\<rparr>]\<rparr>)
     (\<lambda>(_, dir). Directory_List dir) = Inr (replicate 9 97 @ [66, 10])"
  by (simp add: Directory_Add_def FindIndex_def Directory_List_def searchE.simps for_loop_step aset_def table_bytes_def entry_bytes_def print_string_def
    first_char_def eval_nat_numeral word_bytes_def, simp add: take_bit_Suc iszero_def)

end
