(* ===== verification/Disk_FileSys.thy ===== *)
theory Disk_FileSys
  imports Disk_Directory
begin

text \<open>
  filesys/filesys.cc without \<^verbatim>\<open>FILESYS_STUB\<close>: the file system of Nachos on the simulated disk. The free map is a file whose
  header is in sector 0, the directory a file whose header is in sector 1; both stay open.

  \<open>files\<close> is what the disk means, a map from names to the bytes of the files. \<open>fs_ok\<close> is the invariant: every
  sector belongs to one file or is free, and the free map says so. The theorems show that \<open>Create\<close>, \<open>Open\<close>, \<open>Remove\<close>
  and writing to a file are the operations on that map, and that the invariant survives all of them and a restart.
\<close>

section \<open>FileSystem\<close>

abbreviation FreeMapSector :: int where "FreeMapSector \<equiv> 0"
abbreviation DirectorySector :: int where "DirectorySector \<equiv> 1"
abbreviation NumDirEntries :: int where "NumDirEntries \<equiv> 10"
abbreviation FreeMapFileSize :: int where "FreeMapFileSize \<equiv> 128"
abbreviation DirectoryFileSize :: int where "DirectoryFileSize \<equiv> 200"

record DiskFS =
  freeMapFile :: DiskFile
  directoryFile :: DiskFile

record Raw =     \<comment> \<open>what the memory holds that \<open>new\<close> gives for buffers, directory tables and file headers\<close>
  raw_bytes :: "nat \<Rightarrow> byte"
  raw_entries :: "nat \<Rightarrow> DirectoryEntry"
  raw_header :: FileHeader

definition open_tables :: "sectors \<Rightarrow> DiskFS result" where
  "open_tables d = bindE (OpenFile_new FreeMapSector d) (\<lambda>m. bindE (OpenFile_new DirectorySector d) (\<lambda>r.
     Inr \<lparr>freeMapFile = m, directoryFile = r\<rparr>))"

definition allocate_asserted :: "FileHeader \<Rightarrow> Bitmap \<Rightarrow> int \<Rightarrow> (FileHeader \<times> Bitmap) result" where
  \<comment> \<open>\<open>ASSERT(hdr->Allocate(freeMap, fileSize))\<close>\<close>
  "allocate_asserted h freeMap fileSize = bindE (Allocate h freeMap fileSize) (\<lambda>(done, h', freeMap'). assertE done (Inr (h', freeMap')))"

definition DiskFS_new :: "Raw \<Rightarrow> bool \<Rightarrow> sectors \<Rightarrow> (DiskFS \<times> sectors) result" where
  "DiskFS_new raw format d =
     (if format then
        bindE (PersistentBitmap_new NumSectors) (\<lambda>freeMap.
        bindE (Directory_new (raw_entries raw) NumDirEntries) (\<lambda>directory.
        bindE (Bitmap_Mark freeMap FreeMapSector) (\<lambda>freeMap.
        bindE (Bitmap_Mark freeMap DirectorySector) (\<lambda>freeMap.
        bindE (allocate_asserted (raw_header raw) freeMap FreeMapFileSize) (\<lambda>(mapHdr, freeMap).
        bindE (allocate_asserted (raw_header raw) freeMap DirectoryFileSize) (\<lambda>(dirHdr, freeMap).
        bindE (FileHeader_WriteBack mapHdr FreeMapSector d) (\<lambda>d.
        bindE (FileHeader_WriteBack dirHdr DirectorySector d) (\<lambda>d.
        bindE (open_tables d) (\<lambda>fs.
        bindE (PersistentBitmap_WriteBack (raw_bytes raw) (freeMapFile fs) freeMap d) (\<lambda>d.
        bindE (Directory_WriteBack (raw_bytes raw) (directoryFile fs) directory d) (\<lambda>d.
          Inr (fs, d))))))))))))
      else bindE (open_tables d) (\<lambda>fs. Inr (fs, d)))"

definition fetch_directory :: "Raw \<Rightarrow> DiskFS \<Rightarrow> sectors \<Rightarrow> Directory result" where
  \<comment> \<open>\<open>directory = new Directory(NumDirEntries); directory->FetchFrom(directoryFile)\<close>\<close>
  "fetch_directory raw fs d = bindE (Directory_new (raw_entries raw) NumDirEntries) (\<lambda>directory.
     Directory_FetchFrom (raw_bytes raw) (directoryFile fs) directory d)"

definition DiskFS_Create :: "Raw \<Rightarrow> byte list \<Rightarrow> int \<Rightarrow> DiskFS \<Rightarrow> sectors \<Rightarrow> (bool \<times> sectors) result" where
  "DiskFS_Create raw nm initialSize fs d =
     bindE (fetch_directory raw fs d) (\<lambda>directory.
     bindE (Directory_Find nm directory) (\<lambda>found.
       if found \<noteq> -1 then Inr (False, d)
       else bindE (PersistentBitmap_open (raw_bytes raw) (freeMapFile fs) NumSectors d) (\<lambda>freeMap.
            bindE (Bitmap_FindAndSet freeMap) (\<lambda>(s, freeMap).
              if s = -1 then Inr (False, d)
              else bindE (Directory_Add nm s directory) (\<lambda>(added, directory).
                if \<not> added then Inr (False, d)
                else bindE (Allocate (raw_header raw) freeMap initialSize) (\<lambda>(done, h, freeMap).
                  if \<not> done then Inr (False, d)
                  else bindE (FileHeader_WriteBack h s d) (\<lambda>d.
                       bindE (Directory_WriteBack (raw_bytes raw) (directoryFile fs) directory d) (\<lambda>d.
                       bindE (PersistentBitmap_WriteBack (raw_bytes raw) (freeMapFile fs) freeMap d) (\<lambda>d.
                         Inr (True, d))))))))))"

definition DiskFS_Open :: "Raw \<Rightarrow> byte list \<Rightarrow> DiskFS \<Rightarrow> sectors \<Rightarrow> (DiskFile option) result" where
  \<comment> \<open>\<open>None\<close> for \<open>NULL\<close>\<close>
  "DiskFS_Open raw nm fs d =
     bindE (fetch_directory raw fs d) (\<lambda>directory.
     bindE (Directory_Find nm directory) (\<lambda>s.
       if s \<ge> 0 then bindE (OpenFile_new s d) (\<lambda>f. Inr (Some f)) else Inr None))"

definition DiskFS_Remove :: "Raw \<Rightarrow> byte list \<Rightarrow> DiskFS \<Rightarrow> sectors \<Rightarrow> (bool \<times> sectors) result" where
  "DiskFS_Remove raw nm fs d =
     bindE (fetch_directory raw fs d) (\<lambda>directory.
     bindE (Directory_Find nm directory) (\<lambda>s.
       if s = -1 then Inr (False, d)
       else bindE (FileHeader_FetchFrom s d) (\<lambda>fileHdr.
            bindE (PersistentBitmap_open (raw_bytes raw) (freeMapFile fs) NumSectors d) (\<lambda>freeMap.
            bindE (Deallocate fileHdr freeMap) (\<lambda>freeMap.
            bindE (Bitmap_Clear freeMap s) (\<lambda>freeMap.
            bindE (Directory_Remove nm directory) (\<lambda>(_, directory).
            bindE (PersistentBitmap_WriteBack (raw_bytes raw) (freeMapFile fs) freeMap d) (\<lambda>d.
            bindE (Directory_WriteBack (raw_bytes raw) (directoryFile fs) directory d) (\<lambda>d.
              Inr (True, d))))))))))"

definition DiskFS_List :: "Raw \<Rightarrow> DiskFS \<Rightarrow> sectors \<Rightarrow> (byte list) result" where
  "DiskFS_List raw fs d = bindE (fetch_directory raw fs d) Directory_List"

section \<open>The files on the disk\<close>

definition free_map :: "DiskFS \<Rightarrow> sectors \<Rightarrow> Bitmap" where
  "free_map fs d = \<lparr>numBits = NumSectors, numWords = 32, words = bytes_words (contents (hdr (freeMapFile fs)) d)\<rparr>"

definition directory :: "DiskFS \<Rightarrow> sectors \<Rightarrow> Directory" where
  "directory fs d = \<lparr>tableSize = NumDirEntries, table = bytes_table (contents (hdr (directoryFile fs)) d)\<rparr>"

definition entry_hdr :: "sectors \<Rightarrow> DirectoryEntry \<Rightarrow> FileHeader" where
  "entry_hdr d e = bytes_header (d ! nat (sector e))"

definition entry_sectors :: "sectors \<Rightarrow> DirectoryEntry \<Rightarrow> int list" where
  "entry_sectors d e = sector e # data_of (entry_hdr d e)"

definition map_sectors :: "DiskFS \<Rightarrow> int list" where
  "map_sectors fs = data_of (hdr (freeMapFile fs))"

definition dir_sectors :: "DiskFS \<Rightarrow> int list" where
  "dir_sectors fs = data_of (hdr (directoryFile fs))"

definition owned :: "DiskFS \<Rightarrow> sectors \<Rightarrow> int list" where
  "owned fs d = [FreeMapSector, DirectorySector] @ map_sectors fs @ dir_sectors fs @ concat (map (entry_sectors d) (used (directory fs d)))"

definition file_list :: "sectors \<Rightarrow> DirectoryEntry list \<Rightarrow> (byte list \<times> byte list) list" where
  "file_list d es = map (\<lambda>e. (key (entry_name e), contents (entry_hdr d e) d)) es"

definition files :: "DiskFS \<Rightarrow> sectors \<Rightarrow> byte list \<Rightarrow> byte list option" where
  "files fs d = map_of (file_list d (used (directory fs d)))"

definition tables_ok :: "DiskFS \<Rightarrow> sectors \<Rightarrow> bool" where
  \<comment> \<open>the two open files\<close>
  "tables_ok fs d \<longleftrightarrow> disk_ok d \<and> header_ok (hdr (freeMapFile fs)) \<and> header_ok (hdr (directoryFile fs)) \<and>
     numBytes (hdr (freeMapFile fs)) = FreeMapFileSize \<and> numBytes (hdr (directoryFile fs)) = DirectoryFileSize \<and>
     bytes_header (d ! 0) = hdr (freeMapFile fs) \<and> bytes_header (d ! 1) = hdr (directoryFile fs) \<and>
     distinct ([FreeMapSector, DirectorySector] @ map_sectors fs @ dir_sectors fs)"

definition fs_ok :: "DiskFS \<Rightarrow> sectors \<Rightarrow> bool" where
  "fs_ok fs d \<longleftrightarrow> tables_ok fs d \<and> dir_ok (directory fs d) \<and> (\<forall>e \<in> set (used (directory fs d)). header_ok (entry_hdr d e)) \<and>
     distinct (owned fs d) \<and> set (owned fs d) = marked (free_map fs d)"

definition raw_ok :: "Raw \<Rightarrow> bool" where
  \<comment> \<open>the memory of a C object has the size of the object\<close>
  "raw_ok raw \<longleftrightarrow> (\<forall>i. entry_ok (raw_entries raw i)) \<and> header_fits (raw_header raw)"

section \<open>The tables in memory and on disk\<close>

lemma contents_cong: "\<forall>s \<in> set (data_of h). d' ! nat s = d ! nat s \<Longrightarrow> contents h d' = contents h d"
  by (simp add: contents_def file_blocks_def cong: map_cong)

lemma same_elsewhereD:
  assumes "header_ok h" and "same_elsewhere h d d'" and "0 \<le> s" and "s \<notin> set (data_of h)"
  shows "d' ! nat s = d ! nat s"
proof -
  have "nat s \<notin> nat ` set (data_of h)"
    using assms(1,3,4) by (auto simp: header_ok_def subset_iff eq_nat_nat_iff)
  then show ?thesis using assms(2) by (simp add: same_elsewhere_def)
qed

lemma tables_okD:
  assumes "tables_ok fs d"
  shows "file_ok (freeMapFile fs) d" "file_ok (directoryFile fs) d" "wf_Bitmap (free_map fs d)" "numBits (free_map fs d) = NumSectors"
    "table_ok (table (directory fs d))" "length (table (directory fs d)) = 10" "tableSize (directory fs d) = 10"
proof -
  show f: "file_ok (freeMapFile fs) d" "file_ok (directoryFile fs) d" using assms by (simp_all add: tables_ok_def file_ok_def)
  then have "length (contents (hdr (freeMapFile fs)) d) = 128" "length (contents (hdr (directoryFile fs)) d) = 200"
    using assms by (simp_all add: tables_ok_def file_blocks_ok(3))
  then show "wf_Bitmap (free_map fs d)" "numBits (free_map fs d) = NumSectors"
    "table_ok (table (directory fs d))" "length (table (directory fs d)) = 10" "tableSize (directory fs d) = 10"
    by (simp_all add: wf_Bitmap_def free_map_def divRoundUp_def directory_def bytes_table_ok)
qed

lemma fetch_directory_ok:
  assumes "tables_ok fs d" and "raw_ok raw"
  shows "fetch_directory raw fs d = Inr (directory fs d)"
proof -
  obtain dir where "Directory_new (raw_entries raw) NumDirEntries = Inr dir" "dir_ok dir" "tableSize dir = NumDirEntries"
    using Directory_new_ok [of NumDirEntries "raw_entries raw"] assms(2) by (auto simp: raw_ok_def)
  then show ?thesis
    using Directory_FetchFrom_ok [OF tables_okD(2) [OF assms(1)], of dir "raw_bytes raw"] assms(1)
    by (simp add: fetch_directory_def tables_ok_def dir_ok_def directory_def)
qed

lemma fetch_map_ok: "tables_ok fs d \<Longrightarrow> PersistentBitmap_open memory (freeMapFile fs) NumSectors d = Inr (free_map fs d)"
  using PersistentBitmap_open_ok [OF tables_okD(1)] by (simp add: tables_ok_def free_map_def)

lemma tables_ok_frame:
  assumes "tables_ok fs d" and "disk_ok d'" and "d' ! 0 = d ! 0" "d' ! 1 = d ! 1"
  shows "tables_ok fs d'"
  using assms by (simp add: tables_ok_def)

lemma save_directory:
  assumes t: "tables_ok fs d" and "dir_ok dir" and "tableSize dir = NumDirEntries"
  shows "\<exists>d'. Directory_WriteBack memory (directoryFile fs) dir d = Inr d' \<and> tables_ok fs d' \<and> directory fs d' = dir \<and>
    free_map fs d' = free_map fs d \<and> (\<forall>s \<ge> 0. s \<notin> set (dir_sectors fs) \<longrightarrow> d' ! nat s = d ! nat s)"
proof -
  have "numBytes (hdr (directoryFile fs)) = tableSize dir * 20" using t assms(3) by (simp add: tables_ok_def)
  then obtain d' where d': "Directory_WriteBack memory (directoryFile fs) dir d = Inr d'" "file_ok (directoryFile fs) d'"
    "same_elsewhere (hdr (directoryFile fs)) d d'" "bytes_table (contents (hdr (directoryFile fs)) d') = table dir"
    using Directory_WriteBack_ok [OF tables_okD(2) [OF t] _ assms(2)] by blast
  have out: "d' ! nat s = d ! nat s" if "0 \<le> s" "s \<notin> set (dir_sectors fs)" for s
    by (rule same_elsewhereD [OF _ d'(3)]) (use that t in \<open>simp_all add: dir_sectors_def tables_ok_def\<close>)
  have "tables_ok fs d'"
    using t d'(2) out [of 0] out [of 1] by (intro tables_ok_frame [OF t]) (auto simp: tables_ok_def file_ok_def)
  moreover have "set (map_sectors fs) \<subseteq> {0..<NumSectors} - set (dir_sectors fs)"
    using t by (auto simp: tables_ok_def header_ok_def map_sectors_def)
  then have "free_map fs d' = free_map fs d"
    using out by (auto simp: free_map_def map_sectors_def intro!: arg_cong [of _ _ bytes_words] contents_cong)
  moreover have "directory fs d' = dir" using d'(4) assms(3) by (simp add: directory_def)
  ultimately show ?thesis using d'(1) out by blast
qed

lemma save_map:
  assumes t: "tables_ok fs d" and b: "wf_Bitmap b" "numBits b = NumSectors"
  shows "\<exists>d'. PersistentBitmap_WriteBack memory (freeMapFile fs) b d = Inr d' \<and> tables_ok fs d' \<and> directory fs d' = directory fs d \<and>
    free_map fs d' = b \<and> (\<forall>s \<ge> 0. s \<notin> set (map_sectors fs) \<longrightarrow> d' ! nat s = d ! nat s)"
proof -
  have n: "numWords b = 32" using b by (simp add: wf_Bitmap_def divRoundUp_def)
  then have "numBytes (hdr (freeMapFile fs)) = numWords b * 4" using t by (simp add: tables_ok_def)
  then obtain d' where d': "PersistentBitmap_WriteBack memory (freeMapFile fs) b d = Inr d'" "file_ok (freeMapFile fs) d'"
    "same_elsewhere (hdr (freeMapFile fs)) d d'" "bytes_words (contents (hdr (freeMapFile fs)) d') = words b"
    using PersistentBitmap_WriteBack_ok [OF tables_okD(1) [OF t] _ b(1)] by blast
  have out: "d' ! nat s = d ! nat s" if "0 \<le> s" "s \<notin> set (map_sectors fs)" for s
    by (rule same_elsewhereD [OF _ d'(3)]) (use that t in \<open>simp_all add: map_sectors_def tables_ok_def\<close>)
  have "tables_ok fs d'"
    using t d'(2) out [of 0] out [of 1] by (intro tables_ok_frame [OF t]) (auto simp: tables_ok_def file_ok_def)
  moreover have "set (dir_sectors fs) \<subseteq> {0..<NumSectors} - set (map_sectors fs)"
    using t by (auto simp: tables_ok_def header_ok_def dir_sectors_def)
  then have "directory fs d' = directory fs d"
    using out by (auto simp: directory_def dir_sectors_def intro!: arg_cong [of _ _ bytes_table] contents_cong)
  moreover have "free_map fs d' = b" using d'(4) n b(2) by (simp add: free_map_def)
  ultimately show ?thesis using d'(1) out by blast
qed

section \<open>What an operation leaves alone\<close>

lemma entry_frame:
  assumes "\<forall>s \<in> set (entry_sectors d e). d' ! nat s = d ! nat s"
  shows "entry_hdr d' e = entry_hdr d e" "entry_sectors d' e = entry_sectors d e" "contents (entry_hdr d e) d' = contents (entry_hdr d e) d"
  using assms by (auto simp: entry_sectors_def entry_hdr_def intro!: contents_cong)

lemma fs_okD:
  assumes "fs_ok fs d"
  shows "tables_ok fs d" "dir_ok (directory fs d)" "set (owned fs d) \<subseteq> {0..<NumSectors}" "distinct (owned fs d)"
    "set (owned fs d) = marked (free_map fs d)"
    "e \<in> set (used (directory fs d)) \<Longrightarrow> header_ok (entry_hdr d e)"
    "e \<in> set (used (directory fs d)) \<Longrightarrow> set (entry_sectors d e) \<subseteq> {0..<NumSectors} - set ([FreeMapSector, DirectorySector] @ map_sectors fs @ dir_sectors fs)"
proof -
  show t: "tables_ok fs d" "dir_ok (directory fs d)" "distinct (owned fs d)" "set (owned fs d) = marked (free_map fs d)"
    "e \<in> set (used (directory fs d)) \<Longrightarrow> header_ok (entry_hdr d e)" using assms by (simp_all add: fs_ok_def)
  show r: "set (owned fs d) \<subseteq> {0..<NumSectors}" unfolding t(4) using marked_subset [of "free_map fs d"] by (simp add: free_map_def)
  show "set (entry_sectors d e) \<subseteq> {0..<NumSectors} - set ([FreeMapSector, DirectorySector] @ map_sectors fs @ dir_sectors fs)"
    if "e \<in> set (used (directory fs d))"
    using that r t(3) by (auto simp: owned_def)
qed

lemma keys_files: "dom (files fs d) = set (keys (directory fs d))"
  by (simp add: files_def file_list_def keys_def dom_map_of_conv_image_fst image_image)

lemma card_files: "fs_ok fs d \<Longrightarrow> card (dom (files fs d)) = length (used (directory fs d))"
  using fs_okD(2) [of fs d] distinct_card [of "keys (directory fs d)"] by (simp add: keys_files dir_ok_def) (simp add: keys_def)

lemma insert_block:
  assumes "distinct (A @ B)" and "distinct N" and "set N \<inter> set (A @ B) = {}"
  shows "distinct (A @ N @ B)" "set (A @ N @ B) = set (A @ B) \<union> set N"
  using assms by auto

lemma remove_block:
  assumes "distinct (A @ N @ B)"
  shows "distinct (A @ B)" "set (A @ B) = set (A @ N @ B) - set N"
  using assms by auto

lemma block_apart: "distinct (A @ (s # N) @ B) \<Longrightarrow> k \<in> set A \<union> {s} \<union> set B \<Longrightarrow> k \<notin> set N"
  by auto

lemma map_of_middle: "k \<notin> fst ` set xs \<Longrightarrow> map_of (xs @ (k, v) # ys) = (map_of (xs @ ys))(k \<mapsto> v)"
  by (induction xs) (auto simp: fun_upd_twist)

lemma map_of_without:
  assumes "k \<notin> fst ` set xs" and "k \<notin> fst ` set ys"
  shows "map_of (xs @ ys) = (map_of (xs @ (k, v) # ys))(k := None)"
proof -
  have "map_of (xs @ ys) k = None" using assms by (auto simp: map_of_eq_None_iff)
  then show ?thesis using map_of_middle [OF assms(1), of v ys] by (metis fun_upd_triv fun_upd_upd)
qed

lemma file_list_simps [simp]:
  "file_list d (us @ vs) = file_list d us @ file_list d vs"
  "file_list d (e # es) = (key (entry_name e), contents (entry_hdr d e) d) # file_list d es"
  by (simp_all add: file_list_def)

lemma file_list_keys: "fst ` set (file_list d es) = set (map (\<lambda>e. key (entry_name e)) es)"
  by (simp add: file_list_def image_image)

lemma entries_frame:
  assumes "\<forall>e \<in> set es. \<forall>s \<in> set (entry_sectors d e). d' ! nat s = d ! nat s"
  shows "map (entry_sectors d') es = map (entry_sectors d) es"
    "file_list d' es = file_list d es"
    "e \<in> set es \<Longrightarrow> entry_hdr d' e = entry_hdr d e"
proof -
  have *: "entry_hdr d' e = entry_hdr d e" "entry_sectors d' e = entry_sectors d e" "contents (entry_hdr d e) d' = contents (entry_hdr d e) d"
    if "e \<in> set es" for e using entry_frame [of d e d'] assms that by simp_all
  then show "map (entry_sectors d') es = map (entry_sectors d) es"
    "file_list d' es = file_list d es"
    "e \<in> set es \<Longrightarrow> entry_hdr d' e = entry_hdr d e" by (simp_all add: file_list_def)
qed

abbreviation free_sectors :: "DiskFS \<Rightarrow> sectors \<Rightarrow> int" where
  "free_sectors fs d \<equiv> NumSectors - int (card (marked (free_map fs d)))"

section \<open>Create\<close>

text \<open>The three writes of a successful \<open>Create\<close>: the header, the directory, the free map.\<close>

lemma commit_create:
  assumes ok: "fs_ok fs d" and h: "header_ok h" "header_fits h" and s: "s \<in> {0..<NumSectors}"
    and new: "distinct (s # data_of h)" "set (s # data_of h) \<inter> set (owned fs d) = {}"
    and dir: "dir_ok dir" "tableSize dir = NumDirEntries" "used (directory fs d) = us @ vs" "used dir = us @ e # vs" "sector e = s"
    and fm: "wf_Bitmap fm" "numBits fm = NumSectors" "marked fm = marked (free_map fs d) \<union> set (s # data_of h)"
  shows "\<exists>d1 d2 d3. FileHeader_WriteBack h s d = Inr d1 \<and> Directory_WriteBack memory (directoryFile fs) dir d1 = Inr d2 \<and>
    PersistentBitmap_WriteBack memory (freeMapFile fs) fm d2 = Inr d3 \<and> fs_ok fs d3 \<and>
    files fs d3 = (files fs d)(key (entry_name e) \<mapsto> contents h d3) \<and> length (contents h d3) = nat (numBytes h)"
proof -
  note o = fs_okD [OF ok]
  obtain d1 where d1: "FileHeader_WriteBack h s d = Inr d1" "disk_ok d1" "d1 = d[nat s := header_bytes h]" "FileHeader_FetchFrom s d1 = Inr h"
    using FetchFrom_WriteBack [OF _ h(2) s] o(1) by (auto simp: tables_ok_def)
  have s01: "s \<noteq> 0" "s \<noteq> 1" using new(2) by (auto simp: owned_def)
  then have f1: "d1 ! nat k = d ! nat k" if "0 \<le> k" "k \<noteq> s" for k using that s by (simp add: d1(3) nth_list_update eq_nat_nat_iff)
  have t1: "tables_ok fs d1" using tables_ok_frame [OF o(1) d1(2)] f1 [of 0] f1 [of 1] s01 by simp
  obtain d2 where d2: "Directory_WriteBack memory (directoryFile fs) dir d1 = Inr d2" "tables_ok fs d2" "directory fs d2 = dir"
    "\<forall>k \<ge> 0. k \<notin> set (dir_sectors fs) \<longrightarrow> d2 ! nat k = d1 ! nat k"
    using save_directory [OF t1 dir(1,2)] by blast
  obtain d3 where d3: "PersistentBitmap_WriteBack memory (freeMapFile fs) fm d2 = Inr d3" "tables_ok fs d3" "directory fs d3 = dir"
    "free_map fs d3 = fm" "\<forall>k \<ge> 0. k \<notin> set (map_sectors fs) \<longrightarrow> d3 ! nat k = d2 ! nat k"
    using save_map [OF d2(2) fm(1,2)] d2(3) by metis
  have out: "d3 ! nat k = d1 ! nat k" if "k \<in> {0..<NumSectors}" "k \<notin> set (map_sectors fs)" "k \<notin> set (dir_sectors fs)" for k
    using d2(4) d3(5) that by simp
  have old: "\<forall>x \<in> set (us @ vs). \<forall>k \<in> set (entry_sectors d x). d3 ! nat k = d ! nat k"
  proof (intro ballI)
    fix x k assume x: "x \<in> set (us @ vs)" "k \<in> set (entry_sectors d x)"
    have u: "x \<in> set (used (directory fs d))" using x(1) dir(3) by simp
    have k: "k \<in> {0..<NumSectors}" "k \<notin> set (map_sectors fs)" "k \<notin> set (dir_sectors fs)" using o(7) [OF u] x(2) by auto
    have "k \<noteq> s" using new(2) u x(2) by (auto simp: owned_def)
    then show "d3 ! nat k = d ! nat k" using out [OF k] f1 [of k] k(1) by simp
  qed
  note fr = entries_frame [OF old]
  have fl: "file_list d3 us = file_list d us" "file_list d3 vs = file_list d vs" using old by (auto intro: entries_frame(2))
  have hs: "bytes_header (d1 ! nat s) = h" using d1(4) ReadSector_ok [OF d1(2) s] by (simp add: FileHeader_FetchFrom_def)
  have eh: "entry_hdr d3 e = h" using out [OF s] new(2) hs dir(5) by (simp add: owned_def entry_hdr_def)
  have own: "owned fs d3 = [0, 1] @ map_sectors fs @ dir_sectors fs @ concat (map (entry_sectors d) us) @ (s # data_of h) @ concat (map (entry_sectors d) vs)"
    using fr(1) dir(4,5) eh by (simp add: owned_def d3(3) entry_sectors_def [of d3 e] cong: map_cong)
  have own0: "owned fs d = [0, 1] @ map_sectors fs @ dir_sectors fs @ concat (map (entry_sectors d) us) @ concat (map (entry_sectors d) vs)"
    using dir(3) by (simp add: owned_def)
  have "distinct (owned fs d3)" "set (owned fs d3) = marked fm"
    using insert_block [of "[0, 1] @ map_sectors fs @ dir_sectors fs @ concat (map (entry_sectors d) us)" "concat (map (entry_sectors d) vs)" "s # data_of h"]
      o(4) new fm(3) unfolding o(5) [symmetric] own own0 append_assoc by simp_all
  moreover have "header_ok (entry_hdr d3 x)" if x: "x \<in> set (used dir)" for x
  proof (cases "x = e")
    case False
    then have u: "x \<in> set (us @ vs)" using x dir(4) by auto
    then have "x \<in> set (used (directory fs d))" using dir(3) by simp
    then show ?thesis using fr(3) [OF u] o(6) by simp
  qed (simp add: eh h(1))
  ultimately have "fs_ok fs d3" using d3 dir(1) by (simp add: fs_ok_def)
  moreover have "key (entry_name e) \<notin> fst ` set (file_list d us)"
    using dir(1) unfolding file_list_keys by (auto simp: dir_ok_def keys_def dir(4))
  then have "files fs d3 = (files fs d)(key (entry_name e) \<mapsto> contents h d3)"
    using map_of_middle [of "key (entry_name e)" "file_list d us"] fl by (simp add: files_def d3(3) dir(3,4) eh)
  moreover have "length (contents h d3) = nat (numBytes h)"
    using file_blocks_ok(3) [OF h(1)] d3(2) by (simp add: tables_ok_def)
  ultimately show ?thesis using d1(1) d2(1) d3(1) by blast
qed

lemma found_sector:
  assumes "fs_ok fs d" and "e \<in> set (used (directory fs d))"
  shows "sector e \<in> {0..<NumSectors}"
  using fs_okD(7) [OF assms] by (simp add: entry_sectors_def)

lemma Create_ok:
  assumes ok: "fs_ok fs d" and raw: "raw_ok raw" and size: "0 \<le> initialSize" "initialSize \<le> MaxFileSize"
  shows "\<exists>done d'. DiskFS_Create raw nm initialSize fs d = Inr (done, d') \<and> fs_ok fs d' \<and>
    (done \<longleftrightarrow> key nm \<notin> dom (files fs d) \<and> card (dom (files fs d)) < 10 \<and> divRoundUp initialSize SectorSize < free_sectors fs d) \<and>
    (if done then \<exists>c. length c = nat initialSize \<and> files fs d' = (files fs d)(key nm \<mapsto> c) else d' = d)"
proof -
  note o = fs_okD [OF ok]
  let ?dir = "directory fs d" and ?fm = "free_map fs d"
  note td = tables_okD [OF o(1)]
  have fetch: "fetch_directory raw fs d = Inr ?dir" "PersistentBitmap_open (raw_bytes raw) (freeMapFile fs) NumSectors d = Inr ?fm"
    using fetch_directory_ok [OF o(1) raw] fetch_map_ok [OF o(1)] by simp_all
  show ?thesis
  proof (cases "key nm \<in> set (keys ?dir)")
    case True
    obtain e where "e \<in> set (used ?dir)" "Directory_Find nm ?dir = Inr (sector e)"
      by (rule Find_present [OF o(2) True]) auto
    then have "DiskFS_Create raw nm initialSize fs d = Inr (False, d)"
      using found_sector [OF ok, of e] fetch by (simp add: DiskFS_Create_def)
    then show ?thesis using ok True by (auto simp: keys_files)
  next
    case absent: False
    have find: "Directory_Find nm ?dir = Inr (-1)" by (rule Find_absent(2) [OF o(2) absent])
    show ?thesis
    proof (cases "marked ?fm = {0..<NumSectors}")
      case True
      then have "DiskFS_Create raw nm initialSize fs d = Inr (False, d)"
        using fetch find FindAndSet_full [OF td(3)] td(4) by (simp add: DiskFS_Create_def)
      moreover have "free_sectors fs d = 0" using True by simp
      ultimately show ?thesis using ok divRoundUp_sectors(1) [OF size] by auto
    next
      case False
      then obtain s fm1 where s: "Bitmap_FindAndSet ?fm = Inr (s, fm1)" "s \<in> {0..<NumSectors}" "s \<notin> marked ?fm"
        "wf_Bitmap fm1" "numBits fm1 = NumSectors" "marked fm1 = insert s (marked ?fm)"
        using FindAndSet_free [OF td(3)] td(4) by auto
      show ?thesis
      proof (cases "length (used ?dir) = length (table ?dir)")
        case True
        then have "DiskFS_Create raw nm initialSize fs d = Inr (False, d)"
          using fetch find s(1,2) Add_full [OF o(2) True] by (simp add: DiskFS_Create_def)
        moreover have "card (dom (files fs d)) = 10" using card_files [OF ok] True td(6) by simp
        ultimately show ?thesis using ok by auto
      next
        case room: False
        have s32: "fits32 s" using s(2) by simp
        obtain us e vs dir' where a: "Directory_Add nm s ?dir = Inr (True, dir')" "used ?dir = us @ vs" "used dir' = us @ e # vs"
          "key (entry_name e) = key nm" "sector e = s" "dir_ok dir'" "tableSize dir' = tableSize ?dir"
          by (rule Add_room [OF o(2) absent room s32])
        have "length (used ?dir) < 10" using room td(6) length_filter_le [of inUse "table ?dir"] by (simp add: used_def)
        then have few: "card (dom (files fs d)) < 10" using card_files [OF ok] by simp
        have free1: "NumSectors - int (card (marked fm1)) = free_sectors fs d - 1" using s(3,6) by simp
        have start: "DiskFS_Create raw nm initialSize fs d =
            bindE (Allocate (raw_header raw) fm1 initialSize) (\<lambda>(done, h, freeMap).
              if \<not> done then Inr (False, d)
              else bindE (FileHeader_WriteBack h s d) (\<lambda>d.
                   bindE (Directory_WriteBack (raw_bytes raw) (directoryFile fs) dir' d) (\<lambda>d.
                   bindE (PersistentBitmap_WriteBack (raw_bytes raw) (freeMapFile fs) freeMap d) (\<lambda>d. Inr (True, d)))))"
          using fetch find s(1,2) a(1) by (simp add: DiskFS_Create_def)
        show ?thesis
        proof (cases "divRoundUp initialSize SectorSize < free_sectors fs d")
          case False
          then have "NumSectors - int (card (marked fm1)) < divRoundUp initialSize SectorSize" using free1 by simp
          then obtain h where "Allocate (raw_header raw) fm1 initialSize = Inr (False, h, fm1)"
            using Allocate_full [OF s(4,5)] by blast
          then show ?thesis using start ok False by auto
        next
          case True
          then have "divRoundUp initialSize SectorSize \<le> NumSectors - int (card (marked fm1))" using free1 by simp
          moreover have "length (dataSectors (raw_header raw)) = NumDirect" using raw by (simp add: raw_ok_def header_fits_def)
          ultimately obtain h fm2 where h: "Allocate (raw_header raw) fm1 initialSize = Inr (True, h, fm2)" "header_ok h" "numBytes h = initialSize"
            "set (data_of h) \<inter> marked fm1 = {}" "set (dataSectors h) \<subseteq> set (data_of h) \<union> set (dataSectors (raw_header raw))"
            "wf_Bitmap fm2" "numBits fm2 = NumSectors" "marked fm2 = marked fm1 \<union> set (data_of h)"
            using Allocate_ok [OF s(4) _ size s(5)] by blast
          have fits: "header_fits h"
            using allocated_fits [OF h(2) _ h(5)] raw by (simp add: raw_ok_def)
          have new: "distinct (s # data_of h)" "set (s # data_of h) \<inter> set (owned fs d) = {}"
            "marked fm2 = marked ?fm \<union> set (s # data_of h)"
            using h(2,4,8) s(3,6) o(5) by (auto simp: header_ok_def)
          have ts: "tableSize dir' = NumDirEntries" using a(7) td(7) by simp
          from commit_create [OF ok h(2) fits s(2) new(1,2) a(6) ts a(2,3,5) h(6,7) new(3)]
          obtain d1 d2 d3 where "FileHeader_WriteBack h s d = Inr d1" "Directory_WriteBack (raw_bytes raw) (directoryFile fs) dir' d1 = Inr d2"
            "PersistentBitmap_WriteBack (raw_bytes raw) (freeMapFile fs) fm2 d2 = Inr d3" "fs_ok fs d3"
            "files fs d3 = (files fs d)(key (entry_name e) \<mapsto> contents h d3)" "length (contents h d3) = nat (numBytes h)" by blast
          then show ?thesis
            using start h(1,3) a(4) absent few True by (auto simp: keys_files)
        qed
      qed
    qed
  qed
qed

section \<open>Remove\<close>

lemma commit_remove:
  assumes ok: "fs_ok fs d" and e: "used (directory fs d) = us @ e # vs"
    and dir: "dir_ok dir" "tableSize dir = NumDirEntries" "used dir = us @ vs"
    and fm: "wf_Bitmap fm" "numBits fm = NumSectors" "marked fm = marked (free_map fs d) - set (entry_sectors d e)"
  shows "\<exists>d1 d2. PersistentBitmap_WriteBack memory (freeMapFile fs) fm d = Inr d1 \<and> Directory_WriteBack memory (directoryFile fs) dir d1 = Inr d2 \<and>
    fs_ok fs d2 \<and> files fs d2 = (files fs d)(key (entry_name e) := None)"
proof -
  note o = fs_okD [OF ok]
  obtain d1 where d1: "PersistentBitmap_WriteBack memory (freeMapFile fs) fm d = Inr d1" "tables_ok fs d1"
    "free_map fs d1 = fm" "\<forall>k \<ge> 0. k \<notin> set (map_sectors fs) \<longrightarrow> d1 ! nat k = d ! nat k"
    using save_map [OF o(1) fm(1,2)] by blast
  obtain d2 where d2: "Directory_WriteBack memory (directoryFile fs) dir d1 = Inr d2" "tables_ok fs d2" "directory fs d2 = dir"
    "free_map fs d2 = fm" "\<forall>k \<ge> 0. k \<notin> set (dir_sectors fs) \<longrightarrow> d2 ! nat k = d1 ! nat k"
    using save_directory [OF d1(2) dir(1,2)] d1(3) by metis
  have old: "\<forall>x \<in> set (us @ vs). \<forall>k \<in> set (entry_sectors d x). d2 ! nat k = d ! nat k"
  proof (intro ballI)
    fix x k assume x: "x \<in> set (us @ vs)" "k \<in> set (entry_sectors d x)"
    have u: "x \<in> set (used (directory fs d))" using x(1) e by auto
    have k: "k \<in> {0..<NumSectors}" "k \<notin> set (map_sectors fs)" "k \<notin> set (dir_sectors fs)" using o(7) [OF u] x(2) by auto
    then show "d2 ! nat k = d ! nat k" using d1(4) d2(5) by simp
  qed
  note fr = entries_frame [OF old]
  let ?A = "[0, 1] @ map_sectors fs @ dir_sectors fs @ concat (map (entry_sectors d) us)" and ?B = "concat (map (entry_sectors d) vs)"
  have own: "owned fs d2 = ?A @ ?B" using fr(1) dir(3) by (simp add: owned_def d2(3) cong: map_cong)
  have own0: "owned fs d = ?A @ entry_sectors d e @ ?B" using e by (simp add: owned_def)
  have "distinct (owned fs d2)" "set (owned fs d2) = marked fm"
    using remove_block [of ?A "entry_sectors d e" ?B] o(4) fm(3) unfolding o(5) [symmetric] own own0 by simp_all
  moreover have "header_ok (entry_hdr d2 x)" if "x \<in> set (used dir)" for x
    using that fr(3) [of x] o(6) [of x] e dir(3) by auto
  ultimately have "fs_ok fs d2" using d2 dir(1) by (simp add: fs_ok_def)
  moreover have "key (entry_name e) \<notin> fst ` set (file_list d us)" "key (entry_name e) \<notin> fst ` set (file_list d vs)"
    using o(2) unfolding file_list_keys by (auto simp: dir_ok_def keys_def e)
  then have "files fs d2 = (files fs d)(key (entry_name e) := None)"
    using map_of_without [of "key (entry_name e)" "file_list d us" "file_list d vs" "contents (entry_hdr d e) d"] fr(2)
    by (simp add: files_def d2(3) dir(3) e)
  ultimately show ?thesis using d1(1) d2(1) by blast
qed

lemma Remove_ok:
  assumes ok: "fs_ok fs d" and raw: "raw_ok raw"
  shows "\<exists>d'. DiskFS_Remove raw nm fs d = Inr (key nm \<in> dom (files fs d), d') \<and> fs_ok fs d' \<and>
    files fs d' = (files fs d)(key nm := None)"
proof -
  note o = fs_okD [OF ok]
  let ?dir = "directory fs d" and ?fm = "free_map fs d"
  note td = tables_okD [OF o(1)]
  have fetch: "fetch_directory raw fs d = Inr ?dir" "PersistentBitmap_open (raw_bytes raw) (freeMapFile fs) NumSectors d = Inr ?fm"
    using fetch_directory_ok [OF o(1) raw] fetch_map_ok [OF o(1)] by simp_all
  show ?thesis
  proof (cases "key nm \<in> set (keys ?dir)")
    case False
    then have "DiskFS_Remove raw nm fs d = Inr (False, d)"
      using fetch Find_absent(2) [OF o(2) False] by (simp add: DiskFS_Remove_def)
    moreover have "(files fs d)(key nm := None) = files fs d" using False keys_files [of fs d] by (auto simp: domIff)
    ultimately show ?thesis using ok False by (auto simp: keys_files)
  next
    case True
    obtain us e vs dir' where f: "used ?dir = us @ e # vs" "key (entry_name e) = key nm" "Directory_Find nm ?dir = Inr (sector e)"
      "Directory_Remove nm ?dir = Inr (True, dir')" "used dir' = us @ vs" "dir_ok dir'" "tableSize dir' = tableSize ?dir"
      by (rule Find_present [OF o(2) True])
    have e: "e \<in> set (used ?dir)" using f(1) by simp
    have s: "sector e \<in> {0..<NumSectors}" by (rule found_sector [OF ok e])
    have own: "set (entry_sectors d e) \<subseteq> marked ?fm" using e o(5) by (auto simp: owned_def)
    have hdr: "FileHeader_FetchFrom (sector e) d = Inr (entry_hdr d e)"
      using ReadSector_ok [of d "sector e"] s o(1) by (simp add: FileHeader_FetchFrom_def entry_hdr_def tables_ok_def)
    obtain fm1 where fm1: "Deallocate (entry_hdr d e) ?fm = Inr fm1" "wf_Bitmap fm1" "numBits fm1 = NumSectors"
      "marked fm1 = marked ?fm - set (data_of (entry_hdr d e))"
      using Deallocate_ok [OF td(3,4) o(6) [OF e]] own by (auto simp: entry_sectors_def)
    obtain fm2 where fm2: "Bitmap_Clear fm1 (sector e) = Inr fm2" "wf_Bitmap fm2" "numBits fm2 = NumSectors" "marked fm2 = marked fm1 - {sector e}"
      using Clear_in_range [OF fm1(2)] s fm1(3) by auto
    have m: "marked fm2 = marked ?fm - set (entry_sectors d e)" using fm1(4) fm2(4) by (auto simp: entry_sectors_def)
    have ts: "tableSize dir' = NumDirEntries" using f(7) td(7) by simp
    obtain d1 d2 where "PersistentBitmap_WriteBack (raw_bytes raw) (freeMapFile fs) fm2 d = Inr d1"
      "Directory_WriteBack (raw_bytes raw) (directoryFile fs) dir' d1 = Inr d2" "fs_ok fs d2" "files fs d2 = (files fs d)(key (entry_name e) := None)"
      using commit_remove [OF ok f(1,6) ts f(5) fm2(2,3) m] by blast
    then show ?thesis
      using fetch f(2,3,4) s hdr fm1(1) fm2(1) True by (auto simp: DiskFS_Remove_def keys_files)
  qed
qed

text \<open>With at most ten files of at most thirty sectors the disk is never full.\<close>

lemma room_on_disk:
  assumes ok: "fs_ok fs d" and few: "length (used (directory fs d)) < 10"
  shows "600 < free_sectors fs d"
proof -
  note o = fs_okD [OF ok]
  have m: "length (map_sectors fs) \<le> 30" "length (dir_sectors fs) \<le> 30"
    using o(1) header_okD(3) by (auto simp: tables_ok_def map_sectors_def dir_sectors_def)
  have "length (concat (map (entry_sectors d) es)) \<le> 31 * length es" if "set es \<subseteq> set (used (directory fs d))" for es
    using that
  proof (induction es)
    case (Cons e es)
    have "length (entry_sectors d e) \<le> 31" using header_okD(3) [OF o(6)] Cons.prems by (simp add: entry_sectors_def)
    then show ?case using Cons by simp
  qed simp
  from this [of "used (directory fs d)"] have "length (owned fs d) \<le> 62 + 31 * length (used (directory fs d))"
    using m by (simp add: owned_def)
  moreover have "card (marked (free_map fs d)) = length (owned fs d)"
    using distinct_card [OF o(4)] by (simp add: o(5))
  ultimately show ?thesis using few by simp
qed

section \<open>Open, and writing to an open file\<close>

definition is_open :: "DiskFS \<Rightarrow> sectors \<Rightarrow> byte list \<Rightarrow> DiskFile \<Rightarrow> bool" where
  "is_open fs d k f \<longleftrightarrow> (\<exists>e \<in> set (used (directory fs d)). key (entry_name e) = k \<and> hdr f = entry_hdr d e)"

lemma is_open_files:
  assumes "fs_ok fs d" and "is_open fs d k f"
  shows "files fs d k = Some (contents (hdr f) d)" "file_ok f d"
proof -
  obtain e where e: "e \<in> set (used (directory fs d))" "key (entry_name e) = k" "hdr f = entry_hdr d e" using assms(2) by (auto simp: is_open_def)
  have "distinct (map fst (file_list d (used (directory fs d))))"
    using fs_okD(2) [OF assms(1)] by (simp add: dir_ok_def keys_def file_list_def comp_def)
  moreover have "(k, contents (hdr f) d) \<in> set (file_list d (used (directory fs d)))" using e by (force simp: file_list_def)
  ultimately show "files fs d k = Some (contents (hdr f) d)" by (simp add: files_def)
  show "file_ok f d" using fs_okD(1,6) [OF assms(1)] e by (simp add: file_ok_def tables_ok_def)
qed

lemma Open_ok:
  assumes ok: "fs_ok fs d" and raw: "raw_ok raw"
  shows "if key nm \<in> dom (files fs d) then \<exists>f. DiskFS_Open raw nm fs d = Inr (Some f) \<and> seekPosition f = 0 \<and> is_open fs d (key nm) f
    else DiskFS_Open raw nm fs d = Inr None"
proof -
  note o = fs_okD [OF ok]
  let ?dir = "directory fs d"
  have fetch: "fetch_directory raw fs d = Inr ?dir" by (rule fetch_directory_ok [OF o(1) raw])
  show ?thesis
  proof (cases "key nm \<in> set (keys ?dir)")
    case True
    obtain e where e: "e \<in> set (used ?dir)" "key (entry_name e) = key nm" "Directory_Find nm ?dir = Inr (sector e)"
      by (rule Find_present [OF o(2) True]) auto
    then have "OpenFile_new (sector e) d = Inr \<lparr>hdr = entry_hdr d e, seekPosition = 0\<rparr>"
      using found_sector [OF ok e(1)] ReadSector_ok [of d "sector e"] o(1)
      by (simp add: OpenFile_new_def FileHeader_FetchFrom_def entry_hdr_def tables_ok_def)
    then show ?thesis
      using fetch e True found_sector [OF ok e(1)] by (auto simp: DiskFS_Open_def is_open_def keys_files)
  next
    case False
    then show ?thesis using fetch Find_absent(2) [OF o(2) False] by (simp add: DiskFS_Open_def keys_files)
  qed
qed

lemma WriteAt_files:
  assumes ok: "fs_ok fs d" and f: "is_open fs d k f" and pos: "0 \<le> position" "position + n < 2 ^ 31" "n \<le> int (length src)"
  shows "\<exists>m d'. OpenFile_WriteAt memory f src n position d = Inr (int m, d') \<and> m = length (part n position (contents (hdr f) d)) \<and>
    fs_ok fs d' \<and> is_open fs d' k f \<and> files fs d' = (files fs d)(k \<mapsto> over (contents (hdr f) d) (nat position) (take m src))"
proof -
  note o = fs_okD [OF ok]
  obtain us e vs where e: "used (directory fs d) = us @ e # vs" "key (entry_name e) = k" "hdr f = entry_hdr d e"
    using f by (auto simp: is_open_def in_set_conv_decomp)
  have ue: "e \<in> set (used (directory fs d))" using e(1) by simp
  let ?c = "contents (hdr f) d" let ?m = "length (part n position (contents (hdr f) d))"
  obtain d' where d': "OpenFile_WriteAt memory f src n position d = Inr (int ?m, d')" "file_ok f d'"
    "same_elsewhere (hdr f) d d'" "contents (hdr f) d' = over ?c (nat position) (take ?m src)"
    using disk_file.write_law [OF is_open_files(2) [OF ok f] pos] by blast
  have out: "d' ! nat k = d ! nat k" if "0 \<le> k" "k \<notin> set (data_of (entry_hdr d e))" for k
    using same_elsewhereD [OF _ d'(3) that(1)] that(2) e(3) o(6) [OF ue] by simp
  let ?A = "[0, 1] @ map_sectors fs @ dir_sectors fs @ concat (map (entry_sectors d) us)" and ?B = "concat (map (entry_sectors d) vs)"
  have own: "owned fs d = ?A @ (sector e # data_of (entry_hdr d e)) @ ?B" by (simp add: owned_def e(1) entry_sectors_def)
  have rest: "d' ! nat k = d ! nat k" if "k \<in> set ?A \<union> {sector e} \<union> set ?B" for k
  proof (rule out)
    show "k \<notin> set (data_of (entry_hdr d e))" using block_apart [OF o(4) [unfolded own] that] .
    have "k \<in> set (owned fs d)" unfolding own using that by (simp del: concat_append) blast
    then show "0 \<le> k" using o(3) by auto
  qed
  have t: "tables_ok fs d'" using tables_ok_frame [OF o(1)] rest [of 0] rest [of 1] d'(2) by (simp add: file_ok_def)
  have "contents (hdr (directoryFile fs)) d' = contents (hdr (directoryFile fs)) d" "contents (hdr (freeMapFile fs)) d' = contents (hdr (freeMapFile fs)) d"
    by (intro contents_cong ballI rest, simp add: dir_sectors_def, intro contents_cong ballI rest, simp add: map_sectors_def)
  then have same: "directory fs d' = directory fs d" "free_map fs d' = free_map fs d" by (simp_all add: directory_def free_map_def)
  have eh: "entry_hdr d' e = entry_hdr d e" using rest [of "sector e"] by (simp add: entry_hdr_def)
  have old: "\<forall>x \<in> set us \<union> set vs. \<forall>k \<in> set (entry_sectors d x). d' ! nat k = d ! nat k" by (intro ballI rest) auto
  have "entry_hdr d' x = entry_hdr d x" if "x \<in> set (used (directory fs d))" for x
    using that old entry_frame(1) [of d x d'] eh unfolding e(1) by auto
  then have hs: "\<forall>x \<in> set (used (directory fs d)). entry_hdr d' x = entry_hdr d x" by blast
  then have "owned fs d' = owned fs d" by (simp add: owned_def same entry_sectors_def cong: map_cong)
  then have "fs_ok fs d'" using ok t hs by (simp add: fs_ok_def same)
  moreover have "is_open fs d' k f" using f hs by (auto simp: is_open_def same)
  moreover have "file_list d' us = file_list d us" "file_list d' vs = file_list d vs" using old by (auto intro: entries_frame(2))
  moreover have "key (entry_name e) \<notin> fst ` set (file_list d us)"
    using o(2) unfolding file_list_keys by (auto simp: dir_ok_def keys_def e)
  ultimately have "files fs d' = (files fs d)(k \<mapsto> contents (hdr f) d')"
    using map_of_middle [of k "file_list d us"] by (simp add: files_def same e eh)
  then show ?thesis using d'(1,4) \<open>fs_ok fs d'\<close> \<open>is_open fs d' k f\<close> by auto
qed

section \<open>Formatting and restarting\<close>

lemma open_tables_ok:
  assumes "disk_ok d"
  shows "open_tables d = Inr \<lparr>freeMapFile = \<lparr>hdr = bytes_header (d ! 0), seekPosition = 0\<rparr>,
    directoryFile = \<lparr>hdr = bytes_header (d ! 1), seekPosition = 0\<rparr>\<rparr>"
  using ReadSector_ok [OF assms, of 0] ReadSector_ok [OF assms, of 1]
  by (simp add: open_tables_def OpenFile_new_def FileHeader_FetchFrom_def)

lemma fs_hdrs:
  assumes "hdr (freeMapFile fs') = hdr (freeMapFile fs)" and "hdr (directoryFile fs') = hdr (directoryFile fs)"
  shows "fs_ok fs' d = fs_ok fs d" "files fs' d = files fs d"
  using assms
  by (simp_all add: fs_ok_def tables_ok_def files_def directory_def free_map_def owned_def map_sectors_def dir_sectors_def)

lemma restart_ok:
  assumes "fs_ok fs d"
  shows "\<exists>fs'. DiskFS_new raw False d = Inr (fs', d) \<and> fs_ok fs' d \<and> files fs' d = files fs d"
proof -
  note t = fs_okD(1) [OF assms, unfolded tables_ok_def]
  let ?fs = "\<lparr>freeMapFile = \<lparr>hdr = bytes_header (d ! 0), seekPosition = 0\<rparr>, directoryFile = \<lparr>hdr = bytes_header (d ! 1), seekPosition = 0\<rparr>\<rparr>"
  have "DiskFS_new raw False d = Inr (?fs, d)" using open_tables_ok [of d] t by (simp add: DiskFS_new_def)
  moreover have "fs_ok ?fs d = fs_ok fs d" "files ?fs d = files fs d" using t by (auto intro!: fs_hdrs)
  ultimately show ?thesis using assms by auto
qed

lemma allocate_asserted_ok:
  assumes "wf_Bitmap fm" and "numBits fm = NumSectors" and "raw_ok raw" and "0 \<le> n" "n \<le> MaxFileSize" and "card (marked fm) \<le> 900"
  obtains h fm' where "allocate_asserted (raw_header raw) fm n = Inr (h, fm')" "header_ok h" "header_fits h" "numBytes h = n"
    "set (data_of h) \<inter> marked fm = {}" "wf_Bitmap fm'" "numBits fm' = NumSectors" "marked fm' = marked fm \<union> set (data_of h)"
proof -
  have "divRoundUp n SectorSize \<le> NumSectors - int (card (marked fm))" using divRoundUp_sectors(2) [OF assms(4,5)] assms(6) by linarith
  moreover have "length (dataSectors (raw_header raw)) = NumDirect" "header_fits (raw_header raw)" using assms(3) by (simp_all add: raw_ok_def header_fits_def)
  ultimately obtain h fm' where h: "Allocate (raw_header raw) fm n = Inr (True, h, fm')" "header_ok h" "numBytes h = n"
    "set (data_of h) \<inter> marked fm = {}" "set (dataSectors h) \<subseteq> set (data_of h) \<union> set (dataSectors (raw_header raw))"
    "wf_Bitmap fm'" "numBits fm' = NumSectors" "marked fm' = marked fm \<union> set (data_of h)" "header_fits (raw_header raw)"
    using Allocate_ok [OF assms(1) _ assms(4,5,2)] by blast
  then show thesis
    using that [of h fm'] allocated_fits [OF h(2,9,5)] by (simp add: allocate_asserted_def)
qed

lemma format_ok:
  assumes d: "disk_ok d" and raw: "raw_ok raw"
  shows "\<exists>fs d'. DiskFS_new raw True d = Inr (fs, d') \<and> fs_ok fs d' \<and> files fs d' = Map.empty"
proof -
  obtain b0 where b0: "PersistentBitmap_new NumSectors = Inr b0" "wf_Bitmap b0" "numBits b0 = NumSectors" "marked b0 = {}"
    using init_empty [of NumSectors] by (auto simp: PersistentBitmap_new_def)
  obtain dir where dir: "Directory_new (raw_entries raw) NumDirEntries = Inr dir" "dir_ok dir" "tableSize dir = NumDirEntries" "used dir = []"
    using Directory_new_ok [of NumDirEntries "raw_entries raw"] raw by (auto simp: raw_ok_def)
  obtain b1 where b1: "Bitmap_Mark b0 0 = Inr b1" "wf_Bitmap b1" "numBits b1 = NumSectors" "marked b1 = {0}"
    using Mark_in_range [OF b0(2), of 0] b0(3,4) by auto
  obtain b2 where b2: "Bitmap_Mark b1 1 = Inr b2" "wf_Bitmap b2" "numBits b2 = NumSectors" "marked b2 = {0, 1}"
    using Mark_in_range [OF b1(2), of 1] b1(3,4) by auto
  have "card (marked b2) \<le> 900" by (simp add: b2(4))
  then obtain h1 b3 where h1: "allocate_asserted (raw_header raw) b2 FreeMapFileSize = Inr (h1, b3)" "header_ok h1" "header_fits h1" "numBytes h1 = FreeMapFileSize"
    "set (data_of h1) \<inter> marked b2 = {}" "wf_Bitmap b3" "numBits b3 = NumSectors" "marked b3 = marked b2 \<union> set (data_of h1)"
    using allocate_asserted_ok [OF b2(2,3) raw, of FreeMapFileSize] by auto
  have "card (marked b3) \<le> card (marked b2) + card (set (data_of h1))" unfolding h1(8) by (rule card_Un_le)
  also have "\<dots> \<le> 2 + 30" using card_length [of "data_of h1"] header_okD(3) [OF h1(2)] by (simp add: b2(4))
  finally have "card (marked b3) \<le> 900" by simp
  then obtain h2 b4 where h2: "allocate_asserted (raw_header raw) b3 DirectoryFileSize = Inr (h2, b4)" "header_ok h2" "header_fits h2" "numBytes h2 = DirectoryFileSize"
    "set (data_of h2) \<inter> marked b3 = {}" "wf_Bitmap b4" "numBits b4 = NumSectors" "marked b4 = marked b3 \<union> set (data_of h2)"
    using allocate_asserted_ok [OF h1(6,7) raw, of DirectoryFileSize] by auto
  obtain d1 where d1: "FileHeader_WriteBack h1 FreeMapSector d = Inr d1" "disk_ok d1" "d1 = d[0 := header_bytes h1]"
    using FetchFrom_WriteBack [OF d h1(3), of 0] by auto
  obtain d2 where d2: "FileHeader_WriteBack h2 DirectorySector d1 = Inr d2" "disk_ok d2" "d2 = d1[1 := header_bytes h2]"
    using FetchFrom_WriteBack [OF d1(2) h2(3), of 1] by auto
  let ?fs = "\<lparr>freeMapFile = \<lparr>hdr = h1, seekPosition = 0\<rparr>, directoryFile = \<lparr>hdr = h2, seekPosition = 0\<rparr>\<rparr>"
  have "length d = 1024" using d by (simp add: disk_ok_def)
  then have hs: "bytes_header (d2 ! 0) = h1" "bytes_header (d2 ! 1) = h2"
    using d1(3) d2(3) header_round_trip h1(3) h2(3) by (simp_all add: nth_list_update)
  then have opened: "open_tables d2 = Inr ?fs" using open_tables_ok [OF d2(2)] by simp
  have dist: "distinct ([0, 1] @ data_of h1 @ data_of h2)"
    using h1(2,5) h2(2,5) by (auto simp: header_ok_def h1(8) b2(4))
  have t: "tables_ok ?fs d2" using d2(2) h1(2,4) h2(2,4) hs dist by (simp add: tables_ok_def map_sectors_def dir_sectors_def)
  obtain d3 where d3: "PersistentBitmap_WriteBack (raw_bytes raw) (freeMapFile ?fs) b4 d2 = Inr d3" "tables_ok ?fs d3" "free_map ?fs d3 = b4"
    using save_map [OF t h2(6,7)] by blast
  obtain d4 where d4: "Directory_WriteBack (raw_bytes raw) (directoryFile ?fs) dir d3 = Inr d4" "tables_ok ?fs d4" "directory ?fs d4 = dir" "free_map ?fs d4 = b4"
    using save_directory [OF d3(2) dir(2,3)] d3(3) by metis
  have "owned ?fs d4 = [0, 1] @ data_of h1 @ data_of h2" by (simp add: owned_def d4(3) dir(4) map_sectors_def dir_sectors_def)
  moreover have "set ([0, 1] @ data_of h1 @ data_of h2) = marked b4" by (auto simp: h2(8) h1(8) b2(4))
  ultimately have "fs_ok ?fs d4" using d4 dir(2,4) dist by (simp add: fs_ok_def)
  moreover have "files ?fs d4 = Map.empty" by (simp add: files_def file_list_def d4(3) dir(4))
  moreover have "DiskFS_new raw True d = Inr (?fs, d4)"
    using b0(1) dir(1) b1(1) b2(1) h1(1) h2(1) d1(1) d2(1) opened d3(1) d4(1) by (simp add: DiskFS_new_def)
  ultimately show ?thesis by blast
qed

end
