(* ===== verification/Disk_Spec.thy ===== *)
theory Disk_Spec
  imports Disk_FileSys
begin

text \<open>
  What the file system on the disk promises to its clients. A client formats the disk and then makes calls; the
  abstract state is the map \<open>files\<close> from names to bytes, and \<open>answers\<close> says which answer and which new map each call may have.
\<close>

section \<open>Calls\<close>

datatype FsCall =
    CallCreate "byte list" int
  | CallRemove "byte list"
  | CallRead "byte list" int int              \<comment> \<open>\<open>Open\<close>, then \<open>ReadAt\<close>: name, number of bytes, position\<close>
  | CallWrite "byte list" "byte list" int     \<comment> \<open>\<open>Open\<close>, then \<open>WriteAt\<close>: name, data, position\<close>
  | Restart                                   \<comment> \<open>a new \<open>FileSystem(FALSE)\<close>\<close>

datatype FsAnswer = Flag bool | NoFile | Bytes "byte list" | Wrote int | Ready

fun do_call :: "Raw \<Rightarrow> FsCall \<Rightarrow> DiskFS \<Rightarrow> sectors \<Rightarrow> (FsAnswer \<times> DiskFS \<times> sectors) result" where
  "do_call raw (CallCreate nm initialSize) fs d = bindE (DiskFS_Create raw nm initialSize fs d) (\<lambda>(r, d'). Inr (Flag r, fs, d'))"
| "do_call raw (CallRemove nm) fs d = bindE (DiskFS_Remove raw nm fs d) (\<lambda>(r, d'). Inr (Flag r, fs, d'))"
| "do_call raw (CallRead nm n position) fs d = bindE (DiskFS_Open raw nm fs d) (\<lambda>f. case f of
     None \<Rightarrow> Inr (NoFile, fs, d)
   | Some f \<Rightarrow> bindE (OpenFile_ReadAt (raw_bytes raw) f n position d) (\<lambda>(k, bs). Inr (Bytes bs, fs, d)))"
| "do_call raw (CallWrite nm data position) fs d = bindE (DiskFS_Open raw nm fs d) (\<lambda>f. case f of
     None \<Rightarrow> Inr (NoFile, fs, d)
   | Some f \<Rightarrow> bindE (OpenFile_WriteAt (raw_bytes raw) f data (int (length data)) position d) (\<lambda>(k, d'). Inr (Wrote k, fs, d')))"
| "do_call raw Restart fs d = bindE (DiskFS_new raw False d) (\<lambda>(fs', d'). Inr (Ready, fs', d'))"

fun do_calls :: "Raw \<Rightarrow> FsCall list \<Rightarrow> DiskFS \<Rightarrow> sectors \<Rightarrow> (FsAnswer list \<times> DiskFS \<times> sectors) result" where
  "do_calls raw [] fs d = Inr ([], fs, d)"
| "do_calls raw (c # cs) fs d = bindE (do_call raw c fs d) (\<lambda>(a, fs', d').
     bindE (do_calls raw cs fs' d') (\<lambda>(as, fs'', d''). Inr (a # as, fs'', d'')))"

definition format_and_run :: "Raw \<Rightarrow> FsCall list \<Rightarrow> sectors \<Rightarrow> (FsAnswer list \<times> DiskFS \<times> sectors) result" where
  "format_and_run raw cs d = bindE (DiskFS_new raw True d) (\<lambda>(fs, d'). do_calls raw cs fs d')"

fun call_ok :: "FsCall \<Rightarrow> bool" where
  "call_ok (CallCreate nm initialSize) \<longleftrightarrow> 0 \<le> initialSize \<and> initialSize \<le> MaxFileSize"
| "call_ok (CallRead nm n position) \<longleftrightarrow> 0 \<le> position \<and> position + n < 2 ^ 31"
| "call_ok (CallWrite nm data position) \<longleftrightarrow> 0 \<le> position \<and> position + int (length data) < 2 ^ 31"
| "call_ok _ \<longleftrightarrow> True"

section \<open>The specification\<close>

type_synonym FileMap = "byte list \<Rightarrow> byte list option"

fun answers :: "FsCall \<Rightarrow> FsAnswer \<Rightarrow> FileMap \<Rightarrow> FileMap \<Rightarrow> bool" where
  "answers (CallCreate nm initialSize) a m m' \<longleftrightarrow>
     (if key nm \<notin> dom m \<and> card (dom m) < 10
      then a = Flag True \<and> (\<exists>c. length c = nat initialSize \<and> m' = m(key nm \<mapsto> c))
      else a = Flag False \<and> m' = m)"
| "answers (CallRemove nm) a m m' \<longleftrightarrow> a = Flag (key nm \<in> dom m) \<and> m' = m(key nm := None)"
| "answers (CallRead nm n position) a m m' \<longleftrightarrow> m' = m \<and>
     a = (case m (key nm) of None \<Rightarrow> NoFile | Some c \<Rightarrow> Bytes (take (nat n) (drop (nat position) c)))"
| "answers (CallWrite nm data position) a m m' \<longleftrightarrow> (case m (key nm) of
     None \<Rightarrow> a = NoFile \<and> m' = m
   | Some c \<Rightarrow> (let k = min (length data) (length c - nat position) in
       a = Wrote (int k) \<and> m' = m(key nm \<mapsto> take (nat position) c @ take k data @ drop (nat position + k) c)))"
| "answers Restart a m m' \<longleftrightarrow> a = Ready \<and> m' = m"

fun answers_all :: "FsCall list \<Rightarrow> FsAnswer list \<Rightarrow> FileMap \<Rightarrow> FileMap \<Rightarrow> bool" where
  "answers_all [] as m m' \<longleftrightarrow> as = [] \<and> m' = m"
| "answers_all (c # cs) as m m' \<longleftrightarrow> (\<exists>a as' m1. as = a # as' \<and> answers c a m m1 \<and> answers_all cs as' m1 m')"

section \<open>Refinement\<close>

lemma write_spec:
  assumes "0 \<le> position" and "m (key nm) = Some c" and "k = length (part (int (length data)) position c)"
  shows "answers (CallWrite nm data position) (Wrote (int k)) m (m(key nm \<mapsto> over c (nat position) (take k data)))"
proof -
  have k: "k = min (length data) (length c - nat position)" using assms(3) by (simp add: part_def min.commute)
  then show ?thesis using assms(2) by (simp add: over_def Let_def)
qed

lemma do_call_ok:
  assumes ok: "fs_ok fs d" and raw: "raw_ok raw" and c: "call_ok c"
  shows "\<exists>a fs' d'. do_call raw c fs d = Inr (a, fs', d') \<and> fs_ok fs' d' \<and> answers c a (files fs d) (files fs' d')"
proof (cases c)
  case (CallCreate nm n)
  have room: "divRoundUp n SectorSize < free_sectors fs d" if "card (dom (files fs d)) < 10"
    using room_on_disk [OF ok] card_files [OF ok] that divRoundUp_sectors(2) [of n] c CallCreate by simp
  obtain r d' where r: "DiskFS_Create raw nm n fs d = Inr (r, d')" "fs_ok fs d'"
    "r \<longleftrightarrow> key nm \<notin> dom (files fs d) \<and> card (dom (files fs d)) < 10 \<and> divRoundUp n SectorSize < free_sectors fs d"
    "if r then \<exists>c. length c = nat n \<and> files fs d' = (files fs d)(key nm \<mapsto> c) else d' = d"
    using Create_ok [OF ok raw, of n nm] c CallCreate by auto
  have "r \<longleftrightarrow> key nm \<notin> dom (files fs d) \<and> card (dom (files fs d)) < 10" using r(3) room by blast
  then have "answers c (Flag r) (files fs d) (files fs d')" using r(4) unfolding CallCreate answers.simps by presburger
  moreover have "do_call raw c fs d = Inr (Flag r, fs, d')" using r(1) CallCreate by simp
  ultimately show ?thesis using r(2) by blast
next
  case (CallRemove nm)
  then show ?thesis using Remove_ok [OF ok raw, of nm] by auto
next
  case (CallRead nm n position)
  show ?thesis
  proof (cases "key nm \<in> dom (files fs d)")
    case True
    then obtain f where f: "DiskFS_Open raw nm fs d = Inr (Some f)" "is_open fs d (key nm) f"
      using Open_ok [OF ok raw, of nm] by auto
    have "OpenFile_ReadAt (raw_bytes raw) f n position d = Inr (int (length (part n position (contents (hdr f) d))), part n position (contents (hdr f) d))"
      by (rule disk_file.read_law [OF is_open_files(2) [OF ok f(2)]]) (use c CallRead in simp_all)
    then show ?thesis using ok f is_open_files(1) [OF ok f(2)] CallRead by (simp add: part_def)
  next
    case False
    then show ?thesis using Open_ok [OF ok raw, of nm] ok CallRead by (simp add: domIff)
  qed
next
  case (CallWrite nm data position)
  show ?thesis
  proof (cases "key nm \<in> dom (files fs d)")
    case True
    then obtain f where f: "DiskFS_Open raw nm fs d = Inr (Some f)" "is_open fs d (key nm) f"
      using Open_ok [OF ok raw, of nm] by auto
    obtain m d' where w: "OpenFile_WriteAt (raw_bytes raw) f data (int (length data)) position d = Inr (int m, d')"
      "m = length (part (int (length data)) position (contents (hdr f) d))" "fs_ok fs d'"
      "files fs d' = (files fs d)(key nm \<mapsto> over (contents (hdr f) d) (nat position) (take m data))"
      using WriteAt_files [OF ok f(2), where position = position and n = "int (length data)" and src = data and memory = "raw_bytes raw"]
        c CallWrite by auto
    have "answers c (Wrote (int m)) (files fs d) (files fs d')"
      unfolding w(4) CallWrite using write_spec [of position "files fs d" nm, OF _ is_open_files(1) [OF ok f(2)] w(2)] c CallWrite by simp
    moreover have "do_call raw c fs d = Inr (Wrote (int m), fs, d')" using f(1) w(1) CallWrite by simp
    ultimately show ?thesis using w(3) by blast
  next
    case False
    then show ?thesis using Open_ok [OF ok raw, of nm] ok CallWrite by (simp add: domIff)
  qed
next
  case Restart
  then show ?thesis using restart_ok [OF ok, of raw] by auto
qed

lemma do_calls_ok:
  assumes "fs_ok fs d" and "raw_ok raw" and "\<forall>c \<in> set cs. call_ok c"
  shows "\<exists>as fs' d'. do_calls raw cs fs d = Inr (as, fs', d') \<and> fs_ok fs' d' \<and> answers_all cs as (files fs d) (files fs' d')"
  using assms
proof (induction cs arbitrary: fs d)
  case (Cons c cs)
  obtain a fs1 d1 where 1: "do_call raw c fs d = Inr (a, fs1, d1)" "fs_ok fs1 d1" "answers c a (files fs d) (files fs1 d1)"
    using do_call_ok [OF Cons.prems(1,2), of c] Cons.prems(3) by auto
  obtain as fs2 d2 where "do_calls raw cs fs1 d1 = Inr (as, fs2, d2)" "fs_ok fs2 d2" "answers_all cs as (files fs1 d1) (files fs2 d2)"
    using Cons.IH [OF 1(2)] Cons.prems by auto
  with 1 show ?case by auto
qed auto

section \<open>Properties\<close>


definition blank :: sectors where
  "blank = replicate 1024 (replicate 128 0)"

definition raw0 :: Raw where
  "raw0 = \<lparr>raw_bytes = \<lambda>_. 0, raw_entries = \<lambda>_. \<lparr>inUse = True, sector = 7, entry_name = replicate 10 66, padding = replicate 5 0\<rparr>,
     raw_header = \<lparr>numBytes = 0, numSectors = 0, dataSectors = replicate 30 5\<rparr>\<rparr>"

lemma blank_ok: "disk_ok blank" "raw_ok raw0"
  by (simp_all add: disk_ok_def blank_def blocks_def raw_ok_def raw0_def entry_ok_def header_fits_def)




text \<open>C16. A file on the disk is an array of bytes. For an intact header and any request within the range of \<open>int\<close>, \<open>ReadAt\<close> returns the
  bytes of the file from the position on, as many as were asked for and are there, and \<open>WriteAt\<close> replaces just these bytes, reports
  their number, and changes no sector that is not a data sector of the file. The sectors at the edges, which it writes as a whole,
  keep the bytes of the file around the request.\<close>
theorem disk_file_refines_bytes:
  assumes "header_ok (hdr f)" and "disk_ok d" and "0 \<le> position" and "position + n < 2 ^ 31" and "n \<le> int (length src)"
  shows "let c = contents (hdr f) d; k = length (take (nat n) (drop (nat position) c)) in
    OpenFile_ReadAt memory f n position d = Inr (int k, take (nat n) (drop (nat position) c)) \<and>
    (\<exists>d'. OpenFile_WriteAt memory f src n position d = Inr (int k, d') \<and> length d' = length d \<and>
      contents (hdr f) d' = take (nat position) c @ take k src @ drop (nat position + k) c \<and>
      (\<forall>i. i \<notin> nat ` set (data_of (hdr f)) \<longrightarrow> d' ! i = d ! i))"
proof -
  let ?c = "contents (hdr f) d" and ?k = "length (part n position (contents (hdr f) d))"
  have f: "file_ok f d" using assms(1,2) by (simp add: file_ok_def)
  obtain d' where d': "OpenFile_WriteAt memory f src n position d = Inr (int ?k, d')" "file_ok f d'" "same_elsewhere (hdr f) d d'"
    "contents (hdr f) d' = over ?c (nat position) (take ?k src)"
    using disk_file.write_law [OF f assms(3-5)] by blast
  have "?k \<le> length src" using part_le [of n position ?c] assms(5) by linarith
  then have "contents (hdr f) d' = take (nat position) ?c @ take ?k src @ drop (nat position + ?k) ?c"
    using d'(4) by (simp add: over_def min_absorb2)
  then show ?thesis
    using disk_file.read_law [OF f assms(3,4), of memory] d'(1-3) assms(2)
    by (auto simp: part_def [symmetric] same_elsewhere_def file_ok_def disk_ok_def Let_def)
qed

definition file0 :: DiskFile where
  \<comment> \<open>200 bytes in the sectors 9 and 4\<close>
  "file0 = \<lparr>hdr = \<lparr>numBytes = 200, numSectors = 2, dataSectors = [9, 4] @ replicate 28 0\<rparr>, seekPosition = 0\<rparr>"

theorem disk_file_refines_bytes_witness:
  "\<exists>d'. OpenFile_WriteAt (\<lambda>_. 255) file0 [1, 2, 3, 4] 4 126 blank = Inr (4, d') \<and> contents (hdr file0) d' ! 129 = 4 \<and> d' ! 5 = blank ! 5"
proof -
  have h: "header_ok (hdr file0)" by (simp add: header_ok_def file0_def data_of_def divRoundUp_def)
  have l: "length (contents (hdr file0) blank) = 200" using file_blocks_ok(3) [OF h blank_ok(1)] by (simp add: file0_def)
  then have k: "length (take (nat 4) (drop (nat 126) (contents (hdr file0) blank))) = 4" by simp
  have "(5 :: nat) \<notin> nat ` set (data_of (hdr file0))" by (simp add: file0_def data_of_def)
  then show ?thesis
    using disk_file_refines_bytes [OF h blank_ok(1), of 126 4 "[1, 2, 3, 4]" "\<lambda>_. 255"] l
    unfolding Let_def k by (fastforce simp: nth_append)
qed

text \<open>\<open>Create\<close> does not refuse a file that is too long for its header. The header has room for thirty sector
  numbers, but nothing compares \<open>initialSize\<close> with \<open>MaxFileSize\<close>: for a new name and an initial size above it, with a
  free directory entry and enough free sectors, \<open>Allocate\<close> writes past the end of \<open>dataSectors\<close>. Nothing has reached the disk by then.\<close>
theorem oversized_file_overflows:
  assumes ok: "fs_ok fs d" and raw: "raw_ok raw" and "key nm \<notin> dom (files fs d)" and "card (dom (files fs d)) < 10"
    and "MaxFileSize < initialSize" and "divRoundUp initialSize SectorSize \<le> 600"
  shows "DiskFS_Create raw nm initialSize fs d = Inl BadAccess"
proof -
  note o = fs_okD [OF ok] and td = tables_okD [OF fs_okD(1) [OF ok]]
  have absent: "key nm \<notin> set (keys (directory fs d))" using assms(3) by (simp add: keys_files)
  have few: "length (used (directory fs d)) < 10" using card_files [OF ok] assms(4) by simp
  have room: "600 < free_sectors fs d" by (rule room_on_disk [OF ok few])
  then have "marked (free_map fs d) \<noteq> {0..<numBits (free_map fs d)}" using td(4) by auto
  then obtain s fm1 where s: "Bitmap_FindAndSet (free_map fs d) = Inr (s, fm1)" "s \<in> {0..<NumSectors}" "s \<notin> marked (free_map fs d)"
    "wf_Bitmap fm1" "numBits fm1 = NumSectors" "marked fm1 = insert s (marked (free_map fs d))"
    using FindAndSet_free [OF td(3)] td(4) by auto
  have "length (used (directory fs d)) \<noteq> length (table (directory fs d))" "fits32 s" using few td(6) s(2) by simp_all
  then obtain dir' where a: "Directory_Add nm s (directory fs d) = Inr (True, dir')"
    using Add_room [OF o(2) absent] by metis
  have "Allocate (raw_header raw) fm1 initialSize = Inl BadAccess"
    using raw room s(3,6) assms(5,6) by (intro Allocate_overflow [OF s(4,5)]) (simp_all add: raw_ok_def header_fits_def)
  then show ?thesis
    using fetch_directory_ok [OF o(1) raw] fetch_map_ok [OF o(1)] Find_absent(2) [OF o(2) absent] s(1,2) a
    by (simp add: DiskFS_Create_def)
qed

theorem oversized_file_overflows_witness:
  "\<exists>fs d. DiskFS_new raw0 True blank = Inr (fs, d) \<and> DiskFS_Create raw0 [97] 4000 fs d = Inl BadAccess"
proof -
  obtain fs d where f: "DiskFS_new raw0 True blank = Inr (fs, d)" "fs_ok fs d" "files fs d = Map.empty"
    using format_ok [OF blank_ok] by blast
  have "divRoundUp 4000 SectorSize \<le> 600" by (simp add: divRoundUp_def sdiv_nonneg smod_nonneg)
  then show ?thesis using f(1) oversized_file_overflows [OF f(2) blank_ok(2), of "[97]" 4000] f(3) by auto
qed

end
