(* ===== verification/Hash_Table.thy ===== *)
theory Hash_Table
  imports Lists Bitmap
begin

text \<open>
  Self-expanding hash tables: lib/hash.h and lib/hash.cc, and the driver of the library's self tests, lib/libtest.cc.

  The buckets are lists of \<open>Lists\<close>, each with the heap cells of its own elements. The two functions a table is built with, \<open>getKey\<close> and
  \<open>hash\<close>, are arguments. \<open>represents\<close> relates a table to the finite map from keys to items that it implements; the client of the map,
  the self test, is verified once in the locale \<open>keyed_table\<close>.
\<close>

section \<open>The table\<close>

type_synonym 'a bucket = "'a LHeap \<times> ListHead"

record 'a HashTable =
  buckets :: "'a bucket list"
  numBuckets :: int
  numItems :: int

definition InitialBuckets :: int where "InitialBuckets = 4"
definition ResizeRatio :: int where "ResizeRatio = 3"
definition IncreaseSizeBy :: int where "IncreaseSizeBy = 4"

definition Bucket_new :: "'a bucket" where
  \<comment> \<open>\<open>new List<T>\<close>\<close>
  "Bucket_new = (\<lparr>cells = \<lambda>_. None, l_free = 0\<rparr>, List_new)"

definition InitBuckets :: "int \<Rightarrow> 'a HashTable \<Rightarrow> 'a HashTable" where
  "InitBuckets sz t = t\<lparr>numBuckets := sz, buckets := replicate (nat sz) Bucket_new\<rparr>"

definition HashTable_new :: "'a HashTable" where
  "HashTable_new = InitBuckets InitialBuckets \<lparr>buckets = [], numBuckets = 0, numItems = 0\<rparr>"

definition HashTable_IsEmpty :: "'a HashTable \<Rightarrow> bool" where
  "HashTable_IsEmpty t \<longleftrightarrow> numItems t = 0"

definition HashTable_delete :: "'a HashTable \<Rightarrow> unit lres" where
  "HashTable_delete t = assertL (HashTable_IsEmpty t) (retL ())"

definition HashValue :: "('k \<Rightarrow> cint) \<Rightarrow> 'k \<Rightarrow> 'a HashTable \<Rightarrow> int lres" where
  \<comment> \<open>the remainder is taken of unsigned numbers\<close>
  "HashValue hash key t = (if numBuckets t = 0 then Some (Inl ArithTrap)
     else let result = uint (hash key) mod numBuckets t in assertL (0 \<le> result \<and> result < numBuckets t) (retL result))"

definition bucket_at :: "'a HashTable \<Rightarrow> int \<Rightarrow> ('a bucket) lres" where
  "bucket_at t i = Some (aget (buckets t) i)"

partial_function (option) find_loop :: "('a \<Rightarrow> 'k) \<Rightarrow> 'k \<Rightarrow> nat option \<Rightarrow> 'a LHeap \<Rightarrow> ('a option) lres" where
  "find_loop getKey key iterator h =
     (if Iterator_IsDone iterator then Some (Inr None)
      else bindL (Iterator_Item h iterator) (\<lambda>x.
        if key = getKey x then Some (Inr (Some x)) else bindL (Iterator_Next h iterator) (\<lambda>i. find_loop getKey key i h)))"

definition FindInBucket :: "('a \<Rightarrow> 'k) \<Rightarrow> int \<Rightarrow> 'k \<Rightarrow> 'a HashTable \<Rightarrow> ('a option) lres" where
  "FindInBucket getKey bucket key t = bindL (bucket_at t bucket) (\<lambda>(h, l). find_loop getKey key (ListIterator_new l) h)"

definition Find :: "('a \<Rightarrow> 'k) \<Rightarrow> ('k \<Rightarrow> cint) \<Rightarrow> 'k \<Rightarrow> 'a HashTable \<Rightarrow> ('a option) lres" where
  "Find getKey hash key t = bindL (HashValue hash key t) (\<lambda>bucket. FindInBucket getKey bucket key t)"

definition IsInTable :: "('a \<Rightarrow> 'k) \<Rightarrow> ('k \<Rightarrow> cint) \<Rightarrow> 'k \<Rightarrow> 'a HashTable \<Rightarrow> bool lres" where
  "IsInTable getKey hash key t = bindL (Find getKey hash key t) (\<lambda>r. retL (r \<noteq> None))"

partial_function (option) hashes_loop :: "('a \<Rightarrow> 'k) \<Rightarrow> ('k \<Rightarrow> cint) \<Rightarrow> int \<Rightarrow> 'a HashTable \<Rightarrow> nat option \<Rightarrow> 'a LHeap \<Rightarrow> unit lres" where
  "hashes_loop getKey hash i t iterator h =
     (if Iterator_IsDone iterator then Some (Inr ())
      else bindL (Iterator_Item h iterator) (\<lambda>x. bindL (HashValue hash (getKey x) t) (\<lambda>v.
        if i = v then bindL (Iterator_Next h iterator) (\<lambda>n. hashes_loop getKey hash i t n h) else Some (Inl AssertFailed))))"

fun check_buckets :: "('a \<Rightarrow> 'k) \<Rightarrow> ('k \<Rightarrow> cint) \<Rightarrow> 'a HashTable \<Rightarrow> int \<Rightarrow> 'a bucket list \<Rightarrow> int \<Rightarrow> int lres" where
  \<comment> \<open>the loop of \<open>SanityCheck\<close> from bucket \<open>i\<close> on\<close>
  "check_buckets getKey hash t i [] numFound = retL numFound"
| "check_buckets getKey hash t i ((h, l) # bs) numFound = bindL (List_SanityCheck h l) (\<lambda>_.
     bindL (hashes_loop getKey hash i t (ListIterator_new l) h) (\<lambda>_. check_buckets getKey hash t (i + 1) bs (numFound + numInList l)))"

definition HashTable_SanityCheck :: "('a \<Rightarrow> 'k) \<Rightarrow> ('k \<Rightarrow> cint) \<Rightarrow> 'a HashTable \<Rightarrow> unit lres" where
  "HashTable_SanityCheck getKey hash t = bindL (check_buckets getKey hash t 0 (buckets t) 0) (\<lambda>n. assertL (numItems t = n) (retL ()))"

definition put_in :: "('a \<Rightarrow> 'k) \<Rightarrow> ('k \<Rightarrow> cint) \<Rightarrow> 'a \<Rightarrow> 'a HashTable \<Rightarrow> ('a HashTable) lres" where
  \<comment> \<open>\<open>buckets[HashValue(getKey(item))]->Append(item)\<close>\<close>
  "put_in getKey hash x t = bindL (HashValue hash (getKey x) t) (\<lambda>i. bindL (bucket_at t i) (\<lambda>(h, l).
     bindL (Append x h l) (\<lambda>b. retL (t\<lparr>buckets := (buckets t)[nat i := b]\<rparr>))))"

partial_function (option) drain_bucket :: "('a \<Rightarrow> 'k) \<Rightarrow> ('k \<Rightarrow> cint) \<Rightarrow> 'a LHeap \<Rightarrow> ListHead \<Rightarrow> 'a HashTable \<Rightarrow> ('a HashTable) lres" where
  \<comment> \<open>\<open>while (!oldTable[i]->IsEmpty())\<close>\<close>
  "drain_bucket getKey hash h l t = (if IsEmpty l then Some (Inr t)
     else bindL (RemoveFront h l) (\<lambda>r. bindL (put_in getKey hash (fst r) t) (\<lambda>t1. drain_bucket getKey hash (fst (snd r)) (snd (snd r)) t1)))"

fun drain_all :: "('a \<Rightarrow> 'k) \<Rightarrow> ('k \<Rightarrow> cint) \<Rightarrow> 'a bucket list \<Rightarrow> 'a HashTable \<Rightarrow> ('a HashTable) lres" where
  "drain_all getKey hash [] t = retL t"
| "drain_all getKey hash ((h, l) # bs) t = bindL (drain_bucket getKey hash h l t) (drain_all getKey hash bs)"

definition ReHash :: "('a \<Rightarrow> 'k) \<Rightarrow> ('k \<Rightarrow> cint) \<Rightarrow> 'a HashTable \<Rightarrow> ('a HashTable) lres" where
  "ReHash getKey hash t = (let oldTable = buckets t in bindL (HashTable_SanityCheck getKey hash t) (\<lambda>_.
     bindL (drain_all getKey hash oldTable (InitBuckets (numBuckets t * IncreaseSizeBy) t)) (\<lambda>t1.
     bindL (HashTable_SanityCheck getKey hash t1) (\<lambda>_. retL t1))))"

definition HashTable_Insert :: "('a \<Rightarrow> 'k) \<Rightarrow> ('k \<Rightarrow> cint) \<Rightarrow> 'a \<Rightarrow> 'a HashTable \<Rightarrow> ('a HashTable) lres" where
  "HashTable_Insert getKey hash x t = (let key = getKey x in
     bindL (IsInTable getKey hash key t) (\<lambda>there. assertL (\<not> there)
       (bindL (if numItems t sdiv numBuckets t \<ge> ResizeRatio then ReHash getKey hash t else retL t) (\<lambda>t1.
        bindL (put_in getKey hash x t1) (\<lambda>t2. let t3 = t2\<lparr>numItems := numItems t2 + 1\<rparr> in
        bindL (IsInTable getKey hash key t3) (\<lambda>there. assertL there (retL t3)))))))"

definition HashTable_Remove :: "('a \<Rightarrow> 'k) \<Rightarrow> ('k \<Rightarrow> cint) \<Rightarrow> 'k \<Rightarrow> 'a HashTable \<Rightarrow> ('a \<times> 'a HashTable) lres" where
  "HashTable_Remove getKey hash key t = bindL (HashValue hash key t) (\<lambda>bucket.
     bindL (FindInBucket getKey bucket key t) (\<lambda>found. case found of None \<Rightarrow> Some (Inl AssertFailed) | Some x \<Rightarrow>
     bindL (bucket_at t bucket) (\<lambda>(h, l). bindL (Remove_item x h l) (\<lambda>b.
     let t1 = t\<lparr>buckets := (buckets t)[nat bucket := b], numItems := numItems t - 1\<rparr> in
     bindL (IsInTable getKey hash key t1) (\<lambda>there. assertL (\<not> there) (retL (x, t1)))))))"

fun apply_buckets :: "('a \<Rightarrow> 's \<Rightarrow> 's) \<Rightarrow> 'a bucket list \<Rightarrow> 's \<Rightarrow> 's lres" where
  "apply_buckets f [] s = retL s"
| "apply_buckets f ((h, l) # bs) s = bindL (Apply f h l s) (apply_buckets f bs)"

definition HashTable_Apply :: "('a \<Rightarrow> 's \<Rightarrow> 's) \<Rightarrow> 'a HashTable \<Rightarrow> 's \<Rightarrow> 's lres" where
  "HashTable_Apply f t s = apply_buckets f (buckets t) s"

section \<open>Iterators\<close>

record HashIterator =
  it_bucket :: int
  bucketIter :: "(nat option) option"      \<comment> \<open>\<open>None\<close>: \<open>NULL\<close>\<close>

function FindNextFullBucket :: "int \<Rightarrow> 'a HashTable \<Rightarrow> int lres" where
  "FindNextFullBucket bucket t = (if bucket < numBuckets t
     then bindL (bucket_at t bucket) (\<lambda>(h, l). if IsEmpty l then FindNextFullBucket (bucket + 1) t else retL bucket)
     else retL bucket)"
  by pat_completeness auto
termination
  by (relation "measure (\<lambda>(bucket, t). nat (numBuckets t - bucket))") auto

declare FindNextFullBucket.simps [simp del]

definition HashIterator_at :: "int \<Rightarrow> 'a HashTable \<Rightarrow> HashIterator lres" where
  \<comment> \<open>an iterator for the bucket, if there is one\<close>
  "HashIterator_at b t = (if b < numBuckets t
     then bindL (bucket_at t b) (\<lambda>(h, l). retL \<lparr>it_bucket = b, bucketIter = Some (ListIterator_new l)\<rparr>)
     else retL \<lparr>it_bucket = b, bucketIter = None\<rparr>)"

definition HashIterator_new :: "'a HashTable \<Rightarrow> HashIterator lres" where
  "HashIterator_new t = bindL (FindNextFullBucket 0 t) (\<lambda>b. HashIterator_at b t)"

definition HashIterator_IsDone :: "'a HashTable \<Rightarrow> HashIterator \<Rightarrow> bool" where
  "HashIterator_IsDone t it \<longleftrightarrow> it_bucket it = numBuckets t"

definition HashIterator_Item :: "'a HashTable \<Rightarrow> HashIterator \<Rightarrow> 'a lres" where
  "HashIterator_Item t it = assertL (\<not> HashIterator_IsDone t it)
     (case bucketIter it of None \<Rightarrow> Some (Inl BadAccess) | Some i \<Rightarrow> bindL (bucket_at t (it_bucket it)) (\<lambda>(h, l). Iterator_Item h i))"

definition HashIterator_Next :: "'a HashTable \<Rightarrow> HashIterator \<Rightarrow> HashIterator lres" where
  "HashIterator_Next t it = (case bucketIter it of None \<Rightarrow> Some (Inl BadAccess) | Some i \<Rightarrow>
     bindL (bucket_at t (it_bucket it)) (\<lambda>(h, l). bindL (Iterator_Next h i) (\<lambda>j.
     if Iterator_IsDone j then bindL (FindNextFullBucket (it_bucket it + 1) t) (\<lambda>b. HashIterator_at b t) else retL (it\<lparr>bucketIter := Some j\<rparr>))))"

partial_function (option) hash_walk :: "'a HashTable \<Rightarrow> HashIterator \<Rightarrow> 'a list \<Rightarrow> ('a list) lres" where
  \<comment> \<open>\<open>for (; !iter->IsDone(); iter->Next())\<close>, collecting the items\<close>
  "hash_walk t it seen = (if HashIterator_IsDone t it then Some (Inr seen)
     else bindL (HashIterator_Item t it) (\<lambda>x. bindL (HashIterator_Next t it) (\<lambda>n. hash_walk t n (seen @ [x]))))"

section \<open>The self tests\<close>

fun insert_entries :: "('a \<Rightarrow> 't \<Rightarrow> 't lres) \<Rightarrow> ('a \<Rightarrow> 't \<Rightarrow> bool lres) \<Rightarrow> ('t \<Rightarrow> bool) \<Rightarrow> 'a list \<Rightarrow> 't \<Rightarrow> 't lres" where
  \<comment> \<open>\<open>Insert(p[i])\<close> and the two assertions\<close>
  "insert_entries ins there emp [] t = retL t"
| "insert_entries ins there emp (x # p) t = bindL (ins x t) (\<lambda>t1.
     bindL (there x t1) (\<lambda>c. assertL c (assertL (\<not> emp t1) (insert_entries ins there emp p t1))))"

fun remove_entries :: "('a \<Rightarrow> 't \<Rightarrow> ('a \<times> 't) lres) \<Rightarrow> 'a list \<Rightarrow> 't \<Rightarrow> 't lres" where
  \<comment> \<open>\<open>ASSERT(Remove(getKey(p[i])) == p[i])\<close>\<close>
  "remove_entries rem [] t = retL t"
| "remove_entries rem (x # p) t = bindL (rem x t) (\<lambda>(y, t1). assertL (y = x) (remove_entries rem p t1))"

definition HashTable_SelfTest :: "('a \<Rightarrow> 'k) \<Rightarrow> ('k \<Rightarrow> cint) \<Rightarrow> 'a list \<Rightarrow> 'a HashTable \<Rightarrow> ('a HashTable) lres" where
  "HashTable_SelfTest getKey hash p t = bindL (HashIterator_new t) (\<lambda>it.
     bindL (HashTable_SanityCheck getKey hash t) (\<lambda>_. assertL (HashTable_IsEmpty t) (assertL (HashIterator_IsDone t it)
       (bindL (insert_entries (HashTable_Insert getKey hash) (\<lambda>x. IsInTable getKey hash (getKey x)) HashTable_IsEmpty p t) (\<lambda>t1.
        bindL (remove_entries (\<lambda>x. HashTable_Remove getKey hash (getKey x)) p t1) (\<lambda>t2.
        assertL (HashTable_IsEmpty t2) (bindL (HashTable_SanityCheck getKey hash t2) (\<lambda>_. retL t2))))))))"

definition HashInt :: "int \<Rightarrow> cint" where
  "HashInt key = word_of_int key"

fun digits_value :: "int \<Rightarrow> string \<Rightarrow> int" where
  "digits_value n [] = n"
| "digits_value n (c # cs) = (let d = of_char c - 48 in if 0 \<le> d \<and> d \<le> 9 then digits_value (10 * n + d) cs else n)"

definition HashKey :: "string \<Rightarrow> int" where
  \<comment> \<open>\<open>atoi\<close>, of a string that starts with a digit\<close>
  "HashKey str = digits_value 0 str"

definition hashTestVector :: "string list" where
  "hashTestVector = [''0'', ''1'', ''2'', ''3'', ''4'', ''5'', ''6'', ''7'', ''8'', ''9'', ''10'', ''11'', ''12'', ''13'', ''14'']"

definition LibSelfTest :: "unit lres" where
  "LibSelfTest = bindL (Some (Bitmap_init 200)) (\<lambda>map. let list = Bucket_new; sortList = Bucket_new; hashTable = HashTable_new in
     bindL (Some (Bitmap_SelfTest map)) (\<lambda>_.
     bindL (List_SelfTest Append List_SanityCheck listTestVector (fst list) (snd list)) (\<lambda>_.
     bindL (SortedList_SelfTest IntCompare listTestVector (fst sortList) (snd sortList)) (\<lambda>_.
     bindL (HashTable_SelfTest HashKey HashInt hashTestVector hashTable) HashTable_delete))))"

section \<open>What a table stores\<close>

definition slot :: "('k \<Rightarrow> cint) \<Rightarrow> nat \<Rightarrow> 'k \<Rightarrow> nat" where
  "slot hash n key = nat (uint (hash key) mod int n)"

definition stores :: "('a \<Rightarrow> 'k) \<Rightarrow> ('k \<Rightarrow> cint) \<Rightarrow> 'a HashTable \<Rightarrow> 'a list list \<Rightarrow> bool" where
  "stores getKey hash t xss \<longleftrightarrow> numBuckets t = int (length xss) \<and> xss \<noteq> [] \<and> list_all2 (\<lambda>b xs. holds (fst b) (snd b) xs) (buckets t) xss \<and>
     (\<forall>i < length xss. \<forall>x \<in> set (xss ! i). slot hash (length xss) (getKey x) = i) \<and> distinct (map getKey (concat xss))"

definition indexes :: "('a \<Rightarrow> 'k) \<Rightarrow> 'a set \<Rightarrow> ('k \<Rightarrow> 'a option) \<Rightarrow> bool" where
  "indexes f X m \<longleftrightarrow> (\<forall>k x. m k = Some x \<longleftrightarrow> x \<in> X \<and> f x = k)"

definition represents :: "('a \<Rightarrow> 'k) \<Rightarrow> ('k \<Rightarrow> cint) \<Rightarrow> 'a HashTable \<Rightarrow> ('k \<Rightarrow> 'a option) \<Rightarrow> bool" where
  "represents getKey hash t m \<longleftrightarrow> (\<exists>xss. stores getKey hash t xss \<and> numItems t = int (length (concat xss)) \<and>
     indexes getKey (set (concat xss)) m)"

lemma slot_less: "0 < n \<Longrightarrow> slot hash n key < n"
  by (simp add: slot_def nat_less_iff)

lemma storesD:
  assumes "stores getKey hash t xss"
  shows "numBuckets t = int (length xss)" "0 < length xss" "length (buckets t) = length xss"
    "i < length xss \<Longrightarrow> holds (fst (buckets t ! i)) (snd (buckets t ! i)) (xss ! i)"
    "i < length xss \<Longrightarrow> x \<in> set (xss ! i) \<Longrightarrow> slot hash (length xss) (getKey x) = i" "distinct (map getKey (concat xss))"
    "list_all2 (\<lambda>b xs. holds (fst b) (snd b) xs) (buckets t) xss"
  using assms unfolding stores_def by (auto dest: list_all2_lengthD list_all2_nthD2)

lemma stored_at:
  assumes "stores getKey hash t xss"
  shows "x \<in> set (concat xss) \<longleftrightarrow> x \<in> set (xss ! slot hash (length xss) (getKey x))"
proof
  assume "x \<in> set (concat xss)"
  then obtain xs where "xs \<in> set xss" "x \<in> set xs" by auto
  then obtain i where "i < length xss" "x \<in> set (xss ! i)" by (metis in_set_conv_nth)
  then show "x \<in> set (xss ! slot hash (length xss) (getKey x))" using storesD(5) [OF assms] by metis
next
  show "x \<in> set (xss ! slot hash (length xss) (getKey x)) \<Longrightarrow> x \<in> set (concat xss)"
    using slot_less [OF storesD(2) [OF assms]] nth_mem by fastforce
qed

lemma HashValue_stores:
  assumes "stores getKey hash t xss"
  shows "HashValue hash key t = Some (Inr (int (slot hash (length xss) key)))"
  using storesD(1,2) [OF assms] by (simp add: HashValue_def Let_def slot_def retL_def)

lemma bucket_at_stores:
  assumes "stores getKey hash t xss" and "i < length xss"
  obtains h l where "bucket_at t (int i) = Some (Inr (h, l))" "buckets t ! i = (h, l)" "holds h l (xss ! i)"
  using that [of "fst (buckets t ! i)" "snd (buckets t ! i)"] storesD(3,4) [OF assms(1)] assms(2) by (simp add: bucket_at_def)

lemma iterator_simps:
  "Iterator_IsDone p \<longleftrightarrow> p = None"
  "cells h a = Some e \<Longrightarrow> Iterator_Item h (Some a) = Some (Inr (item e))"
  "cells h a = Some e \<Longrightarrow> Iterator_Next h (Some a) = Some (Inr (next_elem e))"
  by (simp_all add: Iterator_IsDone_def Iterator_Item_def Iterator_Next_def retL_def)

lemma lseg_find_loop: "lseg (cells h) p axs None \<Longrightarrow> find_loop getKey key p h = Some (Inr (find (\<lambda>x. getKey x = key) (map snd axs)))"
  by (induction axs arbitrary: p) (subst find_loop.simps, auto simp: iterator_simps)+

lemma holds_find_loop: "holds h l xs \<Longrightarrow> find_loop getKey key (ListIterator_new l) h = Some (Inr (find (\<lambda>x. getKey x = key) xs))"
  by (erule holdsE) (auto simp: ListIterator_new_def linked_def lseg_find_loop)

lemma find_distinct:
  assumes "distinct (map f xs)"
  shows "find (\<lambda>x. f x = k) xs = Some x \<longleftrightarrow> x \<in> set xs \<and> f x = k"
  using assms by (induction xs) auto

lemma bucket_distinct: "distinct (map f (concat xss)) \<Longrightarrow> i < length xss \<Longrightarrow> distinct (map f (xss ! i))"
  by (simp add: map_concat distinct_concat_iff nth_mem)

lemma FindInBucket_stores:
  assumes "stores getKey hash t xss"
  obtains r where "FindInBucket getKey (int (slot hash (length xss) key)) key t = Some (Inr r)" "Find getKey hash key t = Some (Inr r)"
    "\<And>x. r = Some x \<longleftrightarrow> x \<in> set (concat xss) \<and> getKey x = key"
proof -
  let ?s = "slot hash (length xss) key"
  have s: "?s < length xss" by (rule slot_less [OF storesD(2) [OF assms]])
  obtain h l where b: "bucket_at t (int ?s) = Some (Inr (h, l))" "holds h l (xss ! ?s)" by (rule bucket_at_stores [OF assms s])
  let ?r = "find (\<lambda>x. getKey x = key) (xss ! ?s)"
  have f: "FindInBucket getKey (int ?s) key t = Some (Inr ?r)" using b holds_find_loop [OF b(2)] by (simp add: FindInBucket_def)
  have "?r = Some x \<longleftrightarrow> x \<in> set (concat xss) \<and> getKey x = key" for x
    using find_distinct [OF bucket_distinct [OF storesD(6) [OF assms] s], of key x] stored_at [OF assms, of x] by auto
  then show thesis using f by (intro that [of ?r]) (simp_all add: Find_def HashValue_stores [OF assms])
qed

lemma IsInTable_stores:
  assumes "stores getKey hash t xss"
  shows "IsInTable getKey hash key t = Some (Inr (key \<in> getKey ` set (concat xss)))"
proof -
  obtain r where r: "Find getKey hash key t = Some (Inr r)" "\<And>x. r = Some x \<longleftrightarrow> x \<in> set (concat xss) \<and> getKey x = key"
    using FindInBucket_stores [OF assms, where key = key] by metis
  then have "r \<noteq> None \<longleftrightarrow> key \<in> getKey ` set (concat xss)" by (metis image_iff not_None_eq)
  then show ?thesis using r(1) by (simp add: IsInTable_def retL_def)
qed

lemma concat_update:
  assumes "i < length xss"
  shows "mset (concat (xss[i := ys])) + mset (xss ! i) = mset (concat xss) + mset ys"
proof -
  have "mset (concat (xss[i := zs])) = mset (concat (take i xss)) + mset (concat (drop (Suc i) xss)) + mset zs" for zs
    using assms by (simp add: upd_conv_take_nth_drop)
  from this [of ys] this [of "xss ! i"] show ?thesis by simp
qed

lemma stores_update:
  assumes "stores getKey hash t xss" and "i < length xss" and "holds (fst b) (snd b) ys"
    and "\<And>x. x \<in> set ys \<Longrightarrow> slot hash (length xss) (getKey x) = i" and "distinct (map getKey (concat (xss[i := ys])))"
  shows "stores getKey hash (t\<lparr>buckets := (buckets t)[i := b]\<rparr>) (xss[i := ys])"
  using assms unfolding stores_def by (auto simp: nth_list_update list_all2_update_cong)

lemma stores_items [simp]: "stores getKey hash (t\<lparr>numItems := n\<rparr>) xss = stores getKey hash t xss"
  by (simp add: stores_def)

lemma put_in_stores:
  assumes s: "stores getKey hash t xss" and new: "getKey x \<notin> getKey ` set (concat xss)"
  obtains t' xss' where "put_in getKey hash x t = Some (Inr t')" "stores getKey hash t' xss'" "mset (concat xss') = mset (concat xss) + {#x#}"
    "numItems t' = numItems t"
proof -
  let ?s = "slot hash (length xss) (getKey x)"
  have i: "?s < length xss" by (rule slot_less [OF storesD(2) [OF s]])
  obtain h l where b: "bucket_at t (int ?s) = Some (Inr (h, l))" "holds h l (xss ! ?s)" by (rule bucket_at_stores [OF s i])
  have "x \<notin> set (xss ! ?s)" using new stored_at [OF s, of x] by auto
  then obtain h' l' where a: "Append x h l = Some (Inr (h', l'))" "holds h' l' (xss ! ?s @ [x])"
    using Append_holds [OF b(2), of x] by auto
  let ?x = "xss[?s := xss ! ?s @ [x]]"
  have m: "mset (concat ?x) = mset (concat xss) + {#x#}" using concat_update [OF i, of "xss ! ?s @ [x]"] by simp
  have "mset (map getKey (concat ?x)) = mset (map getKey (x # concat xss))" using arg_cong [OF m, of "image_mset getKey"] by simp
  then have "distinct (map getKey (concat ?x))" using mset_eq_imp_distinct_iff [of "map getKey (concat ?x)" "map getKey (x # concat xss)"] new storesD(6) [OF s] by simp
  then have "stores getKey hash (t\<lparr>buckets := (buckets t)[?s := (h', l')]\<rparr>) ?x"
    using storesD(5) [OF s i] a(2) by (intro stores_update [OF s i]) auto
  then show thesis using b a m by (intro that [of "t\<lparr>buckets := (buckets t)[?s := (h', l')]\<rparr>" ?x]) (simp_all add: put_in_def HashValue_stores [OF s] retL_def)
qed

lemma lseg_hashes_loop:
  assumes "stores getKey hash t xss"
  shows "lseg (cells h) p axs None \<Longrightarrow> \<forall>x \<in> snd ` set axs. slot hash (length xss) (getKey x) = i \<Longrightarrow>
    hashes_loop getKey hash (int i) t p h = Some (Inr ())"
  by (induction axs arbitrary: p) (subst hashes_loop.simps, auto simp: iterator_simps HashValue_stores [OF assms])+

lemma check_buckets_stores:
  assumes "stores getKey hash t xss" and "list_all2 (\<lambda>b xs. holds (fst b) (snd b) xs) bs yss"
    and "\<And>j x. j < length yss \<Longrightarrow> x \<in> set (yss ! j) \<Longrightarrow> slot hash (length xss) (getKey x) = i + j"
  shows "check_buckets getKey hash t (int i) bs n = Some (Inr (n + int (length (concat yss))))"
  using assms(2,3)
proof (induction bs yss arbitrary: i n rule: list_all2_induct)
  case Nil
  then show ?case by (simp add: retL_def)
next
  case (Cons b bs ys yss)
  obtain h l where b: "b = (h, l)" by (cases b)
  then have hl: "holds h l ys" using Cons.hyps(1) by simp
  then obtain axs where a: "linked h l axs" "map snd axs = ys" "snd ` set axs = set ys" by (rule holdsE)
  have "hashes_loop getKey hash (int i) t (ListIterator_new l) h = Some (Inr ())"
    using a Cons.prems [of 0] unfolding ListIterator_new_def by (intro lseg_hashes_loop [OF assms(1), of h _ axs]) (auto simp: linked_def)
  moreover have "numInList l = int (length ys)" using a by (auto simp: linked_def)
  moreover have "check_buckets getKey hash t (int (Suc i)) bs (n + numInList l) = Some (Inr (n + numInList l + int (length (concat yss))))"
    using Cons.prems [of "Suc _"] by (intro Cons.IH) auto
  ultimately show ?case using b holds_SanityCheck [OF hl] by (simp add: add.commute)
qed

lemma SanityCheck_stores:
  assumes "stores getKey hash t xss" and "numItems t = int (length (concat xss))"
  shows "HashTable_SanityCheck getKey hash t = Some (Inr ())"
  using check_buckets_stores [OF assms(1), of "buckets t" xss 0 0] assms storesD(5) [OF assms(1)]
  by (simp add: HashTable_SanityCheck_def stores_def retL_def)

lemma drain_bucket_stores:
  assumes "holds h l ys" and "stores getKey hash t xss" and "distinct (map getKey ys)" and "getKey ` set ys \<inter> getKey ` set (concat xss) = {}"
  shows "\<exists>t' xss'. drain_bucket getKey hash h l t = Some (Inr t') \<and> stores getKey hash t' xss' \<and> mset (concat xss') = mset (concat xss) + mset ys \<and>
    numItems t' = numItems t"
  using assms
proof (induction ys arbitrary: h l t xss)
  case Nil
  then show ?case using holds_IsEmpty [OF Nil(1)] by (subst drain_bucket.simps) auto
next
  case (Cons y ys)
  obtain h1 l1 where r: "RemoveFront h l = Some (Inr (y, h1, l1))" "holds h1 l1 ys"
    using RemoveFront_holds(2) [OF Cons.prems(1)] by blast
  obtain t1 xss1 where p: "put_in getKey hash y t = Some (Inr t1)" "stores getKey hash t1 xss1" "mset (concat xss1) = mset (concat xss) + {#y#}"
    "numItems t1 = numItems t"
    by (rule put_in_stores [OF Cons.prems(2), of y]) (use Cons.prems(4) in auto)
  have s: "set (concat xss1) = insert y (set (concat xss))" using arg_cong [OF p(3), of set_mset] by (simp del: set_concat)
  have "getKey ` set ys \<inter> getKey ` set (concat xss1) = {}" unfolding s using Cons.prems(3,4) by auto
  then obtain t' xss' where "drain_bucket getKey hash h1 l1 t1 = Some (Inr t')" "stores getKey hash t' xss'"
    "mset (concat xss') = mset (concat xss1) + mset ys" "numItems t' = numItems t1"
    using Cons.IH [OF r(2) p(2)] Cons.prems(3) by auto
  then show ?case using p r holds_IsEmpty [OF Cons.prems(1)] by (subst drain_bucket.simps) auto
qed

lemma drain_all_stores:
  assumes "list_all2 (\<lambda>b ys. holds (fst b) (snd b) ys) bs yss" and "stores getKey hash t xss" and "distinct (map getKey (concat yss))"
    and "getKey ` set (concat yss) \<inter> getKey ` set (concat xss) = {}"
  shows "\<exists>t' xss'. drain_all getKey hash bs t = Some (Inr t') \<and> stores getKey hash t' xss' \<and>
    mset (concat xss') = mset (concat xss) + mset (concat yss) \<and> numItems t' = numItems t"
  using assms
proof (induction bs yss arbitrary: t xss rule: list_all2_induct)
  case Nil
  then show ?case by (auto simp: retL_def)
next
  case (Cons b bs ys yss)
  obtain h l where b: "b = (h, l)" by (cases b)
  have "getKey ` set ys \<inter> getKey ` set (concat xss) = {}" using Cons.prems(3) by auto
  then obtain t1 xss1 where d: "drain_bucket getKey hash h l t = Some (Inr t1)" "stores getKey hash t1 xss1"
    "mset (concat xss1) = mset (concat xss) + mset ys" "numItems t1 = numItems t"
    using drain_bucket_stores [of h l ys getKey hash t xss] Cons.hyps(1) Cons.prems(1,2) b by (auto simp del: set_concat)
  have s: "set (concat xss1) = set (concat xss) \<union> set ys" using arg_cong [OF d(3), of set_mset] by (simp del: set_concat)
  have "getKey ` set ys \<inter> getKey ` set (concat yss) = {}" using Cons.prems(2) by auto
  then have "getKey ` set (concat yss) \<inter> getKey ` set (concat xss1) = {}" unfolding s image_Un using Cons.prems(3) by (simp only: concat.simps set_append image_Un) blast
  then obtain t' xss' where "drain_all getKey hash bs t1 = Some (Inr t')" "stores getKey hash t' xss'"
    "mset (concat xss') = mset (concat xss1) + mset (concat yss)" "numItems t' = numItems t1"
    using Cons.IH [OF d(2)] Cons.prems(2) by auto
  then show ?case using d b by auto
qed

lemma stores_empty: "0 < n \<Longrightarrow> stores getKey hash (InitBuckets (int n) t) (replicate n [])"
  by (auto simp: stores_def InitBuckets_def Bucket_new_def holds_new list_all2_conv_all_nth nth_append)

lemma ReHash_stores:
  assumes "stores getKey hash t xss" and "numItems t = int (length (concat xss))"
  obtains t' xss' where "ReHash getKey hash t = Some (Inr t')" "stores getKey hash t' xss'" "mset (concat xss') = mset (concat xss)"
    "numItems t' = numItems t"
proof -
  let ?n = "length xss * 4"
  have e: "stores getKey hash (InitBuckets (int ?n) t) (replicate ?n [])" using storesD(2) [OF assms(1)] by (intro stores_empty) simp
  have n: "numBuckets t * IncreaseSizeBy = int ?n" using storesD(1) [OF assms(1)] by (simp add: IncreaseSizeBy_def)
  obtain t' xss' where d: "drain_all getKey hash (buckets t) (InitBuckets (int ?n) t) = Some (Inr t')" "stores getKey hash t' xss'"
    "mset (concat xss') = mset (concat xss)" "numItems t' = numItems t"
    using drain_all_stores [OF storesD(7) [OF assms(1)] e storesD(6) [OF assms(1)]] by (auto simp: InitBuckets_def)
  have "numItems t' = int (length (concat xss'))" using d(3,4) assms(2) by (metis size_mset)
  then show thesis
    using d n SanityCheck_stores [OF assms] SanityCheck_stores [OF d(2)] by (intro that [of t' xss']) (simp_all add: ReHash_def Let_def retL_def)
qed

section \<open>The map a table implements\<close>

lemma representsE:
  assumes "represents getKey hash t m"
  obtains xss where "stores getKey hash t xss" "numItems t = int (length (concat xss))" "indexes getKey (set (concat xss)) m"
  using assms by (auto simp: represents_def)

lemma indexesD: "indexes f X m \<Longrightarrow> m k = Some x \<longleftrightarrow> x \<in> X \<and> f x = k"
  by (simp add: indexes_def)

lemma indexes_keys: "indexes f X m \<Longrightarrow> k \<in> f ` X \<longleftrightarrow> m k \<noteq> None"
  unfolding indexes_def by (metis image_iff not_None_eq)

lemma indexes_insert: "indexes f X m \<Longrightarrow> m (f x) = None \<Longrightarrow> indexes f (insert x X) (m(f x \<mapsto> x))"
  unfolding indexes_def by (metis fun_upd_apply insert_iff option.distinct(1) option.inject)

lemma indexes_remove: "indexes f (insert x X) m \<Longrightarrow> f x \<notin> f ` X \<Longrightarrow> indexes f X (m(f x := None))"
  unfolding indexes_def by (metis fun_upd_apply image_eqI insert_iff option.distinct(1))

lemma represents_new: "represents getKey hash HashTable_new (\<lambda>_. None)"
  using stores_empty [of 4 getKey hash "\<lparr>buckets = [], numBuckets = 0, numItems = 0\<rparr>"]
  by (auto simp: represents_def HashTable_new_def InitialBuckets_def InitBuckets_def indexes_def intro!: exI [of _ "replicate 4 []"])

lemma Find_represents:
  assumes "represents getKey hash t m"
  shows "Find getKey hash key t = Some (Inr (m key))"
proof -
  obtain xss where x: "stores getKey hash t xss" "indexes getKey (set (concat xss)) m"
    using assms by (elim representsE)
  obtain r where r: "Find getKey hash key t = Some (Inr r)" "\<And>x. r = Some x \<longleftrightarrow> x \<in> set (concat xss) \<and> getKey x = key"
    using FindInBucket_stores [OF x(1), where key = key] by metis
  then have "r = m key" using indexesD [OF x(2)] by (metis option.exhaust)
  then show ?thesis using r(1) by simp
qed

lemma IsInTable_represents:
  assumes "represents getKey hash t m"
  shows "IsInTable getKey hash key t = Some (Inr (m key \<noteq> None))"
  by (simp add: IsInTable_def Find_represents [OF assms] retL_def)

lemma SanityCheck_represents: "represents getKey hash t m \<Longrightarrow> HashTable_SanityCheck getKey hash t = Some (Inr ())"
  by (erule representsE) (rule SanityCheck_stores)

lemma IsEmpty_represents:
  assumes "represents getKey hash t m"
  shows "HashTable_IsEmpty t \<longleftrightarrow> m = (\<lambda>_. None)"
proof -
  obtain xss where x: "numItems t = int (length (concat xss))" "indexes getKey (set (concat xss)) m"
    using assms by (elim representsE)
  then have "getKey ` set (concat xss) = {} \<longleftrightarrow> (\<forall>k. m k = None)" using indexes_keys [OF x(2)] by (metis all_not_in_conv)
  then show ?thesis using x(1) by (simp add: HashTable_IsEmpty_def fun_eq_iff del: set_concat)
qed

lemma Insert_represents:
  assumes "represents getKey hash t m"
  shows "m (getKey x) \<noteq> None \<Longrightarrow> HashTable_Insert getKey hash x t = Some (Inl AssertFailed)"
    "m (getKey x) = None \<Longrightarrow> \<exists>t'. HashTable_Insert getKey hash x t = Some (Inr t') \<and> represents getKey hash t' (m(getKey x \<mapsto> x))"
proof -
  show "HashTable_Insert getKey hash x t = Some (Inl AssertFailed)" if "m (getKey x) \<noteq> None"
    using that by (simp add: HashTable_Insert_def IsInTable_represents [OF assms])
  assume new: "m (getKey x) = None"
  obtain xss where s: "stores getKey hash t xss" "numItems t = int (length (concat xss))" "indexes getKey (set (concat xss)) m"
    using assms by (elim representsE)
  obtain t1 xss1 where r: "(if numItems t sdiv numBuckets t \<ge> ResizeRatio then ReHash getKey hash t else retL t) = Some (Inr t1)"
    "stores getKey hash t1 xss1" "mset (concat xss1) = mset (concat xss)" "numItems t1 = numItems t"
    using ReHash_stores [OF s(1,2)] s(1) by (metis retL_def)
  have set1: "set (concat xss1) = set (concat xss)" using r(3) by (metis set_mset_mset)
  have "getKey x \<notin> getKey ` set (concat xss1)" unfolding set1 using indexes_keys [OF s(3)] new by blast
  then obtain t2 xss2 where p: "put_in getKey hash x t1 = Some (Inr t2)" "stores getKey hash t2 xss2"
    "mset (concat xss2) = mset (concat xss1) + {#x#}" "numItems t2 = numItems t1"
    using put_in_stores [OF r(2)] by metis
  let ?t = "t2\<lparr>numItems := numItems t2 + 1\<rparr>"
  have set2: "set (concat xss2) = insert x (set (concat xss))"
    using arg_cong [OF p(3), of set_mset] set1 by (simp del: set_concat)
  have n: "numItems ?t = int (length (concat xss2))"
    using p(3,4) r(3,4) s(2) by (metis HashTable.select_convs(3) HashTable.surjective HashTable.update_convs(3) of_nat_Suc add.commute mset_append size_mset size_add_mset add_mset_add_single)
  have "indexes getKey (set (concat xss2)) (m(getKey x \<mapsto> x))" unfolding set2 by (rule indexes_insert [OF s(3) new])
  then have "represents getKey hash ?t (m(getKey x \<mapsto> x))" unfolding represents_def using p(2) n by (intro exI [of _ xss2]) simp
  moreover have "HashTable_Insert getKey hash x t = Some (Inr ?t)"
    using new r(1) p(1) IsInTable_represents [OF calculation] by (simp add: HashTable_Insert_def Let_def IsInTable_represents [OF assms] retL_def)
  ultimately show "\<exists>t'. HashTable_Insert getKey hash x t = Some (Inr t') \<and> represents getKey hash t' (m(getKey x \<mapsto> x))" by blast
qed

lemma Remove_represents:
  assumes "represents getKey hash t m"
  shows "m key = None \<Longrightarrow> HashTable_Remove getKey hash key t = Some (Inl AssertFailed)"
    "m key = Some x \<Longrightarrow> \<exists>t'. HashTable_Remove getKey hash key t = Some (Inr (x, t')) \<and> represents getKey hash t' (m(key := None))"
proof -
  obtain xss where s: "stores getKey hash t xss" "numItems t = int (length (concat xss))" "indexes getKey (set (concat xss)) m"
    using assms by (elim representsE)
  let ?s = "slot hash (length xss) key"
  have f: "FindInBucket getKey (int ?s) key t = Some (Inr (m key))"
    using FindInBucket_stores [OF s(1), where key = key] Find_represents [OF assms, of key] by (metis option.inject sum.inject(2))
  then show "HashTable_Remove getKey hash key t = Some (Inl AssertFailed)" if "m key = None"
    using that by (simp add: HashTable_Remove_def HashValue_stores [OF s(1)])
  assume x: "m key = Some x"
  have i: "?s < length xss" by (rule slot_less [OF storesD(2) [OF s(1)]])
  have k: "getKey x = key" "x \<in> set (concat xss)" using x indexesD [OF s(3)] by auto
  then have xs: "x \<in> set (xss ! ?s)" using stored_at [OF s(1), of x] by simp
  obtain h l where b: "bucket_at t (int ?s) = Some (Inr (h, l))" "holds h l (xss ! ?s)" by (rule bucket_at_stores [OF s(1) i])
  obtain h' l' where r: "Remove_item x h l = Some (Inr (h', l'))" "holds h' l' (remove1 x (xss ! ?s))"
    using Remove_holds [OF b(2), of x] xs by auto
  let ?x = "xss[?s := remove1 x (xss ! ?s)]" and ?t = "t\<lparr>buckets := (buckets t)[?s := (h', l')], numItems := numItems t - 1\<rparr>"
  have "mset (xss ! ?s) = add_mset x (mset (remove1 x (xss ! ?s)))" using xs by simp
  with concat_update [OF i, of "remove1 x (xss ! ?s)"] have m: "mset (concat xss) = mset (x # concat ?x)"
    by (simp del: mset_remove1)
  then have "mset (map getKey (concat xss)) = mset (map getKey (x # concat ?x))" by (metis mset_map)
  then have d: "distinct (map getKey (x # concat ?x))" using storesD(6) [OF s(1)] by (metis mset_eq_imp_distinct_iff)
  have st: "stores getKey hash (t\<lparr>buckets := (buckets t)[?s := (h', l')]\<rparr>) ?x"
  proof (rule stores_update [OF s(1) i])
    show "slot hash (length xss) (getKey y) = ?s" if "y \<in> set (remove1 x (xss ! ?s))" for y
      using storesD(5) [OF s(1) i] notin_set_remove1 that by metis
  qed (use r(2) d in simp_all)
  have n: "numItems ?t = int (length (concat ?x))" using mset_eq_length [OF m] s(2) by simp
  have "set (concat xss) = insert x (set (concat ?x))" using m by (metis list.simps(15) set_mset_mset)
  moreover have "getKey x \<notin> getKey ` set (concat ?x)" using d by simp
  ultimately have "indexes getKey (set (concat ?x)) (m(key := None))" using indexes_remove [of getKey x "set (concat ?x)" m] s(3) k(1) by simp
  then have rep: "represents getKey hash ?t (m(key := None))" unfolding represents_def using st n by (intro exI [of _ ?x]) (simp add: stores_def)
  have "HashTable_Remove getKey hash key t = Some (Inr (x, ?t))"
    using f x b(1) r(1) IsInTable_represents [OF rep] by (simp add: HashTable_Remove_def HashValue_stores [OF s(1)] Let_def retL_def)
  then show "\<exists>t'. HashTable_Remove getKey hash key t = Some (Inr (x, t')) \<and> represents getKey hash t' (m(key := None))" using rep by blast
qed

section \<open>Visiting every item\<close>

lemma bindL_assoc: "bindL (bindL m f) g = bindL m (\<lambda>x. bindL (f x) g)"
  by (simp add: bindL_def split: option.split sum.split)

lemma apply_buckets_holds:
  "list_all2 (\<lambda>b xs. holds (fst b) (snd b) xs) bs xss \<Longrightarrow> apply_buckets f bs s = Some (Inr (fold f (concat xss) s))"
proof (induction bs xss arbitrary: s rule: list_all2_induct)
  case (Cons b bs xs xss)
  then show ?case by (cases b) (simp add: holds_Apply)
qed (simp add: retL_def)

definition walk_from :: "'a HashTable \<Rightarrow> nat \<Rightarrow> 'a list \<Rightarrow> ('a list) lres" where
  "walk_from t b seen = bindL (bindL (FindNextFullBucket (int b) t) (\<lambda>c. HashIterator_at c t)) (\<lambda>it. hash_walk t it seen)"

lemma hash_walk_bucket:
  assumes s: "stores getKey hash t xss" "b < length xss" "buckets t ! b = (h, l)" and rest: "\<And>seen. walk_from t (Suc b) seen = Some (Inr (seen @ ys))"
  shows "lseg (cells h) p axs None \<Longrightarrow> axs \<noteq> [] \<Longrightarrow>
    hash_walk t \<lparr>it_bucket = int b, bucketIter = Some p\<rparr> seen = Some (Inr (seen @ map snd axs @ ys))"
proof (induction axs arbitrary: p seen)
  case (Cons ax axs)
  obtain a x where ax: "ax = (a, x)" by (cases ax)
  then obtain n where c: "p = Some a" "cells h a = Some \<lparr>item = x, next_elem = n\<rparr>" "lseg (cells h) n axs None" using Cons.prems by auto
  have b: "bucket_at t (int b) = Some (Inr (h, l))" using s storesD(3) [OF s(1)] by (simp add: bucket_at_def)
  have d: "\<not> HashIterator_IsDone t \<lparr>it_bucket = int b, bucketIter = Some p\<rparr>" using s(2) storesD(1) [OF s(1)] by (simp add: HashIterator_IsDone_def)
  have step: "hash_walk t \<lparr>it_bucket = int b, bucketIter = Some p\<rparr> seen =
      (if n = None then walk_from t (Suc b) (seen @ [x]) else hash_walk t \<lparr>it_bucket = int b, bucketIter = Some n\<rparr> (seen @ [x]))"
    using b c d by (subst hash_walk.simps) (simp add: HashIterator_Item_def HashIterator_Next_def iterator_simps walk_from_def bindL_assoc add.commute)
  show ?case
  proof (cases axs)
    case Nil
    then show ?thesis using step c(3) rest ax by simp
  next
    case (Cons ay ays)
    then obtain c' where "n = Some c'" using c(3) by (cases ay) auto
    then show ?thesis using step Cons.IH [OF c(3), of "seen @ [x]"] Cons ax by simp
  qed
qed simp

lemma walk_from_stores:
  assumes s: "stores getKey hash t xss" and "b \<le> length xss"
  shows "walk_from t b seen = Some (Inr (seen @ concat (drop b xss)))"
  using assms(2)
proof (induction "length xss - b" arbitrary: b seen)
  case 0
  then show ?case using storesD(1) [OF s]
    by (simp add: walk_from_def FindNextFullBucket.simps [of "int b"] HashIterator_at_def hash_walk.simps HashIterator_IsDone_def retL_def)
next
  case (Suc n)
  then have b: "b < length xss" by simp
  have IH: "walk_from t (Suc b) seen = Some (Inr (seen @ concat (drop (Suc b) xss)))" for seen using Suc by (intro Suc.hyps) auto
  obtain h l where hl: "bucket_at t (int b) = Some (Inr (h, l))" "buckets t ! b = (h, l)" "holds h l (xss ! b)" by (rule bucket_at_stores [OF s b])
  have nb: "numBuckets t = int (length xss)" by (rule storesD(1) [OF s])
  have d: "drop b xss = xss ! b # drop (Suc b) xss" using b by (rule Cons_nth_drop_Suc [symmetric])
  show ?case
  proof (cases "xss ! b = []")
    case True
    then have "walk_from t b seen = walk_from t (Suc b) seen"
      using b hl nb holds_IsEmpty [OF hl(3)] unfolding walk_from_def by (subst FindNextFullBucket.simps) (simp add: add.commute)
    then show ?thesis using IH d True by simp
  next
    case False
    obtain axs where a: "linked h l axs" "map snd axs = xss ! b" using hl(3) by (metis holdsE)
    then have "walk_from t b seen = hash_walk t \<lparr>it_bucket = int b, bucketIter = Some (l_first l)\<rparr> seen"
      using b hl nb holds_IsEmpty [OF hl(3)] False unfolding walk_from_def
      by (subst FindNextFullBucket.simps) (simp add: HashIterator_at_def ListIterator_new_def)
    moreover have "axs \<noteq> []" "lseg (cells h) (l_first l) axs None" using a False by (auto simp: linked_def)
    ultimately show ?thesis
      using hash_walk_bucket [OF s b hl(2), of "concat (drop (Suc b) xss)" "l_first l" axs seen] IH a(2) d by simp
  qed
qed

definition visit_all :: "'a HashTable \<Rightarrow> ('a list) lres" where
  "visit_all t = bindL (HashIterator_new t) (\<lambda>it. hash_walk t it [])"

lemma visit_all_represents:
  assumes "represents getKey hash t m"
  shows "\<exists>xs. visit_all t = Some (Inr xs) \<and> HashTable_Apply f t s = Some (Inr (fold f xs s)) \<and> distinct (map getKey xs) \<and> set xs = ran m"
proof -
  obtain xss where s: "stores getKey hash t xss" "indexes getKey (set (concat xss)) m" using assms by (elim representsE)
  have "ran m = set (concat xss)" using indexesD [OF s(2)] by (auto simp: ran_def simp del: set_concat)
  then show ?thesis using walk_from_stores [OF s(1), of 0 "[]"] storesD(6) [OF s(1)] apply_buckets_holds [OF storesD(7) [OF s(1)]]
    by (auto simp: visit_all_def HashIterator_new_def walk_from_def HashTable_Apply_def)
qed

section \<open>A client of the table\<close>

text \<open>
  What a table of keyed items promises, and the self test's use of it.
\<close>

locale keyed_table =
  fixes rep :: "'t \<Rightarrow> ('k \<Rightarrow> 'a option) \<Rightarrow> bool"
    and key :: "'a \<Rightarrow> 'k"
    and ins :: "'a \<Rightarrow> 't \<Rightarrow> 't lres"
    and rem :: "'a \<Rightarrow> 't \<Rightarrow> ('a \<times> 't) lres"
    and there :: "'a \<Rightarrow> 't \<Rightarrow> bool lres"
    and emp :: "'t \<Rightarrow> bool"
  assumes ins: "rep t m \<Longrightarrow> m (key x) = None \<Longrightarrow> \<exists>t'. ins x t = Some (Inr t') \<and> rep t' (m(key x \<mapsto> x))"
    and rem: "rep t m \<Longrightarrow> m (key x) = Some y \<Longrightarrow> \<exists>t'. rem x t = Some (Inr (y, t')) \<and> rep t' (m(key x := None))"
    and there: "rep t m \<Longrightarrow> there x t = Some (Inr (m (key x) \<noteq> None))"
    and emp: "rep t m \<Longrightarrow> emp t \<longleftrightarrow> m = (\<lambda>_. None)"
begin

lemma insert_entries_rep:
  assumes "rep t m" "distinct (map key p)" "\<forall>x \<in> set p. m (key x) = None"
  shows "\<exists>t' m'. insert_entries ins there emp p t = Some (Inr t') \<and> rep t' m' \<and>
    (\<forall>x \<in> set p. m' (key x) = Some x) \<and> (\<forall>k. k \<notin> key ` set p \<longrightarrow> m' k = m k)"
  using assms
proof (induction p arbitrary: t m)
  case Nil
  then show ?case by (auto simp: retL_def)
next
  case (Cons x p)
  let ?m = "m(key x \<mapsto> x)"
  obtain t1 where a: "ins x t = Some (Inr t1)" "rep t1 ?m" using ins [OF Cons.prems(1)] Cons.prems(3) by auto
  have "\<not> emp t1" "there x t1 = Some (Inr True)" using emp [OF a(2)] there [OF a(2), of x] by (auto simp: fun_eq_iff)
  moreover obtain t' m' where r: "insert_entries ins there emp p t1 = Some (Inr t')" "rep t' m'" "\<forall>y \<in> set p. m' (key y) = Some y"
    "\<forall>k. k \<notin> key ` set p \<longrightarrow> m' k = ?m k"
  proof -
    have "\<forall>y \<in> set p. ?m (key y) = None" using Cons.prems(2,3) by (auto simp: image_iff)
    then show thesis using Cons.IH [OF a(2)] Cons.prems(2) that by auto
  qed
  moreover have "m' (key x) = Some x" using r(4) Cons.prems(2) by auto
  ultimately show ?case using a by (intro exI [of _ t'] exI [of _ m']) auto
qed

lemma remove_entries_rep:
  assumes "rep t m" "distinct (map key p)" "\<forall>x \<in> set p. m (key x) = Some x"
  shows "\<exists>t'. remove_entries rem p t = Some (Inr t') \<and> rep t' (\<lambda>k. if k \<in> key ` set p then None else m k)"
  using assms
proof (induction p arbitrary: t m)
  case Nil
  then show ?case by (auto simp: retL_def)
next
  case (Cons x p)
  obtain t1 where a: "rem x t = Some (Inr (x, t1))" "rep t1 (m(key x := None))" using rem [OF Cons.prems(1), of x x] Cons.prems(3) by auto
  have "(\<lambda>k. if k \<in> key ` set p then None else (m(key x := None)) k) = (\<lambda>k. if k \<in> key ` set (x # p) then None else m k)" by auto
  moreover have "\<forall>y \<in> set p. (m(key x := None)) (key y) = Some y" using Cons.prems(2,3) by (auto simp: image_iff)
  ultimately show ?case using a Cons.IH [OF a(2)] Cons.prems(2) by auto
qed

lemma entries_round_trip:
  assumes "rep t (\<lambda>_. None)" "distinct (map key p)"
  shows "\<exists>t1 t2. insert_entries ins there emp p t = Some (Inr t1) \<and> remove_entries rem p t1 = Some (Inr t2) \<and> rep t2 (\<lambda>_. None)"
proof -
  obtain t1 m1 where a: "insert_entries ins there emp p t = Some (Inr t1)" "rep t1 m1" "\<forall>x \<in> set p. m1 (key x) = Some x"
    "\<forall>k. k \<notin> key ` set p \<longrightarrow> m1 k = None" using insert_entries_rep [OF assms] by auto
  have "(\<lambda>k. if k \<in> key ` set p then None else m1 k) = (\<lambda>_. None)" using a(4) by auto
  then show ?thesis using remove_entries_rep [OF a(2) assms(2) a(3)] a(1) by auto
qed

end

interpretation hash_table: keyed_table "represents getKey hash" getKey "HashTable_Insert getKey hash" "\<lambda>x. HashTable_Remove getKey hash (getKey x)"
  "\<lambda>x. IsInTable getKey hash (getKey x)" HashTable_IsEmpty for getKey hash
  by unfold_locales (auto simp: Insert_represents Remove_represents IsInTable_represents IsEmpty_represents)

lemma FindNextFullBucket_none:
  assumes s: "stores getKey hash t xss" and e: "concat xss = []"
  shows "b \<le> length xss \<Longrightarrow> FindNextFullBucket (int b) t = Some (Inr (int (length xss)))"
proof (induction "length xss - b" arbitrary: b)
  case 0
  then show ?case using storesD(1) [OF s] by (subst FindNextFullBucket.simps) (simp add: retL_def)
next
  case (Suc n)
  then have b: "b < length xss" by simp
  obtain h l where hl: "bucket_at t (int b) = Some (Inr (h, l))" "holds h l (xss ! b)" by (rule bucket_at_stores [OF s b])
  have "xss ! b = []" using e b by simp
  then show ?case using Suc.hyps(1) [of "Suc b"] Suc.hyps(2) b hl storesD(1) [OF s] holds_IsEmpty [OF hl(2)]
    by (subst FindNextFullBucket.simps) (simp add: add.commute)
qed

lemma empty_iterator:
  assumes "represents getKey hash t (\<lambda>_. None)"
  shows "\<exists>it. HashIterator_new t = Some (Inr it) \<and> HashIterator_IsDone t it"
proof -
  obtain xss where s: "stores getKey hash t xss" "numItems t = int (length (concat xss))" using assms by (elim representsE)
  have "concat xss = []" using s(2) IsEmpty_represents [OF assms] by (simp add: HashTable_IsEmpty_def)
  then show ?thesis using FindNextFullBucket_none [OF s(1), of 0] storesD(1) [OF s(1)]
    by (simp add: HashIterator_new_def HashIterator_at_def HashIterator_IsDone_def retL_def)
qed

lemma HashTable_SelfTest_passes:
  assumes "distinct (map getKey p)" and r: "represents getKey hash t (\<lambda>_. None)"
  shows "\<exists>t'. HashTable_SelfTest getKey hash p t = Some (Inr t') \<and> represents getKey hash t' (\<lambda>_. None)"
proof -
  obtain it where i: "HashIterator_new t = Some (Inr it)" "HashIterator_IsDone t it" using empty_iterator [OF r] by blast
  show ?thesis using hash_table.entries_round_trip [OF r assms(1)] i r
    by (auto simp: HashTable_SelfTest_def SanityCheck_represents IsEmpty_represents retL_def)
qed

section \<open>Properties\<close>

text \<open>
  C35. The hash table implements a finite map from keys to items, whatever the hash function. From a table that represents the map \<open>m\<close>, every
  operation returns, also when it has to move all the items into a larger table: \<open>Find\<close> looks the key up, \<open>Insert\<close> adds an item under its key and
  fails its assertion if the key is taken, \<open>Remove\<close> takes out and returns the item of the key and fails its assertion if there is none, the sanity
  check finds nothing wrong, and the iterator and \<open>Apply\<close> visit every item exactly once.
\<close>
theorem hash_table_refines_map:
  assumes "represents getKey hash t m"
  shows "Find getKey hash k t = Some (Inr (m k)) \<and> (HashTable_IsEmpty t \<longleftrightarrow> m = (\<lambda>_. None)) \<and> HashTable_SanityCheck getKey hash t = Some (Inr ()) \<and>
    (case m (getKey x) of Some _ \<Rightarrow> HashTable_Insert getKey hash x t = Some (Inl AssertFailed)
     | None \<Rightarrow> \<exists>t'. HashTable_Insert getKey hash x t = Some (Inr t') \<and> represents getKey hash t' (m(getKey x \<mapsto> x))) \<and>
    (case m k of None \<Rightarrow> HashTable_Remove getKey hash k t = Some (Inl AssertFailed)
     | Some y \<Rightarrow> \<exists>t'. HashTable_Remove getKey hash k t = Some (Inr (y, t')) \<and> represents getKey hash t' (m(k := None))) \<and>
    (\<exists>xs. visit_all t = Some (Inr xs) \<and> HashTable_Apply f t s = Some (Inr (fold f xs s)) \<and> distinct (map getKey xs) \<and> set xs = ran m)"
proof (intro conjI)
  show "case m (getKey x) of Some _ \<Rightarrow> HashTable_Insert getKey hash x t = Some (Inl AssertFailed)
     | None \<Rightarrow> \<exists>t'. HashTable_Insert getKey hash x t = Some (Inr t') \<and> represents getKey hash t' (m(getKey x \<mapsto> x))"
    using Insert_represents [OF assms, of x] by (cases "m (getKey x)") simp_all
  show "case m k of None \<Rightarrow> HashTable_Remove getKey hash k t = Some (Inl AssertFailed)
     | Some y \<Rightarrow> \<exists>t'. HashTable_Remove getKey hash k t = Some (Inr (y, t')) \<and> represents getKey hash t' (m(k := None))"
    using Remove_represents [OF assms, of k] by (cases "m k") simp_all
qed (rule Find_represents [OF assms] IsEmpty_represents [OF assms] SanityCheck_represents [OF assms] visit_all_represents [OF assms])+

theorem hash_table_refines_map_witness:
  "Find HashKey HashInt 7 HashTable_new = Some (Inr None) \<and> HashTable_Remove HashKey HashInt 7 HashTable_new = Some (Inl AssertFailed) \<and>
   (\<exists>t'. HashTable_Insert HashKey HashInt ''12'' HashTable_new = Some (Inr t') \<and> represents HashKey HashInt t' (Map.empty(12 \<mapsto> ''12''))) \<and>
   visit_all (HashTable_new :: string HashTable) = Some (Inr [])"
proof -
  have "HashKey ''12'' = 12" by (simp add: HashKey_def)
  then show ?thesis
    using hash_table_refines_map [OF represents_new, of HashKey HashInt 7 "''12''" "\<lambda>_ s. s" "()"] by simp
qed

text \<open>
  The self tests of the library pass: bitmaps, lists, sorted lists and hash tables run on the vectors of lib/libtest.cc fail no assertion,
  follow no dangling pointer and end, and all the tables are empty when they are deleted.
\<close>
theorem library_self_test_passes: "LibSelfTest = Some (Inr ())"
proof -
  let ?B = "Bucket_new :: int bucket"
  obtain b b' where b: "Bitmap_init 200 = Inr b" "Bitmap_SelfTest b = Inr b'" using init_empty [of 200] SelfTest_from_empty by force
  have h: "holds (fst ?B) (snd ?B) []" by (simp add: Bucket_new_def holds_new)
  have d: "distinct listTestVector" by (simp add: listTestVector_def)
  obtain h1 l1 where l: "List_SelfTest Append List_SanityCheck listTestVector (fst ?B) (snd ?B) = Some (Inr (h1, l1))"
    using plain_list.List_SelfTest_holds [OF h d] by blast
  obtain q where q: "SortedList_SelfTest IntCompare listTestVector (fst ?B) (snd ?B) = Some (Inr q)"
    using int_order.SortedList_SelfTest_sorts [OF h d] by blast
  have "distinct (map HashKey hashTestVector)" by (simp add: hashTestVector_def HashKey_def)
  then obtain t where t: "HashTable_SelfTest HashKey HashInt hashTestVector HashTable_new = Some (Inr t)" "represents HashKey HashInt t (\<lambda>_. None)"
    using HashTable_SelfTest_passes [OF _ represents_new] by blast
  show ?thesis using b l q t(1) IsEmpty_represents [OF t(2)] by (simp add: LibSelfTest_def Let_def HashTable_delete_def retL_def)
qed

end
