(* ===== verification/Monitors.thy ===== *)
theory Monitors
  imports Processes
begin

text \<open>
  Locks, condition variables and the synchronised list: the classes \<open>Lock\<close> and \<open>Condition\<close> of threads/synch.cc and threads/synchlist.cc.

  The code is written with the trees of \<open>Processes\<close>, with a node at every \<open>P\<close> and \<open>V\<close>; a thread can lose the processor before such an
  operation, while it waits in \<open>P\<close>, and after the operation, before the code that follows it. The list of a \<open>SynchList\<close> is a list, as
  \<open>Lists\<close> justifies; semaphores are their values. \<open>mstep\<close> runs any number of threads that append and remove
  items, in any interleaving.
\<close>

section \<open>Locks and conditions\<close>

record 'a Monitor =
  sl_list :: "'a list"              \<comment> \<open>\<open>list\<close> of the \<open>SynchList\<close>\<close>
  lock_semaphore :: nat             \<comment> \<open>\<open>lock->semaphore\<close>\<close>
  lockHolder :: "nat option"        \<comment> \<open>\<open>lock->lockHolder\<close>\<close>
  waitQueue :: "nat list"           \<comment> \<open>\<open>listEmpty->waitQueue\<close>: semaphores\<close>
  m_sems :: "nat \<Rightarrow> int option"
  m_next :: nat

datatype 'a answer = Unit | Again | Appended | Took 'a | Applied "'a list"
  \<comment> \<open>\<open>Again\<close>: a loop condition is to be evaluated again\<close>

type_synonym 'a mcode = "('a Monitor, 'a answer) kcode"

definition new_sem :: "int \<Rightarrow> ('a, 'm) Monitor_scheme \<Rightarrow> nat \<times> ('a, 'm) Monitor_scheme" where
  "new_sem v k = (m_next k, k\<lparr>m_sems := (m_sems k)(m_next k := Some v), m_next := m_next k + 1\<rparr>)"

definition Lock_new :: "('a, 'm) Monitor_scheme \<Rightarrow> ('a, 'm) Monitor_scheme" where
  "Lock_new k = (let (s, k1) = new_sem 1 k in k1\<lparr>lock_semaphore := s, lockHolder := None\<rparr>)"

definition Lock_Acquire :: "nat \<Rightarrow> ('a, 'm) Monitor_scheme \<Rightarrow> (('a, 'm) Monitor_scheme, unit answer) kcode" where
  "Lock_Acquire me k = OpP (lock_semaphore k) k (\<lambda>k1. Ret Unit (k1\<lparr>lockHolder := Some me\<rparr>))"

definition IsHeldByCurrentThread :: "nat \<Rightarrow> ('a, 'm) Monitor_scheme \<Rightarrow> bool" where
  "IsHeldByCurrentThread me k \<longleftrightarrow> lockHolder k = Some me"

definition assertK :: "bool \<Rightarrow> ('k, 'a) kcode \<Rightarrow> ('k, 'a) kcode" where
  "assertK c m = (if c then m else Fault AssertFailed)"

definition Lock_Release :: "nat \<Rightarrow> ('a, 'm) Monitor_scheme \<Rightarrow> (('a, 'm) Monitor_scheme, unit answer) kcode" where
  "Lock_Release me k = assertK (IsHeldByCurrentThread me k)
     (let k1 = k\<lparr>lockHolder := None\<rparr> in OpV (lock_semaphore k1) k1 (\<lambda>k2. Ret Unit k2))"

definition Condition_new :: "'a Monitor \<Rightarrow> 'a Monitor" where
  "Condition_new k = k\<lparr>waitQueue := []\<rparr>"

definition Condition_Wait :: "nat \<Rightarrow> 'a Monitor \<Rightarrow> 'a mcode" where
  "Condition_Wait me k = assertK (IsHeldByCurrentThread me k)
     (let (waiter, k1) = new_sem 0 k; k2 = k1\<lparr>waitQueue := waitQueue k1 @ [waiter]\<rparr> in
      bindK (Lock_Release me k2) (\<lambda>_ k3.
        OpP waiter k3 (\<lambda>k4.
          bindK (Lock_Acquire me k4) (\<lambda>_ k5. Ret Unit (k5\<lparr>m_sems := (m_sems k5)(waiter := None)\<rparr>)))))"

definition Condition_Signal :: "nat \<Rightarrow> 'a Monitor \<Rightarrow> 'a mcode" where
  "Condition_Signal me k = assertK (IsHeldByCurrentThread me k)
     (case waitQueue k of
        [] \<Rightarrow> Ret Unit k
      | waiter # ws \<Rightarrow> OpV waiter (k\<lparr>waitQueue := ws\<rparr>) (\<lambda>k1. Ret Unit k1))"

definition Condition_Broadcast :: "nat \<Rightarrow> 'a Monitor \<Rightarrow> 'a mcode" where
  \<comment> \<open>one evaluation of the loop condition\<close>
  "Condition_Broadcast me k = (if waitQueue k = [] then Ret Unit k else bindK (Condition_Signal me k) (\<lambda>_ k1. Ret Again k1))"

section \<open>The synchronised list\<close>

definition SynchList_new :: "'a Monitor \<Rightarrow> 'a Monitor" where
  "SynchList_new k = Condition_new (Lock_new (k\<lparr>sl_list := []\<rparr>))"

definition append_locked :: "nat \<Rightarrow> 'a \<Rightarrow> 'a Monitor \<Rightarrow> 'a mcode" where
  "append_locked me item k = bindK (Condition_Signal me (k\<lparr>sl_list := sl_list k @ [item]\<rparr>)) (\<lambda>_ k1.
     bindK (Lock_Release me k1) (\<lambda>_ k2. Ret Appended k2))"

definition SynchList_Append :: "nat \<Rightarrow> 'a \<Rightarrow> 'a Monitor \<Rightarrow> 'a mcode" where
  "SynchList_Append me item k = bindK (Lock_Acquire me k) (\<lambda>_. append_locked me item)"

definition remove_loop :: "nat \<Rightarrow> 'a Monitor \<Rightarrow> 'a mcode" where
  \<comment> \<open>one evaluation of \<open>while (list->IsEmpty())\<close> and what follows\<close>
  "remove_loop me k = (case sl_list k of
       [] \<Rightarrow> bindK (Condition_Wait me k) (\<lambda>_ k1. Ret Again k1)
     | item # items \<Rightarrow> bindK (Lock_Release me (k\<lparr>sl_list := items\<rparr>)) (\<lambda>_ k1. Ret (Took item) k1))"

definition SynchList_RemoveFront :: "nat \<Rightarrow> 'a Monitor \<Rightarrow> 'a mcode" where
  "SynchList_RemoveFront me k = bindK (Lock_Acquire me k) (\<lambda>_. remove_loop me)"

definition SynchList_Apply :: "nat \<Rightarrow> 'a Monitor \<Rightarrow> 'a mcode" where
  \<comment> \<open>the answer lists the items \<open>func\<close> is called on\<close>
  "SynchList_Apply me k = bindK (Lock_Acquire me k) (\<lambda>_ k1. bindK (Lock_Release me k1) (\<lambda>_ k2. Ret (Applied (sl_list k1)) k2))"

section \<open>Threads\<close>

datatype 'a event = CallAppend nat 'a | CallRemove nat | CallApply nat | Returned nat "'a answer"

datatype ('k, 'a) activity =
    Free
  | At "('k, 'a answer) kcode"                            \<comment> \<open>about to do the operation at the root\<close>
  | Past "'k \<Rightarrow> ('k, 'a answer) kcode"            \<comment> \<open>has done it, has not gone on\<close>
  | Died fault

record ('k, 'a) Threads =
  mon :: 'k
  act :: "nat \<Rightarrow> ('k, 'a) activity"
  history :: "'a event list"      \<comment> \<open>calls and returns so far\<close>

type_synonym 'a MThreads = "('a Monitor, 'a) Threads"

fun enter :: "nat \<Rightarrow> ('k, 'a answer) kcode \<Rightarrow> ('k, 'a) Threads \<Rightarrow> ('k, 'a) Threads" where
  \<comment> \<open>thread \<open>t\<close> has run up to the next operation\<close>
  "enter t (Ret a k) \<sigma> = \<sigma>\<lparr>mon := k, act := (act \<sigma>)(t := Free), history := history \<sigma> @ [Returned t a]\<rparr>"
| "enter t (OpP s k c) \<sigma> = \<sigma>\<lparr>mon := k, act := (act \<sigma>)(t := At (OpP s k c))\<rparr>"
| "enter t (OpV s k c) \<sigma> = \<sigma>\<lparr>mon := k, act := (act \<sigma>)(t := At (OpV s k c))\<rparr>"
| "enter t (Fault e) \<sigma> = \<sigma>\<lparr>act := (act \<sigma>)(t := Died e)\<rparr>"
| "enter t (Halted k) \<sigma> = \<sigma>\<lparr>mon := k, act := (act \<sigma>)(t := Free)\<rparr>"
| "enter t (Finished k) \<sigma> = \<sigma>\<lparr>mon := k, act := (act \<sigma>)(t := Free)\<rparr>"

definition go_on :: "nat \<Rightarrow> 'a mcode \<Rightarrow> 'a mcode" where
  \<comment> \<open>back to the loop of \<open>RemoveFront\<close>\<close>
  "go_on t c = (case c of Ret Again k \<Rightarrow> remove_loop t k | _ \<Rightarrow> c)"

definition called :: "'a event \<Rightarrow> 'a MThreads \<Rightarrow> 'a MThreads" where
  "called e \<sigma> = \<sigma>\<lparr>history := history \<sigma> @ [e]\<rparr>"

definition set_m :: "nat \<Rightarrow> int \<Rightarrow> ('a, 'm) Monitor_scheme \<Rightarrow> ('a, 'm) Monitor_scheme" where
  "set_m s v k = k\<lparr>m_sems := (m_sems k)(s := Some v)\<rparr>"

inductive mstep :: "nat \<Rightarrow> 'a MThreads \<Rightarrow> 'a MThreads \<Rightarrow> bool" where
  start_append: "act \<sigma> t = Free \<Longrightarrow> mstep t \<sigma> (enter t (SynchList_Append t x (mon \<sigma>)) (called (CallAppend t x) \<sigma>))"
| start_remove: "act \<sigma> t = Free \<Longrightarrow> mstep t \<sigma> (enter t (SynchList_RemoveFront t (mon \<sigma>)) (called (CallRemove t) \<sigma>))"
| start_apply: "act \<sigma> t = Free \<Longrightarrow> mstep t \<sigma> (enter t (SynchList_Apply t (mon \<sigma>)) (called (CallApply t) \<sigma>))"
| do_P: "act \<sigma> t = At (OpP s k c) \<Longrightarrow> m_sems (mon \<sigma>) s = Some v \<Longrightarrow> v \<noteq> 0 \<Longrightarrow>
    mstep t \<sigma> (\<sigma>\<lparr>mon := set_m s (v - 1) (mon \<sigma>), act := (act \<sigma>)(t := Past c)\<rparr>)"
| do_V: "act \<sigma> t = At (OpV s k c) \<Longrightarrow> m_sems (mon \<sigma>) s = Some v \<Longrightarrow>
    mstep t \<sigma> (\<sigma>\<lparr>mon := set_m s (v + 1) (mon \<sigma>), act := (act \<sigma>)(t := Past c)\<rparr>)"
| do_rest: "act \<sigma> t = Past c \<Longrightarrow> mstep t \<sigma> (enter t (go_on t (c (mon \<sigma>))) \<sigma>)"

inductive_cases mstepE: "mstep t \<sigma> \<sigma>'"

definition monitor0 :: "'a Monitor" where
  "monitor0 = SynchList_new \<lparr>sl_list = [], lock_semaphore = 0, lockHolder = None, waitQueue = [], m_sems = \<lambda>_. None, m_next = 0\<rparr>"

definition threads0 :: "'a MThreads" where
  "threads0 = \<lparr>mon = monitor0, act = \<lambda>_. Free, history = []\<rparr>"

inductive mreach :: "'a MThreads \<Rightarrow> bool" where
  mreach_init: "mreach threads0"
| mreach_step: "mreach \<sigma> \<Longrightarrow> mstep t \<sigma> \<sigma>' \<Longrightarrow> mreach \<sigma>'"

section \<open>Where a thread can be\<close>

datatype 'a pc =
    Out
  | WantA 'a | GotA 'a | SigA nat | SigdA | RelA | RldA        \<comment> \<open>in \<open>Append\<close>: lock, signal, unlock\<close>
  | WantR | GotR | RelR 'a | RldR 'a                           \<comment> \<open>in \<open>RemoveFront\<close>: lock, unlock\<close>
  | WantL | GotL | RelL "'a list" | RldL "'a list"             \<comment> \<open>in \<open>Apply\<close>\<close>
  | RelW nat | RldW nat | SleepW nat | WokenW nat | WantW nat | GotW nat   \<comment> \<open>in \<open>Wait\<close>\<close>

definition signalled_rest :: "nat \<Rightarrow> 'a Monitor \<Rightarrow> 'a mcode" where
  "signalled_rest t k = bindK (Lock_Release t k) (\<lambda>_ k2. Ret Appended k2)"

definition locked_rest :: "nat \<Rightarrow> nat \<Rightarrow> 'a Monitor \<Rightarrow> 'a mcode" where
  "locked_rest t w k = Ret Again (k\<lparr>lockHolder := Some t, m_sems := (m_sems k)(w := None)\<rparr>)"

definition woken_rest :: "nat \<Rightarrow> nat \<Rightarrow> 'a Monitor \<Rightarrow> 'a mcode" where
  "woken_rest t w k = OpP (lock_semaphore k) k (locked_rest t w)"

definition released_rest :: "nat \<Rightarrow> nat \<Rightarrow> 'a Monitor \<Rightarrow> 'a mcode" where
  "released_rest t w k = OpP w k (woken_rest t w)"

definition append_rest :: "nat \<Rightarrow> 'a \<Rightarrow> 'a Monitor \<Rightarrow> 'a mcode" where
  "append_rest t x k = append_locked t x (k\<lparr>lockHolder := Some t\<rparr>)"

definition remove_rest :: "nat \<Rightarrow> 'a Monitor \<Rightarrow> 'a mcode" where
  "remove_rest t k = remove_loop t (k\<lparr>lockHolder := Some t\<rparr>)"

definition apply_rest :: "nat \<Rightarrow> 'a Monitor \<Rightarrow> 'a mcode" where
  "apply_rest t k = bindK (Lock_Release t (k\<lparr>lockHolder := Some t\<rparr>)) (\<lambda>_ k2. Ret (Applied (sl_list k)) k2)"

fun shape :: "nat \<Rightarrow> 'a pc \<Rightarrow> ('a Monitor, 'a) activity \<Rightarrow> bool" where
  "shape t Out a \<longleftrightarrow> a = Free"
| "shape t (WantA x) a \<longleftrightarrow> (\<exists>k. a = At (OpP 0 k (append_rest t x)))"
| "shape t (GotA x) a \<longleftrightarrow> a = Past (append_rest t x)"
| "shape t (SigA w) a \<longleftrightarrow> (\<exists>k. a = At (OpV w k (signalled_rest t)))"
| "shape t SigdA a \<longleftrightarrow> a = Past (signalled_rest t)"
| "shape t RelA a \<longleftrightarrow> (\<exists>k. a = At (OpV 0 k (Ret Appended)))"
| "shape t RldA a \<longleftrightarrow> a = Past (Ret Appended)"
| "shape t WantR a \<longleftrightarrow> (\<exists>k. a = At (OpP 0 k (remove_rest t)))"
| "shape t GotR a \<longleftrightarrow> a = Past (remove_rest t)"
| "shape t (RelR x) a \<longleftrightarrow> (\<exists>k. a = At (OpV 0 k (Ret (Took x))))"
| "shape t (RldR x) a \<longleftrightarrow> a = Past (Ret (Took x))"
| "shape t WantL a \<longleftrightarrow> (\<exists>k. a = At (OpP 0 k (apply_rest t)))"
| "shape t GotL a \<longleftrightarrow> a = Past (apply_rest t)"
| "shape t (RelL xs) a \<longleftrightarrow> (\<exists>k. a = At (OpV 0 k (Ret (Applied xs))))"
| "shape t (RldL xs) a \<longleftrightarrow> a = Past (Ret (Applied xs))"
| "shape t (RelW w) a \<longleftrightarrow> (\<exists>k. a = At (OpV 0 k (released_rest t w)))"
| "shape t (RldW w) a \<longleftrightarrow> a = Past (released_rest t w)"
| "shape t (SleepW w) a \<longleftrightarrow> (\<exists>k. a = At (OpP w k (woken_rest t w)))"
| "shape t (WokenW w) a \<longleftrightarrow> a = Past (woken_rest t w)"
| "shape t (WantW w) a \<longleftrightarrow> (\<exists>k. a = At (OpP 0 k (locked_rest t w)))"
| "shape t (GotW w) a \<longleftrightarrow> a = Past (locked_rest t w)"

text \<open>The step a thread takes from each place. \<open>look\<close> is the test of the list with the lock held.\<close>

definition look :: "'a Monitor \<Rightarrow> 'a pc \<times> 'a Monitor" where
  "look k = (case sl_list k of
       x # xs \<Rightarrow> (RelR x, k\<lparr>sl_list := xs, lockHolder := None\<rparr>)
     | [] \<Rightarrow> (RelW (m_next k), k\<lparr>m_sems := (m_sems k)(m_next k := Some 0), m_next := m_next k + 1, waitQueue := waitQueue k @ [m_next k],
         lockHolder := None\<rparr>))"

fun got :: "'a pc \<Rightarrow> 'a pc option" where
  "got (WantA x) = Some (GotA x)"
| "got WantR = Some GotR"
| "got WantL = Some GotL"
| "got (WantW w) = Some (GotW w)"
| "got _ = None"

fun released :: "'a pc \<Rightarrow> 'a pc option" where
  "released RelA = Some RldA"
| "released (RelR x) = Some (RldR x)"
| "released (RelL xs) = Some (RldL xs)"
| "released (RelW w) = Some (RldW w)"
| "released _ = None"

inductive pcstep :: "nat \<Rightarrow> 'a pc \<Rightarrow> 'a Monitor \<Rightarrow> 'a event list \<Rightarrow> 'a pc \<Rightarrow> 'a Monitor \<Rightarrow> bool" for t where
  call_append: "pcstep t Out k [CallAppend t x] (WantA x) k"
| call_remove: "pcstep t Out k [CallRemove t] WantR k"
| call_apply: "pcstep t Out k [CallApply t] WantL k"
| lock: "m_sems k 0 = Some v \<Longrightarrow> v \<noteq> 0 \<Longrightarrow> got p = Some p' \<Longrightarrow> pcstep t p k [] p' (set_m 0 (v - 1) k)"
| unlock: "m_sems k 0 = Some v \<Longrightarrow> released p = Some p' \<Longrightarrow> pcstep t p k [] p' (set_m 0 (v + 1) k)"
| put_last: "waitQueue k = [] \<Longrightarrow> pcstep t (GotA x) k [] RelA (k\<lparr>sl_list := sl_list k @ [x], lockHolder := None\<rparr>)"
| put_signal: "waitQueue k = w # ws \<Longrightarrow>
    pcstep t (GotA x) k [] (SigA w) (k\<lparr>lockHolder := Some t, sl_list := sl_list k @ [x], waitQueue := ws\<rparr>)"
| signal: "m_sems k w = Some v \<Longrightarrow> pcstep t (SigA w) k [] SigdA (set_m w (v + 1) k)"
| release: "pcstep t SigdA k [] RelA (k\<lparr>lockHolder := None\<rparr>)"
| look: "look k = (p, k') \<Longrightarrow> pcstep t GotR k [] p k'"
| look_again: "look (k\<lparr>m_sems := (m_sems k)(w := None)\<rparr>) = (p, k') \<Longrightarrow> pcstep t (GotW w) k [] p k'"
| visit: "pcstep t GotL k [] (RelL (sl_list k)) (k\<lparr>lockHolder := None\<rparr>)"
| sleep: "pcstep t (RldW w) k [] (SleepW w) k"
| wake: "m_sems k w = Some v \<Longrightarrow> v \<noteq> 0 \<Longrightarrow> pcstep t (SleepW w) k [] (WokenW w) (set_m w (v - 1) k)"
| want: "pcstep t (WokenW w) k [] (WantW w) k"
| leave_append: "pcstep t RldA k [Returned t Appended] Out k"
| leave_remove: "pcstep t (RldR x) k [Returned t (Took x)] Out k"
| leave_apply: "pcstep t (RldL xs) k [Returned t (Applied xs)] Out k"

lemmas monitor_code = SynchList_Append_def SynchList_Apply_def SynchList_RemoveFront_def Lock_Acquire_def Lock_Release_def Condition_Signal_def Condition_Wait_def
  append_locked_def remove_loop_def assertK_def IsHeldByCurrentThread_def new_sem_def Let_def

lemmas rests = signalled_rest_def locked_rest_def woken_rest_def released_rest_def append_rest_def remove_rest_def apply_rest_def

lemma remove_loop_look:
  assumes "lockHolder k = Some t" and "lock_semaphore k = 0" and "look k = (p, k')"
  shows "mon (enter t (remove_loop t k) \<sigma>) = k'" "shape t p (act (enter t (remove_loop t k) \<sigma>) t)"
    "act (enter t (remove_loop t k) \<sigma>) = (act \<sigma>)(t := act (enter t (remove_loop t k) \<sigma>) t)"
    "history (enter t (remove_loop t k) \<sigma>) = history \<sigma>"
proof -
  have w: "Condition_Wait t k = OpV 0 (snd (look k)) (\<lambda>k3. OpP (m_next k) k3 (\<lambda>k4. OpP (lock_semaphore k4) k4
      (\<lambda>k5. Ret Unit (k5\<lparr>lockHolder := Some t, m_sems := (m_sems k5)(m_next k := None)\<rparr>))))" if "sl_list k = []"
    using assms(1,2) that by (simp add: monitor_code look_def)
  show "mon (enter t (remove_loop t k) \<sigma>) = k'" "shape t p (act (enter t (remove_loop t k) \<sigma>) t)"
    "act (enter t (remove_loop t k) \<sigma>) = (act \<sigma>)(t := act (enter t (remove_loop t k) \<sigma>) t)"
    "history (enter t (remove_loop t k) \<sigma>) = history \<sigma>"
    using assms w
    by (auto simp: remove_loop_def look_def Lock_Release_def assertK_def IsHeldByCurrentThread_def Let_def rests [abs_def] split: list.splits)
qed

lemma remove_step:
  assumes "lock_semaphore k = 0" "lockHolder k = Some t" "look k = (p, k')" "\<sigma>' = enter t (remove_loop t k) \<sigma>" "pcstep t p0 k0 [] p k'"
  shows "\<exists>p' es. shape t p' (act \<sigma>' t) \<and> act \<sigma>' = (act \<sigma>)(t := act \<sigma>' t) \<and> history \<sigma>' = history \<sigma> @ es \<and> pcstep t p0 k0 es p' (mon \<sigma>')"
proof (intro exI conjI)
  show "shape t p (act \<sigma>' t)" unfolding assms(4) by (rule remove_loop_look(2) [OF assms(2,1,3)])
  show "act \<sigma>' = (act \<sigma>)(t := act \<sigma>' t)" unfolding assms(4) by (rule remove_loop_look(3) [OF assms(2,1,3)])
  show "history \<sigma>' = history \<sigma> @ []" unfolding assms(4) using remove_loop_look(4) [OF assms(2,1,3)] by simp
  show "pcstep t p0 k0 [] p (mon \<sigma>')" unfolding assms(4) using remove_loop_look(1) [OF assms(2,1,3)] assms(5) by simp
qed

lemma look_lock: "look (k\<lparr>lockHolder := h\<rparr>) = look k" "look (k\<lparr>lockHolder := h, m_sems := m\<rparr>) = look (k\<lparr>m_sems := m\<rparr>)"
  by (simp_all add: look_def split: list.split)

lemma mstep_pc:
  assumes "mstep t \<sigma> \<sigma>'" and "shape t p (act \<sigma> t)" and "lock_semaphore (mon \<sigma>) = 0" and "p = SigdA \<Longrightarrow> lockHolder (mon \<sigma>) = Some t"
  shows "\<exists>p' es. shape t p' (act \<sigma>' t) \<and> act \<sigma>' = (act \<sigma>)(t := act \<sigma>' t) \<and> history \<sigma>' = history \<sigma> @ es \<and>
    pcstep t p (mon \<sigma>) es p' (mon \<sigma>')"
  using assms(1)
proof cases
  case (start_append x)
  then have "p = Out" using assms(2) by (cases p) auto
  then show ?thesis using start_append assms(3)
    by (intro exI [of _ "WantA x"] exI [of _ "[CallAppend t x]"]) (auto simp: monitor_code rests [abs_def] called_def intro: pcstep.intros)
next
  case start_remove
  then have "p = Out" using assms(2) by (cases p) auto
  then show ?thesis using start_remove assms(3)
    by (intro exI [of _ WantR] exI [of _ "[CallRemove t]"]) (auto simp: Lock_Acquire_def SynchList_RemoveFront_def rests [abs_def] called_def intro: pcstep.intros)
next
  case start_apply
  then have "p = Out" using assms(2) by (cases p) auto
  then show ?thesis using start_apply assms(3)
    by (intro exI [of _ WantL] exI [of _ "[CallApply t]"]) (auto simp: Lock_Acquire_def SynchList_Apply_def rests [abs_def] called_def intro: pcstep.intros)
next
  case (do_P s k c v)
  then show ?thesis using assms(2)
    by (intro exI [of _ "case p of SleepW w \<Rightarrow> WokenW w | _ \<Rightarrow> the (got p)"] exI [of _ "[]"], cases p) (auto intro: pcstep.intros)
next
  case (do_V s k c v)
  then show ?thesis using assms(2)
    by (intro exI [of _ "case p of SigA w \<Rightarrow> SigdA | _ \<Rightarrow> the (released p)"] exI [of _ "[]"], cases p) (auto intro: pcstep.intros)
next
  case (do_rest c)
  have a: "act \<sigma> t = Past c" "\<sigma>' = enter t (go_on t (c (mon \<sigma>))) \<sigma>" by fact+
  show ?thesis
  proof (cases p)
    case (GotA x)
    then have "c = append_rest t x" using a assms(2) by simp
    then show ?thesis using a(2) GotA assms(3)
      by (intro exI [of _ "case waitQueue (mon \<sigma>) of [] \<Rightarrow> RelA | w # ws \<Rightarrow> SigA w"] exI [of _ "[]"])
        (auto simp: append_rest_def signalled_rest_def [abs_def] monitor_code go_on_def intro: pcstep.intros split: list.split)
  next
    case GotR
    obtain q k' where l: "look (mon \<sigma>) = (q, k')" by fastforce
    have "go_on t (c (mon \<sigma>)) = remove_loop t (mon \<sigma>\<lparr>lockHolder := Some t\<rparr>)"
      using GotR a assms(2) by (auto simp: go_on_def rests monitor_code split: list.split)
    then show ?thesis using a(2) assms(3) GotR l
      by (intro remove_step [of "mon \<sigma>\<lparr>lockHolder := Some t\<rparr>" t q k']) (simp_all add: look_lock pcstep.look)
  next
    case (GotW w)
    obtain q k' where l: "look (mon \<sigma>\<lparr>m_sems := (m_sems (mon \<sigma>))(w := None)\<rparr>) = (q, k')" by fastforce
    have "go_on t (c (mon \<sigma>)) = remove_loop t (mon \<sigma>\<lparr>lockHolder := Some t, m_sems := (m_sems (mon \<sigma>))(w := None)\<rparr>)"
      using GotW a assms(2) by (auto simp: go_on_def locked_rest_def)
    then show ?thesis using a(2) assms(3) GotW l
      by (intro remove_step [of "mon \<sigma>\<lparr>lockHolder := Some t, m_sems := (m_sems (mon \<sigma>))(w := None)\<rparr>" t q k'])
        (simp_all add: look_lock pcstep.look_again)
  next
    case GotL
    then have "c = apply_rest t" using a assms(2) by simp
    then show ?thesis using a(2) GotL assms(3)
      by (intro exI [of _ "RelL (sl_list (mon \<sigma>))"] exI [of _ "[]"]) (auto simp: apply_rest_def monitor_code go_on_def intro: pcstep.intros)
  next
    case SigdA
    then have "c = signalled_rest t" using a assms(2) by simp
    then show ?thesis using a(2) SigdA assms(3,4)
      by (intro exI [of _ RelA] exI [of _ "[]"]) (auto simp: signalled_rest_def monitor_code go_on_def intro: pcstep.intros)
  next
    case RldA
    then show ?thesis using a assms(2) by (intro exI [of _ Out]) (auto simp: go_on_def intro: pcstep.intros)
  next
    case (RldR x)
    then show ?thesis using a assms(2) by (intro exI [of _ Out]) (auto simp: go_on_def intro: pcstep.intros)
  next
    case (RldL x)
    then show ?thesis using a assms(2) by (intro exI [of _ Out]) (auto simp: go_on_def intro: pcstep.intros)
  next
    case (RldW w)
    then show ?thesis using a assms(2)
      by (intro exI [of _ "SleepW w"] exI [of _ "[]"]) (auto simp: go_on_def released_rest_def intro: pcstep.intros)
  next
    case (WokenW w)
    then show ?thesis using a assms(2,3)
      by (intro exI [of _ "WantW w"] exI [of _ "[]"]) (auto simp: go_on_def woken_rest_def intro: pcstep.intros)
  qed (use a(1) assms(2) in auto)
qed

end
