(* ===== verification/Drivers.thy ===== *)
theory Drivers
  imports Monitors Device_System
begin

text \<open>
  Drivers that wait for a device: filesys/synchdisk.cc, the output half of userprog/synchconsole.cc, and the sending half of network/post.cc.

  All of them take a lock, start a request, wait on a semaphore for the interrupt, and release the lock; the interrupt handler
  does \<open>V\<close> on the semaphore. The device is the system of \<open>Device_System\<close> that ticks on between the steps of the threads. The driver's record
  adds to the lock of \<open>Monitors\<close> the semaphore and the device, and a log of what happened at the device. The locale
  \<open>request_device\<close> states what the protocol needs of a device and shows that it serialises the requests.
\<close>

section \<open>The drivers\<close>

datatype dev_event = Started nat | Interrupted | Resumed nat
  \<comment> \<open>a request of a thread; the interrupt; the thread goes on after it\<close>

record 'd Driver = "unit Monitor" +
  dr_done :: nat                  \<comment> \<open>the semaphore the interrupt handler does \<open>V\<close> on\<close>
  dr_dev :: 'd
  dr_log :: "dev_event list"

type_synonym ('d, 'a) dcode = "('d Driver, 'a answer) kcode"

definition logged :: "dev_event \<Rightarrow> 'd Driver \<Rightarrow> 'd Driver" where
  "logged e k = k\<lparr>dr_log := dr_log k @ [e]\<rparr>"

definition request :: "nat \<Rightarrow> ('d \<Rightarrow> ('a \<times> 'd) lres) \<Rightarrow> 'd Driver \<Rightarrow> ('a \<Rightarrow> 'd Driver \<Rightarrow> ('d, 'a) dcode) \<Rightarrow> ('d, 'a) dcode" where
  \<comment> \<open>a call of the device; one that did not return would count as a fault\<close>
  "request me f k c = (case f (dr_dev k) of
       None \<Rightarrow> Fault BadAccess
     | Some (Inl e) \<Rightarrow> Fault e
     | Some (Inr (a, d)) \<Rightarrow> c a (logged (Started me) (k\<lparr>dr_dev := d\<rparr>)))"

definition wait_done :: "nat \<Rightarrow> 'a \<Rightarrow> 'd Driver \<Rightarrow> ('d, 'a) dcode" where
  "wait_done me a k = OpP (dr_done k) k (\<lambda>k1. bindK (Lock_Release me (logged (Resumed me) k1)) (\<lambda>_ k2. Ret (Took a) k2))"

definition exclusively :: "nat \<Rightarrow> ('d \<Rightarrow> ('a \<times> 'd) lres) \<Rightarrow> 'd Driver \<Rightarrow> ('d, 'a) dcode" where
  \<comment> \<open>\<open>lock->Acquire(); f; semaphore->P(); lock->Release();\<close>\<close>
  "exclusively me f k = bindK (Lock_Acquire me k) (\<lambda>_ k1. request me f k1 (wait_done me))"

definition SynchDisk_ReadSector :: "nat \<Rightarrow> int \<Rightarrow> ('h Sys) Driver \<Rightarrow> ('h Sys, byte list) dcode" where
  "SynchDisk_ReadSector me sectorNumber = exclusively me (ReadRequest sectorNumber)"

definition SynchDisk_WriteSector :: "nat \<Rightarrow> int \<Rightarrow> byte list \<Rightarrow> ('h Sys) Driver \<Rightarrow> ('h Sys, byte list) dcode" where
  "SynchDisk_WriteSector me sectorNumber data = exclusively me (\<lambda>s. bindL (WriteRequest sectorNumber data s) (\<lambda>s1. retL ([], s1)))"

definition SynchConsoleOutput_PutChar :: "nat \<Rightarrow> byte \<Rightarrow> ('h Sys) Driver \<Rightarrow> ('h Sys, unit) dcode" where
  "SynchConsoleOutput_PutChar me ch = exclusively me (\<lambda>s. bindL (ConsoleOutput_PutChar ch s) (\<lambda>s1. retL ((), s1)))"

definition SynchConsoleInput_GetChar :: "nat \<Rightarrow> ('h Sys) Driver \<Rightarrow> ('h Sys, byte) dcode" where
  "SynchConsoleInput_GetChar me k = bindK (Lock_Acquire me k) (\<lambda>_ k1. OpP (dr_done k1) k1 (\<lambda>k2.
     request me ConsoleInput_GetChar k2 (\<lambda>ch k3. bindK (Lock_Release me k3) (\<lambda>_ k4. Ret (Took ch) k4))))"

definition Driver_new :: "'d \<Rightarrow> 'd Driver" where
  \<comment> \<open>the semaphore, the lock and the device\<close>
  "Driver_new d = (let (s, k) = new_sem 0 \<lparr>sl_list = [], lock_semaphore = 0, lockHolder = None, waitQueue = [], m_sems = \<lambda>_. None, m_next = 0,
       dr_done = 0, dr_dev = d, dr_log = []\<rparr> in (Lock_new k)\<lparr>dr_done := s\<rparr>)"

section \<open>Threads and the device\<close>

type_synonym ('d, 'a) DThreads = "('d Driver, 'a) Threads"

inductive drstep :: "('r \<Rightarrow> 'd \<Rightarrow> ('a \<times> 'd) lres) \<Rightarrow> ('d \<Rightarrow> bool) \<Rightarrow> ('d \<Rightarrow> 'd \<Rightarrow> bool) \<Rightarrow> ('d, 'a) DThreads \<Rightarrow> ('d, 'a) DThreads \<Rightarrow> bool"
  for start busy world where
  dr_call: "act \<sigma> t = Free \<Longrightarrow> drstep start busy world \<sigma> (enter t (exclusively t (start r) (mon \<sigma>)) \<sigma>)"
| dr_P: "act \<sigma> t = At (OpP s k c) \<Longrightarrow> m_sems (mon \<sigma>) s = Some v \<Longrightarrow> v \<noteq> 0 \<Longrightarrow>
    drstep start busy world \<sigma> (\<sigma>\<lparr>mon := set_m s (v - 1) (mon \<sigma>), act := (act \<sigma>)(t := Past c)\<rparr>)"
| dr_V: "act \<sigma> t = At (OpV s k c) \<Longrightarrow> m_sems (mon \<sigma>) s = Some v \<Longrightarrow>
    drstep start busy world \<sigma> (\<sigma>\<lparr>mon := set_m s (v + 1) (mon \<sigma>), act := (act \<sigma>)(t := Past c)\<rparr>)"
| dr_rest: "act \<sigma> t = Past c \<Longrightarrow> drstep start busy world \<sigma> (enter t (c (mon \<sigma>)) \<sigma>)"
| dr_world: "world (dr_dev (mon \<sigma>)) d \<Longrightarrow> busy d = busy (dr_dev (mon \<sigma>)) \<Longrightarrow>
    drstep start busy world \<sigma> (\<sigma>\<lparr>mon := (mon \<sigma>)\<lparr>dr_dev := d\<rparr>\<rparr>)"
| dr_interrupt: "world (dr_dev (mon \<sigma>)) d \<Longrightarrow> busy (dr_dev (mon \<sigma>)) \<Longrightarrow> \<not> busy d \<Longrightarrow> m_sems (mon \<sigma>) (dr_done (mon \<sigma>)) = Some v \<Longrightarrow>
    drstep start busy world \<sigma> (\<sigma>\<lparr>mon := logged Interrupted (set_m (dr_done (mon \<sigma>)) (v + 1) ((mon \<sigma>)\<lparr>dr_dev := d\<rparr>))\<rparr>)"
    \<comment> \<open>the call back that clears the busy flag ends with \<open>V\<close>\<close>

inductive drreach :: "('r \<Rightarrow> 'd \<Rightarrow> ('a \<times> 'd) lres) \<Rightarrow> ('d \<Rightarrow> bool) \<Rightarrow> ('d \<Rightarrow> 'd \<Rightarrow> bool) \<Rightarrow> 'd \<Rightarrow> ('d, 'a) DThreads \<Rightarrow> bool"
  for start busy world d where
  dr_init: "drreach start busy world d \<lparr>mon = Driver_new d, act = \<lambda>_. Free, history = []\<rparr>"
| dr_next: "drreach start busy world d \<sigma> \<Longrightarrow> drstep start busy world \<sigma> \<sigma>' \<Longrightarrow> drreach start busy world d \<sigma>'"

text \<open>
  The order that the log must have: a request, its interrupt, the return of its thread, and then the next request.
\<close>

datatype phase = Quiet | Working nat | Ended nat | Jammed

fun phase_step :: "phase \<Rightarrow> dev_event \<Rightarrow> phase" where
  "phase_step Quiet (Started t) = Working t"
| "phase_step (Working t) Interrupted = Ended t"
| "phase_step (Ended t) (Resumed u) = (if u = t then Quiet else Jammed)"
| "phase_step _ _ = Jammed"

definition phase_of :: "dev_event list \<Rightarrow> phase" where
  "phase_of es = foldl phase_step Quiet es"

section \<open>Where a thread can be\<close>

datatype ('r, 'a) dpc = DOut | DWant 'r | DGot 'r | DWait 'a | DWoke 'a | DRel 'a | DRld 'a | DDead fault

definition woke_rest :: "nat \<Rightarrow> 'a \<Rightarrow> 'd Driver \<Rightarrow> ('d, 'a) dcode" where
  "woke_rest me a k = bindK (Lock_Release me (logged (Resumed me) k)) (\<lambda>_ k2. Ret (Took a) k2)"

definition issue_rest :: "nat \<Rightarrow> ('d \<Rightarrow> ('a \<times> 'd) lres) \<Rightarrow> 'd Driver \<Rightarrow> ('d, 'a) dcode" where
  "issue_rest me f k = request me f (k\<lparr>lockHolder := Some me\<rparr>) (wait_done me)"

fun dshape :: "('r \<Rightarrow> 'd \<Rightarrow> ('a \<times> 'd) lres) \<Rightarrow> nat \<Rightarrow> ('r, 'a) dpc \<Rightarrow> ('d Driver, 'a) activity \<Rightarrow> bool" where
  "dshape start t DOut a \<longleftrightarrow> a = Free"
| "dshape start t (DWant r) a \<longleftrightarrow> (\<exists>k. a = At (OpP 1 k (issue_rest t (start r))))"
| "dshape start t (DGot r) a \<longleftrightarrow> a = Past (issue_rest t (start r))"
| "dshape start t (DWait x) a \<longleftrightarrow> (\<exists>k. a = At (OpP 0 k (woke_rest t x)))"
| "dshape start t (DWoke x) a \<longleftrightarrow> a = Past (woke_rest t x)"
| "dshape start t (DRel x) a \<longleftrightarrow> (\<exists>k. a = At (OpV 1 k (Ret (Took x))))"
| "dshape start t (DRld x) a \<longleftrightarrow> a = Past (Ret (Took x))"
| "dshape start t (DDead e) a \<longleftrightarrow> a = Died e"

fun downer :: "('r, 'a) dpc \<Rightarrow> bool" where
  "downer (DGot r) = True"
| "downer (DWait x) = True"
| "downer (DWoke x) = True"
| "downer (DRel x) = True"
| "downer (DDead e) = True"
| "downer _ = False"

definition dr_inv :: "('r \<Rightarrow> 'd \<Rightarrow> ('a \<times> 'd) lres) \<Rightarrow> ('d \<Rightarrow> bool) \<Rightarrow> ('d \<Rightarrow> bool) \<Rightarrow> ('d, 'a) DThreads \<Rightarrow> (nat \<Rightarrow> ('r, 'a) dpc) \<Rightarrow> nat option \<Rightarrow> bool" where
  \<comment> \<open>\<open>h\<close> is the thread between the \<open>P\<close> and the \<open>V\<close> on the lock\<close>
  "dr_inv start ok busy \<sigma> f h \<longleftrightarrow> (\<forall>t. dshape start t (f t) (act \<sigma> t)) \<and> (\<forall>t. downer (f t) \<longleftrightarrow> h = Some t) \<and>
     lock_semaphore (mon \<sigma>) = 1 \<and> dr_done (mon \<sigma>) = 0 \<and> m_sems (mon \<sigma>) 1 = Some (if h = None then 1 else 0) \<and> ok (dr_dev (mon \<sigma>)) \<and>
     (let b = busy (dr_dev (mon \<sigma>)); v = m_sems (mon \<sigma>) 0; ph = phase_of (dr_log (mon \<sigma>)) in
      case h of
        Some t \<Rightarrow> (case f t of
            DWait x \<Rightarrow> lockHolder (mon \<sigma>) = Some t \<and> (b \<and> v = Some 0 \<and> ph = Working t \<or> \<not> b \<and> v = Some 1 \<and> ph = Ended t)
          | DWoke x \<Rightarrow> lockHolder (mon \<sigma>) = Some t \<and> \<not> b \<and> v = Some 0 \<and> ph = Ended t
          | _ \<Rightarrow> \<not> b \<and> v = Some 0 \<and> ph = Quiet)
      | None \<Rightarrow> \<not> b \<and> v = Some 0 \<and> ph = Quiet)"

section \<open>The requests are serialised\<close>

lemma phase_of_snoc [simp]: "phase_of (es @ [e]) = phase_step (phase_of es) e" "phase_of [] = Quiet"
  by (simp_all add: phase_of_def)

lemma driver_fields [simp]:
  "m_sems (logged e k) = m_sems k" "lock_semaphore (logged e k) = lock_semaphore k" "lockHolder (logged e k) = lockHolder k"
  "dr_done (logged e k) = dr_done k" "dr_dev (logged e k) = dr_dev k" "dr_log (logged e k) = dr_log k @ [e]"
  by (simp_all add: logged_def)

lemma set_driver_fields [simp]:
  "m_sems (set_m s v k) = (m_sems k)(s \<mapsto> v)" "lock_semaphore (set_m s v k) = lock_semaphore k" "lockHolder (set_m s v k) = lockHolder k"
  "dr_done (set_m s v k) = dr_done k" "dr_dev (set_m s v k) = dr_dev k" "dr_log (set_m s v k) = dr_log k"
  by (simp_all add: set_m_def)

lemma Driver_new_fields:
  "lock_semaphore (Driver_new d) = 1" "lockHolder (Driver_new d) = None" "m_sems (Driver_new d) = [0 \<mapsto> 0, 1 \<mapsto> 1]"
  "dr_done (Driver_new d) = 0" "dr_dev (Driver_new d) = d" "dr_log (Driver_new d) = []"
  by (simp_all add: Driver_new_def new_sem_def Lock_new_def)

lemma exclusively_code:
  "exclusively t f k = OpP (lock_semaphore k) k (issue_rest t f)"
  by (simp add: exclusively_def Lock_Acquire_def issue_rest_def [abs_def])

lemma dr_inv_move:
  assumes "dr_inv start ok busy \<sigma> f h" and "dshape start t p (act \<sigma>' t)" and "act \<sigma>' = (act \<sigma>)(t := act \<sigma>' t)"
    and "downer p \<longleftrightarrow> h' = Some t" and "downer (f t) \<longleftrightarrow> h = Some t" and "h' = h \<or> {h, h'} = {None, Some t}"
    and "lock_semaphore (mon \<sigma>') = 1" and "dr_done (mon \<sigma>') = 0" and "m_sems (mon \<sigma>') 1 = Some (if h' = None then 1 else 0)"
    and "ok (dr_dev (mon \<sigma>'))"
    and "let b = busy (dr_dev (mon \<sigma>')); v = m_sems (mon \<sigma>') 0; ph = phase_of (dr_log (mon \<sigma>')) in
      case h' of
        Some u \<Rightarrow> (case (f(t := p)) u of
            DWait x \<Rightarrow> lockHolder (mon \<sigma>') = Some u \<and> (b \<and> v = Some 0 \<and> ph = Working u \<or> \<not> b \<and> v = Some 1 \<and> ph = Ended u)
          | DWoke x \<Rightarrow> lockHolder (mon \<sigma>') = Some u \<and> \<not> b \<and> v = Some 0 \<and> ph = Ended u
          | _ \<Rightarrow> \<not> b \<and> v = Some 0 \<and> ph = Quiet)
      | None \<Rightarrow> \<not> b \<and> v = Some 0 \<and> ph = Quiet"
  shows "dr_inv start ok busy \<sigma>' (f(t := p)) h'"
proof -
  have "dshape start u ((f(t := p)) u) (act \<sigma>' u)" for u
    using assms(1,2) fun_cong [OF assms(3), of u] by (simp add: dr_inv_def)
  moreover have "downer ((f(t := p)) u) \<longleftrightarrow> h' = Some u" for u
    using assms(1,4,5,6) by (cases "u = t") (auto simp: dr_inv_def doubleton_eq_iff)
  ultimately show ?thesis unfolding dr_inv_def using assms(7-11) by blast
qed

definition can_go :: "nat \<Rightarrow> ('d, 'a) DThreads \<Rightarrow> bool" where
  "can_go u \<sigma> = (case act \<sigma> u of
       Past _ \<Rightarrow> True
     | At (OpP s _ _) \<Rightarrow> m_sems (mon \<sigma>) s \<noteq> None \<and> m_sems (mon \<sigma>) s \<noteq> Some 0
     | At (OpV s _ _) \<Rightarrow> m_sems (mon \<sigma>) s \<noteq> None
     | _ \<Rightarrow> False)"

locale request_device =
  fixes start :: "'r \<Rightarrow> 'd \<Rightarrow> ('a \<times> 'd) lres"
    and busy :: "'d \<Rightarrow> bool"
    and ok :: "'d \<Rightarrow> bool"
    and world :: "'d \<Rightarrow> 'd \<Rightarrow> bool"
  assumes start: "ok d \<Longrightarrow> \<not> busy d \<Longrightarrow> outcome (start r d) (\<lambda>(a, d'). ok d' \<and> busy d')"
    and world: "ok d \<Longrightarrow> world d d' \<Longrightarrow> ok d'"
begin

abbreviation inv :: "('d, 'a) DThreads \<Rightarrow> (nat \<Rightarrow> ('r, 'a) dpc) \<Rightarrow> nat option \<Rightarrow> bool" where
  "inv \<equiv> dr_inv start ok busy"

lemma inv_init: "ok d \<Longrightarrow> \<not> busy d \<Longrightarrow> inv \<lparr>mon = Driver_new d, act = \<lambda>_. Free, history = []\<rparr> (\<lambda>_. DOut) None"
  by (simp add: dr_inv_def Driver_new_fields Let_def)

lemma issue:
  assumes i: "inv \<sigma> f h" and p: "f t = DGot r" and c: "act \<sigma> t = Past c" and s: "\<sigma>' = enter t (c (mon \<sigma>)) \<sigma>"
  shows "\<exists>f' h'. inv \<sigma>' f' h'"
proof -
  have h: "h = Some t" "c = issue_rest t (start r)" using i p c by (auto simp: dr_inv_def dest!: spec [of _ t])
  then have d: "ok (dr_dev (mon \<sigma>))" "\<not> busy (dr_dev (mon \<sigma>))" "m_sems (mon \<sigma>) 0 = Some 0" "phase_of (dr_log (mon \<sigma>)) = Quiet"
    "lock_semaphore (mon \<sigma>) = 1" "dr_done (mon \<sigma>) = 0" "m_sems (mon \<sigma>) 1 = Some 0"
    using i p by (auto simp: dr_inv_def Let_def)
  have o: "outcome (start r (dr_dev (mon \<sigma>))) (\<lambda>(a, d'). ok d' \<and> busy d')" by (rule start [OF d(1,2)])
  show ?thesis
  proof (cases "start r (dr_dev (mon \<sigma>))")
    case None
    then show ?thesis using o by (simp add: outcome_def)
  next
    case (Some res)
    show ?thesis
    proof (cases res)
      case (Inl e)
      have "inv \<sigma>' (f(t := DDead e)) h"
        by (rule dr_inv_move [OF i]) (use h d s p Some Inl in \<open>auto simp: issue_rest_def request_def Let_def\<close>)
      then show ?thesis by blast
    next
      case (Inr ad)
      obtain a d' where ad: "ad = (a, d')" by (cases ad)
      have "ok d'" "busy d'" using o Some Inr ad by (auto simp: outcome_def)
      then have "inv \<sigma>' (f(t := DWait a)) h"
        by (intro dr_inv_move [OF i])
          (use h d s p Some Inr ad in \<open>auto simp: issue_rest_def request_def wait_done_def woke_rest_def [abs_def] Let_def\<close>)
      then show ?thesis by blast
    qed
  qed
qed

lemma inv_step:
  assumes i: "inv \<sigma> f h" and "drstep start busy world \<sigma> \<sigma>'"
  shows "\<exists>f' h'. inv \<sigma>' f' h'"
  using assms(2)
proof cases
  case (dr_call t r)
  then have "f t = DOut" using i by (cases "f t") (auto simp: dr_inv_def dest!: spec [of _ t])
  then have "inv \<sigma>' (f(t := DWant r)) h"
    using dr_call i by (intro dr_inv_move [OF i]) (auto simp: exclusively_code dr_inv_def Let_def split: option.splits dpc.splits dest!: spec [of _ t])
  then show ?thesis by blast
next
  case (dr_P t s k c v)
  then have "(\<exists>r. f t = DWant r \<and> s = 1 \<and> c = issue_rest t (start r)) \<or> (\<exists>x. f t = DWait x \<and> s = 0 \<and> c = woke_rest t x)"
    using i by (cases "f t") (auto simp: dr_inv_def dest!: spec [of _ t])
  then show ?thesis
  proof (elim disjE exE conjE)
    fix r assume p: "f t = DWant r" "s = 1" "c = issue_rest t (start r)"
    then have "h = None" using i dr_P by (auto simp: dr_inv_def split: if_splits)
    then have "inv \<sigma>' (f(t := DGot r)) (Some t)"
      using i dr_P p by (intro dr_inv_move [OF i]) (auto simp: dr_inv_def Let_def)
    then show ?thesis by blast
  next
    fix x assume p: "f t = DWait x" "s = 0" "c = woke_rest t x"
    then have "h = Some t" using i by (auto simp: dr_inv_def dest: spec [of _ t])
    then have "inv \<sigma>' (f(t := DWoke x)) (Some t)"
      using i dr_P p by (intro dr_inv_move [OF i]) (auto simp: dr_inv_def Let_def)
    then show ?thesis by blast
  qed
next
  case (dr_V t s k c v)
  then obtain x where p: "f t = DRel x" "s = 1" "c = Ret (Took x)" using i by (cases "f t") (auto simp: dr_inv_def dest!: spec [of _ t])
  then have "h = Some t" using i by (auto simp: dr_inv_def dest: spec [of _ t])
  then have "inv \<sigma>' (f(t := DRld x)) None"
    using i dr_V p by (intro dr_inv_move [OF i]) (auto simp: dr_inv_def Let_def)
  then show ?thesis by blast
next
  case (dr_rest t c)
  then have "(\<exists>r. f t = DGot r) \<or> (\<exists>x. f t = DWoke x \<and> c = woke_rest t x) \<or> (\<exists>x. f t = DRld x \<and> c = Ret (Took x))"
    using i by (cases "f t") (auto simp: dr_inv_def dest!: spec [of _ t])
  then show ?thesis
  proof (elim disjE exE conjE)
    fix r assume "f t = DGot r"
    then show ?thesis using issue [OF i _ dr_rest(2,1)] by blast
  next
    fix x assume p: "f t = DWoke x" "c = woke_rest t x"
    then have h: "h = Some t" using i by (auto simp: dr_inv_def dest: spec [of _ t])
    then have "inv \<sigma>' (f(t := DRel x)) (Some t)"
      using i dr_rest p
      by (intro dr_inv_move [OF i]) (auto simp: dr_inv_def Let_def woke_rest_def Lock_Release_def assertK_def IsHeldByCurrentThread_def)
    then show ?thesis by blast
  next
    fix x assume p: "f t = DRld x" "c = Ret (Took x)"
    then have "inv \<sigma>' (f(t := DOut)) h"
      using i dr_rest by (intro dr_inv_move [OF i]) (auto simp: dr_inv_def Let_def split: option.splits dpc.splits dest: spec [of _ t])
    then show ?thesis by blast
  qed
next
  case (dr_world d)
  then have "inv \<sigma>' f h" using i world by (auto simp: dr_inv_def Let_def split: option.splits dpc.splits)
  then show ?thesis by blast
next
  case (dr_interrupt d v)
  then obtain t x where p: "h = Some t" "f t = DWait x" using i by (auto simp: dr_inv_def Let_def split: option.splits dpc.splits)
  then have "inv \<sigma>' f h" using i dr_interrupt world by (auto simp: dr_inv_def Let_def)
  then show ?thesis by blast
qed

lemma reach_inv:
  assumes "drreach start busy world d \<sigma>" and "ok d" "\<not> busy d"
  shows "\<exists>f h. inv \<sigma> f h"
  using assms(1)
proof induction
  case dr_init
  then show ?case using inv_init [OF assms(2,3)] by blast
next
  case (dr_next \<sigma> \<sigma>')
  then show ?case using inv_step by blast
qed

lemma serialised:
  assumes "drreach start busy world d \<sigma>" and "ok d" "\<not> busy d"
  shows "phase_of (dr_log (mon \<sigma>)) \<noteq> Jammed \<and> (busy (dr_dev (mon \<sigma>)) \<longleftrightarrow> (\<exists>t. phase_of (dr_log (mon \<sigma>)) = Working t)) \<and> ok (dr_dev (mon \<sigma>))"
proof -
  obtain f h where "inv \<sigma> f h" using reach_inv [OF assms] by blast
  then show ?thesis by (auto simp: dr_inv_def Let_def split: option.splits dpc.splits)
qed

lemma goes_on:
  assumes "drreach start busy world d \<sigma>" and "ok d" "\<not> busy d" and "act \<sigma> t \<noteq> Free"
  shows "(\<exists>u. can_go u \<sigma>) \<or> busy (dr_dev (mon \<sigma>)) \<or> (\<exists>u e. act \<sigma> u = Died e)"
proof (rule ccontr)
  assume n: "\<not> ?thesis"
  obtain f h where i: "inv \<sigma> f h" using reach_inv [OF assms(1-3)] by blast
  have sh: "dshape start u (f u) (act \<sigma> u)" "downer (f u) \<longleftrightarrow> h = Some u" for u using i by (auto simp: dr_inv_def)
  have stuck: "\<not> can_go u \<sigma>" "act \<sigma> u \<noteq> Died e" "\<not> busy (dr_dev (mon \<sigma>))" for u e using n by blast+
  have free: "h = None"
  proof (cases h)
    case (Some u)
    then show ?thesis using i sh [of u] stuck(1,2) [of u] stuck(3) by (cases "f u") (auto simp: dr_inv_def Let_def can_go_def)
  qed simp
  then show False using sh [of t] stuck(1) [of t] i assms(4) by (cases "f t") (auto simp: can_go_def dr_inv_def)
qed

end

section \<open>The devices\<close>

datatype disk_request = ReadReq int | WriteReq int "byte list"

fun disk_start :: "disk_request \<Rightarrow> 'h Sys \<Rightarrow> (byte list \<times> 'h Sys) lres" where
  "disk_start (ReadReq n) s = ReadRequest n s"
| "disk_start (WriteReq n data) s = bindL (WriteRequest n data s) (\<lambda>s1. retL ([], s1))"

definition disk_busy :: "'h Sys \<Rightarrow> bool" where
  "disk_busy s = active (disk s)"

definition put_start :: "byte \<Rightarrow> 'h Sys \<Rightarrow> (unit \<times> 'h Sys) lres" where
  "put_start ch s = bindL (ConsoleOutput_PutChar ch s) (\<lambda>s1. retL ((), s1))"

definition put_busy :: "'h Sys \<Rightarrow> bool" where
  "put_busy s = putBusy (consoleOutput s)"

lemma disk_start_eq:
  "disk_start (ReadReq n) = ReadRequest n" "disk_start (WriteReq n data) = (\<lambda>s. bindL (WriteRequest n data s) (\<lambda>s1. retL ([], s1)))"
  by auto

lemma driver_calls:
  "exclusively me (disk_start (ReadReq n)) = SynchDisk_ReadSector me n"
  "exclusively me (disk_start (WriteReq n data)) = SynchDisk_WriteSector me n data"
  "exclusively me (put_start ch) = SynchConsoleOutput_PutChar me ch"
  by (simp_all add: SynchDisk_ReadSector_def SynchDisk_WriteSector_def SynchConsoleOutput_PutChar_def put_start_def [abs_def] disk_start_eq)

lemma outcome_conj: "outcome r P \<Longrightarrow> (\<And>x. r = Some (Inr x) \<Longrightarrow> Q x) \<Longrightarrow> outcome r (\<lambda>x. P x \<and> Q x)"
  by (auto simp: outcome_def split: option.splits sum.splits)

lemma Schedule_disk: "Schedule c n k s = Some (Inr s') \<Longrightarrow> disk s' = disk s \<and> consoleOutput s' = consoleOutput s"
  by (auto simp: Schedule_def Let_def lres_iffs)

lemma disk_start_busy: "disk_start r s = Some (Inr (a, s')) \<Longrightarrow> active (disk s')"
proof -
  have u: "active (disk (UpdateLast n (t\<lparr>disk := (disk t)\<lparr>active := True\<rparr>\<rparr>)))" for n and t :: "'h Sys"
    using UpdateLast_disk [of n "t\<lparr>disk := (disk t)\<lparr>active := True\<rparr>\<rparr>"] by auto
  show "disk_start r s = Some (Inr (a, s')) \<Longrightarrow> active (disk s')"
    by (cases r) (auto simp: ReadRequest_def WriteRequest_def Let_def lres_iffs u dest!: Schedule_disk split: prod.splits)
qed

interpretation synch_disk: request_device disk_start disk_busy good dstep
proof
  fix d :: "'h Sys" and r
  assume "good d" "\<not> disk_busy d"
  have "outcome (disk_start r d) (\<lambda>(a, d'). good d')"
    using ReadRequest_good [OF \<open>good d\<close>] WriteRequest_good [OF \<open>good d\<close>] by (cases r) (auto intro!: outcome_bindL elim: outcome_mono)
  from outcome_conj [OF this, of "\<lambda>(a, d'). disk_busy d'"] show "outcome (disk_start r d) (\<lambda>(a, d'). good d' \<and> disk_busy d')"
    using disk_start_busy [of r d] by (auto simp: disk_busy_def elim!: outcome_mono)
qed (rule dstep_good)

interpretation synch_console: request_device put_start put_busy good dstep
proof
  fix d :: "'h Sys" and ch
  assume "good d" "\<not> put_busy d"
  have b: "putBusy (consoleOutput s')" if "ConsoleOutput_PutChar ch d = Some (Inr s')" for s'
    using that by (auto simp: ConsoleOutput_PutChar_def lres_iffs dest!: Schedule_disk)
  have "outcome (ConsoleOutput_PutChar ch d) (\<lambda>d'. good d' \<and> put_busy d')"
    using outcome_conj [OF PutChar_good [OF \<open>good d\<close>], of ch put_busy] b by (simp add: put_busy_def)
  then show "outcome (put_start ch d) (\<lambda>(a, d'). good d' \<and> put_busy d')"
    by (auto simp: put_start_def intro!: outcome_bindL elim: outcome_mono)
qed (rule dstep_good)

section \<open>Properties\<close>


definition reading :: "(unit Sys, byte list) DThreads" where
  \<comment> \<open>thread 3 has called \<open>ReadSector\<close> on sector 5\<close>
  "reading = enter 3 (SynchDisk_ReadSector 3 5 (Driver_new sys0)) \<lparr>mon = Driver_new sys0, act = \<lambda>_. Free, history = []\<rparr>"


text \<open>
  The same holds for the console display, so the assertion of \<open>ConsoleOutput::PutChar\<close> never fails.
\<close>
theorem synch_console_serialised:
  assumes "drreach put_start put_busy dstep s \<sigma>" and "good s" and "\<not> putBusy (consoleOutput s)"
  shows "phase_of (dr_log (mon \<sigma>)) \<noteq> Jammed \<and>
    (putBusy (consoleOutput (dr_dev (mon \<sigma>))) \<longleftrightarrow> (\<exists>t. phase_of (dr_log (mon \<sigma>)) = Working t)) \<and>
    (act \<sigma> t \<noteq> Free \<longrightarrow> (\<exists>u. can_go u \<sigma>) \<or> putBusy (consoleOutput (dr_dev (mon \<sigma>))) \<or> (\<exists>u e. act \<sigma> u = Died e))"
  using synch_console.serialised [OF assms(1,2)] synch_console.goes_on [OF assms(1,2)] assms(3) by (auto simp: put_busy_def)

section \<open>The keyboard\<close>

primrec solo :: "('d Driver, 'a answer) kcode \<Rightarrow> ('a answer \<times> 'd Driver) result option" where
  \<comment> \<open>the code of a thread that runs alone; \<open>None\<close> if it sleeps\<close>
  "solo (Ret a k) = Some (Inr (a, k))"
| "solo (Fault e) = Some (Inl e)"
| "solo (Halted k) = None"
| "solo (Finished k) = None"
| "solo (OpP s k c) = (case m_sems k s of Some v \<Rightarrow> if v = 0 then None else solo (c (set_m s (v - 1) k)) | None \<Rightarrow> Some (Inl BadAccess))"
| "solo (OpV s k c) = (case m_sems k s of Some v \<Rightarrow> solo (c (set_m s (v + 1) k)) | None \<Rightarrow> Some (Inl BadAccess))"

lemma GetChar_returns:
  assumes "good s"
  shows "\<exists>s'. ConsoleInput_GetChar s = Some (Inr (incoming (consoleInput s), s'))"
proof -
  obtain ps where "queue_ok s ps" using assms by (auto simp: good_def)
  then obtain s1 where "Schedule ConsoleInObj ConsoleTime ConsoleReadInt s = Some (Inr s1)"
    using Schedule_ok [of s ps ConsoleTime ConsoleInObj ConsoleReadInt] by (metis zero_less_numeral)
  then show ?thesis by (simp add: ConsoleInput_GetChar_def Let_def retL_def)
qed

text \<open>
  Once the interrupt handler has announced a character, \<open>GetChar\<close> takes the lock, hands out that character, consumes the announcement and gives the lock back,
  and the keyboard has no character waiting.
\<close>
lemma GetChar_takes:
  assumes "good (dr_dev k)" and "dr_done k = 0" "lock_semaphore k = 1" and "m_sems k 0 = Some 1" "m_sems k 1 = Some 1"
  shows "\<exists>k'. solo (SynchConsoleInput_GetChar me k) = Some (Inr (Took (incoming (consoleInput (dr_dev k))), k')) \<and>
    m_sems k' 0 = Some 0 \<and> m_sems k' 1 = Some 1 \<and> lockHolder k' = None \<and> good (dr_dev k') \<and> incoming (consoleInput (dr_dev k')) = EOFc"
proof -
  obtain s' where "ConsoleInput_GetChar (dr_dev k) = Some (Inr (incoming (consoleInput (dr_dev k)), s'))" using GetChar_returns [OF assms(1)] by blast
  moreover from this have "good s'" "incoming (consoleInput s') = EOFc" using outcomeD [OF GetChar_good [OF assms(1)]] by fastforce+
  ultimately show ?thesis
    using assms
    by (auto simp: SynchConsoleInput_GetChar_def Lock_Acquire_def Lock_Release_def request_def assertK_def IsHeldByCurrentThread_def Let_def)
qed

end
