(* ===== verification/Packets.thy ===== *)
theory Packets
  imports Handlers Byte_Layout
begin

text \<open>
  Packets on the wire: what \<^verbatim>\<open>NetworkOutput::Send\<close> of machine/network.cc puts together, \<^verbatim>\<open>NetworkInput\<close> takes
  apart.
\<close>

lemma wire_round_trip:
  assumes "length buffer = 64" and "uint (pk_length hdr) \<le> MaxPacketSize" and "unat (pk_length hdr) \<le> length data"
  shows "length (wire_packet buffer hdr data) = 64 \<and> wire_header (wire_packet buffer hdr data) = hdr \<and>
    take (unat (pk_length hdr)) (drop 12 (wire_packet buffer hdr data)) = take (unat (pk_length hdr)) data"
proof -
  let ?t = "word_bytes (pk_to hdr)" and ?f = "word_bytes (pk_from hdr)" and ?l = "word_bytes (pk_length hdr)"
  let ?d = "take (unat (pk_length hdr)) data"
  let ?r = "drop (length (?t @ ?f @ ?l @ ?d)) buffer"
  have p: "wire_packet buffer hdr data = ?t @ ?f @ ?l @ ?d @ ?r" by (simp add: wire_packet_def Let_def)
  have "wire_header (wire_packet buffer hdr data) = hdr"
    unfolding p wire_header_def
    using bytes_word_word_bytes [of "[]" 0 "pk_to hdr"] bytes_word_word_bytes [of ?t 4 "pk_from hdr"] bytes_word_word_bytes [of "?t @ ?f" 8 "pk_length hdr"]
    by simp
  moreover have "unat (pk_length hdr) \<le> 52" using assms(2) by (metis nat_mono nat_numeral unat_eq_nat_uint)
  then have "length (wire_packet buffer hdr data) = 64" unfolding p using assms(1,3) by simp
  moreover have "take (unat (pk_length hdr)) (drop 12 (wire_packet buffer hdr data)) = ?d" unfolding p using assms(3) by simp
  ultimately show ?thesis by blast
qed

text \<open>A packet that is sent is the packet that is received. Let the network of a machine have room, and
  let the next datagram be what \<open>Send\<close> on any machine put on the wire for a header addressed to this one with
  some data. Then the poll takes it in and announces it to the post office, \<open>Receive\<close> returns that very header and data,
  and the buffer is free for the next packet.\<close>
theorem packet_round_trip:
  assumes "queue_ok s ps" and "kernel_ready s" and "pk_length (inHdr (netIn s)) = 0"
    and "u_select (env s) (in_sock (netIn s)) (dev_host s) = (1, h1)"
    and "u_recvfrom (env s) (in_sock (netIn s)) MaxWireSize h1 = ((MaxWireSize, wire_packet raw hdr data), h2)"
    and "length raw = 64" and "pk_to hdr = hostName s" and "uint (pk_length hdr) = int (length data)" and "length data \<le> 52"
  shows "\<exists>s'. NetworkInput_CallBack s = Some (Inr s') \<and> fst (NetworkInput_Receive s') = (hdr, data) \<and>
    pk_length (inHdr (netIn (snd (NetworkInput_Receive s')))) = 0"
proof -
  have n: "unat (pk_length hdr) = length data" using assms(8) by (metis nat_int unat_eq_nat_uint)
  have w: "wire_header (wire_packet raw hdr data) = hdr" "take (length data) (drop 12 (wire_packet raw hdr data)) = data"
    using wire_round_trip [OF assms(6), of hdr data] assms(8,9) n by simp_all
  let ?q = "PendingInterrupt_new (p_new s) NetInObj (now s + NetworkTime) NetworkRecvInt"
  obtain h l a where r: "Schedule NetInObj NetworkTime NetworkRecvInt s = Some (Inr (s\<lparr>p_new := a, p_heap := h, pending := l\<rparr>))"
    by (rule Schedule_ok [OF assms(1), of NetworkTime NetInObj NetworkRecvInt]) simp
  let ?t = "arrived (wire_packet raw hdr data) (s\<lparr>p_new := a, p_heap := h, pending := l, dev_host := h2\<rparr>)"
  have "NetworkInput_CallBack s = semV (messageAvailable s) ?t"
    using assms(4,7-9) w by (intro NetworkInput_arrives [OF r assms(3) _ assms(5)])
      (simp_all add: PollFile_def hostL_def retL_def wire_ok_def)
  moreover have "kernel_ready ?t" "messageAvailable s \<in> device_sems ?t" using assms(2) by (simp_all add: arrived_def Let_def device_sems_def)
  then obtain k where "semV (messageAvailable s) ?t = Some (Inr (?t\<lparr>kern := k\<rparr>))" using semV_ok by blast
  ultimately show ?thesis using w n by (auto simp: NetworkInput_Receive_def Let_def arrived_def)
qed

definition host1 :: "unit DevUnix" where
  \<comment> \<open>a datagram for machine 0 is waiting: two bytes from machine 1\<close>
  "host1 = host0\<lparr>u_select := \<lambda>_ h. (1, h),
     u_recvfrom := \<lambda>_ n h. ((n, wire_packet (replicate 64 0) \<lparr>pk_to = 0, pk_from = 1, pk_length = 2\<rparr> [104, 105]), h)\<rparr>"

theorem packet_round_trip_witness:
  "\<exists>s'. NetworkInput_CallBack (sys0\<lparr>env := host1\<rparr>) = Some (Inr s') \<and>
     fst (NetworkInput_Receive s') = (\<lparr>pk_to = 0, pk_from = 1, pk_length = 2\<rparr>, [104, 105])"
proof -
  let ?s = "sys0\<lparr>env := host1\<rparr>"
  have "queue_ok ?s [timer0, poll0]" using queue_sys0 by (simp add: queue_ok_def)
  moreover have "kernel_ready ?s" using sys_ok_sys0 by (simp add: sys_ok_def kernel_ready_def device_sems_def)
  ultimately show ?thesis
    using packet_round_trip [of ?s "[timer0, poll0]" "()" "replicate 64 0" "\<lparr>pk_to = 0, pk_from = 1, pk_length = 2\<rparr>" "[104, 105]" "()"]
    by (auto simp: sys0_def host1_def)
qed

end
