(* ===== verification/SynchList_Safety.thy ===== *)
theory SynchList_Safety
  imports Monitors
begin

text \<open>
  The synchronised list against an atomic queue. The invariant has three parts: the lock (its semaphore is 0 exactly while one thread is between
  the \<open>P\<close> and the \<open>V\<close> on it), the private semaphores of \<open>Condition::Wait\<close> (each is up exactly once, after its signal), and the wake-ups (while a
  thread is queued, as many threads are on their way to the list as it has items).
\<close>

section \<open>The monitor invariant\<close>

fun owner :: "'a pc \<Rightarrow> bool" where
  \<comment> \<open>between the \<open>P\<close> and the \<open>V\<close> on the lock\<close>
  "owner (GotA _) = True"
| "owner (SigA _) = True"
| "owner SigdA = True"
| "owner RelA = True"
| "owner GotR = True"
| "owner (RelR _) = True"
| "owner GotL = True"
| "owner (RelL _) = True"
| "owner (RelW _) = True"
| "owner (GotW _) = True"
| "owner _ = False"

fun sig :: "'a pc \<Rightarrow> nat option" where
  "sig (SigA w) = Some w"
| "sig _ = None"

fun waiter :: "'a pc \<Rightarrow> nat option" where
  "waiter (RelW w) = Some w"
| "waiter (RldW w) = Some w"
| "waiter (SleepW w) = Some w"
| "waiter (WokenW w) = Some w"
| "waiter (WantW w) = Some w"
| "waiter (GotW w) = Some w"
| "waiter _ = None"

fun parked :: "'a pc \<Rightarrow> bool" where
  "parked (RldW _) = True"
| "parked (SleepW _) = True"
| "parked _ = False"

fun woken :: "'a pc \<Rightarrow> bool" where
  "woken (WokenW _) = True"
| "woken (WantW _) = True"
| "woken (GotW _) = True"
| "woken _ = False"

definition lock_inv :: "'a Monitor \<Rightarrow> (nat \<Rightarrow> 'a pc) \<Rightarrow> bool" where
  "lock_inv k f \<longleftrightarrow> lock_semaphore k = 0 \<and> 0 < m_next k \<and>
     (\<exists>h. m_sems k 0 = Some (if h = None then 1 else 0) \<and> (\<forall>t. owner (f t) \<longleftrightarrow> h = Some t)) \<and>
     (\<forall>t. lockHolder k = Some t \<longleftrightarrow> sig (f t) \<noteq> None \<or> f t = SigdA)"

definition pending :: "'a Monitor \<Rightarrow> (nat \<Rightarrow> 'a pc) \<Rightarrow> nat \<Rightarrow> bool" where
  \<comment> \<open>the signal of semaphore \<open>w\<close> is still to come\<close>
  "pending k f w \<longleftrightarrow> w \<in> set (waitQueue k) \<or> (\<exists>u. sig (f u) = Some w)"

definition waits_ok :: "'a Monitor \<Rightarrow> (nat \<Rightarrow> 'a pc) \<Rightarrow> nat \<Rightarrow> nat \<Rightarrow> bool" where
  "waits_ok k f t w \<longleftrightarrow> 0 < w \<and> w < m_next k \<and> (\<forall>u. waiter (f u) = Some w \<longrightarrow> u = t) \<and>
     m_sems k w = Some (if parked (f t) \<and> \<not> pending k f w then 1 else 0) \<and>
     (woken (f t) \<longrightarrow> \<not> pending k f w) \<and> (f t = RelW w \<longrightarrow> w \<in> set (waitQueue k))"

definition wait_inv :: "'a Monitor \<Rightarrow> (nat \<Rightarrow> 'a pc) \<Rightarrow> bool" where
  "wait_inv k f \<longleftrightarrow> distinct (waitQueue k) \<and> (\<forall>w \<in> set (waitQueue k). (\<forall>u. sig (f u) \<noteq> Some w) \<and> (\<exists>t. waiter (f t) = Some w)) \<and>
     (\<forall>t w. waiter (f t) = Some w \<longrightarrow> waits_ok k f t w) \<and>
     (\<forall>u w. sig (f u) = Some w \<longrightarrow> (\<exists>t. parked (f t) \<and> waiter (f t) = Some w))"

definition bound_for :: "'a Monitor \<Rightarrow> (nat \<Rightarrow> 'a pc) \<Rightarrow> nat set" where
  \<comment> \<open>the threads in \<open>Wait\<close> that are no longer queued\<close>
  "bound_for k f = {t. \<exists>w. waiter (f t) = Some w \<and> w \<notin> set (waitQueue k)}"

definition wakeup_inv :: "'a Monitor \<Rightarrow> (nat \<Rightarrow> 'a pc) \<Rightarrow> bool" where
  "wakeup_inv k f \<longleftrightarrow> finite {t. f t \<noteq> Out} \<and> (waitQueue k \<noteq> [] \<longrightarrow> length (sl_list k) \<le> card (bound_for k f))"

lemma wait_inv_frame:
  assumes "wait_inv k f" and "waiter p = waiter (f t)" and "parked p = parked (f t)" and "woken p = woken (f t)" and "sig p = sig (f t)"
    and "(\<exists>w. p = RelW w) = (\<exists>w. f t = RelW w)" and "waitQueue k' = waitQueue k" and "m_next k \<le> m_next k'" and "\<And>w. 0 < w \<Longrightarrow> m_sems k' w = m_sems k w"
  shows "wait_inv k' (f(t := p))"
proof -
  define g where "g = f(t := p)"
  have p: "waiter (g u) = waiter (f u)" "parked (g u) = parked (f u)" "woken (g u) = woken (f u)" "sig (g u) = sig (f u)"
    "(\<exists>w. g u = RelW w) = (\<exists>w. f u = RelW w)" for u
    using assms(2-6) by (auto simp: g_def)
  have r: "g u = RelW w \<longrightarrow> f u = RelW w" for u w
    using p(1,5) [of u] by (cases "g u"; cases "f u"; auto)
  have "pending k' g w = pending k f w" for w by (simp add: pending_def p assms(7))
  then have "waits_ok k f u w \<Longrightarrow> waits_ok k' g u w" for u w
    using assms(8,9) r by (auto simp: waits_ok_def p assms(7))
  then have "wait_inv k' g"
    using assms(1) unfolding wait_inv_def p assms(7) by blast
  then show ?thesis by (simp add: g_def)
qed

definition holder :: "'a pc \<Rightarrow> bool" where
  "holder p \<longleftrightarrow> sig p \<noteq> None \<or> p = SigdA"

lemma lock_inv_move:
  assumes "lock_inv k f" and "lock_semaphore k' = 0" and "0 < m_next k'"
    and "m_sems k' 0 = (if owner p \<noteq> owner (f t) then Some (if owner p then 0 else 1) else m_sems k 0)"
    and "owner p \<Longrightarrow> \<not> owner (f t) \<Longrightarrow> m_sems k 0 \<noteq> Some 0"
    and "lockHolder k' = lockHolder k \<and> holder p = holder (f t) \<or> owner (f t) \<and> lockHolder k' = (if holder p then Some t else None)"
  shows "lock_inv k' (f(t := p))"
proof -
  obtain h where h: "m_sems k 0 = Some (if h = None then 1 else 0)" "\<And>t. owner (f t) \<longleftrightarrow> h = Some t"
    "\<And>t. lockHolder k = Some t \<longleftrightarrow> holder (f t)" using assms(1) by (auto simp: lock_inv_def holder_def)
  have o: "holder q \<Longrightarrow> owner q" for q :: "'a pc" by (cases q) (auto simp: holder_def)
  have "\<exists>h. m_sems k' 0 = Some (if h = None then 1 else 0) \<and> (\<forall>u. owner ((f(t := p)) u) \<longleftrightarrow> h = Some u)"
  proof (cases "owner p = owner (f t)")
    case True
    then show ?thesis using h(1,2) assms(4) by (intro exI [of _ h]) auto
  next
    case False
    then show ?thesis using h(1,2) assms(4,5) by (intro exI [of _ "if owner p then Some t else None"]) (auto split: if_splits)
  qed
  moreover have "lockHolder k' = Some u \<longleftrightarrow> holder ((f(t := p)) u)" for u
    using assms(6) h(2,3) o by (metis fun_upd_apply option.distinct(1) option.inject)
  ultimately show ?thesis using assms(2,3) by (simp add: lock_inv_def holder_def)
qed

lemma lookE:
  assumes "look k = (p, k')"
  obtains x xs where "sl_list k = x # xs" "p = RelR x" "k' = k\<lparr>sl_list := xs, lockHolder := None\<rparr>"
  | "sl_list k = []" "p = RelW (m_next k)" "k' = k\<lparr>m_sems := (m_sems k)(m_next k := Some 0), m_next := m_next k + 1,
      waitQueue := waitQueue k @ [m_next k], lockHolder := None\<rparr>"
  using assms by (auto simp: look_def split: list.splits)

lemma lock_inv_step:
  assumes l: "lock_inv k f" and w: "wait_inv k f" and "pcstep t (f t) k es p' k'"
  shows "lock_inv k' (f(t := p'))"
proof -
  have b: "lock_semaphore k = 0" "0 < m_next k" "m_sems k 0 = Some 0 \<or> m_sems k 0 = Some 1" "owner (f t) \<Longrightarrow> m_sems k 0 = Some 0"
    using l by (auto simp: lock_inv_def split: if_splits)
  have s: "0 < w" if "sig (f u) = Some w \<or> waiter (f u) = Some w" for u w
    using that w unfolding wait_inv_def waits_ok_def by blast
  note m = lock_inv_move [OF l]
  show ?thesis using assms(3)
  proof cases
    case (lock v)
    then show ?thesis using b by (intro m; cases "f t") (auto simp: set_m_def holder_def)
  next
    case (unlock v)
    then show ?thesis using b by (intro m; cases "f t") (auto simp: set_m_def holder_def)
  next
    case (signal w v)
    then show ?thesis using b s [of t w] by (intro m) (auto simp: set_m_def holder_def)
  next
    case (wake w v)
    then show ?thesis using b s [of t w] by (intro m) (auto simp: set_m_def holder_def)
  next
    case look
    then show ?thesis using b by (intro m) (auto simp: holder_def elim!: lookE)
  next
    case (look_again w)
    then show ?thesis using b s [of t w] by (intro m) (auto simp: holder_def elim!: lookE)
  qed (use b in \<open>auto intro!: m simp: holder_def\<close>)
qed

lemma wait_invI:
  assumes "distinct (waitQueue k)" and "\<And>w u. w \<in> set (waitQueue k) \<Longrightarrow> sig (f u) \<noteq> Some w"
    and "\<And>w. w \<in> set (waitQueue k) \<Longrightarrow> \<exists>t. waiter (f t) = Some w"
    and "\<And>t w. waiter (f t) = Some w \<Longrightarrow> waits_ok k f t w"
    and "\<And>u w. sig (f u) = Some w \<Longrightarrow> \<exists>t. parked (f t) \<and> waiter (f t) = Some w"
  shows "wait_inv k f"
  using assms unfolding wait_inv_def by blast

lemma wait_invD:
  assumes "wait_inv k f"
  shows "distinct (waitQueue k)" "w \<in> set (waitQueue k) \<Longrightarrow> sig (f u) \<noteq> Some w"
    "w \<in> set (waitQueue k) \<Longrightarrow> \<exists>t. waiter (f t) = Some w"
    "waiter (f t) = Some w \<Longrightarrow> waits_ok k f t w"
    "sig (f u) = Some w \<Longrightarrow> \<exists>t. parked (f t) \<and> waiter (f t) = Some w"
  using assms unfolding wait_inv_def by blast+

lemma lock_invD: "lock_inv k f \<Longrightarrow> owner (f t) \<Longrightarrow> owner (f u) \<Longrightarrow> u = t"
  by (auto simp: lock_inv_def)

lemma waiting_cases: "waiter p = Some w \<Longrightarrow> p = RelW w \<or> parked p \<or> woken p"
  by (cases p) auto

lemma sig_owner: "sig p = Some w \<Longrightarrow> owner p" "p = RelW w \<Longrightarrow> owner p" "parked p \<Longrightarrow> \<not> owner p"
  by (cases p; auto)+

lemma sig_other: "\<not> owner p \<Longrightarrow> sig p = None"
  by (cases p) auto

lemma ex_moved: "\<exists>u. P (f u) \<Longrightarrow> (P (f t) \<Longrightarrow> P p) \<Longrightarrow> \<exists>u. P ((f(t := p)) u)"
  by (metis fun_upd_apply)

lemma waits_okI:
  assumes "waits_ok k f y z" and "\<And>u. waiter (g u) = Some z \<Longrightarrow> waiter (f u) = Some z" and "m_next k \<le> m_next k'"
    and "m_sems k' z = Some (if parked (g y) \<and> \<not> pending k' g z then 1 else 0)"
    and "woken (g y) \<Longrightarrow> \<not> pending k' g z" and "g y = RelW z \<Longrightarrow> z \<in> set (waitQueue k')"
  shows "waits_ok k' g y z"
  using assms(1,3,4,5,6) unfolding waits_ok_def by (meson assms(2) order_less_le_trans)

lemma waits_okD:
  assumes "waits_ok k f y z"
  shows "0 < z" "z < m_next k" "waiter (f u) = Some z \<Longrightarrow> u = y"
    "m_sems k z = Some (if parked (f y) \<and> \<not> pending k f z then 1 else 0)"
    "woken (f y) \<Longrightarrow> \<not> pending k f z" "f y = RelW z \<Longrightarrow> z \<in> set (waitQueue k)"
  using assms unfolding waits_ok_def by blast+

lemma set_m_simps [simp]:
  "m_sems (set_m s v k) z = (if z = s then Some v else m_sems k z)" "waitQueue (set_m s v k) = waitQueue k" "m_next (set_m s v k) = m_next k"
  by (simp_all add: set_m_def)

lemma wait_inv_signal:
  assumes l: "lock_inv k f" and w: "wait_inv k f" and p: "f t = GotA x" and q: "waitQueue k = w # ws"
  shows "wait_inv (k\<lparr>lockHolder := Some t, sl_list := xs, waitQueue := ws\<rparr>) (f(t := SigA w))" (is "wait_inv ?k ?f")
proof -
  have o: "u = t" if "owner (f u)" for u using lock_invD [OF l, of t u] that p by simp
  have other: "sig (f u) \<noteq> Some v" "f u \<noteq> RelW v" for u v using o [of u] p sig_other [of "f u"] by (cases "owner (f u)"; auto)+
  have pend: "pending ?k ?f v = pending k f v" for v using q p other by (auto simp: pending_def)
  obtain u where u: "waiter (f u) = Some w" using wait_invD(3) [OF w] q by fastforce
  have "pending k f w" using q by (simp add: pending_def)
  then have park: "parked (f u)" using waiting_cases [OF u] wait_invD(4) [OF w u] other by (auto simp: waits_ok_def)
  have "waits_ok ?k ?f v z" if "waiter (?f v) = Some z" for v z
  proof -
    have vt: "v \<noteq> t" using that by auto
    then have "waits_ok k f v z" using wait_invD(4) [OF w] that by simp
    moreover have "?f v = f v" using vt by simp
    ultimately show ?thesis using other p by (auto simp: waits_ok_def pend)
  qed
  moreover have "\<exists>v. waiter (?f v) = Some z" if "z \<in> set (waitQueue k)" for z
    using ex_moved [of "\<lambda>q. waiter q = Some z" f t] wait_invD(3) [OF w that] p by simp
  moreover have "\<exists>v. parked (?f v) \<and> waiter (?f v) = Some w" using park u p by (intro ex_moved) auto
  ultimately show ?thesis using wait_invD(1) [OF w] q p other
    by (intro wait_invI) (simp_all split: if_splits, auto)
qed

lemma wait_inv_signalled:
  assumes l: "lock_inv k f" and w: "wait_inv k f" and p: "f t = SigA w" and v: "m_sems k w = Some v"
  shows "wait_inv (set_m w (v + 1) k) (f(t := SigdA))" (is "wait_inv ?k ?f")
proof -
  have o: "u = t" if "owner (f u)" for u using lock_invD [OF l, of t u] that p by simp
  have other: "sig (f u) = None" "f u \<noteq> RelW v" if "u \<noteq> t" for u v using o [of u] that by (cases "f u"; auto)+
  have nq: "w \<notin> set (waitQueue k)" using wait_invD(2) [OF w, of w t] p by auto
  obtain u where u: "parked (f u)" "waiter (f u) = Some w" using wait_invD(5) [OF w, of t w] p by auto
  have "sig (?f u) = (if u = t then None else sig (f u))" "sig (f u) = Some z \<Longrightarrow> z = w" for u z
    using p other [of u] by (cases "u = t"; auto)+
  then have pend: "pending ?k ?f z = (pending k f z \<and> z \<noteq> w)" for z
    using p nq unfolding pending_def by (metis other(1) option.distinct(1) set_m_simps(2))
  have "pending k f w" unfolding pending_def using p sig.simps(1) by metis
  then have v0: "v = 0" using wait_invD(4) [OF w u(2)] v by (simp add: waits_ok_def)
  have "waits_ok ?k ?f y z" if "waiter (?f y) = Some z" for y z
  proof -
    have yt: "y \<noteq> t" using that by auto
    then have y: "waits_ok k f y z" "?f y = f y" "waiter (f y) = Some z" using wait_invD(4) [OF w] that by simp_all
    have zu: "z = w \<Longrightarrow> y = u" using y(3) waits_okD(3) [OF wait_invD(4) [OF w u(2)]] by simp
    show ?thesis
    proof (rule waits_okI [OF y(1)])
      show "m_sems ?k z = Some (if parked (?f y) \<and> \<not> pending ?k ?f z then 1 else 0)"
        using waits_okD(4) [OF y(1)] zu u(1) v0 yt unfolding pend by auto
      show "woken (?f y) \<Longrightarrow> \<not> pending ?k ?f z" using waits_okD(5) [OF y(1)] y(2) unfolding pend by simp
      show "?f y = RelW z \<Longrightarrow> z \<in> set (waitQueue ?k)" using waits_okD(6) [OF y(1)] y(2) by simp
    qed (auto split: if_splits)
  qed
  moreover have "\<exists>v. waiter (?f v) = Some z" if "z \<in> set (waitQueue k)" for z
    using ex_moved [of "\<lambda>q. waiter q = Some z" f t] wait_invD(3) [OF w that] p by simp
  ultimately show ?thesis using wait_invD(1,2) [OF w] other
    by (intro wait_invI) (simp_all split: if_splits)
qed

lemma wait_inv_wake:
  assumes w: "wait_inv k f" and p: "f t = SleepW w" and v: "m_sems k w = Some v" "v \<noteq> 0"
  shows "wait_inv (set_m w (v - 1) k) (f(t := WokenW w))" (is "wait_inv ?k ?f")
proof -
  have ok: "waits_ok k f t w" using wait_invD(4) [OF w] p by simp
  then have np: "\<not> pending k f w" "v = 1" using v by (auto simp: waits_ok_def split: if_splits)
  have sg: "sig (?f u) = sig (f u)" for u using p by simp
  have wt: "waiter (?f u) = waiter (f u)" for u using p by simp
  have pend: "pending ?k ?f z = pending k f z" for z unfolding pending_def sg by (simp add: set_m_def)
  have "waits_ok ?k ?f y z" if "waiter (f y) = Some z" for y z
  proof (rule waits_okI [OF wait_invD(4) [OF w that]])
    show "m_sems ?k z = Some (if parked (?f y) \<and> \<not> pending ?k ?f z then 1 else 0)"
      using waits_okD(4) [OF wait_invD(4) [OF w that]] waits_okD(3) [OF ok, of y] that p np unfolding pend by auto
    show "woken (?f y) \<Longrightarrow> \<not> pending ?k ?f z"
      using waits_okD(5) [OF wait_invD(4) [OF w that]] that p np unfolding pend by (auto split: if_splits)
    show "?f y = RelW z \<Longrightarrow> z \<in> set (waitQueue ?k)"
      using waits_okD(6) [OF wait_invD(4) [OF w that]] by (auto split: if_splits)
  qed (use wt in auto)
  moreover have "\<exists>u. parked (?f u) \<and> waiter (f u) = Some z" if "sig (f y) = Some z" for y z
  proof -
    note parked_waiter = wait_invD(5) [OF w that]
    obtain u where "parked (f u)" "waiter (f u) = Some z" using parked_waiter by blast
    moreover have "z \<noteq> w" using np that by (auto simp: pending_def)
    ultimately show ?thesis using p by (intro exI [of _ u]) auto
  qed
  ultimately show ?thesis using wait_invD(1-3) [OF w]
    by (intro wait_invI) (simp_all only: sg wt, simp_all add: set_m_def)
qed

lemma wait_inv_released:
  assumes w: "wait_inv k f" and p: "f t = RelW w"
  shows "wait_inv (set_m 0 v k) (f(t := RldW w))" (is "wait_inv ?k ?f")
proof -
  have sg: "sig (?f u) = sig (f u)" for u using p by simp
  have wt: "waiter (?f u) = waiter (f u)" for u using p by simp
  have pend: "pending ?k ?f z = pending k f z" for z unfolding pending_def sg by (simp add: set_m_def)
  have "waits_ok k f t w" using wait_invD(4) [OF w] p by simp
  then have pd: "pending k f w" using p by (simp add: waits_ok_def pending_def)
  have "waits_ok ?k ?f y z" if "waiter (f y) = Some z" for y z
  proof (rule waits_okI [OF wait_invD(4) [OF w that]])
    note ok = wait_invD(4) [OF w that]
    show "m_sems ?k z = Some (if parked (?f y) \<and> \<not> pending ?k ?f z then 1 else 0)"
      using waits_okD(1,4) [OF ok] that p pd unfolding pend by auto
    show "woken (?f y) \<Longrightarrow> \<not> pending ?k ?f z" using waits_okD(5) [OF ok] unfolding pend by (auto split: if_splits)
    show "?f y = RelW z \<Longrightarrow> z \<in> set (waitQueue ?k)" using waits_okD(6) [OF ok] by (auto split: if_splits)
  qed (use wt in auto)
  moreover have "\<exists>u. parked (?f u) \<and> waiter (f u) = Some z" if "sig (f y) = Some z" for y z
    using wait_invD(5) [OF w that] p by (metis fun_upd_apply parked.simps(1))
  ultimately show ?thesis using wait_invD(1-3) [OF w]
    by (intro wait_invI) (simp_all only: sg wt, simp_all add: set_m_def)
qed

lemma wait_inv_drop:
  assumes w: "wait_inv k f" and p: "f t = GotW w"
  shows "wait_inv (k\<lparr>m_sems := (m_sems k)(w := None)\<rparr>) (f(t := GotR))" (is "wait_inv ?k ?f")
proof -
  have sg: "sig (?f u) = sig (f u)" for u using p by simp
  have pend: "pending ?k ?f z = pending k f z" for z unfolding pending_def sg by simp
  have t: "waits_ok k f t w" using wait_invD(4) [OF w] p by simp
  then have np: "\<not> pending k f w" using p by (simp add: waits_ok_def)
  have ne: "z \<noteq> w" if "waiter (f y) = Some z" "y \<noteq> t" for y z using t that by (auto simp: waits_ok_def)
  have "waits_ok ?k ?f y z" if "waiter (?f y) = Some z" for y z
  proof -
    have y: "y \<noteq> t" "waiter (f y) = Some z" using that by (auto split: if_splits)
    note ok = wait_invD(4) [OF w y(2)]
    show ?thesis
    proof (rule waits_okI [OF ok])
      show "m_sems ?k z = Some (if parked (?f y) \<and> \<not> pending ?k ?f z then 1 else 0)"
        using waits_okD(4) [OF ok] ne [OF y(2,1)] y(1) unfolding pend by auto
      show "woken (?f y) \<Longrightarrow> \<not> pending ?k ?f z" using waits_okD(5) [OF ok] y(1) unfolding pend by auto
      show "?f y = RelW z \<Longrightarrow> z \<in> set (waitQueue ?k)" using waits_okD(6) [OF ok] y(1) by auto
    qed (auto split: if_splits)
  qed
  moreover have "\<exists>u. parked (?f u) \<and> waiter (?f u) = Some z" if "sig (f y) = Some z" for y z
    using wait_invD(5) [OF w that] p by (metis fun_upd_apply parked.simps)
  moreover have "\<exists>u. waiter (?f u) = Some z" if "z \<in> set (waitQueue k)" for z
    using wait_invD(3) [OF w that] np that p by (metis fun_upd_apply option.inject pending_def waiter.simps(6))
  ultimately show ?thesis using wait_invD(1,2) [OF w]
    by (intro wait_invI) (simp_all only: sg, simp_all)
qed

lemma wait_inv_look:
  assumes w: "wait_inv k f" and p: "f t = GotR" and n: "0 < m_next k" and l: "look k = (p', k')"
  shows "wait_inv k' (f(t := p'))"
  using l
proof (cases rule: lookE)
  case (1 x xs)
  then show ?thesis using p by (intro wait_inv_frame [OF w]) auto
next
  case 2
  let ?f = "f(t := p')" and ?n = "m_next k"
  have sg: "sig (?f u) = sig (f u)" for u using p 2 by simp
  have lt: "z < ?n" "0 < z" if "waiter (f y) = Some z" for y z using wait_invD(4) [OF w that] by (auto simp: waits_ok_def)
  have nq: "?n \<notin> set (waitQueue k)" using wait_invD(3) [OF w] lt by blast
  have ns: "sig (f u) \<noteq> Some ?n" for u using wait_invD(5) [OF w, of u ?n] lt by blast
  have pend: "pending k' ?f z = (pending k f z \<or> z = ?n)" for z unfolding pending_def sg using 2 by auto
  have "waits_ok k' ?f y z" if z: "waiter (?f y) = Some z" for y z
  proof (cases "y = t")
    case True
    then have "z = ?n" using that 2 by simp
    then show ?thesis using True 2 n lt by (auto simp: waits_ok_def pend split: if_splits)
  next
    case False
    then have y: "waiter (f y) = Some z" using that by simp
    note ok = wait_invD(4) [OF w y]
    have "z \<noteq> ?n" using lt(1) [OF y] by simp
    note z = this waits_okD [OF ok]
    show ?thesis
    proof (rule waits_okI [OF ok])
      show "m_sems k' z = Some (if parked (?f y) \<and> \<not> pending k' ?f z then 1 else 0)" using z(1,5) False unfolding pend by (simp add: 2(3))
      show "woken (?f y) \<Longrightarrow> \<not> pending k' ?f z" using z(1,6) False unfolding pend by simp
      show "?f y = RelW z \<Longrightarrow> z \<in> set (waitQueue k')" using z(7) False by (simp add: 2(3))
    qed (use 2 \<open>z \<noteq> ?n\<close> in \<open>auto split: if_splits\<close>)
  qed
  moreover have "\<exists>u. parked (?f u) \<and> waiter (?f u) = Some z" if "sig (f y) = Some z" for y z
    using wait_invD(5) [OF w that] p by (metis fun_upd_apply parked.simps)
  moreover have "\<exists>u. waiter (?f u) = Some z" if "z \<in> set (waitQueue k')" for z
  proof (cases "z = ?n")
    case False
    then have "\<exists>u. waiter (f u) = Some z" using wait_invD(3) [OF w, of z] that 2(3) by simp
    then show ?thesis using p by (intro ex_moved) auto
  qed (use 2 in auto)
  ultimately show ?thesis using wait_invD(1,2) [OF w] nq ns 2(3)
    by (intro wait_invI) (simp_all only: sg, auto)
qed

lemma wait_inv_step:
  assumes l: "lock_inv k f" and w: "wait_inv k f" and "pcstep t (f t) k es p' k'"
  shows "wait_inv k' (f(t := p'))"
  using assms(3)
proof cases
  case (lock v)
  then show ?thesis by (intro wait_inv_frame [OF w]; cases "f t") (auto simp: set_m_def)
next
  case (unlock v)
  then show ?thesis
  proof (cases "f t")
    case (RelW z)
    then show ?thesis using unlock wait_inv_released [OF w RelW] by auto
  qed (use unlock in \<open>auto simp: set_m_def intro!: wait_inv_frame [OF w]\<close>)
next
  case (put_signal z ws x)
  then show ?thesis using wait_inv_signal [OF l w] by simp
next
  case (signal z v)
  then show ?thesis using wait_inv_signalled [OF l w] by simp
next
  case (wake z v)
  then show ?thesis using wait_inv_wake [OF w] by simp
next
  case look
  then show ?thesis using wait_inv_look [OF w] l by (simp add: lock_inv_def)
next
  case (look_again z)
  then show ?thesis using wait_inv_look [OF wait_inv_drop [OF w], of t z t p' k'] l by (simp add: lock_inv_def)
qed (auto intro!: wait_inv_frame [OF w])

lemma bound_for_finite: "finite {t. f t \<noteq> Out} \<Longrightarrow> finite (bound_for k f)"
  by (rule rev_finite_subset) (auto simp: bound_for_def)

lemma wakeup_inv_step:
  assumes w: "wait_inv k f" and i: "wakeup_inv k f" and "pcstep t (f t) k es p' k'"
  shows "wakeup_inv k' (f(t := p'))"
proof -
  let ?f = "f(t := p')"
  have fin: "finite {t. f t \<noteq> Out}" and len: "waitQueue k \<noteq> [] \<Longrightarrow> length (sl_list k) \<le> card (bound_for k f)"
    using i by (auto simp: wakeup_inv_def)
  have "{u. ?f u \<noteq> Out} \<subseteq> insert t {t. f t \<noteq> Out}" by auto
  then have fin': "finite {u. ?f u \<noteq> Out}" using fin by (meson finite.insertI finite_subset)
  note b = bound_for_finite [OF fin] bound_for_finite [OF fin']
  have frame: "waitQueue k' \<noteq> [] \<longrightarrow> length (sl_list k') \<le> card (bound_for k' ?f)"
    if "waiter p' = waiter (f t)" "waitQueue k' = waitQueue k" "length (sl_list k') \<le> length (sl_list k)"
  proof -
    have "bound_for k' ?f = bound_for k f" using that(1,2) by (auto simp: bound_for_def)
    then show ?thesis using that(2,3) len by auto
  qed
  have "waitQueue k' \<noteq> [] \<longrightarrow> length (sl_list k') \<le> card (bound_for k' ?f)"
    using assms(3)
  proof cases
    case (lock v)
    then show ?thesis by (intro frame; cases "f t") (auto simp: set_m_def)
  next
    case (unlock v)
    then show ?thesis by (intro frame; cases "f t") (auto simp: set_m_def)
  next
    case (put_signal z ws x)
    obtain u where u: "waiter (f u) = Some z" using wait_invD(3) [OF w, of z] put_signal by auto
    have "z \<notin> set ws" "u \<noteq> t" using put_signal wait_invD(1) [OF w] u by auto
    then have "insert u (bound_for k f) \<subseteq> bound_for k' ?f" "u \<notin> bound_for k f"
      using u put_signal(1,3-5) unfolding bound_for_def by (auto split: if_splits)
    then have "card (bound_for k f) + 1 \<le> card (bound_for k' ?f)" using card_mono [OF b(2)] card_insert_disjoint [OF b(1)] by (metis Suc_eq_plus1)
    then show ?thesis using len put_signal by simp
  next
    case look
    then show ?thesis
    proof (cases rule: lookE [OF look(3)])
      case (1 x xs)
      then show ?thesis using look by (intro frame) auto
    qed simp
  next
    case (look_again z)
    then show ?thesis
    proof (cases rule: lookE [OF look_again(3)])
      case (1 x xs)
      then have "bound_for k f - {t} \<subseteq> bound_for k' ?f" by (auto simp: bound_for_def)
      then have "card (bound_for k f - {t}) \<le> card (bound_for k' ?f)" by (rule card_mono [OF b(2)])
      moreover have "card (bound_for k f) - 1 \<le> card (bound_for k f - {t})" using diff_card_le_card_Diff [of "{t}" "bound_for k f"] by simp
      moreover have "length (sl_list k') = length (sl_list k) - 1" "waitQueue k' = waitQueue k" using 1 by simp_all
      ultimately show ?thesis using len by auto
    qed simp
  next
    case (put_last x)
    then show ?thesis by simp
  qed (rule frame; simp add: set_m_def)+
  then show ?thesis using fin' by (simp add: wakeup_inv_def)
qed

definition mon_inv :: "'a MThreads \<Rightarrow> (nat \<Rightarrow> 'a pc) \<Rightarrow> bool" where
  "mon_inv \<sigma> f \<longleftrightarrow> (\<forall>t. shape t (f t) (act \<sigma> t)) \<and> lock_inv (mon \<sigma>) f \<and> wait_inv (mon \<sigma>) f \<and> wakeup_inv (mon \<sigma>) f"

lemma mon_inv_init: "mon_inv threads0 (\<lambda>_. Out)"
  by (auto simp: mon_inv_def threads0_def monitor0_def SynchList_new_def Lock_new_def Condition_new_def new_sem_def lock_inv_def wait_inv_def
      wakeup_inv_def intro: exI [of _ None])

lemma mon_inv_step:
  assumes "mon_inv \<sigma> f" and "mstep t \<sigma> \<sigma>'"
  obtains p' es where "pcstep t (f t) (mon \<sigma>) es p' (mon \<sigma>')" "history \<sigma>' = history \<sigma> @ es" "mon_inv \<sigma>' (f(t := p'))"
proof -
  have i: "shape t (f t) (act \<sigma> t)" "lock_inv (mon \<sigma>) f" "wait_inv (mon \<sigma>) f" "wakeup_inv (mon \<sigma>) f" "\<And>u. shape u (f u) (act \<sigma> u)"
    using assms(1) by (auto simp: mon_inv_def)
  have "f t = SigdA \<Longrightarrow> lockHolder (mon \<sigma>) = Some t" "lock_semaphore (mon \<sigma>) = 0" using i(2) by (auto simp: lock_inv_def)
  from mstep_pc [OF assms(2) i(1) this(2,1)] obtain p' es where p: "shape t p' (act \<sigma>' t)" "act \<sigma>' = (act \<sigma>)(t := act \<sigma>' t)"
    "history \<sigma>' = history \<sigma> @ es" "pcstep t (f t) (mon \<sigma>) es p' (mon \<sigma>')" by blast
  have "shape u ((f(t := p')) u) (act \<sigma>' u)" for u using p(1,2) i(5) by (metis fun_upd_apply)
  then have "mon_inv \<sigma>' (f(t := p'))"
    using lock_inv_step [OF i(2,3) p(4)] wait_inv_step [OF i(2,3) p(4)] wakeup_inv_step [OF i(3,4) p(4)] by (simp add: mon_inv_def)
  then show thesis using that p(3,4) by blast
qed

section \<open>The atomic queue\<close>

text \<open>
  The specification: each operation takes effect in one step between its call and its return.
\<close>

datatype 'a status = Idle | Appending 'a | Removing | Applying | Finishing "'a answer"

record 'a AtomicQueue =
  q_items :: "'a list"
  q_status :: "nat \<Rightarrow> 'a status"
  q_history :: "'a event list"

inductive qstep :: "'a AtomicQueue \<Rightarrow> 'a AtomicQueue \<Rightarrow> bool" where
  "q_status q t = Idle \<Longrightarrow> qstep q (q\<lparr>q_status := (q_status q)(t := Appending x), q_history := q_history q @ [CallAppend t x]\<rparr>)"
| "q_status q t = Idle \<Longrightarrow> qstep q (q\<lparr>q_status := (q_status q)(t := Removing), q_history := q_history q @ [CallRemove t]\<rparr>)"
| "q_status q t = Idle \<Longrightarrow> qstep q (q\<lparr>q_status := (q_status q)(t := Applying), q_history := q_history q @ [CallApply t]\<rparr>)"
| "q_status q t = Appending x \<Longrightarrow>
    qstep q (q\<lparr>q_items := q_items q @ [x], q_status := (q_status q)(t := Finishing Appended)\<rparr>)"
| "q_status q t = Removing \<Longrightarrow> q_items q = x # xs \<Longrightarrow>
    qstep q (q\<lparr>q_items := xs, q_status := (q_status q)(t := Finishing (Took x))\<rparr>)"
| "q_status q t = Applying \<Longrightarrow> qstep q (q\<lparr>q_status := (q_status q)(t := Finishing (Applied (q_items q)))\<rparr>)"
| "q_status q t = Finishing a \<Longrightarrow> qstep q (q\<lparr>q_status := (q_status q)(t := Idle), q_history := q_history q @ [Returned t a]\<rparr>)"

inductive qreach :: "'a AtomicQueue \<Rightarrow> bool" where
  "qreach \<lparr>q_items = [], q_status = \<lambda>_. Idle, q_history = []\<rparr>"
| "qreach q \<Longrightarrow> qstep q q' \<Longrightarrow> qreach q'"

fun status_of :: "'a pc \<Rightarrow> 'a status" where
  "status_of Out = Idle"
| "status_of (WantA x) = Appending x"
| "status_of (GotA x) = Appending x"
| "status_of (RelR x) = Finishing (Took x)"
| "status_of (RldR x) = Finishing (Took x)"
| "status_of WantL = Applying"
| "status_of GotL = Applying"
| "status_of (RelL xs) = Finishing (Applied xs)"
| "status_of (RldL xs) = Finishing (Applied xs)"
| "status_of (SigA w) = Finishing Appended"
| "status_of SigdA = Finishing Appended"
| "status_of RelA = Finishing Appended"
| "status_of RldA = Finishing Appended"
| "status_of _ = Removing"

definition abs_queue :: "'a MThreads \<Rightarrow> (nat \<Rightarrow> 'a pc) \<Rightarrow> 'a AtomicQueue" where
  "abs_queue \<sigma> f = \<lparr>q_items = sl_list (mon \<sigma>), q_status = status_of \<circ> f, q_history = history \<sigma>\<rparr>"

lemma abs_queue_upd:
  "abs_queue \<sigma>' (f(t := p)) = \<lparr>q_items = sl_list (mon \<sigma>'), q_status = (status_of \<circ> f)(t := status_of p), q_history = history \<sigma>'\<rparr>"
  by (auto simp: abs_queue_def)

lemma status_upd: "status_of \<circ> f(t := p) = (status_of \<circ> f)(t := status_of p)"
  by auto

lemma status_same: "got p = Some p' \<Longrightarrow> status_of p' = status_of p" "released p = Some p' \<Longrightarrow> status_of p' = status_of p"
  by (cases p; auto)+

lemma pcstep_abs:
  assumes "pcstep t (f t) (mon \<sigma>) es p' (mon \<sigma>')" and h: "history \<sigma>' = history \<sigma> @ es"
  shows "abs_queue \<sigma>' (f(t := p')) = abs_queue \<sigma> f \<or> qstep (abs_queue \<sigma> f) (abs_queue \<sigma>' (f(t := p')))"
proof -
  have stutter: ?thesis if "sl_list (mon \<sigma>') = sl_list (mon \<sigma>)" "es = []" "status_of p' = status_of (f t)"
    using that h by (auto simp: abs_queue_def)
  have st: "q_status (abs_queue \<sigma> f) t = status_of (f t)" by (simp add: abs_queue_def)
  note q = qstep.intros [of "abs_queue \<sigma> f" t, unfolded st, simplified abs_queue_def, simplified, folded abs_queue_def]
  have took: ?thesis if "look k = (p', mon \<sigma>')" "sl_list k = sl_list (mon \<sigma>)" "status_of (f t) = Removing" "es = []" for k
    using that(1)
  proof (cases rule: lookE)
    case (1 x xs)
    then show ?thesis using that q(5) [of x xs] h unfolding abs_queue_upd by (auto simp: abs_queue_def)
  next
    case 2
    then show ?thesis using that by (intro stutter) auto
  qed
  show ?thesis using assms(1)
  proof cases
    case (lock v)
    then show ?thesis using status_same by (intro stutter) (auto simp: set_m_def)
  next
    case (unlock v)
    then show ?thesis using status_same by (intro stutter) (auto simp: set_m_def)
  next
    case look
    then show ?thesis by (intro took) auto
  next
    case (look_again w)
    then show ?thesis by (intro took [of "mon \<sigma>\<lparr>m_sems := (m_sems (mon \<sigma>))(w := None)\<rparr>"]) auto
  qed (use h q in \<open>auto simp: abs_queue_def status_upd set_m_def\<close>)
qed

lemma mreach_inv:
  assumes "mreach \<sigma>"
  obtains f where "mon_inv \<sigma> f" "qreach (abs_queue \<sigma> f)"
proof -
  have "\<exists>f. mon_inv \<sigma> f \<and> qreach (abs_queue \<sigma> f)" using assms
  proof induction
    case mreach_init
    have "qreach (abs_queue threads0 (\<lambda>_. Out))"
      using qreach.intros(1) by (simp add: abs_queue_def threads0_def monitor0_def SynchList_new_def Lock_new_def Condition_new_def new_sem_def comp_def)
    then show ?case using mon_inv_init by blast
  next
    case (mreach_step \<sigma> t \<sigma>')
    then obtain f where f: "mon_inv \<sigma> f" "qreach (abs_queue \<sigma> f)" by blast
    obtain p' es where "pcstep t (f t) (mon \<sigma>) es p' (mon \<sigma>')" "history \<sigma>' = history \<sigma> @ es" "mon_inv \<sigma>' (f(t := p'))"
      by (rule mon_inv_step [OF f(1) mreach_step(2)])
    then show ?case using pcstep_abs f(2) qreach.intros(2) by metis
  qed
  then show thesis using that by blast
qed

definition in_operation :: "nat \<Rightarrow> 'a MThreads \<Rightarrow> bool" where
  "in_operation t \<sigma> \<longleftrightarrow> act \<sigma> t \<noteq> Free"

lemma pc_enabled:
  assumes "mon_inv \<sigma> f" and "f t \<noteq> Out" and "\<not> (\<exists>\<sigma>'. mstep t \<sigma> \<sigma>')"
  shows "(got (f t) \<noteq> None \<and> m_sems (mon \<sigma>) 0 = Some 0) \<or> (\<exists>w. f t = SleepW w \<and> pending (mon \<sigma>) f w)"
proof -
  have i: "shape t (f t) (act \<sigma> t)" "lock_inv (mon \<sigma>) f" "wait_inv (mon \<sigma>) f" using assms(1) by (auto simp: mon_inv_def)
  have nP: "m_sems (mon \<sigma>) s = Some v \<Longrightarrow> v = 0" if "act \<sigma> t = At (OpP s k c)" for s k c v
    using assms(3) do_P [OF that] by blast
  have nV: "m_sems (mon \<sigma>) s = None" if "act \<sigma> t = At (OpV s k c)" for s k c
    using assms(3) do_V [OF that] by (metis not_None_eq)
  have nR: "act \<sigma> t \<noteq> Past c" for c using assms(3) do_rest by blast
  have s0: "m_sems (mon \<sigma>) 0 \<noteq> None" using i(2) by (auto simp: lock_inv_def)
  have sg: "m_sems (mon \<sigma>) w \<noteq> None" if "sig (f t) = Some w" for w
    using wait_invD(4,5) [OF i(3)] that by (metis option.distinct(1) waits_okD(4))
  have sl: "pending (mon \<sigma>) f w" if "f t = SleepW w" for w
  proof -
    have "shape t (SleepW w) (act \<sigma> t)" using i(1) that by simp
    then obtain k where "act \<sigma> t = At (OpP w k (woken_rest t w))" by auto
    then have "m_sems (mon \<sigma>) w \<noteq> Some 1" using nP [of w k _ 1] by auto
    then show ?thesis using waits_okD(4) [OF wait_invD(4) [OF i(3), of t w]] that(1) by (auto split: if_splits)
  qed
  show ?thesis using i(1) assms(2) nP nV nR s0 sg sl by (cases "f t") auto
qed

text \<open>
  An execution: thread 0 is about to release the lock after appending 7.
\<close>

definition appending :: "int MThreads" where
  "appending = enter 0 (SynchList_Append 0 7 monitor0) (called (CallAppend 0 7) threads0)"

definition locked :: "int MThreads" where
  "locked = appending\<lparr>mon := set_m 0 0 (mon appending), act := (act appending)(0 := Past (append_rest 0 7))\<rparr>"

definition appended :: "int MThreads" where
  "appended = enter 0 (append_rest 0 7 (mon locked)) locked"

lemmas demo_code = threads0_def monitor0_def SynchList_new_def Lock_new_def Condition_new_def new_sem_def called_def set_m_def rests

lemma monitor0_fields: "m_sems monitor0 0 = Some 1" "lock_semaphore monitor0 = 0"
  by (simp_all add: demo_code)

lemma appended_reached: "mreach appended"
proof -
  have f: "act threads0 0 = (Free :: (int Monitor, int) activity)" "mon threads0 = (monitor0 :: int Monitor)" by (simp_all add: threads0_def)
  have 1: "mreach appending" using mreach_step [OF mreach_init start_append [OF f(1)]] unfolding appending_def f(2) .
  have a: "act appending 0 = At (OpP 0 monitor0 (append_rest 0 7))" "mon appending = monitor0"
    by (simp_all add: appending_def monitor_code monitor0_fields append_rest_def [abs_def])
  have 2: "mreach locked"
    using mreach_step [OF 1 do_P [OF a(1), of 1]] a(2) monitor0_fields unfolding locked_def by simp
  have "act locked 0 = Past (append_rest 0 7)" by (simp add: locked_def)
  from mreach_step [OF 2 do_rest [OF this]] show ?thesis
    by (simp add: appended_def go_on_def locked_def a(2) demo_code monitor_code)
qed

lemma appended_is: "history appended = [CallAppend 0 7]" "sl_list (mon appended) = [7]" "in_operation 0 appended"
  by (simp_all add: appended_def locked_def appending_def demo_code monitor_code in_operation_def)





end
