(* ===== verification/Post_Office.thy ===== *)
theory Post_Office
  imports Drivers Packets SynchList_Safety
begin

text \<open>
  The post office: network/post.h and network/post.cc. A mailbox is a synchronised list of \<open>Monitors\<close>; sending is a driver of \<open>Drivers\<close> over
  the network device. The postal worker takes what the network has received and puts it into the mailbox that the mail header names.
\<close>

section \<open>Mail\<close>

record MailHeader =
  mh_to :: cint
  mh_from :: cint
  mh_length :: cint

abbreviation MaxMailSize :: int where "MaxMailSize \<equiv> 40"      \<comment> \<open>\<open>MaxPacketSize - sizeof(MailHeader)\<close>\<close>

record Mail =
  ml_pktHdr :: PacketHeader
  ml_mailHdr :: MailHeader
  ml_data :: "byte list"            \<comment> \<open>the bytes of \<open>data\<close> that are copied\<close>

definition Mail_new :: "PacketHeader \<Rightarrow> MailHeader \<Rightarrow> byte list \<Rightarrow> Mail result" where
  "Mail_new pktH mailH msgData = assertE (uint (mh_length mailH) \<le> MaxMailSize)
     (Inr \<lparr>ml_pktHdr = pktH, ml_mailHdr = mailH, ml_data = take (unat (mh_length mailH)) msgData\<rparr>)"

definition mail_header :: "byte list \<Rightarrow> MailHeader" where
  \<comment> \<open>\<open>*(MailHeader * )buffer\<close>\<close>
  "mail_header bs = \<lparr>mh_to = bytes_word bs 0, mh_from = bytes_word bs 4, mh_length = bytes_word bs 8\<rparr>"

definition mail_buffer :: "byte list \<Rightarrow> MailHeader \<Rightarrow> byte list \<Rightarrow> byte list" where
  \<comment> \<open>header and data copied over the start of \<open>buffer\<close>\<close>
  "mail_buffer buffer hdr data = (let msg = word_bytes (mh_to hdr) @ word_bytes (mh_from hdr) @ word_bytes (mh_length hdr)
       @ take (unat (mh_length hdr)) data in msg @ drop (length msg) buffer)"

section \<open>Mailboxes\<close>

definition MailBox_new :: "Mail Monitor \<Rightarrow> Mail Monitor" where
  "MailBox_new k = SynchList_new k"

definition MailBox_Put :: "nat \<Rightarrow> PacketHeader \<Rightarrow> MailHeader \<Rightarrow> byte list \<Rightarrow> Mail Monitor \<Rightarrow> Mail mcode" where
  "MailBox_Put me pktHdr mailHdr data k = (case Mail_new pktHdr mailHdr data of Inl e \<Rightarrow> Fault e | Inr mail \<Rightarrow> SynchList_Append me mail k)"

definition MailBox_Get :: "nat \<Rightarrow> Mail Monitor \<Rightarrow> Mail mcode" where
  \<comment> \<open>up to \<open>RemoveFront\<close>\<close>
  "MailBox_Get me k = SynchList_RemoveFront me k"

definition open_mail :: "Mail \<Rightarrow> PacketHeader \<times> MailHeader \<times> byte list" where
  \<comment> \<open>what \<open>Get\<close> stores for its caller\<close>
  "open_mail mail = (ml_pktHdr mail, ml_mailHdr mail, take (unat (mh_length (ml_mailHdr mail))) (ml_data mail))"

section \<open>Receiving\<close>

definition PostOfficeInput_Receive :: "nat \<Rightarrow> int \<Rightarrow> int \<Rightarrow> (int \<Rightarrow> Mail Monitor) \<Rightarrow> Mail mcode" where
  "PostOfficeInput_Receive me box numBoxes boxes = assertK (0 \<le> box \<and> box < numBoxes) (MailBox_Get me (boxes box))"

definition received :: "Mail \<Rightarrow> (PacketHeader \<times> MailHeader \<times> byte list) result" where
  \<comment> \<open>the end of \<open>Receive\<close>\<close>
  "received mail = (let (p, m, d) = open_mail mail in assertE (uint (mh_length m) \<le> MaxMailSize) (Inr (p, m, d)))"

definition delivery :: "int \<Rightarrow> byte list \<Rightarrow> 'h Sys \<Rightarrow> ((int \<times> PacketHeader \<times> MailHeader \<times> byte list) \<times> byte list \<times> 'h Sys) result" where
  \<comment> \<open>the loop body of \<open>PostalDelivery\<close> after \<open>P\<close>, up to \<open>Put\<close>: the box, what is put there, and the buffer\<close>
  "delivery numBoxes buffer s = (let ((pktHdr, bytes), s1) = NetworkInput_Receive s; buffer1 = bytes @ drop (length bytes) buffer;
       mailHdr = mail_header buffer1 in
     assertE (0 \<le> sint (mh_to mailHdr) \<and> sint (mh_to mailHdr) < numBoxes)
       (assertE (uint (mh_length mailHdr) \<le> MaxMailSize) (Inr ((sint (mh_to mailHdr), pktHdr, mailHdr, drop 12 buffer1), buffer1, s1))))"

definition PostalDelivery :: "nat \<Rightarrow> int \<Rightarrow> byte list \<Rightarrow> (int \<Rightarrow> Mail Monitor) \<Rightarrow> 'h Sys \<Rightarrow> (int \<times> Mail mcode \<times> byte list \<times> 'h Sys) result" where
  \<comment> \<open>one round: the box and the code that the worker runs on it\<close>
  "PostalDelivery me numBoxes buffer boxes s = bindE (delivery numBoxes buffer s) (\<lambda>((box, pktHdr, mailHdr, data), buffer1, s1).
     Inr (box, MailBox_Put me pktHdr mailHdr data (boxes box), buffer1, s1))"

section \<open>Sending\<close>

definition send_start :: "byte list \<times> PacketHeader \<times> byte list \<Rightarrow> 'h Sys \<Rightarrow> (unit \<times> 'h Sys) lres" where
  "send_start r s = (case r of (wire, hdr, buffer) \<Rightarrow> bindL (NetworkOutput_Send wire hdr buffer s) (\<lambda>s1. retL ((), s1)))"

definition post_header :: "cint \<Rightarrow> PacketHeader \<Rightarrow> MailHeader \<Rightarrow> PacketHeader" where
  "post_header me pktHdr mailHdr = pktHdr\<lparr>pk_from := me, pk_length := mh_length mailHdr + 12\<rparr>"

definition PostOfficeOutput_Send ::
  "nat \<Rightarrow> byte list \<Rightarrow> byte list \<Rightarrow> PacketHeader \<Rightarrow> MailHeader \<Rightarrow> byte list \<Rightarrow> ('h Sys) Driver \<Rightarrow> ('h Sys, unit) dcode" where
  \<comment> \<open>\<open>raw\<close> and \<open>wire\<close> are what the two new buffers hold\<close>
  "PostOfficeOutput_Send me raw wire pktHdr mailHdr data k =
     assertK (uint (mh_length mailHdr) \<le> MaxMailSize) (assertK (0 \<le> sint (mh_to mailHdr))
       (exclusively me (send_start (wire, post_header (hostName (dr_dev k)) pktHdr mailHdr, mail_buffer raw mailHdr data)) k))"

section \<open>The driver\<close>

definition net_busy :: "'h Sys \<Rightarrow> bool" where
  "net_busy s \<longleftrightarrow> (\<exists>ps. queue_ok s ps \<and> 0 < scheduled NetOutObj ps)"

lemma net_busy_host [simp]: "net_busy (s\<lparr>dev_host := h\<rparr>) = net_busy s"
  by (simp add: net_busy_def)

lemma send_tries_busy: "good s \<Longrightarrow> net_busy s \<Longrightarrow> outcome (send_tries n sock buf sz num s) (\<lambda>s. good s \<and> net_busy s)"
  by (induction n arbitrary: s) (auto simp: hostL_eq Let_def)

lemma Send_busy:
  assumes "good s"
  shows "outcome (NetworkOutput_Send raw hdr data s) (\<lambda>s'. good s' \<and> net_busy s')"
proof -
  obtain ps where ok: "queue_ok s ps" "sys_ok s ps" using assms by (auto simp: good_def)
  let ?p = "PendingInterrupt_new (p_new s) NetOutObj (now s + NetworkTime) NetworkSendInt"
  obtain h l a where r: "Schedule NetOutObj NetworkTime NetworkSendInt s = Some (Inr (s\<lparr>p_new := a, p_heap := h, pending := l\<rparr>))"
    "queue_ok (s\<lparr>p_new := a, p_heap := h, pending := l\<rparr>) (place PendingCompare ?p ps)"
    by (rule Schedule_ok [OF ok(1), of NetworkTime NetOutObj NetworkSendInt]) simp
  have "net_busy (s\<lparr>p_new := a, p_heap := h, pending := l\<rparr>)" proof -
    have "0 < scheduled NetOutObj (place PendingCompare ?p ps)"
      by (auto simp: scheduled_def set_place filter_empty_conv intro!: bexI [of _ ?p])
    then show ?thesis using r(2) unfolding net_busy_def by blast
  qed
  moreover have "outcome (Schedule NetOutObj NetworkTime NetworkSendInt s) good"
    using ok by (intro Schedule_outcome [where ps = ps]) (auto simp: sys_defs)
  ultimately have "outcome (Schedule NetOutObj NetworkTime NetworkSendInt s) (\<lambda>s'. good s' \<and> net_busy s')" using r(1) by simp
  then show ?thesis
    unfolding NetworkOutput_Send_def
    by (auto simp: RandomNumber_def hostL_eq SendToSocket_def send_tries_busy intro!: outcome_bindL elim!: outcome_mono)
qed

interpretation post_office: request_device send_start net_busy good dstep
proof
  fix d :: "'h Sys" and r
  assume "good d"
  then show "outcome (send_start r d) (\<lambda>(a, d'). good d' \<and> net_busy d')"
    using Send_busy [of d] by (cases r) (auto simp: send_start_def intro!: outcome_bindL elim!: outcome_mono)
qed (rule dstep_good)

text \<open>
  One packet is on its way at a time, although the device never sets \<open>sendBusy\<close>: the lock of the post office sees to it.
\<close>
theorem post_office_serialised:
  assumes "drreach send_start net_busy dstep s \<sigma>" and "good s" and "\<not> net_busy s"
  shows "phase_of (dr_log (mon \<sigma>)) \<noteq> Jammed \<and> (net_busy (dr_dev (mon \<sigma>)) \<longleftrightarrow> (\<exists>t. phase_of (dr_log (mon \<sigma>)) = Working t))"
  using post_office.serialised [OF assms] by blast

section \<open>From one post office to another\<close>

lemma mail_round:
  assumes "uint (mh_length m) = int (length d)" and "length d \<le> 40" and "length raw = 52"
  shows "uint (mh_length m + 12) = int (length d + 12)" "length (mail_buffer raw m d) = 52"
    "take (length d + 12) (mail_buffer raw m d) = word_bytes (mh_to m) @ word_bytes (mh_from m) @ word_bytes (mh_length m) @ d"
    "mail_header (word_bytes (mh_to m) @ word_bytes (mh_from m) @ word_bytes (mh_length m) @ ys) = m"
proof -
  let ?t = "word_bytes (mh_to m)" and ?f = "word_bytes (mh_from m)" and ?l = "word_bytes (mh_length m)"
  have n: "unat (mh_length m) = length d" using assms(1) by (metis nat_int unat_eq_nat_uint)
  have p: "mail_buffer raw m d = ?t @ ?f @ ?l @ d @ drop (length (?t @ ?f @ ?l @ d)) raw"
    using n by (simp add: mail_buffer_def Let_def)
  show "uint (mh_length m + 12) = int (length d + 12)" using assms(1,2) by (simp add: uint_word_ariths)
  show "length (mail_buffer raw m d) = 52" unfolding p using assms(2,3) by simp
  show "take (length d + 12) (mail_buffer raw m d) = ?t @ ?f @ ?l @ d" unfolding p by simp
  show "mail_header (?t @ ?f @ ?l @ ys) = m"
    using bytes_word_word_bytes [of "[]" 0 "mh_to m"] bytes_word_word_bytes [of ?t 4 "mh_from m"] bytes_word_word_bytes [of "?t @ ?f" 8 "mh_length m"]
    by (simp add: mail_header_def)
qed


definition letter :: MailHeader where
  "letter = \<lparr>mh_to = 3, mh_from = 2, mh_length = 2\<rparr>"

definition host2 :: "unit DevUnix" where
  \<comment> \<open>a letter from machine 1 to mailbox 3 is waiting\<close>
  "host2 = host0\<lparr>u_select := \<lambda>_ h. (1, h), u_recvfrom := \<lambda>_ n h. ((n, wire_packet (replicate 64 0) \<lparr>pk_to = 0, pk_from = 1, pk_length = 14\<rparr>
     (mail_buffer (replicate 52 0) letter [104, 105])), h)\<rparr>"


text \<open>
  The sender checks the number of the mailbox only against 0; a message to a mailbox that the receiver does not have stops the receiver.
\<close>
lemma bad_box_stops_machine:
  fixes m :: MailHeader
  assumes "fst (NetworkInput_Receive s) = (hdr, word_bytes (mh_to m) @ word_bytes (mh_from m) @ word_bytes (mh_length m) @ d)"
    and "numBoxes \<le> sint (mh_to m)" and "uint (mh_length m) = int (length d)" and "length d \<le> 40"
  shows "PostalDelivery w numBoxes buffer boxes s = Inl AssertFailed"
  using mail_round(4) [OF assms(3,4), of "replicate 52 0" "d @ drop (length d + 12) buffer"] assms(1,2)
  by (cases "NetworkInput_Receive s") (simp add: PostalDelivery_def delivery_def Let_def add.commute)

end
