(* ===== verification/Shutdown.thy ===== *)
theory Shutdown
  imports Console Device_System
begin

text \<open>
  The end of a run: \<^verbatim>\<open>Interrupt::Halt\<close> of machine/interrupt.cc and the part of \<^verbatim>\<open>Kernel::~Kernel\<close> that concerns the devices, with
  the destructors of machine/console.cc, disk.cc and network.cc and the wrappers they call in lib/sysdep.cc. The kernel's tables and the objects that only hold memory are not followed.
\<close>

section \<open>Destructors\<close>

definition dev_Close :: "int \<Rightarrow> 'h Sys \<Rightarrow> ('h Sys) lres" where
  "dev_Close fd s = (let (retVal, s1) = hostL (u_close (env s) fd) s in assertL (retVal \<ge> 0) (retL s1))"

definition dev_CloseSocket :: "int \<Rightarrow> 'h Sys \<Rightarrow> 'h Sys" where
  "dev_CloseSocket sockID s = snd (hostL (u_close (env s) sockID) s)"

definition sockName :: "cint \<Rightarrow> byte list" where
  "sockName machine_id = [83, 79, 67, 75, 69, 84, 95] @ signed_decimal (sint machine_id)"

definition DeAssignNameToSocket :: "byte list \<Rightarrow> 'h Sys \<Rightarrow> 'h Sys" where
  "DeAssignNameToSocket socketName s = snd (hostL (u_unlink (env s) socketName) s)"

definition ConsoleInput_delete :: "'h Sys \<Rightarrow> ('h Sys) lres" where
  "ConsoleInput_delete s = (if readFileNo (consoleInput s) \<noteq> 0 then dev_Close (readFileNo (consoleInput s)) s else retL s)"

definition ConsoleOutput_delete :: "'h Sys \<Rightarrow> ('h Sys) lres" where
  "ConsoleOutput_delete s = (if writeFileNo (consoleOutput s) \<noteq> 1 then dev_Close (writeFileNo (consoleOutput s)) s else retL s)"

definition Disk_delete :: "'h Sys \<Rightarrow> ('h Sys) lres" where
  "Disk_delete s = dev_Close (d_fileno (disk s)) s"

definition NetworkInput_delete :: "'h Sys \<Rightarrow> 'h Sys" where
  "NetworkInput_delete s = DeAssignNameToSocket (sockName (hostName s)) (dev_CloseSocket (in_sock (netIn s)) s)"

definition NetworkOutput_delete :: "'h Sys \<Rightarrow> 'h Sys" where
  "NetworkOutput_delete s = dev_CloseSocket (out_sock (netOut s)) s"

definition Kernel_delete_devices :: "'h Sys \<Rightarrow> ('h Sys) lres" where
  "Kernel_delete_devices s =
     bindL (Interrupt_delete s) (\<lambda>s1.
     bindL (ConsoleInput_delete s1) (\<lambda>s2.
     bindL (ConsoleOutput_delete s2) (\<lambda>s3.
     bindL (Disk_delete s3) (\<lambda>s4.
       retL (NetworkOutput_delete (NetworkInput_delete s4))))))"

definition Halt :: "'h Sys \<Rightarrow> ('h Sys) lres" where
  "Halt s = Kernel_delete_devices s"

section \<open>What the host sees\<close>

definition shutdown_calls :: "'h Sys \<Rightarrow> ('h \<Rightarrow> int \<times> 'h) list" where
  "shutdown_calls s =
     (if readFileNo (consoleInput s) \<noteq> 0 then [u_close (env s) (readFileNo (consoleInput s))] else []) @
     (if writeFileNo (consoleOutput s) \<noteq> 1 then [u_close (env s) (writeFileNo (consoleOutput s))] else []) @
     [u_close (env s) (d_fileno (disk s)), u_close (env s) (in_sock (netIn s)),
      u_unlink (env s) (sockName (hostName s)), u_close (env s) (out_sock (netOut s))]"

definition host_after :: "('h \<Rightarrow> int \<times> 'h) list \<Rightarrow> 'h \<Rightarrow> 'h" where
  "host_after = fold (\<lambda>f h. snd (f h))"

lemma queue_ok_host [simp]: "queue_ok (s\<lparr>dev_host := h\<rparr>) ps = queue_ok s ps"
  by (simp add: queue_ok_def)

lemma drain_keeps:
  assumes "queue_ok s ps"
  shows "\<exists>h l. drain s = Some (Inr (s\<lparr>p_heap := h, pending := l\<rparr>)) \<and> queue_ok (s\<lparr>p_heap := h, pending := l\<rparr>) []"
  using assms
proof (induction ps arbitrary: s)
  case Nil
  then show ?case using queue_okD(1) [OF Nil] by (subst drain.simps) (auto intro!: exI [of _ "p_heap s"] exI [of _ "pending s"])
next
  case (Cons p ps)
  obtain h l where r: "RemoveFront (p_heap s) (pending s) = Some (Inr (p, h, l))" "queue_ok (s\<lparr>p_heap := h, pending := l\<rparr>) ps"
    using pop_queue(2) [OF Cons.prems] by auto
  show ?case using Cons.IH [OF r(2)] r(1) queue_okD(1) [OF Cons.prems] by (subst drain.simps) auto
qed

text \<open>
  \<open>Halt\<close> comes to its end when the host can close the descriptors Nachos has opened: the queue of interrupts is emptied, and the host sees each
  file and socket closed once, in the order of the destructors, the standard streams left alone and the socket's name removed from the directory.
\<close>

theorem halt_closes:
  assumes "queue_ok s ps" and "\<And>fd h. 0 \<le> fst (u_close (env s) fd h)"
  shows "\<exists>s'. Halt s = Some (Inr s') \<and> queue_ok s' [] \<and> dev_host s' = host_after (shutdown_calls s) (dev_host s)"
proof -
  obtain h l where d: "drain s = Some (Inr (s\<lparr>p_heap := h, pending := l\<rparr>))" "queue_ok (s\<lparr>p_heap := h, pending := l\<rparr>) []"
    using drain_keeps [OF assms(1)] by blast
  then show ?thesis using assms(2)
    by (simp add: Halt_def Kernel_delete_devices_def Interrupt_delete_def ConsoleInput_delete_def ConsoleOutput_delete_def Disk_delete_def
      NetworkInput_delete_def NetworkOutput_delete_def DeAssignNameToSocket_def dev_Close_def dev_CloseSocket_def hostL_eq retL_def
      shutdown_calls_def host_after_def)
qed

end
