(* ===== verification/Machine_Run.thy ===== *)
theory Machine_Run
  imports User_Mode Device_System
begin

text \<open>
  The loop that runs user programs, \<^verbatim>\<open>Machine::Run\<close> of machine/mipssim.cc, with the processor of \<open>Mips_Exec\<close>, the clock of \<open>Ticks\<close>
  and the debugger of machine/machine.cc that it calls after every instruction when the machine is single-stepped.

  A run stops where the kernel takes over: at an exception (\<open>Entered\<close>, in the state in which \<open>ExceptionHandler\<close> is called) and at a
  time slice's end (\<open>Preempted\<close>, in the state in which \<open>Thread::Yield\<close> is called); \<open>Run_after_exception\<close> and \<open>Run_after_yield\<close> go on from there. The number
  of instructions is bounded by an argument, and a run that has used it up is \<open>Executing\<close>. The debugger reads the operator's commands
  from \<^verbatim>\<open>cin\<close>, whose state is the characters to come and whether the stream is still good.
\<close>

section \<open>The operator's commands\<close>

record Cin =
  cin_rest :: "byte list"
  cin_good :: bool

definition cin_get_line :: "nat \<Rightarrow> Cin \<Rightarrow> byte list \<times> Cin" where
  \<comment> \<open>\<open>cin.get(buf, n)\<close>: up to a newline, which stays in the stream; a stream that gives no character fails\<close>
  "cin_get_line n c =
     (if \<not> cin_good c then ([], c)
      else let line = takeWhile (\<lambda>b. b \<noteq> 10) (take (n - 1) (cin_rest c)); rest = drop (length line) (cin_rest c)
           in (line, \<lparr>cin_rest = rest, cin_good = (line \<noteq> [] \<and> (rest \<noteq> [] \<or> length line = n - 1))\<rparr>))"

definition cin_get :: "Cin \<Rightarrow> byte \<times> Cin" where
  \<comment> \<open>\<open>cin.get()\<close>, with EOF as a \<open>char\<close>\<close>
  "cin_get c =
     (if \<not> cin_good c then (-1, c)
      else case cin_rest c of [] \<Rightarrow> (-1, c\<lparr>cin_good := False\<rparr>) | b # r \<Rightarrow> (b, c\<lparr>cin_rest := r\<rparr>))"

definition is_space :: "byte \<Rightarrow> bool" where
  "is_space b \<longleftrightarrow> b = 32 \<or> 9 \<le> b \<and> b \<le> 13"

definition is_digit :: "byte \<Rightarrow> bool" where
  "is_digit b \<longleftrightarrow> 48 \<le> b \<and> b \<le> 57"

definition digits_value :: "byte list \<Rightarrow> int" where
  "digits_value ds = foldl (\<lambda>v b. 10 * v + (uint b - 48)) 0 ds"

definition sscanf_int :: "(int \<Rightarrow> int) \<Rightarrow> byte list \<Rightarrow> int option" where
  \<comment> \<open>\<open>sscanf(buf, "%d", &num)\<close>; \<open>clip\<close> is what is stored for a number that an \<open>int\<close> cannot hold\<close>
  "sscanf_int clip buf =
     (let t = dropWhile is_space (takeWhile (\<lambda>b. b \<noteq> 0) buf);
          u = (if t \<noteq> [] \<and> (hd t = 45 \<or> hd t = 43) then tl t else t);
          ds = takeWhile is_digit u;
          v = (if t \<noteq> [] \<and> hd t = 45 then - digits_value ds else digits_value ds)
      in if ds = [] then None else Some (if - (2 ^ 31) \<le> v \<and> v < 2 ^ 31 then v else clip v))"

definition debug_command :: "(int \<Rightarrow> int) \<Rightarrow> byte list \<Rightarrow> Machine \<Rightarrow> bool \<times> Machine" where
  "debug_command clip buf m =
     (case sscanf_int clip buf of
        Some num \<Rightarrow> (True, m\<lparr>runUntilTime := num\<rparr>)
      | None \<Rightarrow>
          let m1 = m\<lparr>runUntilTime := 0\<rparr> in
          if buf = [] \<or> hd buf = 0 then (True, m1)
          else if hd buf = 99 then (True, m1\<lparr>singleStep := False\<rparr>)
          else (False, m1))"

lemma line_shorter: "cin_get_line n c = (line, c1) \<Longrightarrow> line \<noteq> [] \<Longrightarrow> length (cin_rest c1) < length (cin_rest c)"
  by (auto simp: cin_get_line_def Let_def split: if_splits)
    (metis length_takeWhile_le list.size(3) length_greater_0_conv take_eq_Nil takeWhile.simps(1) diff_less)

lemma get_not_longer: "length (cin_rest (snd (cin_get c))) \<le> length (cin_rest c)"
  by (simp add: cin_get_def split: list.split)

function Debugger :: "(int \<Rightarrow> int) \<Rightarrow> Cin \<Rightarrow> Machine \<Rightarrow> Machine \<times> Cin" where
  "Debugger clip c m =
     (let (buf, c1) = cin_get_line 80 c;
          (finished, m1) = debug_command clip buf m;
          c2 = snd (cin_get c1)
      in if finished then (m1, c2) else Debugger clip c2 m1)"
  by pat_completeness auto
termination
proof (relation "measure (\<lambda>(clip, c, m). length (cin_rest c))", goal_cases)
  case (2 clip c m x buf c1 y finished m1 c2)
  then have "buf \<noteq> []" by (auto simp: debug_command_def sscanf_int_def Let_def)
  with 2 line_shorter [of 80 c buf c1] get_not_longer [of c1] show ?case by auto
qed simp

section \<open>The loop\<close>

datatype 'h run_stop =
    Executing Machine "'h Sys" Cin
  | Entered ExceptionType Machine "'h Sys" Cin
  | Preempted MachineStatus Machine "'h Sys" Cin

definition debug_then ::
  "(int \<Rightarrow> int) \<Rightarrow> (Machine \<Rightarrow> 'h Sys \<Rightarrow> Cin \<Rightarrow> ('h run_stop) lres) \<Rightarrow> Machine \<Rightarrow> 'h Sys \<Rightarrow> Cin \<Rightarrow> ('h run_stop) lres" where
  "debug_then clip go m s c =
     (if singleStep m \<and> runUntilTime m \<le> totalTicks (stats s)
      then let (m', c') = Debugger clip c m in go m' s c'
      else go m s c)"

definition tick_then ::
  "(int \<Rightarrow> int) \<Rightarrow> (Machine \<Rightarrow> 'h Sys \<Rightarrow> Cin \<Rightarrow> ('h run_stop) lres) \<Rightarrow> Machine \<Rightarrow> 'h Sys \<Rightarrow> Cin \<Rightarrow> ('h run_stop) lres" where
  "tick_then clip go m s c = bindL (OneTick s) (\<lambda>t. case t of
       Ticked s' \<Rightarrow> debug_then clip go m s' c
     | Yields st s' \<Rightarrow> retL (Preempted st m s' c))"

primrec Run_loop :: "(int \<Rightarrow> int) \<Rightarrow> nat \<Rightarrow> Machine \<Rightarrow> 'h Sys \<Rightarrow> Cin \<Rightarrow> ('h run_stop) lres" where
  "Run_loop clip 0 = (\<lambda>m s c. retL (Executing m s c))"
| "Run_loop clip (Suc n) = (\<lambda>m s c. case OneInstruction m of
       Inl f \<Rightarrow> Some (Inl f)
     | Inr (Trap exc m') \<Rightarrow> retL (Entered exc m' (s\<lparr>i_status := SystemMode\<rparr>) c)
     | Inr (Done _ m') \<Rightarrow> tick_then clip (Run_loop clip n) m' s c)"

definition Run :: "(int \<Rightarrow> int) \<Rightarrow> nat \<Rightarrow> Machine \<Rightarrow> 'h Sys \<Rightarrow> Cin \<Rightarrow> ('h run_stop) lres" where
  "Run clip n m s c = Run_loop clip n m (s\<lparr>i_status := UserMode\<rparr>) c"

definition Run_after_exception :: "(int \<Rightarrow> int) \<Rightarrow> nat \<Rightarrow> Machine \<Rightarrow> 'h Sys \<Rightarrow> Cin \<Rightarrow> ('h run_stop) lres" where
  "Run_after_exception clip n m s c = tick_then clip (Run_loop clip n) m (s\<lparr>i_status := UserMode\<rparr>) c"

definition Run_after_yield :: "(int \<Rightarrow> int) \<Rightarrow> nat \<Rightarrow> MachineStatus \<Rightarrow> Machine \<Rightarrow> 'h Sys \<Rightarrow> Cin \<Rightarrow> ('h run_stop) lres" where
  "Run_after_yield clip n oldStatus m s c = debug_then clip (Run_loop clip n) m (OneTick_return oldStatus s) c"

section \<open>The debugger\<close>

text \<open>Only the two fields that control it: a debugged program computes what it computes alone.\<close>

definition debugged :: "Machine \<Rightarrow> Machine \<Rightarrow> bool" where
  "debugged m m' \<longleftrightarrow> m' = m\<lparr>singleStep := singleStep m', runUntilTime := runUntilTime m'\<rparr>"

lemma debugged_trans: "debugged m m1 \<Longrightarrow> debugged m1 m2 \<Longrightarrow> debugged m m2"
  by (cases m; cases m1; cases m2) (simp add: debugged_def)

lemma debug_command_changes: "debugged m (snd (debug_command clip buf m))"
  by (cases m) (simp add: debugged_def debug_command_def Let_def split: option.split)

lemma Debugger_changes: "debugged m (fst (Debugger clip c m))"
proof (induction clip c m rule: Debugger.induct)
  case (1 clip c m)
  obtain buf c1 where l: "cin_get_line 80 c = (buf, c1)" by fastforce
  obtain finished m1 where d: "debug_command clip buf m = (finished, m1)" by fastforce
  then have m1: "debugged m m1" using debug_command_changes [of m clip buf] by simp
  show ?case using 1 [OF l [symmetric] refl d [symmetric] refl refl] l d m1 by (auto simp: Let_def intro: debugged_trans)
qed

lemma Debugger_user:
  assumes "Debugger clip c m = (m', c')"
  shows "user_ready m' = user_ready m" "confined m0 m' = confined m0 m"
  using Debugger_changes [of m clip c] assms
  by (cases m; cases m'; simp add: debugged_def user_ready_def cpu_ok_def paged_def confined_def mappings_def)+

text \<open>
  A line that is empty executes one instruction, but it also puts \<^verbatim>\<open>cin\<close> into its failed state, which nothing clears: from then on the
  debugger reads no command and single-steps to the end.
\<close>

lemma debugger_deaf:
  "Debugger clip \<lparr>cin_rest = 10 # r, cin_good = True\<rparr> m = (m\<lparr>runUntilTime := 0\<rparr>, \<lparr>cin_rest = 10 # r, cin_good = False\<rparr>)"
  "\<not> cin_good c \<Longrightarrow> Debugger clip c m = (m\<lparr>runUntilTime := 0\<rparr>, c)"
  by (simp_all add: cin_get_line_def cin_get_def debug_command_def sscanf_int_def Let_def)

lemma digits_value_bounds:
  assumes "\<forall>b \<in> set ds. is_digit b"
  shows "0 \<le> digits_value ds \<and> digits_value ds < 10 ^ length ds"
  using assms
proof (induction ds rule: rev_induct)
  case (snoc b ds)
  then have "0 \<le> uint b - 48" "uint b - 48 \<le> 9" by (auto simp: is_digit_def word_le_def)
  with snoc show ?case by (auto simp: digits_value_def)
qed (simp add: digits_value_def)

text \<open>A number of up to nine digits lets the program run until that tick.\<close>

lemma Debugger_number:
  assumes "\<forall>b \<in> set ds. is_digit b" and "ds \<noteq> []" and "length ds \<le> 9"
  shows "Debugger clip \<lparr>cin_rest = ds @ 10 # r, cin_good = True\<rparr> m = (m\<lparr>runUntilTime := digits_value ds\<rparr>, \<lparr>cin_rest = r, cin_good = True\<rparr>)"
proof -
  have d: "b \<noteq> 10" "b \<noteq> 0" "\<not> is_space b" "b \<noteq> 45" "b \<noteq> 43" if "b \<in> set ds" for b
    using assms(1) that by (auto simp: is_digit_def is_space_def word_le_def)
  have t: "takeWhile P ds = ds" if "\<And>b. b \<in> set ds \<Longrightarrow> P b" for P
    using that by (simp add: takeWhile_eq_all_conv)
  have "dropWhile is_space ds = ds" using d(3) assms(2) by (cases ds) auto
  moreover have "hd ds \<in> set ds" using assms(2) by simp
  moreover have "digits_value ds < 2 ^ 31"
    using digits_value_bounds [OF assms(1)] power_increasing [OF assms(3), of "10 :: int"] by simp
  ultimately have n: "sscanf_int clip ds = Some (digits_value ds)"
    using assms(1,2) d digits_value_bounds [OF assms(1)] by (simp add: sscanf_int_def t Let_def)
  have "takeWhile (\<lambda>b. b \<noteq> 10) (take 79 (ds @ 10 # r)) = ds"
    using assms(3) d(1) by (simp add: takeWhile_append2 take_Cons')
  then show ?thesis using assms(2) n by (simp add: cin_get_line_def cin_get_def debug_command_def Let_def)
qed

section \<open>Time slices\<close>

definition back_in_kernel :: "int \<Rightarrow> Machine \<Rightarrow> 'h Sys \<Rightarrow> Machine \<Rightarrow> 'h Sys \<Rightarrow> bool" where
  \<comment> \<open>the program has run for at most \<open>t\<close> ticks, and handed over a machine it was confined on\<close>
  "back_in_kernel t m s m' s' \<longleftrightarrow> user_ready m' \<and> confined m m' \<and> good s' \<and> i_status s' = SystemMode \<and> now s \<le> now s' \<and> now s' \<le> now s + t"

fun stops_within :: "int \<Rightarrow> Machine \<Rightarrow> 'h Sys \<Rightarrow> ('h run_stop) lres \<Rightarrow> bool" where
  "stops_within t m s (Some (Inr (Entered exc m' s' c))) = back_in_kernel t m s m' s'"
| "stops_within t m s (Some (Inr (Preempted st m' s' c))) = (st = UserMode \<and> now s < now s' \<and> back_in_kernel t m s m' s')"
| "stops_within t m s (Some (Inl f)) = (f = ArithTrap)"
| "stops_within t m s r = False"

lemma stops_within_trans:
  assumes "stops_within t m1 s1 r" and "confined m m1" and "paged m" and "now s \<le> now s1" and "now s1 + t \<le> now s + t'"
  shows "stops_within t' m s r"
  using assms confined_trans [of m m1]
  by (cases "(t, m1, s1, r)" rule: stops_within.cases) (auto simp: back_in_kernel_def)

lemma debug_then_stops:
  assumes "\<And>m1 c1. user_ready m1 \<Longrightarrow> confined m0 m1 \<Longrightarrow> stops_within t m0 s0 (go m1 s c1)" and "user_ready m" and "confined m0 m"
  shows "stops_within t m0 s0 (debug_then clip go m s c)"
  using assms Debugger_user [of clip c m] by (auto simp: debug_then_def split: prod.split)

lemma tick_then_stops:
  assumes "queue_ok s ps" and "sys_ok s ps" and "i_status s = UserMode" and "q \<in> set ps" and "callOnInterrupt q = TimerObj"
    and "when_due q \<le> now s + int (Suc n)" and "user_ready m" and "confined m0 m" and "paged m0"
    and "\<And>m1 s1 ps1 c1. 0 < n \<Longrightarrow> queue_ok s1 ps1 \<Longrightarrow> sys_ok s1 ps1 \<Longrightarrow> i_status s1 = UserMode \<Longrightarrow> q \<in> set ps1 \<Longrightarrow>
      now s1 = now s + 1 \<Longrightarrow> user_ready m1 \<Longrightarrow> confined m0 m1 \<Longrightarrow> stops_within (int n) m1 s1 (go m1 s1 c1)"
  shows "stops_within (int (Suc n)) m0 s (tick_then clip go m s c)"
proof -
  obtain s1 ps1 where t: "queue_ok s1 ps1" "sys_ok s1 ps1" "\<forall>p \<in> set ps1. now s1 < when_due p"
    "later (now s1) (filter (\<lambda>q. now s1 < when_due q) ps) ps1" "quiet (ticked s\<lparr>kern := (kern s)\<lparr>level := IntOn\<rparr>\<rparr>) s1"
    "(\<exists>q \<in> set ps. callOnInterrupt q = TimerObj \<and> when_due q \<le> now s1) \<and> i_status s \<noteq> IdleMode \<longrightarrow> yieldOnReturn s1"
    "OneTick s = Some (Inr (if yieldOnReturn s1 then Yields (i_status s) (s1\<lparr>yieldOnReturn := False, i_status := SystemMode\<rparr>) else Ticked s1))"
    using OneTick_ok [OF assms(1,2)] by blast
  have n1: "now s1 = now s + 1" "i_status s1 = UserMode" using t(5) assms(3) by (simp_all add: quiet_def ticked_def)
  show ?thesis
  proof (cases "yieldOnReturn s1")
    case True
    then show ?thesis using t(1,2,7) assms(3,7,8) n1 by (auto simp: tick_then_def retL_def back_in_kernel_def good_def)
  next
    case False
    then have q: "q \<in> set ps1" "now s1 < when_due q" using t(6) assms(3-5) later_set [OF t(4)] by force+
    have "stops_within (int (Suc n)) m0 s (go m1 s1 c1)" if "user_ready m1" "confined m0 m1" for m1 c1
    proof (rule stops_within_trans [OF _ that(2) assms(9)])
      show "stops_within (int n) m1 s1 (go m1 s1 c1)"
        using assms(10) [OF _ t(1,2) n1(2) q(1) n1(1) that, of c1] q(2) assms(6) n1(1) by simp
    qed (use n1(1) in simp_all)
    then have "stops_within (int (Suc n)) m0 s (debug_then clip go m s1 c)" using assms(7,8) by (rule debug_then_stops)
    then show ?thesis using t(7) False by (simp add: tick_then_def)
  qed
qed

lemma Run_loop_stops:
  assumes "user_ready m" and "queue_ok s ps" and "sys_ok s ps" and "i_status s = UserMode" and "q \<in> set ps"
    and "callOnInterrupt q = TimerObj" and "when_due q \<le> now s + int n" and "0 < n"
  shows "stops_within (int n) m s (Run_loop clip n m s c)"
  using assms
proof (induction n arbitrary: m s ps c)
  case (Suc n)
  have p: "paged m" using Suc.prems(1) by (simp add: user_ready_def)
  show ?case
  proof (cases "divides_min_by_minus_1 m")
    case True
    then show ?thesis using Suc.prems(1) by (simp add: OneInstruction_div_trap)
  next
    case False
    from OneInstruction_contract [OF Suc.prems(1) this] show ?thesis
    proof (cases rule: trap_okE)
      case (1 exc m')
      then show ?thesis using Suc.prems(2,3) by (auto simp: retL_def back_in_kernel_def user_ready_def confined_paged good_def)
    next
      case (2 u m')
      then have "user_ready m'" by (simp add: user_ready_def confined_paged)
      then show ?thesis
        using tick_then_stops [OF Suc.prems(2-7) _ 2(2) p, of "Run_loop clip n" clip c] Suc.IH Suc.prems(6,7) 2(1) by auto
    qed
  qed
qed simp

section \<open>Properties\<close>



end
