(* ===== verification/Command_Line.thy ===== *)
theory Command_Line
  imports Machine_Run
begin

text \<open>
  Starting Nachos: the command line as the constructor of \<^verbatim>\<open>Kernel\<close> (threads/kernel.cc) and \<^verbatim>\<open>main\<close> (threads/main.cc) read it, what \<^verbatim>\<open>main\<close> then does, and the
  flags of lib/debug.cc.

  Both routines walk over the whole of \<^verbatim>\<open>argv\<close>, each with its own options. An argument is a C string without its terminator. \<open>stub\<close> says whether
  \<^verbatim>\<open>FILESYS_STUB\<close> is defined; \<^verbatim>\<open>atof\<close> is an argument, and \<open>clip\<close> is what \<^verbatim>\<open>atoi\<close> gives for a number that is too large.
\<close>

section \<open>Arguments\<close>

definition lit :: "string \<Rightarrow> byte list" where
  "lit = map of_char"

definition atoi :: "(int \<Rightarrow> int) \<Rightarrow> byte list \<Rightarrow> int" where
  "atoi clip s = (case sscanf_int clip s of None \<Rightarrow> 0 | Some v \<Rightarrow> v)"

record KernelOptions =
  randomSlice :: bool
  randomSeed :: "int option"        \<comment> \<open>the last argument of \<open>RandomInit\<close>\<close>
  debugUserProg :: bool
  consoleIn :: "byte list option"
  consoleOut :: "byte list option"
  formatFlag :: bool
  reliability :: rat
  k_hostName :: int

definition KernelOptions_default :: KernelOptions where
  "KernelOptions_default = \<lparr>randomSlice = False, randomSeed = None, debugUserProg = False, consoleIn = None, consoleOut = None,
     formatFlag = False, reliability = 1, k_hostName = 0\<rparr>"

definition next_arg :: "byte list list \<Rightarrow> (byte list \<Rightarrow> byte list list \<Rightarrow> 'a result) \<Rightarrow> 'a result" where
  \<comment> \<open>\<open>ASSERT(i + 1 < argc)\<close>, the use of \<open>argv[i + 1]\<close>, and \<open>i++\<close>\<close>
  "next_arg rest f = (case rest of [] \<Rightarrow> Inl AssertFailed | v # others \<Rightarrow> f v others)"

lemma next_arg_cong [fundef_cong]:
  assumes "rest = rest'" and "\<And>v others. rest' = v # others \<Longrightarrow> f v others = g v others"
  shows "next_arg rest f = next_arg rest' g"
  using assms by (auto simp: next_arg_def split: list.split)

fun Kernel_args :: "bool \<Rightarrow> (int \<Rightarrow> int) \<Rightarrow> (byte list \<Rightarrow> rat) \<Rightarrow> byte list list \<Rightarrow> KernelOptions \<Rightarrow> KernelOptions result" where
  "Kernel_args stub clip atof [] k = Inr k"
| "Kernel_args stub clip atof (arg # rest) k =
     (if arg = lit ''-rs'' then next_arg rest (\<lambda>v others. Kernel_args stub clip atof others (k\<lparr>randomSeed := Some (atoi clip v), randomSlice := True\<rparr>))
      else if arg = lit ''-s'' then Kernel_args stub clip atof rest (k\<lparr>debugUserProg := True\<rparr>)
      else if arg = lit ''-ci'' then next_arg rest (\<lambda>v others. Kernel_args stub clip atof others (k\<lparr>consoleIn := Some v\<rparr>))
      else if arg = lit ''-co'' then next_arg rest (\<lambda>v others. Kernel_args stub clip atof others (k\<lparr>consoleOut := Some v\<rparr>))
      else if \<not> stub \<and> arg = lit ''-f'' then Kernel_args stub clip atof rest (k\<lparr>formatFlag := True\<rparr>)
      else if arg = lit ''-n'' then next_arg rest (\<lambda>v others. Kernel_args stub clip atof others (k\<lparr>reliability := atof v\<rparr>))
      else if arg = lit ''-m'' then next_arg rest (\<lambda>v others. Kernel_args stub clip atof others (k\<lparr>k_hostName := atoi clip v\<rparr>))
      else Kernel_args stub clip atof rest k)"

definition Kernel_new :: "bool \<Rightarrow> (int \<Rightarrow> int) \<Rightarrow> (byte list \<Rightarrow> rat) \<Rightarrow> byte list list \<Rightarrow> KernelOptions result" where
  \<comment> \<open>\<open>argv[0]\<close> is the name of the program\<close>
  "Kernel_new stub clip atof argv = Kernel_args stub clip atof (tl argv) KernelOptions_default"

record MainOptions =
  debugArg :: "byte list"
  userProgName :: "byte list option"
  threadTestFlag :: bool
  consoleTestFlag :: bool
  networkTestFlag :: bool
  copyFileNames :: "(byte list \<times> byte list) option"
  printFileName :: "byte list option"
  removeFileName :: "byte list option"
  dirListFlag :: bool
  dumpFlag :: bool

definition MainOptions_default :: MainOptions where
  "MainOptions_default = \<lparr>debugArg = [], userProgName = None, threadTestFlag = False, consoleTestFlag = False, networkTestFlag = False,
     copyFileNames = None, printFileName = None, removeFileName = None, dirListFlag = False, dumpFlag = False\<rparr>"

definition next_args :: "byte list list \<Rightarrow> (byte list \<Rightarrow> byte list \<Rightarrow> byte list list \<Rightarrow> 'a result) \<Rightarrow> 'a result" where
  \<comment> \<open>the same with two arguments: \<open>ASSERT(i + 2 < argc)\<close>\<close>
  "next_args rest f = (case rest of v # w # others \<Rightarrow> f v w others | _ \<Rightarrow> Inl AssertFailed)"

lemma next_args_cong [fundef_cong]:
  assumes "rest = rest'" and "\<And>v w others. rest' = v # w # others \<Longrightarrow> f v w others = g v w others"
  shows "next_args rest f = next_args rest' g"
  using assms by (auto simp: next_args_def split: list.split)

fun main_args :: "bool \<Rightarrow> byte list list \<Rightarrow> MainOptions \<Rightarrow> MainOptions result" where
  "main_args stub [] m = Inr m"
| "main_args stub (arg # rest) m =
     (if arg = lit ''-d'' then next_arg rest (\<lambda>v others. main_args stub others (m\<lparr>debugArg := v\<rparr>))
      else if arg = lit ''-z'' then main_args stub rest m
      else if arg = lit ''-x'' then next_arg rest (\<lambda>v others. main_args stub others (m\<lparr>userProgName := Some v\<rparr>))
      else if arg = lit ''-K'' then main_args stub rest (m\<lparr>threadTestFlag := True\<rparr>)
      else if arg = lit ''-C'' then main_args stub rest (m\<lparr>consoleTestFlag := True\<rparr>)
      else if arg = lit ''-N'' then main_args stub rest (m\<lparr>networkTestFlag := True\<rparr>)
      else if \<not> stub \<and> arg = lit ''-cp'' then next_args rest (\<lambda>v w others. main_args stub others (m\<lparr>copyFileNames := Some (v, w)\<rparr>))
      else if \<not> stub \<and> arg = lit ''-p'' then next_arg rest (\<lambda>v others. main_args stub others (m\<lparr>printFileName := Some v\<rparr>))
      else if \<not> stub \<and> arg = lit ''-r'' then next_arg rest (\<lambda>v others. main_args stub others (m\<lparr>removeFileName := Some v\<rparr>))
      else if \<not> stub \<and> arg = lit ''-l'' then main_args stub rest (m\<lparr>dirListFlag := True\<rparr>)
      else if \<not> stub \<and> arg = lit ''-D'' then main_args stub rest (m\<lparr>dumpFlag := True\<rparr>)
      else main_args stub rest m)"

section \<open>What main does\<close>

datatype Job = ThreadSelfTest | ConsoleTest | NetworkTest | RemoveFile "byte list" | CopyFile "byte list" "byte list"
  | DumpFileSystem | ListDirectory | PrintFile "byte list" | RunProgram "byte list" | HaltMachine

definition when_set :: "bool \<Rightarrow> Job \<Rightarrow> Job list" where
  "when_set flag j = (if flag then [j] else [])"

definition when_named :: "(byte list \<Rightarrow> Job) \<Rightarrow> byte list option \<Rightarrow> Job list" where
  "when_named j name = (case name of None \<Rightarrow> [] | Some n \<Rightarrow> [j n])"

definition main_jobs :: "bool \<Rightarrow> MainOptions \<Rightarrow> Job list" where
  \<comment> \<open>\<open>Execute\<close> does not return\<close>
  "main_jobs stub m =
     when_set (threadTestFlag m) ThreadSelfTest @ when_set (consoleTestFlag m) ConsoleTest @ when_set (networkTestFlag m) NetworkTest @
     (if stub then [] else
        when_named RemoveFile (removeFileName m) @
        (case copyFileNames m of None \<Rightarrow> [] | Some (unix, nachos) \<Rightarrow> [CopyFile unix nachos]) @
        when_set (dumpFlag m) DumpFileSystem @ when_set (dirListFlag m) ListDirectory @ when_named PrintFile (printFileName m)) @
     (case userProgName m of Some n \<Rightarrow> [RunProgram n] | None \<Rightarrow> [HaltMachine])"

definition main :: "bool \<Rightarrow> (int \<Rightarrow> int) \<Rightarrow> (byte list \<Rightarrow> rat) \<Rightarrow> byte list list \<Rightarrow> (byte list \<times> KernelOptions \<times> Job list) result" where
  "main stub clip atof argv =
     bindE (main_args stub (tl argv) MainOptions_default) (\<lambda>m.
     bindE (Kernel_new stub clip atof argv) (\<lambda>k. Inr (debugArg m, k, main_jobs stub m)))"

definition IsEnabled :: "byte list option \<Rightarrow> byte \<Rightarrow> bool" where
  \<comment> \<open>\<open>strchr\<close> also finds the terminating zero\<close>
  "IsEnabled enableFlags flag = (case enableFlags of None \<Rightarrow> False | Some fs \<Rightarrow> flag \<in> set fs \<union> {0} \<or> 43 \<in> set fs)"

section \<open>Reading a command line\<close>

lemma lit_eq [simp]: "lit a = lit b \<longleftrightarrow> a = b"
proof -
  have "inj (of_char :: char \<Rightarrow> byte)"
  proof (rule injI)
    fix c d :: char
    assume "(of_char c :: byte) = of_char d"
    then have "unat (of_nat (of_char c) :: byte) = unat (of_nat (of_char d) :: byte)" by (simp add: of_nat_of_char)
    moreover have "(of_char x :: nat) < 256" for x :: char using nat_of_char_less_256 .
    ultimately show "c = d" by (simp add: unat_of_nat)
  qed
  then show ?thesis by (simp add: lit_def inj_map_eq_map)
qed

text \<open>A command line as the usage messages describe it: one \<open>Setting\<close> after the other.\<close>

datatype Setting = Seed "byte list" | SingleStep | ConsoleFrom "byte list" | ConsoleTo "byte list" | Format | Reliability "byte list" | HostName "byte list"
  | DebugFlags "byte list" | Copyright | Program "byte list" | TestThreads | TestConsole | TestNetwork
  | CopyIn "byte list" "byte list" | PrintOut "byte list" | RemoveOld "byte list" | ListAll | DumpAll | Usage

fun words_of :: "Setting \<Rightarrow> byte list list" where
  "words_of (Seed v) = [lit ''-rs'', v]"
| "words_of SingleStep = [lit ''-s'']"
| "words_of (ConsoleFrom v) = [lit ''-ci'', v]"
| "words_of (ConsoleTo v) = [lit ''-co'', v]"
| "words_of Format = [lit ''-f'']"
| "words_of (Reliability v) = [lit ''-n'', v]"
| "words_of (HostName v) = [lit ''-m'', v]"
| "words_of (DebugFlags v) = [lit ''-d'', v]"
| "words_of Copyright = [lit ''-z'']"
| "words_of (Program v) = [lit ''-x'', v]"
| "words_of TestThreads = [lit ''-K'']"
| "words_of TestConsole = [lit ''-C'']"
| "words_of TestNetwork = [lit ''-N'']"
| "words_of (CopyIn v w) = [lit ''-cp'', v, w]"
| "words_of (PrintOut v) = [lit ''-p'', v]"
| "words_of (RemoveOld v) = [lit ''-r'', v]"
| "words_of ListAll = [lit ''-l'']"
| "words_of DumpAll = [lit ''-D'']"
| "words_of Usage = [lit ''-u'']"

definition option_names :: "string list" where
  "option_names = [''-rs'', ''-s'', ''-ci'', ''-co'', ''-f'', ''-n'', ''-m'', ''-d'', ''-z'', ''-x'', ''-K'', ''-C'', ''-N'', ''-cp'', ''-p'', ''-r'', ''-l'', ''-D'', ''-u'']"

definition plain_values :: "Setting \<Rightarrow> bool" where
  "plain_values t \<longleftrightarrow> (\<forall>v \<in> set (tl (words_of t)). v \<notin> set (map lit option_names))"

fun for_kernel :: "bool \<Rightarrow> (int \<Rightarrow> int) \<Rightarrow> (byte list \<Rightarrow> rat) \<Rightarrow> Setting \<Rightarrow> KernelOptions \<Rightarrow> KernelOptions" where
  "for_kernel stub clip atof (Seed v) k = k\<lparr>randomSeed := Some (atoi clip v), randomSlice := True\<rparr>"
| "for_kernel stub clip atof SingleStep k = k\<lparr>debugUserProg := True\<rparr>"
| "for_kernel stub clip atof (ConsoleFrom v) k = k\<lparr>consoleIn := Some v\<rparr>"
| "for_kernel stub clip atof (ConsoleTo v) k = k\<lparr>consoleOut := Some v\<rparr>"
| "for_kernel stub clip atof Format k = (if stub then k else k\<lparr>formatFlag := True\<rparr>)"
| "for_kernel stub clip atof (Reliability v) k = k\<lparr>reliability := atof v\<rparr>"
| "for_kernel stub clip atof (HostName v) k = k\<lparr>k_hostName := atoi clip v\<rparr>"
| "for_kernel stub clip atof _ k = k"

fun for_main :: "bool \<Rightarrow> Setting \<Rightarrow> MainOptions \<Rightarrow> MainOptions" where
  "for_main stub (DebugFlags v) m = m\<lparr>debugArg := v\<rparr>"
| "for_main stub (Program v) m = m\<lparr>userProgName := Some v\<rparr>"
| "for_main stub TestThreads m = m\<lparr>threadTestFlag := True\<rparr>"
| "for_main stub TestConsole m = m\<lparr>consoleTestFlag := True\<rparr>"
| "for_main stub TestNetwork m = m\<lparr>networkTestFlag := True\<rparr>"
| "for_main stub (CopyIn v w) m = (if stub then m else m\<lparr>copyFileNames := Some (v, w)\<rparr>)"
| "for_main stub (PrintOut v) m = (if stub then m else m\<lparr>printFileName := Some v\<rparr>)"
| "for_main stub (RemoveOld v) m = (if stub then m else m\<lparr>removeFileName := Some v\<rparr>)"
| "for_main stub ListAll m = (if stub then m else m\<lparr>dirListFlag := True\<rparr>)"
| "for_main stub DumpAll m = (if stub then m else m\<lparr>dumpFlag := True\<rparr>)"
| "for_main stub _ m = m"

lemma Kernel_args_setting:
  "plain_values t \<Longrightarrow> Kernel_args stub clip atof (words_of t @ rest) k = Kernel_args stub clip atof rest (for_kernel stub clip atof t k)"
  by (cases t) (simp_all add: plain_values_def option_names_def next_arg_def)

lemma main_args_setting:
  "plain_values t \<Longrightarrow> main_args stub (words_of t @ rest) m = main_args stub rest (for_main stub t m)"
  by (cases t) (simp_all add: plain_values_def option_names_def next_arg_def next_args_def)



text \<open>Without that condition the readers get into each other's way: a program named \<^verbatim>\<open>-s\<close> turns on the debugger, and debug flags \<^verbatim>\<open>-n\<close> fail an assertion of the kernel.\<close>

lemma value_taken_for_option:
  "main stub clip atof [prog, lit ''-x'', lit ''-s''] = Inr ([], KernelOptions_default\<lparr>debugUserProg := True\<rparr>, [RunProgram (lit ''-s'')])"
  "main stub clip atof [prog, lit ''-d'', lit ''-n''] = Inl AssertFailed"
  by (simp_all add: main_def Kernel_new_def next_arg_def main_jobs_def when_set_def when_named_def MainOptions_default_def)

end
