(* ===== verification/File_Transfer.thy ===== *)
theory File_Transfer
  imports Disk_Spec Lists FileSys
begin

text \<open>
  Getting files into and out of the file system on the disk: \<^verbatim>\<open>Copy\<close> and \<^verbatim>\<open>Print\<close> of threads/main.cc, which \<^verbatim>\<open>nachos -cp\<close> and \<^verbatim>\<open>nachos -p\<close> run. The UNIX side is
  the host of \<open>FileSys\<close>; \<open>unix_file\<close> says of it that a descriptor reads a file of given contents, in pieces of any size.
\<close>

section \<open>The routines\<close>

abbreviation TransferSize :: int where "TransferSize \<equiv> 128"

definition asking :: "('h \<Rightarrow> 'a \<times> 'h) \<Rightarrow> 'h \<Rightarrow> ('a \<Rightarrow> bool) \<Rightarrow> ('a \<Rightarrow> 'h \<Rightarrow> 'b lres) \<Rightarrow> 'b lres" where
  \<comment> \<open>a call of the host, an assertion on its result, and the rest\<close>
  "asking f h ok go = (case f h of (x, h1) \<Rightarrow> assertL (ok x) (go x h1))"

partial_function (option) copy_loop :: "'h Unix \<Rightarrow> Raw \<Rightarrow> int \<Rightarrow> DiskFile \<Rightarrow> 'h \<Rightarrow> sectors \<Rightarrow> ('h \<times> sectors) lres" where
  "copy_loop u raw fd openFile h d = (case u_read u fd TransferSize h of ((amountRead, buffer), h1) \<Rightarrow>
     if amountRead > 0
     then bindL (Some (OpenFile_Write (raw_bytes raw) openFile buffer amountRead d)) (\<lambda>(_, openFile, d1). copy_loop u raw fd openFile h1 d1)
     else Some (Inr (h1, d)))"

definition Copy :: "'h Unix \<Rightarrow> Raw \<Rightarrow> byte list \<Rightarrow> byte list \<Rightarrow> DiskFS \<Rightarrow> 'h \<Rightarrow> sectors \<Rightarrow> ('h \<times> sectors) lres" where
  "Copy u raw source target fs h d =
     asking (u_open u source) h (\<lambda>_. True) (\<lambda>fd h1.
     if fd < 0 then retL (h1, d)
     else asking (u_lseek u fd 0 2) h1 (\<lambda>r. r \<ge> 0) (\<lambda>_ h2.
       asking (u_lseek u fd 0 1) h2 (\<lambda>_. True) (\<lambda>fileLength h3.
       asking (u_lseek u fd 0 0) h3 (\<lambda>r. r \<ge> 0) (\<lambda>_ h4.
       bindL (Some (DiskFS_Create raw target fileLength fs d)) (\<lambda>(created, d1).
         if \<not> created then asking (u_close u fd) h4 (\<lambda>r. r \<ge> 0) (\<lambda>_ h5. retL (h5, d1))
         else bindL (Some (DiskFS_Open raw target fs d1)) (\<lambda>openFile. case openFile of
             None \<Rightarrow> Some (Inl AssertFailed)
           | Some f \<Rightarrow> bindL (copy_loop u raw fd f h4 d1) (\<lambda>(h5, d2).
               asking (u_close u fd) h5 (\<lambda>r. r \<ge> 0) (\<lambda>_ h6. retL (h6, d2)))))))))"

partial_function (option) print_loop :: "Raw \<Rightarrow> DiskFile \<Rightarrow> sectors \<Rightarrow> byte list \<Rightarrow> (byte list) lres" where
  "print_loop raw openFile d out = bindL (Some (OpenFile_Read (raw_bytes raw) openFile TransferSize d)) (\<lambda>(amountRead, buffer, openFile).
     if amountRead > 0 then print_loop raw openFile d (out @ take (nat amountRead) buffer) else Some (Inr out))"

definition Print :: "Raw \<Rightarrow> byte list \<Rightarrow> DiskFS \<Rightarrow> sectors \<Rightarrow> (byte list option) lres" where
  \<comment> \<open>what is printed; \<open>None\<close> is the message that the file cannot be opened\<close>
  "Print raw name fs d = bindL (Some (DiskFS_Open raw name fs d)) (\<lambda>openFile. case openFile of
       None \<Rightarrow> retL None
     | Some f \<Rightarrow> bindL (print_loop raw f d []) (\<lambda>out. retL (Some out)))"

section \<open>The host\<close>

definition unix_file :: "'h Unix \<Rightarrow> byte list \<Rightarrow> int \<Rightarrow> byte list \<Rightarrow> (nat \<Rightarrow> 'h \<Rightarrow> bool) \<Rightarrow> 'h \<Rightarrow> bool" where
  \<comment> \<open>\<open>source\<close> can be opened as \<open>fd\<close> and holds \<open>c\<close>; \<open>offset p h\<close> is that the descriptor's offset is \<open>p\<close>\<close>
  "unix_file u source fd c offset h0 \<longleftrightarrow>
     0 \<le> fd \<and> (\<exists>h. u_open u source h0 = (fd, h) \<and> offset 0 h) \<and>
     (\<forall>p h. offset p h \<longrightarrow>
        (\<exists>h'. u_lseek u fd 0 2 h = (int (length c), h') \<and> offset (length c) h') \<and>
        (\<exists>h'. u_lseek u fd 0 1 h = (int p, h') \<and> offset p h') \<and>
        (\<exists>h'. u_lseek u fd 0 0 h = (0, h') \<and> offset 0 h') \<and>
        (\<exists>k h'. u_read u fd TransferSize h = ((int k, take k (drop p c)), h') \<and> k \<le> 128 \<and> k \<le> length c - p \<and> (k = 0 \<longrightarrow> length c \<le> p) \<and> offset (p + k) h') \<and>
        0 \<le> fst (u_close u fd h))"

section \<open>Loops\<close>

lemma file_small: "file_ok f d \<Longrightarrow> length (contents (hdr f) d) \<le> 3840"
  by (simp add: file_ok_def file_blocks_ok(3)) (auto simp: header_ok_def)

lemma take_rest: "take n (drop p c) @ drop (p + length (take n (drop p c))) c = drop p c"
proof -
  have "drop (p + length (take n (drop p c))) c = drop n (drop p c)" by (cases "n \<le> length c - p") (auto simp: add.commute)
  then show ?thesis by (simp only: append_take_drop_id)
qed

lemma print_loop_ends:
  assumes "file_ok f d" and "seekPosition f = int p" and "p \<le> length (contents (hdr f) d)"
  shows "print_loop raw f d out = Some (Inr (out @ drop p (contents (hdr f) d)))"
  using assms
proof (induction "length (contents (hdr f) d) - p" arbitrary: p f out rule: less_induct)
  case less
  let ?c = "contents (hdr f) d" and ?b = "part TransferSize (int p) (contents (hdr f) d)"
  have "int p + TransferSize < 2 ^ 31"
    using file_small [OF less.prems(1)] less.prems(3) by simp
  then have r: "OpenFile_Read (raw_bytes raw) f TransferSize d = Inr (int (length ?b), ?b, f\<lparr>seekPosition := int (p + length ?b)\<rparr>)"
    using disk_file.read_law [OF less.prems(1), of "int p" TransferSize "raw_bytes raw"] less.prems(2) by (simp add: OpenFile_Read_def)
  have b: "?b = take 128 (drop p ?c)" by (simp add: part_def)
  show ?case
  proof (cases "p = length ?c")
    case True
    then show ?thesis using r b by (subst print_loop.simps) simp
  next
    case False
    then have l: "p < p + length ?b" "p + length ?b \<le> length ?c" using less.prems(3) b by auto
    have "print_loop raw (f\<lparr>seekPosition := int (p + length ?b)\<rparr>) d (out @ ?b) = Some (Inr ((out @ ?b) @ drop (p + length ?b) ?c))"
      using less.hyps [where f = "f\<lparr>seekPosition := int (p + length ?b)\<rparr>" and p = "p + length ?b" and out = "out @ ?b"] less.prems(1) l
        diff_less_mono2 [OF l(1) less_le_trans [OF l]] by (simp add: file_ok_def)
    moreover have "?b @ drop (p + length ?b) ?c = drop p ?c" unfolding b by (rule take_rest)
    ultimately show ?thesis using r l(1) by (subst print_loop.simps) simp
  qed
qed

lemma unix_fileD:
  assumes "unix_file u source fd c offset h0"
  shows "0 \<le> fd" "\<exists>h. u_open u source h0 = (fd, h) \<and> offset 0 h"
    "offset p h \<Longrightarrow> \<exists>h'. u_lseek u fd 0 2 h = (int (length c), h') \<and> offset (length c) h'"
    "offset p h \<Longrightarrow> \<exists>h'. u_lseek u fd 0 1 h = (int p, h') \<and> offset p h'"
    "offset p h \<Longrightarrow> \<exists>h'. u_lseek u fd 0 0 h = (0, h') \<and> offset 0 h'"
    "offset p h \<Longrightarrow> \<exists>k h'. u_read u fd TransferSize h = ((int k, take k (drop p c)), h') \<and> k \<le> length c - p \<and>
       (k = 0 \<longrightarrow> length c \<le> p) \<and> offset (p + k) h'"
    "offset p h \<Longrightarrow> 0 \<le> fst (u_close u fd h)"
  using assms unfolding unix_file_def by blast+

lemma copy_loop_ends:
  assumes "unix_file u source fd c offset h0" and "fs_ok fs d" and "is_open fs d k f" and "seekPosition f = int p" and "offset p h"
    and "contents (hdr f) d = take p c @ rest" and "length (contents (hdr f) d) = length c" and "p \<le> length c"
  shows "\<exists>h' d'. copy_loop u raw fd f h d = Some (Inr (h', d')) \<and> offset (length c) h' \<and> fs_ok fs d' \<and> files fs d' = (files fs d)(k \<mapsto> c)"
  using assms(2-)
proof (induction "length c - p" arbitrary: p f h d rest rule: less_induct)
  case less
  let ?c = "contents (hdr f) d"
  obtain n h1 where r: "u_read u fd TransferSize h = ((int n, take n (drop p c)), h1)" "n \<le> length c - p" "n = 0 \<longrightarrow> length c \<le> p" "offset (p + n) h1"
    using unix_fileD(6) [OF assms(1) less.prems(4)] by blast
  note o = is_open_files [OF less.prems(1,2)]
  show ?case
  proof (cases "n = 0")
    case True
    then have "p = length c" using r(3) less.prems(7) by simp
    then have "?c = c" using less.prems(5,6) by simp
    then have "files fs d k = Some c" using o(1) by simp
    then have "files fs d = (files fs d)(k \<mapsto> c)" by auto
    then show ?thesis using r \<open>p = length c\<close> True less.prems(1) by (subst copy_loop.simps) auto
  next
    case False
    let ?src = "take n (drop p c)"
    have len: "length ?src = n" using r(2) by simp
    have pos: "int p + int n < 2 ^ 31" using file_small [OF o(2)] less.prems(6,7) r(2) by simp
    have m: "length (part (int n) (int p) ?c) = n" using less.prems(6) r(2) by (simp add: part_def)
    obtain d1 where w: "OpenFile_WriteAt (raw_bytes raw) f ?src (int n) (int p) d = Inr (int n, d1)" "fs_ok fs d1" "is_open fs d1 k f"
      "files fs d1 = (files fs d)(k \<mapsto> over ?c p ?src)"
      using WriteAt_files [OF less.prems(1,2), where position = "int p" and n = "int n" and src = ?src and memory = "raw_bytes raw"] pos len m r(2) by auto
    let ?f = "f\<lparr>seekPosition := int (p + n)\<rparr>"
    have "contents (hdr f) d1 = over ?c p ?src" using w(4) is_open_files(1) [OF w(2,3)] by simp
    moreover have "over ?c p ?src = take (p + n) c @ drop n rest"
      using less.prems(5-7) r(2) len by (simp add: over_def take_add)
    ultimately have c1: "contents (hdr ?f) d1 = take (p + n) c @ drop n rest" by simp
    have "length rest = length c - p" using less.prems(5-7) by (metis add_diff_cancel_left' length_append length_take min.absorb2)
    then have l1: "length (contents (hdr ?f) d1) = length c" using c1 r(2) less.prems(7) by simp
    have "\<exists>h' d'. copy_loop u raw fd ?f h1 d1 = Some (Inr (h', d')) \<and> offset (length c) h' \<and> fs_ok fs d' \<and> files fs d' = (files fs d1)(k \<mapsto> c)"
      by (rule less.hyps [OF _ w(2) _ _ r(4) c1 l1]) (use w(3) False r(2) less.prems(7) in \<open>auto simp: is_open_def\<close>)
    moreover have "OpenFile_Write (raw_bytes raw) f ?src (int n) d = Inr (int n, ?f, d1)"
      using w(1) less.prems(3) by (simp add: OpenFile_Write_def)
    ultimately show ?thesis using r(1) False w(4) by (subst copy_loop.simps) auto
  qed
qed

lemma Print_prints:
  assumes "fs_ok fs d" and "raw_ok raw"
  shows "Print raw name fs d = Some (Inr (files fs d (key name)))"
proof (cases "key name \<in> dom (files fs d)")
  case True
  then obtain f where f: "DiskFS_Open raw name fs d = Inr (Some f)" "seekPosition f = 0" "is_open fs d (key name) f"
    using Open_ok [OF assms, of name] by auto
  note o = is_open_files [OF assms(1) f(3)]
  have "print_loop raw f d [] = Some (Inr (contents (hdr f) d))" using print_loop_ends [OF o(2), of 0 raw "[]"] f(2) by simp
  then show ?thesis using f(1) o(1) by (simp add: Print_def retL_def)
next
  case False
  then have "DiskFS_Open raw name fs d = Inr None" "files fs d (key name) = None" using Open_ok [OF assms, of name] by (auto simp: domIff)
  then show ?thesis by (simp add: Print_def retL_def)
qed

section \<open>Properties\<close>

text \<open>C39. A UNIX file that \<^verbatim>\<open>Copy\<close> brings onto the disk is the file that \<^verbatim>\<open>Print\<close> shows. Let the UNIX file hold at most 3840 bytes, the size of the largest
  Nachos file, and be read in whatever pieces the host likes. If the target's name is new and there is room in the directory, \<open>Copy\<close> ends, the
  target holds exactly the bytes of the source, every other file is as it was, the invariant of the disk holds, and \<open>Print\<close> prints those bytes. Otherwise the disk is unchanged.\<close>
theorem copy_print_round_trip:
  assumes "unix_file u source fd c offset h" and "fs_ok fs d" and "raw_ok raw" and "length c \<le> 3840"
  shows "\<exists>h' d'. Copy u raw source target fs h d = Some (Inr (h', d')) \<and> fs_ok fs d' \<and>
    (if key target \<notin> dom (files fs d) \<and> card (dom (files fs d)) < 10
     then files fs d' = (files fs d)(key target \<mapsto> c) \<and> Print raw target fs d' = Some (Inr (Some c))
     else d' = d)"
proof -
  note u = unix_fileD [OF assms(1)]
  obtain h1 h2 h3 h4 where h: "u_open u source h = (fd, h1)" "u_lseek u fd 0 2 h1 = (int (length c), h2)"
    "u_lseek u fd 0 1 h2 = (int (length c), h3)" "u_lseek u fd 0 0 h3 = (0, h4)" "offset 0 h4"
    using u(2) u(3) u(4) u(5) by metis
  have size: "0 \<le> int (length c)" "int (length c) \<le> MaxFileSize" using assms(4) by simp_all
  then have ok: "call_ok (CallCreate target (int (length c)))" by simp
  obtain created d1 where cr: "DiskFS_Create raw target (int (length c)) fs d = Inr (created, d1)" "fs_ok fs d1"
    "created \<longleftrightarrow> key target \<notin> dom (files fs d) \<and> card (dom (files fs d)) < 10 \<and> divRoundUp (int (length c)) SectorSize < free_sectors fs d"
    "if created then \<exists>c0. length c0 = length c \<and> files fs d1 = (files fs d)(key target \<mapsto> c0) else d1 = d"
    using Create_ok [OF assms(2,3) size, of target] unfolding nat_int by blast
  have new: "created \<longleftrightarrow> key target \<notin> dom (files fs d) \<and> card (dom (files fs d)) < 10"
  proof -
    have "answers (CallCreate target (int (length c))) (Flag created) (files fs d) (files fs d1)"
      using cr(1) do_call_ok [OF assms(2,3) ok] by (auto simp del: answers.simps)
    then show ?thesis unfolding answers.simps(1) by (metis FsAnswer.inject(1))
  qed
  show ?thesis
  proof (cases created)
    case False
    then show ?thesis
      using h cr(1,2,4) u(1) u(7) [OF h(5)] new by (auto simp: Copy_def asking_def retL_def split: prod.split)
  next
    case True
    then obtain c0 where c0: "length c0 = length c" "files fs d1 = (files fs d)(key target \<mapsto> c0)" using cr(4) by auto
    then obtain f where f: "DiskFS_Open raw target fs d1 = Inr (Some f)" "seekPosition f = 0" "is_open fs d1 (key target) f"
      using Open_ok [OF cr(2) assms(3), of target] by auto
    have "contents (hdr f) d1 = c0" using is_open_files(1) [OF cr(2) f(3)] c0(2) by simp
    then obtain h5 d2 where l: "copy_loop u raw fd f h4 d1 = Some (Inr (h5, d2))" "offset (length c) h5" "fs_ok fs d2"
      "files fs d2 = (files fs d1)(key target \<mapsto> c)"
      using copy_loop_ends [OF assms(1) cr(2) f(3), of 0 h4 c0 raw] f(2) h(5) c0(1) by auto
    have "Copy u raw source target fs h d = Some (Inr (snd (u_close u fd h5), d2))"
      using h cr(1) True f(1) l(1) u(1) u(7) [OF l(2)] by (auto simp: Copy_def asking_def retL_def split: prod.split)
    moreover have "files fs d2 = (files fs d)(key target \<mapsto> c)" using l(4) c0(2) by simp
    ultimately show ?thesis using l(3) True new Print_prints [OF l(3) assms(3), of target] by auto
  qed
qed

definition host_abc :: "nat Unix" where
  \<comment> \<open>a host with one file, the bytes 97, 98, 99, as descriptor 3, whose state is the offset; it gives out one byte at a time\<close>
  "host_abc = \<lparr>u_creat = \<lambda>_ h. (-1, h), u_open = \<lambda>_ h. (3, 0), u_close = \<lambda>_ h. (0, h),
     u_read = \<lambda>_ _ h. if h < 3 then ((1, [of_nat (97 + h)]), h + 1) else ((0, []), h),
     u_write = \<lambda>_ _ _ h. (-1, h), u_lseek = \<lambda>_ _ w h. if w = 2 then (3, 3) else if w = 1 then (int h, h) else (0, 0),
     u_unlink = \<lambda>_ h. (-1, h), u_socket = \<lambda>h. (-1, h), u_connect = \<lambda>_ _ _ h. (-1, h)\<rparr>"

lemma host_abc_calls:
  "u_open host_abc nm h = (3, 0)" "u_close host_abc fd h = (0, h)" "u_lseek host_abc fd x 2 h = (3, 3)"
  "u_lseek host_abc fd x 1 h = (int h, h)" "u_lseek host_abc fd x 0 h = (0, 0)"
  by (simp_all add: host_abc_def)

lemma host_abc_file: "unix_file host_abc [120] 3 [97, 98, 99] (\<lambda>p h. p = h \<and> p \<le> 3) h"
proof -
  have "\<exists>k h'. u_read host_abc 3 TransferSize p = ((int k, take k (drop p [97, 98, 99])), h') \<and> k \<le> 128 \<and>
      k \<le> length [97 :: byte, 98, 99] - p \<and> (k = 0 \<longrightarrow> length [97 :: byte, 98, 99] \<le> p) \<and> p + k = h' \<and> p + k \<le> 3" if "p \<le> 3" for p
  proof (cases "p = 3")
    case True
    then show ?thesis by (auto simp: host_abc_def)
  next
    case False
    with that have "p = 0 \<or> p = 1 \<or> p = 2" by auto
    then show ?thesis by (intro exI [of _ 1] exI [of _ "p + 1"]) (auto simp: host_abc_def)
  qed
  then show ?thesis by (auto simp: unix_file_def host_abc_calls)
qed

theorem copy_print_round_trip_witness:
  "\<exists>fs d h' d'. DiskFS_new raw0 True blank = Inr (fs, d) \<and> Copy host_abc raw0 [120] [97] fs 0 d = Some (Inr (h', d')) \<and>
     Print raw0 [97] fs d' = Some (Inr (Some [97, 98, 99]))"
proof -
  obtain fs d where f: "DiskFS_new raw0 True blank = Inr (fs, d)" "fs_ok fs d" "files fs d = Map.empty"
    using format_ok [OF blank_ok] by blast
  then show ?thesis using copy_print_round_trip [OF host_abc_file f(2) blank_ok(2), where h = 0 and target = "[97]"] by auto
qed

end
