(* ===== verification/Spec2Isabelle.thy ===== *)
theory Spec2Isabelle
  imports Threads User_Process Process_Join Semaphore_Table Lists Disk_Timing Disk_Wait Disk_Spec Hash_Table Post_Office Shutdown Command_Line File_Transfer
begin

text \<open>
  A verification of the Nachos kernel with the process, semaphore, file and socket system calls of
  this repository (\<^verbatim>\<open>lib\<close>, \<^verbatim>\<open>machine\<close>, \<^verbatim>\<open>threads\<close>, \<^verbatim>\<open>userprog\<close>, \<^verbatim>\<open>filesys\<close> and \<^verbatim>\<open>network\<close> under
  \<^verbatim>\<open>21127047_21127183_21127638_Source\<close>), as it is built for Linux: 32 bit, little endian, no TLB. The
  build uses the stub file system over UNIX; the file system on the simulated disk, which the same
  sources hold behind \<^verbatim>\<open>FILESYS_STUB\<close>, is modelled beside it.

  \<^bold>\<open>The program.\<close> A simulated MIPS machine executes user programs; an exception of the machine
  (a system call, a page fault) enters the kernel through \<^verbatim>\<open>ExceptionHandler\<close>. The kernel copies
  arguments out of user memory, works on the tables of open files, processes and named semaphores,
  and returns to the program with the result in register 2. Processes are kernel threads with an
  address space; threads are switched by a scheduler and wait in semaphores. Simulated devices (timer,
  console, disk, network) put interrupts into a queue ordered by simulated time; the clock fires them,
  and their handlers wake the threads that wait in the drivers.

  \<^bold>\<open>The theories\<close>, from the bottom. The library:

  \<^item> \<open>Prelude\<close>: faults as a sum type (\<^verbatim>\<open>ASSERT\<close>, wild accesses, failed allocation, the host's division
    trap), C arrays as lists with checked access, \<^verbatim>\<open>for\<close> loops and searches, C division.
  \<^item> \<open>Bitmap\<close> (lib/bitmap.cc): the bitmap as an array of words, refined to a set of numbers. The locale
    \<open>slot_allocator\<close> is the contract of \<open>FindAndSet\<close>; it is interpreted on the bitmap.
  \<^item> \<open>Lists\<close> (lib/list.cc): plain and sorted lists as cells of a heap with \<open>first\<close> and \<open>last\<close> pointers,
    refined to HOL lists, with the self test. The locale \<open>list_kind\<close> is what the self test relies on,
    \<open>ordering_function\<close> what a sorted list asks of its comparison.
  \<^item> \<open>Hash_Table\<close> (lib/hash.cc, libtest.cc): tables that grow, buckets as lists of \<open>Lists\<close>, refined to
    finite maps. The locale \<open>keyed_table\<close> is the contract; \<open>hash_table\<close> its interpretation, from which
    follows that \<open>LibSelfTest\<close> runs through.

  The processor and its address spaces:

  \<^item> \<open>Machine\<close> (machine/machine.cc, translate.cc): registers as a function to 32-bit words, main memory
    as a function to bytes, the page table as a list of entries; \<open>ReadMem\<close>, \<open>WriteMem\<close>, \<open>Translate\<close>,
    \<open>RaiseException\<close>. A memory access is \<open>Done v m\<close> or \<open>Trap exc m\<close>.
  \<^item> \<open>Mips_Decode\<close>, \<open>Mips_Exec\<close> (machine/mipssim.cc): decoding and all 63 opcodes of \<open>OneInstruction\<close>;
    \<open>Mips_Semantics\<close>: what overflow traps, unaligned loads and delay slots mean to a program.
  \<^item> \<open>User_Mode\<close>: what user code can do to the machine. The locale \<open>user_mode\<close> says what one step of
    a processor promises and proves it of any number of steps (\<open>burst\<close>); it is interpreted on
    \<open>OneInstruction\<close>.
  \<^item> \<open>AddrSpace\<close> (userprog/addrspace.cc): creating an address space from an executable, destroying
    it, starting a program; the frames are allocated from the bitmap through the locale's facts.

  Threads and what is built on semaphores:

  \<^item> \<open>Threads\<close> (threads/thread.cc, scheduler.cc, synch.cc): threads in a heap, ready list, semaphores
    with their queues, as a transition system whose steps are the stretches between two points at
    which a thread can lose the processor.
  \<^item> \<open>Processes\<close> (userprog/PCB.cc, Ptable.cc, STable.cc, Sem.cc): the code of the process and
    semaphore tables as trees with a node at every \<open>P\<close> and \<open>V\<close>, run by the step relation \<open>pstep\<close> in
    any interleaving. \<open>Process_Table\<close> (invariant, \<open>Exec\<close>), \<open>Process_Join\<close> (the rendezvous of \<open>Join\<close>
    and \<open>Exit\<close>) and \<open>Semaphore_Table\<close> (refinement to a map) prove what they promise; the locale
    \<open>segment_relation\<close> carries a relation through all stretches of a call.
  \<^item> \<open>Monitors\<close> (threads/synch.cc, synchlist.cc): locks, condition variables and the synchronised list,
    as the same kind of trees, run by \<open>mstep\<close>. \<open>SynchList_Safety\<close>: the invariant of the lock and of
    the waiters, that every interleaving of appends and removals is one of an atomic queue, and that
    no wake-up is lost.
  \<^item> \<open>Drivers\<close> (filesys/synchdisk.cc, userprog/synchconsole.cc): lock, request, wait for the
    interrupt, unlock. The locale \<open>request_device\<close> says what a driver relies on in its device, and its
    lemmas that requests are served one at a time; it is interpreted as \<open>synch_disk\<close>, \<open>synch_console\<close> and,
    in the next theory, \<open>post_office\<close>. The keyboard's half is treated for one reader.
  \<^item> \<open>Post_Office\<close> (network/post.cc): mail headers, mailboxes, sending and the delivery loop, and that
    mail arrives as it was sent.

  Interrupts and devices:

  \<^item> \<open>Interrupts\<close> (machine/interrupt.cc, stats.cc): the machine with its devices, the pending queue as
    the sorted list of \<open>Lists\<close>. \<open>Devices\<close> (machine/timer.cc, console.cc, disk.cc, network.cc,
    threads/alarm.cc and the callbacks of the drivers): requests and interrupt handlers.
  \<^item> \<open>Handlers\<close>: what a handler promises, the locale \<open>interrupt_handlers\<close>, and the invariant \<open>sys_ok\<close>.
    \<open>Ticks\<close> proves inside the locale what \<open>OneTick\<close>, \<open>Idle\<close> and \<open>CheckIfDue\<close> promise;
    \<open>Device_System\<close> interprets it on the devices (\<open>devices\<close>) and shows that requests and time keep the invariant.
  \<^item> \<open>Disk_Timing\<close>: seek, rotation and track buffer of \<^verbatim>\<open>Disk::ComputeLatency\<close>. \<open>Disk_Wait\<close>: the loop of
    \<^verbatim>\<open>Thread::Sleep\<close> idles until the request is done (interpretation \<open>disk_waiters\<close>).
  \<^item> \<open>Packets\<close>: what is put on the wire is what is taken off it.
  \<^item> \<open>Machine_Run\<close> (machine/mipssim.cc, machine.cc): the loop of \<^verbatim>\<open>Machine::Run\<close>, processor, clock and
    debugger together, and that the kernel is back in control within a time slice.
  \<^item> \<open>Shutdown\<close> (machine/interrupt.cc, threads/kernel.cc and the destructors of the devices): \<open>Halt\<close> and
    what the host sees of it.

  The file systems and the system calls:

  \<^item> \<open>FileSys\<close> (filesys/filesys.h, openfile.h, lib/sysdep.cc): the stub file system over UNIX, which
    is a parameter, a record of functions on an abstract host state. No property assumes anything
    about these functions that is not in its statement.
  \<^item> \<open>Exception\<close> (userprog/exception.cc): \<open>User2System\<close>, \<open>System2User\<close>, one definition per system call,
    \<open>ExceptionHandler\<close>. \<open>Syscall_Contract\<close> proves the contract every call keeps with the user program,
    by the locale \<open>effect_contract\<close> that composes contracts along the calls; \<open>User_Buffers\<close> what is
    copied and printed and that the handler ends; \<open>Console\<close> what \<open>PrintInt\<close> prints; \<open>File_Table\<close> the
    invariant of the open-file table (a second interpretation of \<open>effect_contract\<close>) and the calls
    that change it.
  \<^item> \<open>User_Process\<close>: user programs and the kernel together, legs of execution \<open>urun\<close>, and confinement of
    a program over any run.
  \<^item> \<open>Byte_Layout\<close>: integers and arrays as bytes, \<^verbatim>\<open>bcopy\<close> with checked bounds. \<open>Disk_File\<close>
    (filesys/filehdr.cc, openfile.cc): headers and open files, with the locale \<open>byte_file\<close> and its
    interpretation \<open>disk_file\<close>. \<open>Disk_Directory\<close> (filesys/pbitmap.cc, directory.cc), \<open>Disk_FileSys\<close>
    (filesys/filesys.cc): the invariant of the disk and the operations. \<open>Disk_Spec\<close>: a formatted disk
    refines a map from names to bytes under every sequence of calls. \<open>File_Transfer\<close> (threads/main.cc):
    copying a UNIX file onto the disk and printing it.
  \<^item> \<open>Command_Line\<close> (threads/kernel.cc, main.cc, lib/debug.cc): how the two readers of the command line
    understand it, and what \<^verbatim>\<open>main\<close> then does.

  \<^bold>\<open>Bounds and fuel.\<close> Integers of the code are 32-bit words wherever the code can wrap. Most loops are
  structural or counting and total. The instruction loop is cut into bursts of arbitrary length, and \<open>Run\<close> takes the
  number of instructions as an argument: a time slice's worth is enough for the kernel to be entered. The loops
  whose end depends on the state are partial functions that are proved to end under the invariant of
  their component: the console loop of \<open>Write\<close> for every program whose page table fits main memory, the
  walks along a list or a bucket, the loops that fire interrupts and that let time pass, the loops of
  \<open>Copy\<close> and \<open>Print\<close>, and the loop of \<open>Sleep\<close>. Statements about interleaved threads quantify over all finite sequences of steps.

  \<^bold>\<open>Parameters.\<close> The host's files and sockets (\<open>Unix\<close>); the host behind the devices (\<open>DevUnix\<close>), with
  what is asked of it in \<open>host_ok\<close> and \<open>host_contract\<close>; the file an address space is loaded from;
  the contents of memory that C++ leaves uninitialised; the functions \<open>getKey\<close> and \<open>hash\<close>
  of a hash table and the comparison of a sorted list; what the operator types at the debugger, \<^verbatim>\<open>atof\<close>, and what \<^verbatim>\<open>sscanf\<close>
  stores for a number that is too large; how the constructor of the address space ends for a
  file name, in \<open>pstep\<close>.

  \<^bold>\<open>Not modelled\<close>, and why. The context switch and the host stacks are assembly; a switch is a change of
  the current thread. The \<^verbatim>\<open>Print\<close> and \<^verbatim>\<open>DumpState\<close> routines and the
  \<^verbatim>\<open>DEBUG\<close> traces only talk to the operator. Of the self tests those of the
  bitmap, the lists and the hash tables are modelled. Destructors that do no more than free memory are left out.
  For the file system on the disk, \<^verbatim>\<open>ReadSector\<close> and \<^verbatim>\<open>WriteSector\<close> are completed requests, as the drivers
  deliver them. In \<open>Threads\<close> and \<open>Processes\<close> a timer interrupt is a \<open>Yield\<close> of the running thread, and in
  the system calls the console is two lists of characters.
\<close>

end
